(* ===== verification/Prelude.thy ===== *)
theory Prelude
  imports Complex_Main "HOL-Library.Sublist" "HOL-Library.Option_ord" "HOL-Library.Char_ord"
    "HOL-Library.List_Lexorder"
begin

text \<open>
  Shared vocabulary of the development: time stamps, database tables and their conditional
  writes, Python results that may raise, and a transition-system interface.

  A table is the list of its rows. A statement \<open>UPDATE t SET f WHERE P\<close> is \<open>update_where P f\<close>,
  its \<open>rowcount\<close> is \<open>rowcount P\<close>, a \<open>DELETE ... WHERE P\<close> is \<open>delete_where P\<close>. A nullable column
  is an \<open>option\<close>; a comparison with NULL is never true, so \<open>col = ?\<close> is \<open>col r = Some v\<close>.
  Time stamps are integers (microseconds since the epoch): the code stores
  \<open>datetime.now(UTC).isoformat()\<close>, whose textual order is the chronological one.
  Finite Python floats are rationals.
\<close>

type_synonym time = int
type_synonym num = rat

named_theorems table_simps \<open>how lookups and counts see a conditional write\<close>

section \<open>Tables\<close>

definition update_where :: "('r \<Rightarrow> bool) \<Rightarrow> ('r \<Rightarrow> 'r) \<Rightarrow> 'r list \<Rightarrow> 'r list" where
  "update_where P f t = map (\<lambda>r. if P r then f r else r) t"

definition rowcount :: "('r \<Rightarrow> bool) \<Rightarrow> 'r list \<Rightarrow> nat" where
  "rowcount P t = length (filter P t)"

definition delete_where :: "('r \<Rightarrow> bool) \<Rightarrow> 'r list \<Rightarrow> 'r list" where
  "delete_where P t = filter (\<lambda>r. \<not> P r) t"

definition find_row :: "('r \<Rightarrow> 'k) \<Rightarrow> 'r list \<Rightarrow> 'k \<Rightarrow> 'r option" where
  "find_row key t k = find (\<lambda>r. key r = k) t"

definition keys_distinct :: "('r \<Rightarrow> 'k) \<Rightarrow> 'r list \<Rightarrow> bool" where
  "keys_distinct key t \<longleftrightarrow> distinct (map key t)"

lemma set_update_where:
  "set (update_where P f t) = (\<lambda>r. if P r then f r else r) ` set t"
  by (simp add: update_where_def)

lemma length_update_where [simp]: "length (update_where P f t) = length t"
  by (simp add: update_where_def)

lemma update_where_none: "(\<And>r. r \<in> set t \<Longrightarrow> \<not> P r) \<Longrightarrow> update_where P f t = t"
  by (auto simp: update_where_def intro: map_idI)

lemma rowcount_pos [table_simps]: "0 < rowcount P t \<longleftrightarrow> (\<exists>r\<in>set t. P r)"
  by (auto simp: rowcount_def filter_empty_conv)

lemma rowcount_zero [table_simps]: "rowcount P t = 0 \<longleftrightarrow> (\<forall>r\<in>set t. \<not> P r)"
  by (auto simp: rowcount_def filter_empty_conv)

lemma set_delete_where [simp]: "set (delete_where P t) = {r \<in> set t. \<not> P r}"
  by (auto simp: delete_where_def)

lemma map_key_update_where [simp]:
  "(\<And>r. key (f r) = key r) \<Longrightarrow> map key (update_where P f t) = map key t"
  by (simp add: update_where_def comp_def)

lemma find_row_Some_iff:
  "keys_distinct key t \<Longrightarrow> find_row key t k = Some r \<longleftrightarrow> r \<in> set t \<and> key r = k"
  by (induction t) (auto simp: find_row_def keys_distinct_def)

lemma find_row_SomeD: "find_row key t k = Some r \<Longrightarrow> r \<in> set t \<and> key r = k"
  by (induction t) (auto simp: find_row_def split: if_splits)

lemma find_row_None_iff: "find_row key t k = None \<longleftrightarrow> k \<notin> key ` set t"
  by (auto simp: find_row_def find_None_iff)

lemma find_filter: "find P t = (case filter P t of [] \<Rightarrow> None | r # _ \<Rightarrow> Some r)"
  by (induction t) auto

lemma find_row_append_Some: "find_row key t k = Some r \<Longrightarrow> find_row key (t @ u) k = Some r"
  by (induction t) (auto simp: find_row_def split: if_splits)

lemma find_row_update_where:
  assumes "\<And>r. P r \<Longrightarrow> key (f r) = key r"
  shows "find_row key (update_where P f t) k
       = map_option (\<lambda>r. if P r then f r else r) (find_row key t k)"
  using assms by (induction t) (auto simp: find_row_def update_where_def)

subsection \<open>The interface of a table keyed by its primary key\<close>

text \<open>
  What the repositories rely on of a table with a primary key: a row is found under its key,
  and a conditional write that leaves keys alone is seen by a lookup as that write on the row
  found. Every repository interprets this locale with its own key and getter.
\<close>

locale keyed_table =
  fixes key :: "'r \<Rightarrow> 'k"
    and get :: "'r list \<Rightarrow> 'k \<Rightarrow> 'r option"
    and upd :: "('r \<Rightarrow> bool) \<Rightarrow> ('r \<Rightarrow> 'r) \<Rightarrow> 'r list \<Rightarrow> 'r list"
  assumes get_key: "get t k = Some r \<Longrightarrow> key r = k \<and> r \<in> set t"
    and get_complete: "distinct (map key t) \<Longrightarrow> r \<in> set t \<Longrightarrow> get t (key r) = Some r"
    and get_upd: "(\<And>r. key (f r) = key r) \<Longrightarrow>
          get (upd P f t) k = map_option (\<lambda>r. if P r then f r else r) (get t k)"
    and keys_upd: "(\<And>r. key (f r) = key r) \<Longrightarrow> map key (upd P f t) = map key t"
begin

lemma upd_other:
  assumes "\<And>r. key (f r) = key r" and "\<And>r. P r \<Longrightarrow> key r = k" and "k' \<noteq> k"
  shows "get (upd P f t) k' = get t k'"
proof (cases "get t k'")
  case None
  then show ?thesis by (simp add: get_upd assms(1))
next
  case (Some r)
  with get_key have "key r = k'" by blast
  with assms(2,3) have "\<not> P r" by auto
  with Some show ?thesis by (simp add: get_upd assms(1))
qed

text \<open>Compare-and-set: a write whose effect falsifies its own guard cannot fire twice.\<close>

lemma cas_once:
  assumes "\<And>r. key (f r) = key r" and "\<And>r. key (g r) = key r"
    and "\<And>r. P r \<Longrightarrow> \<not> Q (f r)" and "get t k = Some r" and "P r"
  shows "get (upd (\<lambda>r. key r = k \<and> Q r) g (upd P f t)) k = Some (f r)"
  using assms by (simp add: get_upd)

lemma distinct_upd:
  assumes "\<And>r. key (f r) = key r" and "distinct (map key t)"
  shows "distinct (map key (upd P f t))"
  using assms(2) by (simp only: keys_upd [OF assms(1)])

end

lemma keyed_table_find_row: "keyed_table key (find_row key) update_where"
proof
  show "\<And>t k r. find_row key t k = Some r \<Longrightarrow> key r = k \<and> r \<in> set t"
    by (auto dest: find_row_SomeD)
  show "\<And>t r. distinct (map key t) \<Longrightarrow> r \<in> set t \<Longrightarrow> find_row key t (key r) = Some r"
    by (simp add: find_row_Some_iff keys_distinct_def)
  show "\<And>f P t k. (\<And>r. key (f r) = key r) \<Longrightarrow> find_row key (update_where P f t) k
      = map_option (\<lambda>r. if P r then f r else r) (find_row key t k)"
    by (simp add: find_row_update_where)
  show "\<And>f P t. (\<And>r. key (f r) = key r) \<Longrightarrow> map key (update_where P f t) = map key t"
    by (rule map_key_update_where)
qed

section \<open>Strings\<close>

text \<open>Python's decimal \<open>str(n)\<close>, \<open>str.split(sep)\<close> on one character, \<open>str.strip()\<close> on ASCII white
  space, \<open>str.lower()\<close>, and the substring test and replacement the path helpers use.\<close>

fun str_nat :: "nat \<Rightarrow> string" where
  "str_nat n = (if n < 10 then [char_of (48 + n)] else str_nat (n div 10) @ [char_of (48 + n mod 10)])"

declare str_nat.simps [simp del]

definition str_int :: "int \<Rightarrow> string" where
  "str_int i = (if i < 0 then CHR ''-'' # str_nat (nat (- i)) else str_nat (nat i))"

fun split_on :: "char \<Rightarrow> string \<Rightarrow> string list" where
  "split_on c [] = [[]]"
| "split_on c (x # xs) =
     (if x = c then [] # split_on c xs
      else (case split_on c xs of [] \<Rightarrow> [[x]] | w # ws \<Rightarrow> (x # w) # ws))"

definition is_space :: "char \<Rightarrow> bool" where
  "is_space c \<longleftrightarrow> of_char c \<in> {9, 10, 11, 12, 13, 28, 29, 30, 31, 32 :: nat}"

definition is_digit :: "char \<Rightarrow> bool" where
  "is_digit c \<longleftrightarrow> 48 \<le> (of_char c :: nat) \<and> (of_char c :: nat) \<le> 57"

definition strip :: "string \<Rightarrow> string" where
  "strip s = rev (dropWhile is_space (rev (dropWhile is_space s)))"

definition lower :: "string \<Rightarrow> string" where
  "lower s = map (\<lambda>c. if (65 :: nat) \<le> of_char c \<and> of_char c \<le> (90 :: nat) then char_of (of_char c + 32 :: nat) else c) s"

text \<open>\<open>str.split()\<close>: the words between runs of white space.\<close>

fun words :: "string \<Rightarrow> string list" where
  "words [] = []"
| "words (c # s) =
     (if is_space c then words s
      else (case s of [] \<Rightarrow> [[c]]
            | x # _ \<Rightarrow> if is_space x then [c] # words s
                     else (case words s of [] \<Rightarrow> [[c]] | w # ws \<Rightarrow> (c # w) # ws)))"

fun replace_first :: "'a list \<Rightarrow> 'a list \<Rightarrow> 'a list \<Rightarrow> 'a list" where
  "replace_first pat r [] = (if pat = [] then r else [])"
| "replace_first pat r (x # xs) =
     (if prefix pat (x # xs) then r @ drop (length pat) (x # xs)
      else x # replace_first pat r xs)"

lemma str_nat_digits: "c \<in> set (str_nat n) \<Longrightarrow> 48 \<le> (of_char c :: nat) \<and> (of_char c :: nat) \<le> 57"
proof (induction n rule: str_nat.induct)
  case (1 n)
  have d: "48 \<le> (of_char (char_of (48 + k)) :: nat) \<and> (of_char (char_of (48 + k)) :: nat) \<le> 57" if "k < 10" for k :: nat
    using that by simp
  show ?case
  proof (cases "n < 10")
    case True
    with 1(2) d [of n] show ?thesis by (subst (asm) str_nat.simps) simp
  next
    case False
    with 1(2) have "c \<in> set (str_nat (n div 10)) \<or> c = char_of (48 + n mod 10)"
      by (subst (asm) str_nat.simps) auto
    with 1(1) False d [of "n mod 10"] show ?thesis by auto
  qed
qed

lemma str_nat_nonempty [simp]: "str_nat n \<noteq> []"
  by (subst str_nat.simps) simp

lemma split_on_nonempty [simp]: "split_on c s \<noteq> []"
  by (cases s) (auto split: list.splits)

lemma replace_first_absent: "\<not> sublist pat s \<Longrightarrow> replace_first pat r s = s"
proof (induction s)
  case (Cons x xs)
  then have "\<not> prefix pat (x # xs)" and "\<not> sublist pat xs"
    by (auto simp: prefix_imp_sublist sublist_Cons_right)
  with Cons.IH show ?case by simp
qed (simp)

lemma replace_first_prefix: "replace_first pat r (pat @ s) = r @ s" if "pat \<noteq> []"
  using that by (cases pat) (auto simp: prefix_def)

section \<open>Transition systems\<close>

text \<open>
  The interface every state machine of the development interprets: initial states, a step
  relation, and an invariant that holds initially and that every step keeps.
\<close>

inductive run :: "('s \<Rightarrow> 's \<Rightarrow> bool) \<Rightarrow> 's \<Rightarrow> 's \<Rightarrow> bool" for step where
  run_refl: "run step s s"
| run_step: "run step s t \<Longrightarrow> step t u \<Longrightarrow> run step s u"

locale invariant_system =
  fixes init :: "'s \<Rightarrow> bool" and step :: "'s \<Rightarrow> 's \<Rightarrow> bool" and inv :: "'s \<Rightarrow> bool"
  assumes inv_init: "init s \<Longrightarrow> inv s"
    and inv_step: "inv s \<Longrightarrow> step s t \<Longrightarrow> inv t"
begin

lemma inv_run:
  assumes "run step s t" and "inv s"
  shows "inv t"
  using assms by (induction rule: run.induct) (auto intro: inv_step)

lemma inv_reachable: "init s \<Longrightarrow> run step s t \<Longrightarrow> inv t"
  using inv_init inv_run by blast

end

end
