(* ===== verification/Coroutine.thy ===== *)
theory Coroutine
  imports Prelude
begin

text \<open>
  Request handlers as coroutines over a shared state. A handler takes the list of what the rest of the
  system does before each of its awaits (consumed one per statement; none left means undisturbed) and
  the state, and returns its answer, or the exception it raised, with the state it leaves. One statement
  is atomic.

  The interface \<open>interleaving\<close> is a reachability relation between states; its clients are the rules that
  a handler built from statements of the relation stays inside it, whatever interferes. It is
  interpreted for the scheduler's tables and for the grant store.
\<close>

type_synonym ('d, 'e, 'a) coroutine = "('d \<Rightarrow> 'd) list \<Rightarrow> 'd \<Rightarrow> ('e + 'a) \<times> ('d \<Rightarrow> 'd) list \<times> 'd"

definition ret :: "'a \<Rightarrow> ('d, 'e, 'a) coroutine" where
  "ret a es d = (Inr a, es, d)"

definition throw :: "'e \<Rightarrow> ('d, 'e, 'a) coroutine" where
  "throw e es d = (Inl e, es, d)"

definition bind :: "('d, 'e, 'a) coroutine \<Rightarrow> ('a \<Rightarrow> ('d, 'e, 'b) coroutine) \<Rightarrow> ('d, 'e, 'b) coroutine" where
  "bind m f es d =
     (case m es d of (Inl e, es', d') \<Rightarrow> (Inl e, es', d') | (Inr a, es', d') \<Rightarrow> f a es' d')"

definition catch :: "('d, 'e, 'a) coroutine \<Rightarrow> ('e \<Rightarrow> ('d, 'e, 'a) coroutine) \<Rightarrow> ('d, 'e, 'a) coroutine" where
  "catch m f es d =
     (case m es d of (Inl e, es', d') \<Rightarrow> f e es' d' | (Inr a, es', d') \<Rightarrow> (Inr a, es', d'))"

definition stmt :: "('d \<Rightarrow> 'a \<times> 'd) \<Rightarrow> ('d, 'e, 'a) coroutine" where
  "stmt f es d =
     (case es of [] \<Rightarrow> (Inr (fst (f d)), [], snd (f d))
      | g # gs \<Rightarrow> (Inr (fst (f (g d))), gs, snd (f (g d))))"

definition query :: "('d \<Rightarrow> 'a) \<Rightarrow> ('d, 'e, 'a) coroutine" where
  "query f = stmt (\<lambda>d. (f d, d))"

text \<open>A read without an await, such as the clock.\<close>

definition peek :: "('d \<Rightarrow> 'a) \<Rightarrow> ('d, 'e, 'a) coroutine" where
  "peek f es d = (Inr (f d), es, d)"

text \<open>A write without an await, such as to a dictionary of the process.\<close>

definition poke :: "('d \<Rightarrow> 'd) \<Rightarrow> ('d, 'e, unit) coroutine" where
  "poke f es d = (Inr (), es, f d)"

text \<open>The state the next statement runs in.\<close>

definition next_state :: "('d \<Rightarrow> 'd) list \<Rightarrow> 'd \<Rightarrow> 'd" where
  "next_state es d = (case es of [] \<Rightarrow> d | g # _ \<Rightarrow> g d)"

definition interferes_as :: "('d \<Rightarrow> 'd \<Rightarrow> bool) \<Rightarrow> ('d \<Rightarrow> 'd) list \<Rightarrow> bool" where
  "interferes_as R es \<longleftrightarrow> (\<forall>g\<in>set es. \<forall>d. R d (g d))"

definition follows_as :: "('d \<Rightarrow> 'd \<Rightarrow> bool) \<Rightarrow> ('d, 'e, 'a) coroutine \<Rightarrow> bool" where
  "follows_as R m \<longleftrightarrow> (\<forall>es d r es' d'. interferes_as R es \<longrightarrow> m es d = (r, es', d')
     \<longrightarrow> R d d' \<and> interferes_as R es')"

definition never_raises :: "('d, 'e, 'a) coroutine \<Rightarrow> bool" where
  "never_raises m \<longleftrightarrow> (\<forall>es d. \<exists>a. fst (m es d) = Inr a)"

definition keeping :: "('d \<Rightarrow> bool) \<Rightarrow> ('d, 'e, 'a) coroutine \<Rightarrow> ('a \<Rightarrow> bool) \<Rightarrow> bool" where
  "keeping P m Q \<longleftrightarrow> (\<forall>es d r es' d'. interferes_as (\<lambda>d d'. P d \<longrightarrow> P d') es \<longrightarrow> P d \<longrightarrow> m es d = (r, es', d')
     \<longrightarrow> P d' \<and> interferes_as (\<lambda>d d'. P d \<longrightarrow> P d') es' \<and> (\<forall>a. r = Inr a \<longrightarrow> Q a))"

lemma bind_Inr:
  assumes "bind m f es d = (Inr b, es', d')"
  obtains a es1 d1 where "m es d = (Inr a, es1, d1)" "f a es1 d1 = (Inr b, es', d')"
  using assms by (auto simp: bind_def split: sum.splits prod.splits)

lemma stmt_eq: "stmt f es d = (Inr (fst (f (next_state es d))), List.tl es, snd (f (next_state es d)))"
  by (cases es) (simp_all add: stmt_def next_state_def)

lemma query_eq: "query f es d = (Inr (f (next_state es d)), List.tl es, next_state es d)"
  by (simp add: query_def stmt_eq)

lemma bind_eq: "m es d = (Inr a, es', d') \<Longrightarrow> bind m f es d = f a es' d'"
  by (simp add: bind_def)

lemma catch_Inr:
  assumes "catch m f es d = (Inr b, es', d')"
  obtains "m es d = (Inr b, es', d')" | e es1 d1 where "m es d = (Inl e, es1, d1)" "f e es1 d1 = (Inr b, es', d')"
  using assms by (auto simp: catch_def split: sum.splits prod.splits)

lemma throw_never: "throw e es d \<noteq> (Inr a, es', d')"
  by (simp add: throw_def)

lemma bind_throw_never: "bind m (\<lambda>_. throw e) es d \<noteq> (Inr a, es', d')"
  by (auto simp: bind_def throw_def split: sum.splits prod.splits)

lemma bind_ret: "bind (ret a) f es d = f a es d"
  by (simp add: bind_def ret_def)

lemma bind_peek: "bind (peek g) f es d = f (g d) es d"
  by (simp add: bind_def peek_def)

lemma bind_stmt: "bind (stmt g) f es d = f (fst (g (next_state es d))) (List.tl es) (snd (g (next_state es d)))"
  by (simp add: bind_def stmt_eq)

lemma bind_query: "bind (query g) f es d = f (g (next_state es d)) (List.tl es) (next_state es d)"
  by (simp add: bind_def query_eq)

lemma bind_poke: "bind (poke g) f es d = f () es (g d)"
  by (simp add: bind_def poke_def)

lemmas bind_simps = bind_ret bind_peek bind_poke bind_stmt bind_query

lemma interferes_tl: "interferes_as R es \<Longrightarrow> interferes_as R (List.tl es)"
  by (cases es) (simp_all add: interferes_as_def)

lemma bind_result:
  assumes "bind m f es d = (r, es', d')"
  obtains e where "m es d = (Inl e, es', d')" "r = Inl e"
    | a es1 d1 where "m es d = (Inr a, es1, d1)" "f a es1 d1 = (r, es', d')"
  using assms by (auto simp: bind_def split: sum.splits prod.splits)

subsection \<open>Keeping an assertion\<close>

lemma keepingD:
  assumes "keeping P m Q" and "interferes_as (\<lambda>d d'. P d \<longrightarrow> P d') es" and "P d" and "m es d = (r, es', d')"
  shows "P d'" and "interferes_as (\<lambda>d d'. P d \<longrightarrow> P d') es'" and "r = Inr a \<Longrightarrow> Q a"
  using assms unfolding keeping_def by blast+

lemma keeping_ret: "Q a \<Longrightarrow> keeping P (ret a) Q"
  by (simp add: keeping_def ret_def)

lemma keeping_throw: "keeping P (throw e) Q"
  by (simp add: keeping_def throw_def)

lemma keeping_bind:
  assumes "keeping P m R" and "\<And>a. R a \<Longrightarrow> keeping P (f a) Q"
  shows "keeping P (bind m f) Q"
  unfolding keeping_def
proof (intro allI impI)
  fix es d r es' d'
  assume es: "interferes_as (\<lambda>d d'. P d \<longrightarrow> P d') es" and d: "P d" and b: "bind m f es d = (r, es', d')"
  from b show "P d' \<and> interferes_as (\<lambda>d d'. P d \<longrightarrow> P d') es' \<and> (\<forall>a. r = Inr a \<longrightarrow> Q a)"
  proof (cases rule: bind_result)
    case 1
    with keepingD(1,2) [OF assms(1) es d 1(1)] show ?thesis by simp
  next
    case 2
    note step = keepingD [OF assms(1) es d 2(1)]
    from keepingD [OF assms(2) [OF step(3) [OF refl]] step(2,1) 2(2)] show ?thesis by blast
  qed
qed

lemma keeping_stmt:
  assumes "\<And>d. P d \<Longrightarrow> P (snd (f d)) \<and> Q (fst (f d))"
  shows "keeping P (stmt f) Q"
  using assms by (auto simp: keeping_def stmt_def interferes_as_def split: list.splits)

lemma keeping_query: "(\<And>d. P d \<Longrightarrow> Q (f d)) \<Longrightarrow> keeping P (query f) Q"
  unfolding query_def by (rule keeping_stmt) simp

lemma keeping_peek: "(\<And>d. P d \<Longrightarrow> Q (f d)) \<Longrightarrow> keeping P (peek f) Q"
  by (simp add: keeping_def peek_def)

lemma keeping_poke: "(\<And>d. P d \<Longrightarrow> P (f d)) \<Longrightarrow> Q () \<Longrightarrow> keeping P (poke f) Q"
  by (simp add: keeping_def poke_def)

lemma keeping_catch:
  assumes "keeping P m Q" and "\<And>e. keeping P (f e) Q"
  shows "keeping P (catch m f) Q"
  unfolding keeping_def
proof (intro allI impI)
  fix es d r es' d'
  assume es: "interferes_as (\<lambda>d d'. P d \<longrightarrow> P d') es" and d: "P d" and b: "catch m f es d = (r, es', d')"
  obtain x es1 d1 where m: "m es d = (x, es1, d1)" by (rule prod_cases3)
  note step = keepingD [OF assms(1) es d m]
  show "P d' \<and> interferes_as (\<lambda>d d'. P d \<longrightarrow> P d') es' \<and> (\<forall>a. r = Inr a \<longrightarrow> Q a)"
  proof (cases x)
    case (Inl e)
    with b m have "f e es1 d1 = (r, es', d')" by (simp add: catch_def)
    from keepingD [OF assms(2) step(2,1) this] show ?thesis by blast
  next
    case (Inr a)
    with b m step show ?thesis by (simp add: catch_def)
  qed
qed

lemma keeping_if: "keeping P a Q \<Longrightarrow> keeping P b Q \<Longrightarrow> keeping P (if c then a else b) Q" by simp

lemma keeping_option:
  "keeping P a Q \<Longrightarrow> (\<And>x. keeping P (b x) Q) \<Longrightarrow> keeping P (case z of None \<Rightarrow> a | Some x \<Rightarrow> b x) Q"
  by (cases z) simp_all

lemma keeping_sum:
  "(\<And>x. keeping P (a x) Q) \<Longrightarrow> (\<And>x. keeping P (b x) Q) \<Longrightarrow> keeping P (case z of Inl x \<Rightarrow> a x | Inr x \<Rightarrow> b x) Q"
  by (cases z) simp_all

lemma keeping_prod: "(\<And>x y. keeping P (f x y) Q) \<Longrightarrow> keeping P (case p of (x, y) \<Rightarrow> f x y) Q"
  by (cases p) simp

text \<open>The rules for a body whose answers do not matter.\<close>

lemmas keeping_rules = keeping_if keeping_option keeping_sum keeping_prod keeping_ret keeping_throw keeping_query keeping_peek
  keeping_bind [where R = "\<lambda>_. True"]

lemma next_keeps: "interferes_as (\<lambda>d d'. P d \<longrightarrow> P d') es \<Longrightarrow> P d \<Longrightarrow> P (next_state es d)"
  by (cases es) (simp_all add: next_state_def interferes_as_def)

lemma never_raises_result:
  assumes "never_raises m" and "m es d = (r, es', d')"
  obtains a where "r = Inr a"
  using assms unfolding never_raises_def by (metis fst_conv)

lemma never_raises_bind:
  assumes "never_raises m" and "\<And>a. never_raises (f a)"
  shows "never_raises (bind m f)"
  unfolding never_raises_def
proof (intro allI)
  fix es d
  obtain r es1 d1 where m: "m es d = (r, es1, d1)" by (rule prod_cases3)
  with assms(1) obtain a where "r = Inr a" by (rule never_raises_result)
  with m assms(2) [of a] show "\<exists>b. fst (bind m f es d) = Inr b" by (simp add: bind_def never_raises_def)
qed

lemma never_raises_if: "never_raises a \<Longrightarrow> never_raises b \<Longrightarrow> never_raises (if c then a else b)" by simp

lemma never_raises_atoms: "never_raises (ret a)" "never_raises (stmt g)" "never_raises (query f)" "never_raises (peek f)"
  by (simp_all add: never_raises_def ret_def stmt_eq query_eq peek_def)

lemma never_raises_sum:
  "(\<And>x. never_raises (a x)) \<Longrightarrow> (\<And>x. never_raises (b x)) \<Longrightarrow> never_raises (case z of Inl x \<Rightarrow> a x | Inr x \<Rightarrow> b x)"
  by (cases z) simp_all

lemmas never_raises_rules = never_raises_atoms never_raises_bind never_raises_if never_raises_sum

locale interleaving =
  fixes reach :: "'d \<Rightarrow> 'd \<Rightarrow> bool"
  assumes reach_refl: "reach d d"
    and reach_trans: "reach d e \<Longrightarrow> reach e f \<Longrightarrow> reach d f"
begin

lemma follows_ret: "follows_as reach (ret a)"
  by (simp add: follows_as_def ret_def reach_refl)

lemma follows_throw: "follows_as reach (throw e)"
  by (simp add: follows_as_def throw_def reach_refl)

lemma follows_bind:
  assumes "follows_as reach m" and "\<And>a. follows_as reach (f a)"
  shows "follows_as reach (bind m f)"
  unfolding follows_as_def
proof (intro allI impI)
  fix es d r es' d'
  assume es: "interferes_as reach es" and b: "bind m f es d = (r, es', d')"
  obtain x es1 d1 where m: "m es d = (x, es1, d1)" by (rule prod_cases3)
  with assms(1) es have 1: "reach d d1" "interferes_as reach es1" by (auto simp: follows_as_def)
  show "reach d d' \<and> interferes_as reach es'"
  proof (cases x)
    case (Inl e)
    with b m 1 show ?thesis by (simp add: bind_def)
  next
    case (Inr a)
    with b m have "f a es1 d1 = (r, es', d')" by (simp add: bind_def)
    with assms(2) 1 reach_trans show ?thesis unfolding follows_as_def by blast
  qed
qed

lemma follows_catch:
  assumes "follows_as reach m" and "\<And>e. follows_as reach (f e)"
  shows "follows_as reach (catch m f)"
  unfolding follows_as_def
proof (intro allI impI)
  fix es d r es' d'
  assume es: "interferes_as reach es" and b: "catch m f es d = (r, es', d')"
  obtain x es1 d1 where m: "m es d = (x, es1, d1)" by (rule prod_cases3)
  with assms(1) es have 1: "reach d d1" "interferes_as reach es1" by (auto simp: follows_as_def)
  show "reach d d' \<and> interferes_as reach es'"
  proof (cases x)
    case (Inl e)
    with b m have "f e es1 d1 = (r, es', d')" by (simp add: catch_def)
    with assms(2) 1 reach_trans show ?thesis unfolding follows_as_def by blast
  next
    case (Inr a)
    with b m 1 show ?thesis by (simp add: catch_def)
  qed
qed

lemma follows_stmt:
  assumes "\<And>d. reach d (snd (f d))"
  shows "follows_as reach (stmt f)"
  unfolding follows_as_def
proof (intro allI impI)
  fix es d r es' d'
  assume es: "interferes_as reach es" and s: "stmt f es d = (r, es', d')"
  show "reach d d' \<and> interferes_as reach es'"
  proof (cases es)
    case Nil
    with s assms [of d] show ?thesis by (auto simp: stmt_def interferes_as_def)
  next
    case (Cons g gs)
    with s have "d' = snd (f (g d))" "es' = gs" by (auto simp: stmt_def)
    with es Cons assms [of "g d"] reach_trans [of d "g d"] show ?thesis by (auto simp: interferes_as_def)
  qed
qed

lemma reach_next: "interferes_as reach es \<Longrightarrow> reach d (next_state es d)"
  by (cases es) (simp_all add: next_state_def interferes_as_def reach_refl)

lemma follows_reach:
  assumes "follows_as reach m" and "interferes_as reach es" and "m es d = (r, es', d')"
  shows "reach d d'" and "interferes_as reach es'"
  using assms by (auto simp: follows_as_def)

lemma follows_query: "follows_as reach (query f)"
  unfolding query_def by (rule follows_stmt) (simp add: reach_refl)

lemma follows_peek: "follows_as reach (peek f)"
  by (simp add: follows_as_def peek_def reach_refl)

lemma follows_if: "follows_as reach a \<Longrightarrow> follows_as reach b \<Longrightarrow> follows_as reach (if c then a else b)" by simp

lemma follows_option:
  "follows_as reach a \<Longrightarrow> (\<And>x. follows_as reach (b x)) \<Longrightarrow> follows_as reach (case z of None \<Rightarrow> a | Some x \<Rightarrow> b x)"
  by (cases z) simp_all

lemma follows_prod: "(\<And>x y. follows_as reach (f x y)) \<Longrightarrow> follows_as reach (case p of (x, y) \<Rightarrow> f x y)"
  by (cases p) simp

lemma follows_let: "(\<And>x. follows_as reach (f x)) \<Longrightarrow> follows_as reach (let x = a in f x)"
  by (simp add: Let_def)

lemmas io_rules = follows_ret follows_throw follows_bind follows_catch follows_query follows_peek follows_if follows_option
  follows_prod follows_let

end

end
