(* ===== verification/Models.thy ===== *)
theory Models
  imports Prelude
begin

text \<open>
  The domain models of \<open>src/transcode_forge/models\<close>: the job and worker status enumerations
  with the status sets every SQL statement builds from, the rows of the \<open>jobs\<close>, \<open>workers\<close>,
  \<open>worker_tokens\<close>, \<open>media_files\<close>, \<open>skipped_files\<close>, \<open>derivatives\<close> and \<open>libraries\<close> tables, and the
  goal key of a derivative.
\<close>

section \<open>Enumerations\<close>

datatype JobStatus =
  PENDING | QUEUED | ASSIGNED | TRANSCODING | COMPLETE | FAILED | SKIPPED | CANCELLED

datatype WorkerStatus = ONLINE | BUSY | OFFLINE | DEAD

datatype SkipReason =
  ALREADY_HEVC | NOT_H264 | SIZE_REGRESSION | TOO_SMALL | MANUAL_SKIP | BELOW_VMAF_FLOOR
| STREAM_LOSS

datatype StorageBackendType = FILESYSTEM | S3

datatype JobPhase = SEARCH | ENCODE | VERIFY | GAUGE | SWAP | WAIT

text \<open>The catalog's \<open>transcode_status\<close> values (\<open>_VALID_TRANSCODE_STATUSES\<close>).\<close>

datatype MediaStatus =
  M_pending | M_needs_transcode | M_queued | M_transcoding | M_complete | M_skipped

primrec job_status_value :: "JobStatus \<Rightarrow> string" where
  "job_status_value PENDING = ''pending''"
| "job_status_value QUEUED = ''queued''"
| "job_status_value ASSIGNED = ''assigned''"
| "job_status_value TRANSCODING = ''transcoding''"
| "job_status_value COMPLETE = ''complete''"
| "job_status_value FAILED = ''failed''"
| "job_status_value SKIPPED = ''skipped''"
| "job_status_value CANCELLED = ''cancelled''"

primrec skip_reason_value :: "SkipReason \<Rightarrow> string" where
  "skip_reason_value ALREADY_HEVC = ''already_hevc''"
| "skip_reason_value NOT_H264 = ''not_h264''"
| "skip_reason_value SIZE_REGRESSION = ''size_regression''"
| "skip_reason_value TOO_SMALL = ''too_small''"
| "skip_reason_value MANUAL_SKIP = ''manual_skip''"
| "skip_reason_value BELOW_VMAF_FLOOR = ''below_vmaf_floor''"
| "skip_reason_value STREAM_LOSS = ''stream_loss''"

instantiation JobStatus :: enum
begin

definition enum_JobStatus :: "JobStatus list" where
  "enum_JobStatus = [PENDING, QUEUED, ASSIGNED, TRANSCODING, COMPLETE, FAILED, SKIPPED, CANCELLED]"

definition enum_all_JobStatus :: "(JobStatus \<Rightarrow> bool) \<Rightarrow> bool" where
  "enum_all_JobStatus P \<longleftrightarrow> list_all P enum_class.enum"

definition enum_ex_JobStatus :: "(JobStatus \<Rightarrow> bool) \<Rightarrow> bool" where
  "enum_ex_JobStatus P \<longleftrightarrow> list_ex P enum_class.enum"

instance
proof
  have univ: "(UNIV :: JobStatus set) = set enum_class.enum"
  proof (rule UNIV_eq_I)
    fix s :: JobStatus
    show "s \<in> set enum_class.enum" by (cases s) (simp_all add: enum_JobStatus_def)
  qed
  then show "(UNIV :: JobStatus set) = set enum_class.enum" .
  show "distinct (enum_class.enum :: JobStatus list)"
    by (simp add: enum_JobStatus_def)
  show "enum_class.enum_all P \<longleftrightarrow> Ball UNIV P" for P :: "JobStatus \<Rightarrow> bool"
    by (simp only: univ enum_all_JobStatus_def list_all_iff)
  show "enum_class.enum_ex P \<longleftrightarrow> Bex UNIV P" for P :: "JobStatus \<Rightarrow> bool"
    by (simp only: univ enum_ex_JobStatus_def list_ex_iff)
qed

end

definition WAITING_JOB_STATUSES :: "JobStatus list" where
  "WAITING_JOB_STATUSES = [PENDING, QUEUED]"

definition ACTIVE_JOB_STATUSES :: "JobStatus list" where
  "ACTIVE_JOB_STATUSES = [ASSIGNED, TRANSCODING]"

definition TERMINAL_JOB_STATUSES :: "JobStatus list" where
  "TERMINAL_JOB_STATUSES = [COMPLETE, SKIPPED, FAILED, CANCELLED]"

definition ALIVE_WORKER_STATUSES :: "WorkerStatus list" where
  "ALIVE_WORKER_STATUSES = [ONLINE, BUSY]"

lemmas status_sets = WAITING_JOB_STATUSES_def ACTIVE_JOB_STATUSES_def
  TERMINAL_JOB_STATUSES_def ALIVE_WORKER_STATUSES_def

abbreviation waiting :: "JobStatus \<Rightarrow> bool" where
  "waiting s \<equiv> s \<in> set WAITING_JOB_STATUSES"

abbreviation active :: "JobStatus \<Rightarrow> bool" where
  "active s \<equiv> s \<in> set ACTIVE_JOB_STATUSES"

abbreviation terminal :: "JobStatus \<Rightarrow> bool" where
  "terminal s \<equiv> s \<in> set TERMINAL_JOB_STATUSES"

abbreviation alive :: "WorkerStatus \<Rightarrow> bool" where
  "alive s \<equiv> s \<in> set ALIVE_WORKER_STATUSES"

section \<open>Rows\<close>

record job =
  j_id :: string
  j_source_path :: string
  j_library :: string
  j_library_id :: "string option"
  j_source_codec :: string
  j_source_resolution :: "string option"
  j_source_bitrate :: "int option"
  j_source_duration :: "num option"
  j_source_size :: "int option"
  j_target_codec :: string
  j_target_height :: "int option"
  j_quality_value :: int
  j_target_vmaf :: "num option"
  j_resolved_crf :: "int option"
  j_achieved_vmaf :: "num option"
  j_achieved_vmaf_perc5 :: "num option"
  j_predicted_vmaf_mean :: "num option"
  j_predicted_vmaf_perc5 :: "num option"
  j_backend_used :: "string option"
  j_status :: JobStatus
  j_worker_id :: "string option"
  j_claim_token :: "string option"
  j_progress :: num
  j_phase :: "string option"
  j_phase_pct :: "num option"
  j_phase_detail :: "string option"
  j_output_size :: "int option"
  j_space_saved :: "int option"
  j_error_message :: "string option"
  j_retry_count :: int
  j_created_at :: time
  j_started_at :: "time option"
  j_completed_at :: "time option"
  j_updated_at :: time

text \<open>A \<open>Job\<close> built with the model's defaults: everything the constructor is not given.\<close>

definition new_job :: "string \<Rightarrow> string \<Rightarrow> string \<Rightarrow> string \<Rightarrow> int \<Rightarrow> time \<Rightarrow> job" where
  "new_job job_id source_path library source_codec quality_value now =
     \<lparr>j_id = job_id, j_source_path = source_path, j_library = library, j_library_id = None,
      j_source_codec = source_codec, j_source_resolution = None, j_source_bitrate = None,
      j_source_duration = None, j_source_size = None, j_target_codec = ''hevc'',
      j_target_height = None, j_quality_value = quality_value, j_target_vmaf = None,
      j_resolved_crf = None, j_achieved_vmaf = None, j_achieved_vmaf_perc5 = None,
      j_predicted_vmaf_mean = None, j_predicted_vmaf_perc5 = None, j_backend_used = None,
      j_status = PENDING, j_worker_id = None, j_claim_token = None, j_progress = 0,
      j_phase = None, j_phase_pct = None, j_phase_detail = None, j_output_size = None,
      j_space_saved = None, j_error_message = None, j_retry_count = 0, j_created_at = now,
      j_started_at = None, j_completed_at = None, j_updated_at = now\<rparr>"

record worker =
  w_id :: string
  w_name :: string
  w_host :: string
  w_capabilities :: "string list"
  w_supported_codecs :: "string list"
  w_supports_downscale :: bool
  w_sends_claim_token :: bool
  w_ffmpeg_version :: "string option"
  w_max_concurrent :: int
  w_status :: WorkerStatus
  w_current_job_id :: "string option"
  w_current_job_changed_at :: "time option"
  w_last_heartbeat :: "time option"
  w_registered_at :: time
  w_updated_at :: time

record media_file =
  m_id :: string
  m_library_id :: string
  m_file_path :: string
  m_filename :: string
  m_show_name :: "string option"
  m_season :: "int option"
  m_episode :: "int option"
  m_video_codec :: "string option"
  m_audio_codec :: "string option"
  m_resolution :: "string option"
  m_width :: "int option"
  m_height :: "int option"
  m_bitrate :: "int option"
  m_duration :: "num option"
  m_file_size :: "int option"
  m_transcode_status :: MediaStatus
  m_skip_reason :: "string option"
  m_job_id :: "string option"
  m_file_modified_at :: "string option"
  m_scanned_at :: time
  m_updated_at :: time

text \<open>Rows with their key columns only, for the concrete instances of the theorems.\<close>

definition blank_media :: "string \<Rightarrow> string \<Rightarrow> string \<Rightarrow> media_file" where
  "blank_media file_id library_id file_path =
     \<lparr>m_id = file_id, m_library_id = library_id, m_file_path = file_path, m_filename = file_path,
      m_show_name = None, m_season = None, m_episode = None, m_video_codec = None,
      m_audio_codec = None, m_resolution = None, m_width = None, m_height = None,
      m_bitrate = None, m_duration = None, m_file_size = None, m_transcode_status = M_pending,
      m_skip_reason = None, m_job_id = None, m_file_modified_at = None, m_scanned_at = 0,
      m_updated_at = 0\<rparr>"

definition blank_worker :: "string \<Rightarrow> worker" where
  "blank_worker worker_id =
     \<lparr>w_id = worker_id, w_name = ''node'', w_host = ''host'', w_capabilities = [''cpu''],
      w_supported_codecs = [''hevc''], w_supports_downscale = False, w_sends_claim_token = False,
      w_ffmpeg_version = None, w_max_concurrent = 1, w_status = OFFLINE, w_current_job_id = None,
      w_current_job_changed_at = None, w_last_heartbeat = None, w_registered_at = 0,
      w_updated_at = 0\<rparr>"

record library =
  l_id :: string
  l_name :: string
  l_media_type :: string
  l_path :: string
  l_quality_preset :: int
  l_enabled :: bool
  l_auto_scan :: bool
  l_scan_interval_hours :: int
  l_backend :: StorageBackendType
  l_s3_bucket :: "string option"
  l_s3_prefix :: "string option"
  l_created_at :: time
  l_updated_at :: time

definition blank_library :: "string \<Rightarrow> string \<Rightarrow> library" where
  "blank_library lib_id name =
     \<lparr>l_id = lib_id, l_name = name, l_media_type = ''movies'', l_path = ''/m'',
      l_quality_preset = 21, l_enabled = True, l_auto_scan = False, l_scan_interval_hours = 24,
      l_backend = FILESYSTEM, l_s3_bucket = None, l_s3_prefix = None, l_created_at = 0,
      l_updated_at = 0\<rparr>"

record worker_token =
  t_hash :: string
  t_prefix :: string
  t_label :: string
  t_worker_id :: "string option"
  t_created_at :: time
  t_revoked_at :: "time option"
  t_last_used_at :: "time option"
  t_expires_at :: "time option"

record skipped_file =
  s_id :: string
  s_file_path :: string
  s_library :: string
  s_library_id :: "string option"
  s_codec :: string
  s_resolution :: "string option"
  s_file_size :: "int option"
  s_skip_reason :: SkipReason
  s_scan_id :: "string option"
  s_created_at :: time
  s_updated_at :: time

record derivative =
  d_id :: string
  d_library_id :: string
  d_source_key :: string
  d_source_path :: string
  d_source_resolution :: "string option"
  d_source_audio_codec :: "string option"
  d_target_resolution :: string
  d_target_audio_codec :: string
  d_target_codec :: string
  d_target_vmaf :: "num option"
  d_achieved_vmaf :: "num option"
  d_backend :: string
  d_crf :: int
  d_preset :: string
  d_derivative_key :: string
  d_output_size :: int
  d_created_at :: time

section \<open>The goal key of a derivative\<close>

text \<open>
  \<open>blake2b\<close> (the hex digest of Python's \<open>hashlib.blake2b\<close> at 16 bytes) and \<open>fmt_g\<close> (the
  \<open>:g\<close> format of a float) belong to the Python library and are arguments.
\<close>

definition target_resolution_for :: "int option \<Rightarrow> string option \<Rightarrow> string" where
  "target_resolution_for target_height source_resolution =
     (case target_height of
        Some h \<Rightarrow> if h \<noteq> 0 then str_int h @ ''p'' else (case source_resolution of None \<Rightarrow> [] | Some r \<Rightarrow> r)
      | None \<Rightarrow> (case source_resolution of None \<Rightarrow> [] | Some r \<Rightarrow> r))"

definition derivative_hash_input ::
  "(num \<Rightarrow> string) \<Rightarrow> string \<Rightarrow> string option \<Rightarrow> string option \<Rightarrow> string \<Rightarrow> string \<Rightarrow> string \<Rightarrow> num option \<Rightarrow> string"
where
  "derivative_hash_input fmt_g source_path source_resolution source_audio_codec
       target_resolution target_audio_codec target_codec target_vmaf =
     source_path @ ''|'' @ (case source_resolution of None \<Rightarrow> [] | Some r \<Rightarrow> r)
       @ ''|'' @ (case source_audio_codec of None \<Rightarrow> [] | Some a \<Rightarrow> a)
       @ ''|'' @ target_resolution @ ''|'' @ target_audio_codec @ ''|'' @ target_codec
       @ ''|'' @ (case target_vmaf of None \<Rightarrow> [] | Some v \<Rightarrow> fmt_g v)"

text \<open>\<open>ext\<close> is the output's suffix without its dot, empty when there is none. The recipe
  (\<open>backend\<close>, \<open>crf\<close>, \<open>preset\<close>) is accepted and discarded, as the code does.\<close>

definition compute_derivative_key ::
  "(string \<Rightarrow> string) \<Rightarrow> (num \<Rightarrow> string) \<Rightarrow> string \<Rightarrow> string option \<Rightarrow> string option \<Rightarrow> string \<Rightarrow> string
   \<Rightarrow> string \<Rightarrow> num option \<Rightarrow> string option \<Rightarrow> int option \<Rightarrow> string option \<Rightarrow> string \<Rightarrow> string"
where
  "compute_derivative_key blake2b fmt_g source_path source_resolution source_audio_codec
       target_resolution target_audio_codec target_codec target_vmaf backend crf preset ext =
     blake2b (derivative_hash_input fmt_g source_path source_resolution source_audio_codec
        target_resolution target_audio_codec target_codec target_vmaf)
     @ ''_'' @ target_codec @ ''.'' @ (if ext = [] then ''mkv'' else ext)"


section \<open>Rows of the concrete instances\<close>

definition demo_job :: job where
  "demo_job = (new_job ''j1'' ''/m/a.mkv'' ''Movies'' ''h264'' 22 0)
     \<lparr>j_status := TRANSCODING, j_worker_id := Some ''w1'', j_claim_token := Some ''tok1''\<rparr>"

lemma demo_job_simps [simp]:
  "j_id demo_job = ''j1''" "j_status demo_job = TRANSCODING" "j_worker_id demo_job = Some ''w1''"
  "j_claim_token demo_job = Some ''tok1''" "j_target_codec demo_job = ''hevc''"
  "j_target_height demo_job = None" "j_created_at demo_job = 0" "j_updated_at demo_job = 0"
  "j_source_path demo_job = ''/m/a.mkv''"
  by (simp_all add: demo_job_def new_job_def)

definition demo_pending :: "string \<Rightarrow> time \<Rightarrow> job" where
  "demo_pending i created = new_job i ''/m/b.mkv'' ''Movies'' ''h264'' 22 created"

lemma demo_pending_simps [simp]:
  "j_id (demo_pending i c) = i" "j_status (demo_pending i c) = PENDING"
  "j_target_codec (demo_pending i c) = ''hevc''" "j_target_height (demo_pending i c) = None"
  "j_created_at (demo_pending i c) = c"
  by (simp_all add: demo_pending_def new_job_def)

end
