(* ===== verification/JobRepo.thy ===== *)
theory JobRepo
  imports Models
begin

text \<open>
  The job repository (\<open>repos/jobs.py\<close>): creation and reads, the dynamically built \<open>UPDATE\<close>s with
  their column whitelist, the attempt fence of \<open>finalize_job\<close> and \<open>report_progress\<close>, the claim, the
  two reconciliation sweeps and the one door out of the table, \<open>delete_jobs\<close>. Every function takes
  the table it works on and the current time, and returns the new table; a fresh \<open>uuid4()\<close> is an
  argument.
\<close>

section \<open>Columns\<close>

text \<open>One keyword argument of an update. \<open>F_other\<close> stands for a name that is no column.\<close>

datatype job_field =
  F_source_path string
| F_library string
| F_source_codec string
| F_source_resolution "string option"
| F_source_bitrate "int option"
| F_source_duration "num option"
| F_source_size "int option"
| F_target_codec string
| F_quality_value int
| F_target_vmaf "num option"
| F_resolved_crf "int option"
| F_achieved_vmaf "num option"
| F_achieved_vmaf_perc5 "num option"
| F_predicted_vmaf_mean "num option"
| F_predicted_vmaf_perc5 "num option"
| F_backend_used "string option"
| F_status JobStatus
| F_worker_id "string option"
| F_claim_token "string option"
| F_progress num
| F_phase "string option"
| F_phase_pct "num option"
| F_phase_detail "string option"
| F_output_size "int option"
| F_space_saved "int option"
| F_error_message "string option"
| F_retry_count int
| F_started_at "time option"
| F_completed_at "time option"
| F_updated_at time
| F_id string
| F_library_id "string option"
| F_target_height "int option"
| F_created_at time
| F_other string

primrec col :: "job_field \<Rightarrow> string" where
  "col (F_source_path v) = ''source_path''"
| "col (F_library v) = ''library''"
| "col (F_source_codec v) = ''source_codec''"
| "col (F_source_resolution v) = ''source_resolution''"
| "col (F_source_bitrate v) = ''source_bitrate''"
| "col (F_source_duration v) = ''source_duration''"
| "col (F_source_size v) = ''source_size''"
| "col (F_target_codec v) = ''target_codec''"
| "col (F_quality_value v) = ''quality_value''"
| "col (F_target_vmaf v) = ''target_vmaf''"
| "col (F_resolved_crf v) = ''resolved_crf''"
| "col (F_achieved_vmaf v) = ''achieved_vmaf''"
| "col (F_achieved_vmaf_perc5 v) = ''achieved_vmaf_perc5''"
| "col (F_predicted_vmaf_mean v) = ''predicted_vmaf_mean''"
| "col (F_predicted_vmaf_perc5 v) = ''predicted_vmaf_perc5''"
| "col (F_backend_used v) = ''backend_used''"
| "col (F_status v) = ''status''"
| "col (F_worker_id v) = ''worker_id''"
| "col (F_claim_token v) = ''claim_token''"
| "col (F_progress v) = ''progress''"
| "col (F_phase v) = ''phase''"
| "col (F_phase_pct v) = ''phase_pct''"
| "col (F_phase_detail v) = ''phase_detail''"
| "col (F_output_size v) = ''output_size''"
| "col (F_space_saved v) = ''space_saved''"
| "col (F_error_message v) = ''error_message''"
| "col (F_retry_count v) = ''retry_count''"
| "col (F_started_at v) = ''started_at''"
| "col (F_completed_at v) = ''completed_at''"
| "col (F_updated_at v) = ''updated_at''"
| "col (F_id v) = ''id''"
| "col (F_library_id v) = ''library_id''"
| "col (F_target_height v) = ''target_height''"
| "col (F_created_at v) = ''created_at''"
| "col (F_other c) = c"

primrec set_field :: "job_field \<Rightarrow> job \<Rightarrow> job" where
  "set_field (F_source_path v) j = j\<lparr>j_source_path := v\<rparr>"
| "set_field (F_library v) j = j\<lparr>j_library := v\<rparr>"
| "set_field (F_source_codec v) j = j\<lparr>j_source_codec := v\<rparr>"
| "set_field (F_source_resolution v) j = j\<lparr>j_source_resolution := v\<rparr>"
| "set_field (F_source_bitrate v) j = j\<lparr>j_source_bitrate := v\<rparr>"
| "set_field (F_source_duration v) j = j\<lparr>j_source_duration := v\<rparr>"
| "set_field (F_source_size v) j = j\<lparr>j_source_size := v\<rparr>"
| "set_field (F_target_codec v) j = j\<lparr>j_target_codec := v\<rparr>"
| "set_field (F_quality_value v) j = j\<lparr>j_quality_value := v\<rparr>"
| "set_field (F_target_vmaf v) j = j\<lparr>j_target_vmaf := v\<rparr>"
| "set_field (F_resolved_crf v) j = j\<lparr>j_resolved_crf := v\<rparr>"
| "set_field (F_achieved_vmaf v) j = j\<lparr>j_achieved_vmaf := v\<rparr>"
| "set_field (F_achieved_vmaf_perc5 v) j = j\<lparr>j_achieved_vmaf_perc5 := v\<rparr>"
| "set_field (F_predicted_vmaf_mean v) j = j\<lparr>j_predicted_vmaf_mean := v\<rparr>"
| "set_field (F_predicted_vmaf_perc5 v) j = j\<lparr>j_predicted_vmaf_perc5 := v\<rparr>"
| "set_field (F_backend_used v) j = j\<lparr>j_backend_used := v\<rparr>"
| "set_field (F_status v) j = j\<lparr>j_status := v\<rparr>"
| "set_field (F_worker_id v) j = j\<lparr>j_worker_id := v\<rparr>"
| "set_field (F_claim_token v) j = j\<lparr>j_claim_token := v\<rparr>"
| "set_field (F_progress v) j = j\<lparr>j_progress := v\<rparr>"
| "set_field (F_phase v) j = j\<lparr>j_phase := v\<rparr>"
| "set_field (F_phase_pct v) j = j\<lparr>j_phase_pct := v\<rparr>"
| "set_field (F_phase_detail v) j = j\<lparr>j_phase_detail := v\<rparr>"
| "set_field (F_output_size v) j = j\<lparr>j_output_size := v\<rparr>"
| "set_field (F_space_saved v) j = j\<lparr>j_space_saved := v\<rparr>"
| "set_field (F_error_message v) j = j\<lparr>j_error_message := v\<rparr>"
| "set_field (F_retry_count v) j = j\<lparr>j_retry_count := v\<rparr>"
| "set_field (F_started_at v) j = j\<lparr>j_started_at := v\<rparr>"
| "set_field (F_completed_at v) j = j\<lparr>j_completed_at := v\<rparr>"
| "set_field (F_updated_at v) j = j\<lparr>j_updated_at := v\<rparr>"
| "set_field (F_id v) j = j\<lparr>j_id := v\<rparr>"
| "set_field (F_library_id v) j = j\<lparr>j_library_id := v\<rparr>"
| "set_field (F_target_height v) j = j\<lparr>j_target_height := v\<rparr>"
| "set_field (F_created_at v) j = j\<lparr>j_created_at := v\<rparr>"
| "set_field (F_other c) j = j"

definition VALID_JOB_COLUMNS :: "string list" where
  "VALID_JOB_COLUMNS =
    [''source_path'', ''library'', ''source_codec'', ''source_resolution'', ''source_bitrate'',
     ''source_duration'', ''source_size'', ''target_codec'', ''quality_value'', ''target_vmaf'',
     ''resolved_crf'', ''achieved_vmaf'', ''achieved_vmaf_perc5'', ''predicted_vmaf_mean'', ''predicted_vmaf_perc5'',
     ''backend_used'', ''status'', ''worker_id'', ''claim_token'', ''progress'',
     ''phase'', ''phase_pct'', ''phase_detail'', ''output_size'', ''space_saved'',
     ''error_message'', ''retry_count'', ''started_at'', ''completed_at'', ''updated_at'']"

definition set_fields :: "job_field list \<Rightarrow> job \<Rightarrow> job" where
  "set_fields fs j = foldl (\<lambda>r f. set_field f r) j fs"

datatype repo_error =
  InvalidColumns "string list" | DuplicateKeyword "string list" | InvalidStatuses "string list"

definition invalid_cols :: "job_field list \<Rightarrow> string list" where
  "invalid_cols fs = filter (\<lambda>c. c \<notin> set VALID_JOB_COLUMNS) (map col fs)"

section \<open>Creation and reads\<close>

definition get_job :: "job list \<Rightarrow> string \<Rightarrow> job option" where
  "get_job = find_row j_id"

text \<open>
  The \<open>INSERT\<close> lists its columns; the rest take the schema's defaults. The primary key makes a
  second insert of the same id an integrity error, which is \<open>None\<close> here.
\<close>

definition create_job :: "time \<Rightarrow> job \<Rightarrow> job list \<Rightarrow> (string \<times> job list) option" where
  "create_job now j t =
     (if j_id j \<in> j_id ` set t then None
      else Some (j_id j, t @ [j\<lparr>j_resolved_crf := None, j_achieved_vmaf := None,
             j_achieved_vmaf_perc5 := None, j_predicted_vmaf_mean := None,
             j_predicted_vmaf_perc5 := None, j_backend_used := None, j_worker_id := None,
             j_claim_token := None, j_progress := 0, j_phase := None, j_phase_pct := None,
             j_phase_detail := None, j_output_size := None, j_space_saved := None,
             j_error_message := None, j_started_at := None, j_completed_at := None,
             j_created_at := now, j_updated_at := now\<rparr>]))"

definition requested_statuses :: "string \<Rightarrow> string list" where
  "requested_statuses status = filter (\<lambda>s. s \<noteq> []) (map strip (split_on (CHR '','') status))"

definition job_sort_column :: "string \<Rightarrow> string" where
  "job_sort_column sort_by =
     (if sort_by \<in> {''source_path'', ''status'', ''space_saved'', ''source_size'', ''worker_id'',
          ''completed_at'', ''created_at''} then sort_by else ''created_at'')"

text \<open>
  \<open>list_jobs\<close>. The database orders the matching rows; \<open>order_by column descending rows\<close> is that
  ordering. A filter argument that is \<open>None\<close> or empty is not applied, as in the code.
\<close>

definition job_matches ::
  "time \<Rightarrow> string list option \<Rightarrow> string option \<Rightarrow> string option \<Rightarrow> string option \<Rightarrow> int option \<Rightarrow> job \<Rightarrow> bool"
where
  "job_matches now statuses library_id worker_id source_path since_hours j \<longleftrightarrow>
     (case statuses of None \<Rightarrow> True | Some ss \<Rightarrow> job_status_value (j_status j) \<in> set ss) \<and>
     (case library_id of Some l \<Rightarrow> l \<noteq> [] \<longrightarrow> j_library_id j = Some l | None \<Rightarrow> True) \<and>
     (case worker_id of Some w \<Rightarrow> w \<noteq> [] \<longrightarrow> j_worker_id j = Some w | None \<Rightarrow> True) \<and>
     (case source_path of Some p \<Rightarrow> p \<noteq> [] \<longrightarrow> j_source_path j = p | None \<Rightarrow> True) \<and>
     (case since_hours of Some h \<Rightarrow> h > 0 \<longrightarrow> now - h * 3600000000 \<le> j_created_at j | None \<Rightarrow> True)"

definition list_jobs ::
  "(string \<Rightarrow> bool \<Rightarrow> job list \<Rightarrow> job list) \<Rightarrow> time \<Rightarrow> string option \<Rightarrow> string option \<Rightarrow> string option
   \<Rightarrow> string option \<Rightarrow> int option \<Rightarrow> string \<Rightarrow> bool \<Rightarrow> nat \<Rightarrow> nat \<Rightarrow> job list
   \<Rightarrow> repo_error + (job list \<times> nat)"
where
  "list_jobs order_by now status library_id worker_id source_path since_hours sort_by ascending
       limit offset t =
     (let statuses = (case status of None \<Rightarrow> None
                      | Some s \<Rightarrow> if s = [] then None else Some (requested_statuses s));
          invalid = (case statuses of None \<Rightarrow> []
                     | Some ss \<Rightarrow> filter (\<lambda>s. s \<notin> set (map job_status_value enum_class.enum)) ss);
          rows = filter (job_matches now statuses library_id worker_id source_path since_hours) t
      in if invalid \<noteq> [] then Inl (InvalidStatuses invalid)
         else Inr (take limit (drop offset (order_by (job_sort_column sort_by) (\<not> ascending) rows)),
                   length rows))"

section \<open>Updates\<close>

definition update_job ::
  "time \<Rightarrow> string \<Rightarrow> job_field list \<Rightarrow> job list \<Rightarrow> repo_error + (job option \<times> job list)"
where
  "update_job now job_id flds t =
     (if flds = [] then Inr (get_job t job_id, t)
      else if invalid_cols flds \<noteq> [] then Inl (InvalidColumns (invalid_cols flds))
      else let t' = update_where (\<lambda>j. j_id j = job_id) (set_fields (flds @ [F_updated_at now])) t
           in Inr (get_job t' job_id, t'))"

definition cancel_if_waiting :: "time \<Rightarrow> string \<Rightarrow> job list \<Rightarrow> bool \<times> job list" where
  "cancel_if_waiting now job_id t =
     (let P = (\<lambda>j. j_id j = job_id \<and> waiting (j_status j))
      in (rowcount P t \<noteq> 0,
          update_where P (\<lambda>j. j\<lparr>j_status := CANCELLED, j_updated_at := now\<rparr>) t))"

definition attempt_fence :: "string option \<Rightarrow> job \<Rightarrow> bool" where
  "attempt_fence claim_token j =
     (case claim_token of None \<Rightarrow> True | Some tok \<Rightarrow> j_claim_token j = Some tok)"

text \<open>
  The rows \<open>finalize_job\<close> and \<open>report_progress\<close> may write. A keyword that names one of the
  function's own parameters cannot be passed twice in Python (\<open>DuplicateKeyword\<close>).
\<close>

definition finalize_guard :: "string \<Rightarrow> string \<Rightarrow> string option \<Rightarrow> job \<Rightarrow> bool" where
  "finalize_guard job_id worker_id claim_token j \<longleftrightarrow>
     j_id j = job_id \<and> j_worker_id j = Some worker_id \<and> attempt_fence claim_token j
     \<and> \<not> terminal (j_status j)"

definition progress_guard :: "string \<Rightarrow> string \<Rightarrow> string option \<Rightarrow> job \<Rightarrow> bool" where
  "progress_guard job_id worker_id claim_token j \<longleftrightarrow>
     j_id j = job_id \<and> j_worker_id j = Some worker_id \<and> attempt_fence claim_token j
     \<and> active (j_status j)"

definition duplicate_keywords :: "string list \<Rightarrow> job_field list \<Rightarrow> string list" where
  "duplicate_keywords params flds = filter (\<lambda>c. c \<in> set params) (map col flds)"

definition finalize_job ::
  "time \<Rightarrow> string \<Rightarrow> string \<Rightarrow> JobStatus \<Rightarrow> string option \<Rightarrow> job_field list \<Rightarrow> job list
   \<Rightarrow> repo_error + (bool \<times> job list)"
where
  "finalize_job now job_id worker_id status claim_token flds t =
     (let dup = duplicate_keywords [''job_id'', ''worker_id'', ''status'', ''claim_token''] flds;
          P = finalize_guard job_id worker_id claim_token
      in if dup \<noteq> [] then Inl (DuplicateKeyword dup)
         else if invalid_cols flds \<noteq> [] then Inl (InvalidColumns (invalid_cols flds))
         else Inr (rowcount P t \<noteq> 0,
                   update_where P (set_fields (F_status status # flds @ [F_updated_at now])) t))"

definition report_progress ::
  "time \<Rightarrow> string \<Rightarrow> string \<Rightarrow> string option \<Rightarrow> job_field list \<Rightarrow> job list
   \<Rightarrow> repo_error + (bool \<times> job list)"
where
  "report_progress now job_id worker_id claim_token flds t =
     (let dup = duplicate_keywords [''job_id'', ''worker_id'', ''claim_token''] flds;
          P = progress_guard job_id worker_id claim_token
      in if dup \<noteq> [] then Inl (DuplicateKeyword dup)
         else if invalid_cols flds \<noteq> [] then Inl (InvalidColumns (invalid_cols flds))
         else Inr (rowcount P t \<noteq> 0, update_where P (set_fields (flds @ [F_updated_at now])) t))"

section \<open>Counts\<close>

definition completed_by_library :: "job list \<Rightarrow> (string option \<times> string \<times> nat \<times> int) list" where
  "completed_by_library t =
     (let done = filter (\<lambda>j. j_status j = COMPLETE) t;
          group = (\<lambda>j. (case j_library_id j of None \<Rightarrow> j_library j | Some l \<Rightarrow> l, j_library_id j))
      in map (\<lambda>g. let rows = filter (\<lambda>j. group j = g) done
                  in (snd g, Max (set (map j_library rows)), length rows,
                      sum_list (map (\<lambda>j. case j_space_saved j of None \<Rightarrow> 0 | Some n \<Rightarrow> n) rows)))
             (remdups (map group done)))"

definition count_by_status :: "job list \<Rightarrow> string \<rightharpoonup> nat" where
  "count_by_status t v =
     (let n = length (filter (\<lambda>j. job_status_value (j_status j) = v) t)
      in if n = 0 then None else Some n)"

definition count_queued_jobs :: "job list \<Rightarrow> nat" where
  "count_queued_jobs t = length (filter (\<lambda>j. waiting (j_status j)) t)"

section \<open>Reconciliation sweeps\<close>

definition worker_of :: "worker list \<Rightarrow> job \<Rightarrow> worker option" where
  "worker_of ws j = (case j_worker_id j of None \<Rightarrow> None | Some w \<Rightarrow> find_row w_id ws w)"

definition orphan_worker :: "worker list \<Rightarrow> job \<Rightarrow> bool" where
  "orphan_worker ws j = (case worker_of ws j of None \<Rightarrow> True | Some w \<Rightarrow> \<not> alive (w_status w))"

definition find_orphan_active_jobs :: "worker list \<Rightarrow> job list \<Rightarrow> job list" where
  "find_orphan_active_jobs ws t =
     sort_key j_started_at (filter (\<lambda>j. active (j_status j) \<and> orphan_worker ws j) t)"

text \<open>The released row, shared verbatim by both sweeps and by registration.\<close>

definition release_job :: "time \<Rightarrow> job \<Rightarrow> job" where
  "release_job now j = j\<lparr>j_status := QUEUED, j_worker_id := None, j_claim_token := None,
     j_started_at := None, j_progress := 0, j_phase := None, j_updated_at := now\<rparr>"

definition SECOND :: int where "SECOND = 1000000"

definition ORPHAN_REQUEUE_GRACE_SECONDS :: int where "ORPHAN_REQUEUE_GRACE_SECONDS = 600"

definition ABANDONED_GRACE_SECONDS :: int where "ABANDONED_GRACE_SECONDS = 120"

text \<open>
  The sweep is one statement: \<open>sub\<close> selects ids from the statement's snapshot, the outer
  condition is evaluated again on the row written.
\<close>

definition sweep ::
  "time \<Rightarrow> (job \<Rightarrow> bool) \<Rightarrow> (job \<Rightarrow> bool) \<Rightarrow> job list \<Rightarrow> (string \<times> string) list \<times> job list"
where
  "sweep now sub outer t =
     (let ids = map j_id (filter sub t);
          P = (\<lambda>j. j_id j \<in> set ids \<and> outer j)
      in (map (\<lambda>j. (j_id j, j_source_path j)) (filter P t), update_where P (release_job now) t))"

definition requeue_orphan_active_jobs ::
  "time \<Rightarrow> int \<Rightarrow> worker list \<Rightarrow> job list \<Rightarrow> (string \<times> string) list \<times> job list"
where
  "requeue_orphan_active_jobs now min_idle_seconds ws t =
     (let cutoff = now - min_idle_seconds * SECOND
      in sweep now
           (\<lambda>j. active (j_status j) \<and> orphan_worker ws j \<and> j_updated_at j < cutoff)
           (\<lambda>j. active (j_status j) \<and> j_updated_at j < cutoff) t)"

definition abandoned_condition :: "time \<Rightarrow> worker list \<Rightarrow> job \<Rightarrow> bool" where
  "abandoned_condition cutoff ws j =
     (case worker_of ws j of None \<Rightarrow> False
      | Some w \<Rightarrow> alive (w_status w)
          \<and> (w_current_job_id w = None \<or> w_current_job_id w \<noteq> Some (j_id j))
          \<and> (case w_current_job_changed_at w of None \<Rightarrow> False | Some c \<Rightarrow> c < cutoff)
          \<and> j_updated_at j < cutoff)"

definition find_abandoned_active_jobs :: "time \<Rightarrow> int \<Rightarrow> worker list \<Rightarrow> job list \<Rightarrow> job list" where
  "find_abandoned_active_jobs now grace_seconds ws t =
     sort_key j_started_at
       (filter (\<lambda>j. active (j_status j) \<and> abandoned_condition (now - grace_seconds * SECOND) ws j) t)"

definition requeue_abandoned_active_jobs ::
  "time \<Rightarrow> int \<Rightarrow> worker list \<Rightarrow> job list \<Rightarrow> (string \<times> string) list \<times> job list"
where
  "requeue_abandoned_active_jobs now grace_seconds ws t =
     (let cutoff = now - grace_seconds * SECOND
      in sweep now
           (\<lambda>j. active (j_status j) \<and> abandoned_condition cutoff ws j)
           (\<lambda>j. active (j_status j) \<and> j_updated_at j < cutoff) t)"

section \<open>The claim\<close>

fun oldest :: "job list \<Rightarrow> job option" where
  "oldest [] = None"
| "oldest (j # js) =
     (case oldest js of None \<Rightarrow> Some j
      | Some k \<Rightarrow> if j_created_at j \<le> j_created_at k then Some j else Some k)"

definition claimable :: "string list \<Rightarrow> bool \<Rightarrow> job \<Rightarrow> bool" where
  "claimable codecs supports_downscale j \<longleftrightarrow>
     waiting (j_status j) \<and> j_target_codec j \<in> set codecs
     \<and> (supports_downscale \<or> j_target_height j = None)"

definition claim_codecs :: "string list option \<Rightarrow> string list" where
  "claim_codecs supported_codecs =
     (case supported_codecs of None \<Rightarrow> [''hevc''] | Some [] \<Rightarrow> [''hevc''] | Some (c # cs) \<Rightarrow> c # cs)"

definition claim_next_job ::
  "time \<Rightarrow> string \<Rightarrow> string \<Rightarrow> string list option \<Rightarrow> bool \<Rightarrow> job list \<Rightarrow> job option \<times> job list"
where
  "claim_next_job now new_token worker_id supported_codecs supports_downscale t =
     (let codecs = claim_codecs supported_codecs
      in case oldest (filter (claimable codecs supports_downscale) t) of
           None \<Rightarrow> (None, t)
         | Some k \<Rightarrow>
             (let t' = update_where (\<lambda>j. j_id j = j_id k)
                  (\<lambda>j. j\<lparr>j_status := TRANSCODING, j_worker_id := Some worker_id,
                         j_claim_token := Some new_token, j_started_at := Some now,
                         j_updated_at := now\<rparr>) t
              in (get_job t' (j_id k), t')))"

section \<open>Presence tests and deletion\<close>

definition job_exists_for_path :: "string \<Rightarrow> job list \<Rightarrow> bool" where
  "job_exists_for_path source_path t \<longleftrightarrow>
     length (filter (\<lambda>j. j_source_path j = source_path \<and> j_status j \<notin> {FAILED, CANCELLED}) t) > 0"

definition active_paths :: "string list \<Rightarrow> job list \<Rightarrow> string set" where
  "active_paths paths t =
     (if paths = [] then {}
      else set (map j_source_path
             (filter (\<lambda>j. j_source_path j \<in> set paths \<and> j_status j \<notin> {FAILED, CANCELLED}) t)))"

definition IN_FLIGHT_STATUSES :: "MediaStatus list" where
  "IN_FLIGHT_STATUSES = [M_queued, M_transcoding]"

definition DELETE_CHUNK :: nat where "DELETE_CHUNK = 500"

function batched :: "nat \<Rightarrow> 'a list \<Rightarrow> 'a list list" where
  "batched n xs = (if n = 0 \<or> xs = [] then [] else take n xs # batched n (drop n xs))"
  by pat_completeness auto
termination
  by (relation "measure (\<lambda>(n, xs). length xs)") auto

declare batched.simps [simp del]

definition release_media :: "time \<Rightarrow> media_file \<Rightarrow> media_file" where
  "release_media now m =
     m\<lparr>m_job_id := None,
       m_transcode_status := (if m_transcode_status m \<in> set IN_FLIGHT_STATUSES then M_needs_transcode
                              else m_transcode_status m),
       m_skip_reason := (if m_transcode_status m \<in> set IN_FLIGHT_STATUSES then None
                         else m_skip_reason m),
       m_updated_at := now\<rparr>"

definition points_into :: "string list \<Rightarrow> media_file \<Rightarrow> bool" where
  "points_into ids m = (case m_job_id m of None \<Rightarrow> False | Some j \<Rightarrow> j \<in> set ids)"

fun delete_chunks ::
  "time \<Rightarrow> string list list \<Rightarrow> nat \<Rightarrow> nat \<Rightarrow> job list \<Rightarrow> media_file list
   \<Rightarrow> nat \<times> nat \<times> job list \<times> media_file list"
where
  "delete_chunks now [] removed released t ms = (removed, released, t, ms)"
| "delete_chunks now (ids # rest) removed released t ms =
     delete_chunks now rest
       (removed + rowcount (\<lambda>j. j_id j \<in> set ids) t)
       (released + rowcount (points_into ids) ms)
       (delete_where (\<lambda>j. j_id j \<in> set ids) t)
       (update_where (points_into ids) (release_media now) ms)"

definition selected :: "JobStatus list option \<Rightarrow> job \<Rightarrow> bool" where
  "selected statuses j = (case statuses of None \<Rightarrow> True | Some ss \<Rightarrow> j_status j \<in> set ss)"

definition delete_jobs ::
  "time \<Rightarrow> JobStatus list option \<Rightarrow> job list \<Rightarrow> media_file list \<Rightarrow> nat \<times> nat \<times> job list \<times> media_file list"
where
  "delete_jobs now statuses t ms =
     (if statuses = Some [] then (0, 0, t, ms)
      else let ids = map j_id (filter (selected statuses) t)
           in delete_chunks now (batched DELETE_CHUNK ids) 0 0 t ms)"

section \<open>Facts about the dynamically built updates\<close>

lemma set_fields_simps [simp]:
  "set_fields [] j = j"
  "set_fields (f # fs) j = set_fields fs (set_field f j)"
  by (simp_all add: set_fields_def)

lemma set_fields_append [simp]: "set_fields (fs @ gs) j = set_fields gs (set_fields fs j)"
  by (simp add: set_fields_def)

lemma set_field_frame:
  "col f \<noteq> ''id'' \<Longrightarrow> j_id (set_field f j) = j_id j"
  "col f \<noteq> ''status'' \<Longrightarrow> j_status (set_field f j) = j_status j"
  "col f \<noteq> ''worker_id'' \<Longrightarrow> j_worker_id (set_field f j) = j_worker_id j"
  "col f \<noteq> ''claim_token'' \<Longrightarrow> j_claim_token (set_field f j) = j_claim_token j"
  by (cases f; simp)+

lemma set_fields_frame:
  "''id'' \<notin> set (map col fs) \<Longrightarrow> j_id (set_fields fs j) = j_id j"
  "''status'' \<notin> set (map col fs) \<Longrightarrow> j_status (set_fields fs j) = j_status j"
  "''worker_id'' \<notin> set (map col fs) \<Longrightarrow> j_worker_id (set_fields fs j) = j_worker_id j"
  "''claim_token'' \<notin> set (map col fs) \<Longrightarrow> j_claim_token (set_fields fs j) = j_claim_token j"
  by (induction fs arbitrary: j) (auto simp: set_field_frame)

lemma valid_fields_keep_id: "invalid_cols fs = [] \<Longrightarrow> j_id (set_fields fs j) = j_id j"
proof -
  assume "invalid_cols fs = []"
  then have "set (map col fs) \<subseteq> set VALID_JOB_COLUMNS"
    by (auto simp: invalid_cols_def filter_empty_conv)
  moreover have "''id'' \<notin> set VALID_JOB_COLUMNS" by (simp add: VALID_JOB_COLUMNS_def)
  ultimately show ?thesis by (intro set_fields_frame) blast
qed

lemma no_duplicate_keywords:
  "duplicate_keywords ps fs = [] \<longleftrightarrow> (\<forall>c\<in>set (map col fs). c \<notin> set ps)"
  by (auto simp: duplicate_keywords_def filter_empty_conv)

interpretation jobs: keyed_table j_id get_job update_where
  unfolding get_job_def by (rule keyed_table_find_row)

lemma get_job_Some_iff: "keys_distinct j_id t \<Longrightarrow> get_job t i = Some j \<longleftrightarrow> j \<in> set t \<and> j_id j = i"
  by (simp add: get_job_def find_row_Some_iff)

section \<open>The attempt fence as an interface\<close>

text \<open>
  What the report handlers rely on, whatever the kind of report: a fenced write names a job, a
  worker and an attempt; it reports whether it wrote; a write that lost leaves the table as it
  was; a write that won found the row owned by that worker and that attempt, in a status the
  write admits, and changed no other row. \<open>finalize_job\<close> and \<open>report_progress\<close> are its two
  instances.
\<close>

locale fenced_write =
  fixes op :: "time \<Rightarrow> string \<Rightarrow> string \<Rightarrow> string option \<Rightarrow> 'a \<Rightarrow> job list \<Rightarrow> repo_error + (bool \<times> job list)"
    and admits :: "JobStatus \<Rightarrow> bool"
  assumes lost: "op now i w tok a t = Inr (False, t') \<Longrightarrow> t' = t"
    and won: "op now i w tok a t = Inr (True, t') \<Longrightarrow>
        \<exists>j\<in>set t. j_id j = i \<and> j_worker_id j = Some w \<and> attempt_fence tok j \<and> admits (j_status j)"
    and others: "op now i w tok a t = Inr (b, t') \<Longrightarrow> i' \<noteq> i \<Longrightarrow> get_job t' i' = get_job t i'"
    and keys: "op now i w tok a t = Inr (b, t') \<Longrightarrow> map j_id t' = map j_id t"
begin

lemma stale_attempt_loses:
  assumes "keys_distinct j_id t" and "get_job t i = Some j" and "j_claim_token j \<noteq> Some tok"
    and "op now i w (Some tok) a t = Inr (b, t')"
  shows "\<not> b \<and> t' = t"
proof -
  have "\<not> b"
  proof
    assume b
    then obtain k where "k \<in> set t" "j_id k = i" "attempt_fence (Some tok) k"
      using won assms(4) by fastforce
    with assms(1,2) have "k = j" by (metis get_job_Some_iff option.inject)
    with \<open>attempt_fence (Some tok) k\<close> assms(3) show False by (simp add: attempt_fence_def)
  qed
  with lost assms(4) show ?thesis by auto
qed

lemma disowned_loses:
  assumes "keys_distinct j_id t" and "get_job t i = Some j" and "j_worker_id j \<noteq> Some w"
    and "op now i w tok a t = Inr (b, t')"
  shows "\<not> b \<and> t' = t"
proof -
  have "\<not> b"
  proof
    assume b
    then obtain k where "k \<in> set t" "j_id k = i" "j_worker_id k = Some w"
      using won assms(4) by fastforce
    with assms(1,2) have "k = j" by (metis get_job_Some_iff option.inject)
    with \<open>j_worker_id k = Some w\<close> assms(3) show False by simp
  qed
  with lost assms(4) show ?thesis by auto
qed

end

lemma finalize_job_cases:
  assumes "finalize_job now i w st tok fs t = Inr (b, t')"
  shows "b = (\<exists>j\<in>set t. finalize_guard i w tok j)"
    and "t' = update_where (finalize_guard i w tok) (set_fields (F_status st # fs @ [F_updated_at now])) t"
    and "invalid_cols fs = []"
    and "''status'' \<notin> set (map col fs)" "''worker_id'' \<notin> set (map col fs)"
        "''claim_token'' \<notin> set (map col fs)"
  using assms
  by (auto simp: finalize_job_def Let_def table_simps no_duplicate_keywords split: if_splits)

lemma report_progress_cases:
  assumes "report_progress now i w tok fs t = Inr (b, t')"
  shows "b = (\<exists>j\<in>set t. progress_guard i w tok j)"
    and "t' = update_where (progress_guard i w tok) (set_fields (fs @ [F_updated_at now])) t"
    and "invalid_cols fs = []" "''worker_id'' \<notin> set (map col fs)"
        "''claim_token'' \<notin> set (map col fs)"
  using assms
  by (auto simp: report_progress_def Let_def table_simps no_duplicate_keywords split: if_splits)

interpretation finalize: fenced_write
  "\<lambda>now i w tok a t. finalize_job now i w (fst a) tok (snd a) t" "\<lambda>s. \<not> terminal s"
proof
  fix now i w tok a t t' b i'
  assume *: "finalize_job now i w (fst a) tok (snd a) t = Inr (b, t')"
  note c = finalize_job_cases [OF *]
  have keep: "j_id (set_fields (F_status (fst a) # snd a @ [F_updated_at now]) r) = j_id r" for r
    using valid_fields_keep_id [OF c(3)] by simp
  show "map j_id t' = map j_id t"
    unfolding c(2) by (rule map_key_update_where) (rule keep)
  show "i' \<noteq> i \<Longrightarrow> get_job t' i' = get_job t i'"
    unfolding c(2) by (rule jobs.upd_other) (auto simp: keep finalize_guard_def simp del: set_fields_simps)
next
  fix now i w tok a t t'
  assume *: "finalize_job now i w (fst a) tok (snd a) t = Inr (False, t')"
  note c = finalize_job_cases [OF *]
  from c(1) show "t' = t" unfolding c(2) by (intro update_where_none) auto
next
  fix now i w tok a t t'
  assume *: "finalize_job now i w (fst a) tok (snd a) t = Inr (True, t')"
  from finalize_job_cases(1) [OF *]
  show "\<exists>j\<in>set t. j_id j = i \<and> j_worker_id j = Some w \<and> attempt_fence tok j \<and> \<not> terminal (j_status j)"
    by (auto simp: finalize_guard_def)
qed

interpretation progress: fenced_write report_progress "active"
proof
  fix now i w tok fs t t' b i'
  assume *: "report_progress now i w tok fs t = Inr (b, t')"
  note c = report_progress_cases [OF *]
  have keep: "j_id (set_fields (fs @ [F_updated_at now]) r) = j_id r" for r
    using valid_fields_keep_id [OF c(3)] by simp
  show "map j_id t' = map j_id t"
    unfolding c(2) by (rule map_key_update_where) (rule keep)
  show "i' \<noteq> i \<Longrightarrow> get_job t' i' = get_job t i'"
    unfolding c(2) by (rule jobs.upd_other) (auto simp: keep progress_guard_def simp del: set_fields_append)
next
  fix now i w tok fs t t'
  assume *: "report_progress now i w tok fs t = Inr (False, t')"
  note c = report_progress_cases [OF *]
  from c(1) show "t' = t" unfolding c(2) by (intro update_where_none) auto
next
  fix now i w tok fs t t'
  assume *: "report_progress now i w tok fs t = Inr (True, t')"
  from report_progress_cases(1) [OF *]
  show "\<exists>j\<in>set t. j_id j = i \<and> j_worker_id j = Some w \<and> attempt_fence tok j \<and> active (j_status j)"
    by (auto simp: progress_guard_def)
qed

lemma finalize_job_won_row:
  assumes "keys_distinct j_id t" and "finalize_job now i w st tok fs t = Inr (True, t')"
  obtains j j' where "get_job t i = Some j" "finalize_guard i w tok j" "get_job t' i = Some j'"
    "j_status j' = st" "j_worker_id j' = Some w" "j_claim_token j' = j_claim_token j"
proof -
  note c = finalize_job_cases [OF assms(2)]
  from c(1) obtain j where j: "j \<in> set t" "finalize_guard i w tok j" by auto
  then have g: "get_job t i = Some j"
    by (simp add: get_job_Some_iff assms(1) finalize_guard_def)
  have keep: "j_id (set_fields (F_status st # fs @ [F_updated_at now]) r) = j_id r" for r
    using valid_fields_keep_id [OF c(3)] by simp
  have "get_job t' i = Some (set_fields (F_status st # fs @ [F_updated_at now]) j)"
    unfolding c(2) using g j(2) by (simp add: jobs.get_upd keep del: set_fields_simps)
  moreover have "j_worker_id j = Some w" using j(2) by (simp add: finalize_guard_def)
  ultimately show thesis
    using that [OF g j(2)] c(4-6) by (simp add: set_fields_frame)
qed

section \<open>The claim picks the oldest eligible job\<close>

lemma oldest_None_iff [simp]: "oldest js = None \<longleftrightarrow> js = []"
  by (cases js) (auto split: option.splits)

lemma oldest_SomeD:
  "oldest js = Some k \<Longrightarrow> k \<in> set js \<and> (\<forall>j\<in>set js. j_created_at k \<le> j_created_at j)"
proof (induction js arbitrary: k)
  case (Cons j js)
  then show ?case by (cases "oldest js") (fastforce split: if_splits)+
qed simp

lemma claim_next_job_None:
  assumes "keys_distinct j_id t"
  shows "fst (claim_next_job now tok w cs d t) = None
     \<longleftrightarrow> (\<forall>j\<in>set t. \<not> claimable (claim_codecs cs) d j)"
    and "fst (claim_next_job now tok w cs d t) = None \<Longrightarrow> snd (claim_next_job now tok w cs d t) = t"
proof -
  let ?e = "oldest (filter (claimable (claim_codecs cs) d) t)"
  have eq: "claim_next_job now tok w cs d t =
     (case ?e of None \<Rightarrow> (None, t)
      | Some k \<Rightarrow> (let t' = update_where (\<lambda>j. j_id j = j_id k)
                  (\<lambda>j. j\<lparr>j_status := TRANSCODING, j_worker_id := Some w,
                         j_claim_token := Some tok, j_started_at := Some now,
                         j_updated_at := now\<rparr>) t
              in (get_job t' (j_id k), t')))"
    by (simp add: claim_next_job_def claim_codecs_def Let_def split: option.splits list.splits)
  have some: "fst (claim_next_job now tok w cs d t) \<noteq> None" if "?e = Some k" for k
  proof -
    from oldest_SomeD [OF that] have "get_job t (j_id k) = Some k"
      by (simp add: get_job_Some_iff assms)
    with that show ?thesis by (simp add: eq jobs.get_upd Let_def)
  qed
  show "fst (claim_next_job now tok w cs d t) = None
     \<longleftrightarrow> (\<forall>j\<in>set t. \<not> claimable (claim_codecs cs) d j)"
  proof (cases ?e)
    case None
    then have "filter (claimable (claim_codecs cs) d) t = []" by simp
    with None show ?thesis by (simp add: eq filter_empty_conv)
  next
    case (Some k)
    with oldest_SomeD have "k \<in> set t" "claimable (claim_codecs cs) d k" by fastforce+
    with some [OF Some] show ?thesis by auto
  qed
  show "snd (claim_next_job now tok w cs d t) = t" if "fst (claim_next_job now tok w cs d t) = None"
    using that some by (cases ?e) (auto simp: eq)
qed

lemma claim_next_job_Some:
  assumes "keys_distinct j_id t" and "claim_next_job now tok w cs d t = (Some j, t')"
  obtains k where "get_job t (j_id j) = Some k" "claimable (claim_codecs cs) d k"
    "\<forall>l\<in>set t. claimable (claim_codecs cs) d l \<longrightarrow> j_created_at k \<le> j_created_at l"
    "j = k\<lparr>j_status := TRANSCODING, j_worker_id := Some w, j_claim_token := Some tok,
           j_started_at := Some now, j_updated_at := now\<rparr>"
    "t' = update_where (\<lambda>l. j_id l = j_id j)
            (\<lambda>j. j\<lparr>j_status := TRANSCODING, j_worker_id := Some w, j_claim_token := Some tok,
                   j_started_at := Some now, j_updated_at := now\<rparr>) t"
proof -
  let ?f = "\<lambda>j. j\<lparr>j_status := TRANSCODING, j_worker_id := Some w, j_claim_token := Some tok,
                   j_started_at := Some now, j_updated_at := now\<rparr>"
  from assms(2) obtain k where k: "oldest (filter (claimable (claim_codecs cs) d) t) = Some k"
    and t': "t' = update_where (\<lambda>l. j_id l = j_id k) ?f t" and g: "get_job t' (j_id k) = Some j"
    by (auto simp: claim_next_job_def claim_codecs_def Let_def
        split: option.splits list.splits)
  note o = oldest_SomeD [OF k]
  from o have gk: "get_job t (j_id k) = Some k" by (simp add: get_job_Some_iff assms(1))
  with g t' have j: "j = ?f k" by (simp add: jobs.get_upd)
  then have "j_id j = j_id k" by simp
  with gk o j t' that [of k] show thesis by auto
qed

section \<open>The sweeps\<close>

lemma sweep_rows:
  assumes "keys_distinct j_id t"
  shows "sweep now sub outer t =
    (map (\<lambda>j. (j_id j, j_source_path j)) (filter (\<lambda>j. sub j \<and> outer j) t),
     update_where (\<lambda>j. sub j \<and> outer j) (release_job now) t)"
proof -
  have ids: "j_id j \<in> set (map j_id (filter sub t)) \<longleftrightarrow> sub j" if "j \<in> set t" for j
    using that assms by (auto simp: keys_distinct_def distinct_map inj_on_def)
  have "filter (\<lambda>j. j_id j \<in> set (map j_id (filter sub t)) \<and> outer j) t
      = filter (\<lambda>j. sub j \<and> outer j) t"
    by (rule filter_cong) (use ids in blast)+
  moreover have "update_where (\<lambda>j. j_id j \<in> set (map j_id (filter sub t)) \<and> outer j) (release_job now) t
      = update_where (\<lambda>j. sub j \<and> outer j) (release_job now) t"
    unfolding update_where_def by (rule map_cong [OF refl]) (use ids in presburger)
  ultimately show ?thesis by (simp add: sweep_def Let_def)
qed

lemma release_job_simps [simp]:
  "j_id (release_job now j) = j_id j" "j_status (release_job now j) = QUEUED"
  "j_worker_id (release_job now j) = None" "j_claim_token (release_job now j) = None"
  "j_source_path (release_job now j) = j_source_path j"
  by (simp_all add: release_job_def)

lemma requeue_abandoned_rows:
  assumes "keys_distinct j_id t"
  shows "requeue_abandoned_active_jobs now g ws t =
    (let P = (\<lambda>j. active (j_status j) \<and> abandoned_condition (now - g * SECOND) ws j)
     in (map (\<lambda>j. (j_id j, j_source_path j)) (filter P t), update_where P (release_job now) t))"
proof -
  have "(active (j_status j) \<and> abandoned_condition c ws j) \<and> active (j_status j) \<and> j_updated_at j < c
     \<longleftrightarrow> active (j_status j) \<and> abandoned_condition c ws j" for j c
    by (auto simp: abandoned_condition_def split: option.splits)
  then show ?thesis
    by (simp only: requeue_abandoned_active_jobs_def Let_def sweep_rows [OF assms])
qed

lemma requeue_orphan_rows:
  assumes "keys_distinct j_id t"
  shows "requeue_orphan_active_jobs now idle ws t =
    (let P = (\<lambda>j. active (j_status j) \<and> orphan_worker ws j \<and> j_updated_at j < now - idle * SECOND)
     in (map (\<lambda>j. (j_id j, j_source_path j)) (filter P t), update_where P (release_job now) t))"
proof -
  have "(active (j_status j) \<and> orphan_worker ws j \<and> j_updated_at j < c) \<and> active (j_status j) \<and> j_updated_at j < c
     \<longleftrightarrow> active (j_status j) \<and> orphan_worker ws j \<and> j_updated_at j < c" for j c
    by auto
  then show ?thesis
    by (simp only: requeue_orphan_active_jobs_def Let_def sweep_rows [OF assms])
qed

section \<open>Deletion in chunks\<close>

lemma batched_Nil [simp]: "batched n [] = []"
  by (simp add: batched.simps)

lemma concat_batched: "0 < n \<Longrightarrow> concat (batched n xs) = xs"
proof (induction n xs rule: batched.induct)
  case (1 n xs)
  then show ?case by (cases "xs = []") (simp_all add: batched.simps [of n xs])
qed

lemma batched_bound: "0 < n \<Longrightarrow> c \<in> set (batched n xs) \<Longrightarrow> length c \<le> n \<and> c \<noteq> []"
proof (induction n xs rule: batched.induct)
  case (1 n xs)
  then show ?case by (cases "xs = []") (auto simp: batched.simps [of n xs])
qed

lemma release_media_simps [simp]:
  "m_job_id (release_media now m) = None" "m_id (release_media now m) = m_id m"
  by (simp_all add: release_media_def)

lemma points_into_Nil [simp]: "\<not> points_into [] m"
  by (simp add: points_into_def split: option.splits)

lemma points_into_append: "points_into (xs @ ys) m \<longleftrightarrow> points_into xs m \<or> points_into ys m"
  by (auto simp: points_into_def split: option.splits)

lemma points_into_release [simp]: "\<not> points_into ids (release_media now m)"
  by (simp add: points_into_def)

lemma release_twice:
  "update_where (points_into ys) (release_media now) (update_where (points_into xs) (release_media now) ms)
   = update_where (points_into (xs @ ys)) (release_media now) ms"
  by (auto simp: update_where_def points_into_append)

lemma rowcount_release:
  assumes "set xs \<inter> set ys = {}"
  shows "rowcount (points_into xs) ms + rowcount (points_into ys) (update_where (points_into xs) (release_media now) ms)
       = rowcount (points_into (xs @ ys)) ms"
proof (induction ms)
  case (Cons m ms)
  have "\<not> (points_into xs m \<and> points_into ys m)"
    using assms by (auto simp: points_into_def split: option.splits)
  with Cons show ?case
    by (auto simp: rowcount_def update_where_def points_into_append)
qed (simp add: rowcount_def update_where_def)

lemma rowcount_delete:
  assumes "set xs \<inter> set ys = {}"
  shows "rowcount (\<lambda>j. j_id j \<in> set xs) t + rowcount (\<lambda>j. j_id j \<in> set ys) (delete_where (\<lambda>j. j_id j \<in> set xs) t)
       = rowcount (\<lambda>j. j_id j \<in> set (xs @ ys)) t"
proof (induction t)
  case (Cons j t)
  have "\<not> (j_id j \<in> set xs \<and> j_id j \<in> set ys)" using assms by auto
  with Cons show ?case by (auto simp: rowcount_def delete_where_def)
qed (simp add: rowcount_def delete_where_def)

lemma delete_chunks_at_once:
  "distinct (concat cs) \<Longrightarrow> delete_chunks now cs r s t ms =
     (r + rowcount (\<lambda>j. j_id j \<in> set (concat cs)) t, s + rowcount (points_into (concat cs)) ms,
      delete_where (\<lambda>j. j_id j \<in> set (concat cs)) t,
      update_where (points_into (concat cs)) (release_media now) ms)"
proof (induction cs arbitrary: r s t ms)
  case Nil
  show ?case
    by (simp add: rowcount_def delete_where_def update_where_def)
next
  case (Cons c cs)
  let ?y = "concat cs"
  have disj: "set c \<inter> set ?y = {}" and dist: "distinct ?y" using Cons.prems by auto
  have del: "delete_where (\<lambda>j. j_id j \<in> set ?y) (delete_where (\<lambda>j. j_id j \<in> set c) t)
       = delete_where (\<lambda>j. j_id j \<in> set (c @ ?y)) t"
    by (auto simp: delete_where_def intro!: filter_cong)
  show ?case
    using Cons.IH [OF dist] rowcount_delete [OF disj, of t] rowcount_release [OF disj, of ms now]
    by (simp add: del release_twice del: set_concat)
qed

section \<open>Properties of the repository\<close>

text \<open>
  C10. The terminal transition is a fence: it wins exactly when the named job is owned by the
  reporting worker, runs the attempt the report names (when it names one) and is not terminal
  yet. Losing changes nothing at all; winning sets that job's status, keeps its owner and
  attempt, and touches no other job.
\<close>

theorem finalize_job_fence:
  assumes "keys_distinct j_id t" and "finalize_job now i w st tok fs t = Inr (b, t')"
  shows "(b \<longleftrightarrow> (\<exists>j. get_job t i = Some j \<and> j_worker_id j = Some w
              \<and> (tok = None \<or> j_claim_token j = tok) \<and> \<not> terminal (j_status j)))
    \<and> (\<not> b \<longrightarrow> t' = t)
    \<and> (b \<longrightarrow> (\<exists>j j'. get_job t i = Some j \<and> get_job t' i = Some j' \<and> j_status j' = st
              \<and> j_worker_id j' = Some w \<and> j_claim_token j' = j_claim_token j))
    \<and> (\<forall>i'. i' \<noteq> i \<longrightarrow> get_job t' i' = get_job t i')"
proof (intro conjI allI impI)
  have fence: "attempt_fence tok j \<longleftrightarrow> tok = None \<or> j_claim_token j = tok" for j
    by (cases tok) (simp_all add: attempt_fence_def)
  show "b \<longleftrightarrow> (\<exists>j. get_job t i = Some j \<and> j_worker_id j = Some w
              \<and> (tok = None \<or> j_claim_token j = tok) \<and> \<not> terminal (j_status j))"
    by (auto simp: finalize_job_cases(1) [OF assms(2)] finalize_guard_def fence
        get_job_Some_iff assms(1))
  show "t' = t" if "\<not> b" using that assms(2) finalize.lost [where a = "(st, fs)"] by simp
  show "\<exists>j j'. get_job t i = Some j \<and> get_job t' i = Some j' \<and> j_status j' = st
              \<and> j_worker_id j' = Some w \<and> j_claim_token j' = j_claim_token j" if b
    using that assms finalize_job_won_row by (metis (full_types))
  show "get_job t' i' = get_job t i'" if "i' \<noteq> i" for i'
    using that assms(2) finalize.others [where a = "(st, fs)"] by simp
qed

theorem finalize_job_fence_witness:
  "\<exists>t'. finalize_job 5 ''j1'' ''w1'' COMPLETE (Some ''tok1'') [F_progress 1] [demo_job] = Inr (True, t')
    \<and> (\<forall>i'. i' \<noteq> ''j1'' \<longrightarrow> get_job t' i' = get_job [demo_job] i')"
proof -
  have d: "keys_distinct j_id [demo_job]" by (simp add: keys_distinct_def)
  let ?r = "update_where (finalize_guard ''j1'' ''w1'' (Some ''tok1''))
       (set_fields [F_status COMPLETE, F_progress 1, F_updated_at 5]) [demo_job]"
  have f: "finalize_job 5 ''j1'' ''w1'' COMPLETE (Some ''tok1'') [F_progress 1] [demo_job]
       = Inr (True, ?r)"
    by (simp add: finalize_job_def duplicate_keywords_def invalid_cols_def VALID_JOB_COLUMNS_def
        rowcount_def finalize_guard_def attempt_fence_def new_job_def status_sets)
  from finalize_job_fence [OF d f] f show ?thesis by blast
qed

text \<open>
  Of two terminal reports for the same attempt exactly one takes effect, in whichever order
  they arrive: once one has won, the other finds the job terminal and changes nothing, so the
  first outcome stands.
\<close>

lemma terminal_reports_one_winner:
  assumes "keys_distinct j_id t" and "terminal st1"
    and "finalize_job now1 i w1 st1 tok1 fs1 t = Inr (True, t1)"
    and "finalize_job now2 i w2 st2 tok2 fs2 t1 = Inr (b, t2)"
  shows "\<not> b \<and> t2 = t1 \<and> (\<exists>j. get_job t2 i = Some j \<and> j_status j = st1)"
proof -
  have "map j_id t1 = map j_id t"
    using finalize.keys [where a = "(st1, fs1)"] assms(3) by simp
  with assms(1) have d1: "keys_distinct j_id t1" by (simp add: keys_distinct_def)
  obtain j' where j': "get_job t1 i = Some j'" "j_status j' = st1"
    using finalize_job_won_row [OF assms(1,3)] by metis
  have "\<not> b"
  proof
    assume b
    with finalize_job_cases(1) [OF assms(4)] obtain k where "k \<in> set t1" "finalize_guard i w2 tok2 k"
      by auto
    with j' d1 have "k = j'" by (metis get_job_Some_iff finalize_guard_def option.inject)
    with \<open>finalize_guard i w2 tok2 k\<close> j'(2) assms(2) show False by (simp add: finalize_guard_def)
  qed
  with assms(4) have "finalize_job now2 i w2 st2 tok2 fs2 t1 = Inr (False, t2)" by simp
  then have "t2 = t1" using finalize.lost [where a = "(st2, fs2)"] by simp
  with \<open>\<not> b\<close> j' show ?thesis by blast
qed

text \<open>
  C11. A claim returns nothing exactly when no waiting job has a codec the worker advertises (and
  no downscale it cannot do), and then changes nothing. Otherwise it returns an eligible job no
  eligible job is older than, now transcoding under this worker and this fresh attempt, and
  every other job is untouched.
\<close>

theorem claim_next_job_oldest_eligible:
  assumes "keys_distinct j_id t" and "claim_next_job now tok w cs d t = (r, t')"
  shows "(r = None \<longleftrightarrow> (\<forall>j\<in>set t. \<not> claimable (claim_codecs cs) d j)) \<and> (r = None \<longrightarrow> t' = t)
    \<and> (\<forall>j. r = Some j \<longrightarrow>
         (\<exists>k. get_job t (j_id j) = Some k \<and> claimable (claim_codecs cs) d k
            \<and> (\<forall>l\<in>set t. claimable (claim_codecs cs) d l \<longrightarrow> j_created_at k \<le> j_created_at l))
         \<and> get_job t' (j_id j) = Some j \<and> j_status j = TRANSCODING
         \<and> j_worker_id j = Some w \<and> j_claim_token j = Some tok
         \<and> (\<forall>i. i \<noteq> j_id j \<longrightarrow> get_job t' i = get_job t i))"
proof (intro conjI allI impI)
  have r: "r = fst (claim_next_job now tok w cs d t)" "t' = snd (claim_next_job now tok w cs d t)"
    by (simp_all add: assms(2))
  show "r = None \<longleftrightarrow> (\<forall>j\<in>set t. \<not> claimable (claim_codecs cs) d j)"
    unfolding r by (rule claim_next_job_None(1) [OF assms(1)])
  show "t' = t" if "r = None"
    using that unfolding r by (rule claim_next_job_None(2) [OF assms(1)])
  fix j assume "r = Some j"
  with assms(2) have c: "claim_next_job now tok w cs d t = (Some j, t')" by simp
  obtain k where k: "get_job t (j_id j) = Some k" "claimable (claim_codecs cs) d k"
    "\<forall>l\<in>set t. claimable (claim_codecs cs) d l \<longrightarrow> j_created_at k \<le> j_created_at l"
    "j = k\<lparr>j_status := TRANSCODING, j_worker_id := Some w, j_claim_token := Some tok,
           j_started_at := Some now, j_updated_at := now\<rparr>"
    "t' = update_where (\<lambda>l. j_id l = j_id j)
            (\<lambda>j. j\<lparr>j_status := TRANSCODING, j_worker_id := Some w, j_claim_token := Some tok,
                   j_started_at := Some now, j_updated_at := now\<rparr>) t"
    by (rule claim_next_job_Some [OF assms(1) c])
  from k(1-3) show "\<exists>k. get_job t (j_id j) = Some k \<and> claimable (claim_codecs cs) d k
            \<and> (\<forall>l\<in>set t. claimable (claim_codecs cs) d l \<longrightarrow> j_created_at k \<le> j_created_at l)"
    by blast
  from k(4) show "j_status j = TRANSCODING" "j_worker_id j = Some w" "j_claim_token j = Some tok"
    by simp_all
  from k(4) have id: "j_id j = j_id k" by simp
  show "get_job t' (j_id j) = Some j"
    unfolding k(5) using k(1,4) id by (simp add: jobs.get_upd)
  show "get_job t' i = get_job t i" if "i \<noteq> j_id j" for i
    unfolding k(5) using that by (intro jobs.upd_other) auto
qed

theorem claim_next_job_oldest_eligible_witness:
  "\<exists>j t'. claim_next_job 9 ''tok2'' ''w2'' None False
        [demo_pending ''j2'' 4, demo_job, demo_pending ''j3'' 3] = (Some j, t')
     \<and> j_id j = ''j3'' \<and> j_claim_token j = Some ''tok2''"
proof -
  let ?t = "[demo_pending ''j2'' 4, demo_job, demo_pending ''j3'' 3]"
  have d: "keys_distinct j_id ?t" by (simp add: keys_distinct_def)
  obtain r t' where c: "claim_next_job 9 ''tok2'' ''w2'' None False ?t = (r, t')" by (rule prod.exhaust)
  have e: "claimable (claim_codecs None) False (demo_pending i x)" for i x
    by (simp add: claimable_def claim_codecs_def status_sets)
  have n: "\<not> claimable (claim_codecs None) False demo_job"
    by (simp add: claimable_def status_sets)
  note th = claim_next_job_oldest_eligible [OF d c]
  from th [THEN conjunct1] e obtain j where r: "r = Some j" by auto
  from th [THEN conjunct2, THEN conjunct2, rule_format, OF r]
  obtain k where k: "get_job ?t (j_id j) = Some k" "claimable (claim_codecs None) False k"
      "\<forall>l\<in>set ?t. claimable (claim_codecs None) False l \<longrightarrow> j_created_at k \<le> j_created_at l"
    and tok: "j_claim_token j = Some ''tok2''" by blast
  from k(1) have m: "k \<in> set ?t" "j_id k = j_id j" using d by (simp_all add: get_job_Some_iff)
  from k(3) e have "j_created_at k \<le> 3" by simp
  with m k(2) n have "j_id j = ''j3''" by auto
  with c r tok show ?thesis by blast
qed

text \<open>
  C15. The two sweeps agree with the reports the audit shows and never touch what they should not.
  The abandoned-job sweep requeues exactly the jobs \<open>find_abandoned_active_jobs\<close> lists; a job its
  live worker still names in its heartbeat, and every job that is not active, keeps its row
  unchanged however stale it is.
\<close>

theorem abandoned_sweep_exact:
  assumes "keys_distinct j_id t" and "requeue_abandoned_active_jobs now g ws t = (ids, t')"
  shows "set (map fst ids) = set (map j_id (find_abandoned_active_jobs now g ws t))
    \<and> (\<forall>j\<in>set t. get_job t' (j_id j) =
         Some (if j_id j \<in> set (map fst ids) then release_job now j else j))
    \<and> (\<forall>j\<in>set t. \<forall>w. worker_of ws j = Some w \<and> w_current_job_id w = Some (j_id j)
         \<longrightarrow> j_id j \<notin> set (map fst ids))
    \<and> (\<forall>j\<in>set t. \<not> active (j_status j) \<longrightarrow> j_id j \<notin> set (map fst ids))"
proof -
  let ?P = "\<lambda>j. active (j_status j) \<and> abandoned_condition (now - g * SECOND) ws j"
  from assms have ids: "ids = map (\<lambda>j. (j_id j, j_source_path j)) (filter ?P t)"
    and t': "t' = update_where ?P (release_job now) t"
    by (simp_all add: requeue_abandoned_rows Let_def)
  have mem: "j_id j \<in> set (map fst ids) \<longleftrightarrow> ?P j" if "j \<in> set t" for j
    using that assms(1) by (auto simp: ids keys_distinct_def distinct_map inj_on_def)
  have "set (map fst ids) = set (map j_id (find_abandoned_active_jobs now g ws t))"
    by (auto simp: ids find_abandoned_active_jobs_def)
  moreover have "get_job t' (j_id j) =
         Some (if j_id j \<in> set (map fst ids) then release_job now j else j)" if "j \<in> set t" for j
  proof -
    from that have "get_job t (j_id j) = Some j" by (simp add: get_job_Some_iff assms(1))
    then show ?thesis using mem [OF that] by (simp add: t' jobs.get_upd)
  qed
  moreover have "\<not> ?P j" if "worker_of ws j = Some w" "w_current_job_id w = Some (j_id j)" for j w
    using that by (simp add: abandoned_condition_def)
  ultimately show ?thesis using mem by (intro conjI ballI allI impI) auto
qed

theorem abandoned_sweep_exact_witness:
  "\<exists>ids t'. requeue_abandoned_active_jobs (1000 * SECOND) 120 [(blank_worker ''w1'')
        \<lparr>w_status := ONLINE, w_current_job_changed_at := Some 0\<rparr>] [demo_job] = (ids, t')
     \<and> set (map fst ids) = {''j1''} \<and> get_job t' ''j1'' = Some (release_job (1000 * SECOND) demo_job)"
proof -
  define ws where "ws = [(blank_worker ''w1'')\<lparr>w_status := ONLINE, w_current_job_changed_at := Some 0\<rparr>]"
  obtain ids t' where r: "requeue_abandoned_active_jobs (1000 * SECOND) 120 ws [demo_job] = (ids, t')"
    by (metis surj_pair)
  have d: "keys_distinct j_id [demo_job]" by (simp add: keys_distinct_def)
  have "map j_id (find_abandoned_active_jobs (1000 * SECOND) 120 ws [demo_job]) = [''j1'']"
    by (simp add: find_abandoned_active_jobs_def abandoned_condition_def worker_of_def find_row_def
        status_sets new_job_def blank_worker_def SECOND_def ws_def )
  moreover have "j_id demo_job = ''j1''" by (simp add: new_job_def )
  moreover note th = abandoned_sweep_exact [OF d r]
  ultimately have ids: "set (map fst ids) = {''j1''}" by (metis list.simps(15) empty_set)
  with th [THEN conjunct2, THEN conjunct1] \<open>j_id demo_job = ''j1''\<close>
  have "get_job t' ''j1'' = Some (release_job (1000 * SECOND) demo_job)" by (metis list.set_intros(1) singletonI)
  with r ids show ?thesis unfolding ws_def  by (intro exI conjI)
qed

lemma gone_iff:
  assumes "keys_distinct j_id t" and "j \<in> set t"
  shows "j_id j \<in> set (map j_id (filter P t)) \<longleftrightarrow> P j"
  using assms by (auto simp: keys_distinct_def distinct_map inj_on_def)

lemma delete_jobs_result:
  assumes "keys_distinct j_id t"
  shows "delete_jobs now st t ms =
     (length (filter (selected st) t), rowcount (points_into (map j_id (filter (selected st) t))) ms,
      filter (\<lambda>j. \<not> selected st j) t,
      update_where (points_into (map j_id (filter (selected st) t))) (release_media now) ms)"
proof (cases "st = Some []")
  case True
  then show ?thesis by (simp add: delete_jobs_def selected_def rowcount_def update_where_def)
next
  case False
  let ?gone = "map j_id (filter (selected st) t)"
  have dist: "distinct ?gone"
    using assms(1) by (simp add: keys_distinct_def distinct_map_filter)
  have cat: "concat (batched DELETE_CHUNK ?gone) = ?gone"
    by (rule concat_batched) (simp add: DELETE_CHUNK_def)
  have del: "delete_where (\<lambda>j. j_id j \<in> set ?gone) t = filter (\<lambda>j. \<not> selected st j) t"
    unfolding delete_where_def by (rule filter_cong [OF refl]) (use gone_iff [OF assms] in blast)
  have cnt: "rowcount (\<lambda>j. j_id j \<in> set ?gone) t = length (filter (selected st) t)"
    unfolding rowcount_def by (rule arg_cong [where f = length], rule filter_cong [OF refl])
      (use gone_iff [OF assms] in blast)
  from False delete_chunks_at_once [of "batched DELETE_CHUNK ?gone" now 0 0 t ms] dist
  show ?thesis by (simp only: delete_jobs_def Let_def cat del cnt if_False add_0)
qed

text \<open>
  Deleting jobs releases the catalog: exactly the jobs in the given statuses go, however many
  chunks the statement needed, the counts returned are the numbers of jobs removed and catalog
  rows released, and afterwards no catalog row points at a job that was removed. A released row
  that was queued or transcoding becomes transcodable again; every other row is unchanged.
\<close>

lemma delete_jobs_releases_catalog:
  assumes "keys_distinct j_id t" and "delete_jobs now st t ms = (removed, released, t', ms')"
  shows "t' = filter (\<lambda>j. \<not> selected st j) t
    \<and> removed = length t - length t'
    \<and> (let gone = map j_id (filter (selected st) t)
       in released = rowcount (points_into gone) ms
        \<and> ms' = map (\<lambda>m. if points_into gone m then release_media now m else m) ms
        \<and> (\<forall>m\<in>set ms'. \<not> points_into gone m))"
proof -
  let ?gone = "map j_id (filter (selected st) t)"
  have len: "length (filter P t) = length t - length (filter (\<lambda>j. \<not> P j) t)" for P
    using sum_length_filter_compl [of P t] by simp
  have free: "\<not> points_into ids (release_media now m)" for ids m
    by (simp add: points_into_def release_media_def)
  from delete_jobs_result [OF assms(1)] assms(2) have
    "removed = length (filter (selected st) t)"
    "released = rowcount (points_into ?gone) ms" "t' = filter (\<lambda>j. \<not> selected st j) t"
    "ms' = update_where (points_into ?gone) (release_media now) ms" by simp_all
  then show ?thesis using len [of "selected st"] free
    by (auto simp: Let_def update_where_def)
qed

end
