(* ===== verification/WorkerRepo.thy ===== *)
theory WorkerRepo
  imports JobRepo
begin

text \<open>
  The worker and worker-token repositories (\<open>repos/workers.py\<close>, \<open>repos/worker_tokens.py\<close>):
  registration upsert, the heartbeat with its transition stamp, the stale-worker sweep, and the
  token table with its compare-and-set binding, lookup and revocation. The keyed hash of a token
  (HMAC-SHA256 under the process pepper) is the argument \<open>hash_token\<close>. Strings are UTF-8 byte
  strings, so the masking ellipsis of a fingerprint is the three bytes of U+2026.
\<close>

section \<open>Workers\<close>

definition get_worker :: "worker list \<Rightarrow> string \<Rightarrow> worker option" where
  "get_worker = find_row w_id"

definition list_workers :: "worker list \<Rightarrow> worker list" where
  "list_workers ws = sort_key w_name ws"

text \<open>\<open>ON CONFLICT(id) DO UPDATE\<close>: an existing row keeps \<open>current_job_changed_at\<close> and
  \<open>registered_at\<close>, everything else is the new row's.\<close>

definition upsert_worker :: "time \<Rightarrow> worker \<Rightarrow> worker list \<Rightarrow> worker list" where
  "upsert_worker now w ws =
     (if w_id w \<in> w_id ` set ws
      then update_where (\<lambda>r. w_id r = w_id w)
             (\<lambda>r. w\<lparr>w_last_heartbeat := Some now, w_updated_at := now,
                    w_current_job_changed_at := w_current_job_changed_at r,
                    w_registered_at := w_registered_at r\<rparr>) ws
      else ws @ [w\<lparr>w_last_heartbeat := Some now, w_updated_at := now, w_registered_at := now,
                   w_current_job_changed_at := None\<rparr>])"

definition update_worker_heartbeat ::
  "time \<Rightarrow> string \<Rightarrow> WorkerStatus \<Rightarrow> string option \<Rightarrow> worker list \<Rightarrow> worker list"
where
  "update_worker_heartbeat now worker_id status current_job_id ws =
     update_where (\<lambda>r. w_id r = worker_id)
       (\<lambda>r. r\<lparr>w_last_heartbeat := Some now, w_status := status,
              w_current_job_changed_at :=
                (if (\<exists>c. w_current_job_id r = Some c \<and> current_job_id = Some c)
                    \<or> (w_current_job_id r = None \<and> current_job_id = None)
                 then w_current_job_changed_at r else Some now),
              w_current_job_id := current_job_id, w_updated_at := now\<rparr>) ws"

definition update_worker_status :: "time \<Rightarrow> string \<Rightarrow> WorkerStatus \<Rightarrow> worker list \<Rightarrow> worker list" where
  "update_worker_status now worker_id status ws =
     update_where (\<lambda>r. w_id r = worker_id) (\<lambda>r. r\<lparr>w_status := status, w_updated_at := now\<rparr>) ws"

definition delete_worker :: "string \<Rightarrow> worker list \<Rightarrow> bool \<times> worker list" where
  "delete_worker worker_id ws =
     (rowcount (\<lambda>r. w_id r = worker_id) ws \<noteq> 0, delete_where (\<lambda>r. w_id r = worker_id) ws)"

definition count_active_jobs_for_worker :: "string \<Rightarrow> job list \<Rightarrow> nat" where
  "count_active_jobs_for_worker worker_id t =
     length (filter (\<lambda>j. j_worker_id j = Some worker_id \<and> active (j_status j)) t)"

definition stale_worker :: "time \<Rightarrow> int \<Rightarrow> worker \<Rightarrow> bool" where
  "stale_worker now timeout_seconds r \<longleftrightarrow>
     alive (w_status r)
     \<and> (case w_last_heartbeat r of None \<Rightarrow> False | Some h \<Rightarrow> h < now - timeout_seconds * SECOND)"

definition cleanup_stale_workers :: "time \<Rightarrow> int \<Rightarrow> worker list \<Rightarrow> nat \<times> worker list" where
  "cleanup_stale_workers now timeout_seconds ws =
     (rowcount (stale_worker now timeout_seconds) ws,
      update_where (stale_worker now timeout_seconds)
        (\<lambda>r. r\<lparr>w_status := DEAD, w_updated_at := now\<rparr>) ws)"

section \<open>Worker tokens\<close>

definition FINGERPRINT_LEN :: nat where "FINGERPRINT_LEN = 6"

definition fingerprint_prefix :: "string \<Rightarrow> string" where
  "fingerprint_prefix token = take FINGERPRINT_LEN token"

definition ELLIPSIS :: string where
  "ELLIPSIS = map char_of [226, 128, 166 :: nat]"

text \<open>\<open>token\<close> is the freshly generated secret; the row keeps only its hash and prefix.\<close>

definition create_token ::
  "(string \<Rightarrow> string) \<Rightarrow> time \<Rightarrow> string \<Rightarrow> string \<Rightarrow> time option \<Rightarrow> worker_token list
   \<Rightarrow> string \<times> worker_token list"
where
  "create_token hash_token now token label expires_at ts =
     (token, ts @ [\<lparr>t_hash = hash_token token, t_prefix = fingerprint_prefix token, t_label = label,
                    t_worker_id = None, t_created_at = now, t_revoked_at = None,
                    t_last_used_at = None, t_expires_at = expires_at\<rparr>])"

definition list_all_tokens :: "worker_token list \<Rightarrow> (string \<times> worker_token) list" where
  "list_all_tokens ts =
     map (\<lambda>r. (t_prefix r @ ELLIPSIS, r)) (rev (sort_key t_created_at ts))"

definition usable_token :: "time \<Rightarrow> worker_token \<Rightarrow> bool" where
  "usable_token now r \<longleftrightarrow>
     t_revoked_at r = None \<and> (case t_expires_at r of None \<Rightarrow> True | Some e \<Rightarrow> now < e)"

definition find_active ::
  "(string \<Rightarrow> string) \<Rightarrow> time \<Rightarrow> string \<Rightarrow> worker_token list \<Rightarrow> worker_token option"
where
  "find_active hash_token now token ts =
     find (\<lambda>r. t_hash r = hash_token token \<and> usable_token now r) ts"

definition link_worker ::
  "string \<Rightarrow> string \<Rightarrow> string option \<Rightarrow> worker_token list \<Rightarrow> bool \<times> worker_token list"
where
  "link_worker token_hash worker_id expected_worker_id ts =
     (let P = (\<lambda>r. t_hash r = token_hash \<and> t_worker_id r = expected_worker_id)
      in (rowcount P ts \<noteq> 0, update_where P (\<lambda>r. r\<lparr>t_worker_id := Some worker_id\<rparr>) ts))"

definition touch_token :: "(string \<Rightarrow> string) \<Rightarrow> time \<Rightarrow> string \<Rightarrow> worker_token list \<Rightarrow> worker_token list" where
  "touch_token hash_token now token ts =
     update_where (\<lambda>r. t_hash r = hash_token token) (\<lambda>r. r\<lparr>t_last_used_at := Some now\<rparr>) ts"

text \<open>\<open>s.split(sep)[0]\<close>: everything before the first occurrence of \<open>sep\<close>.\<close>

fun before_first :: "string \<Rightarrow> string \<Rightarrow> string" where
  "before_first sep [] = []"
| "before_first sep (x # xs) = (if prefix sep (x # xs) then [] else x # before_first sep xs)"

definition match_clause :: "(string \<Rightarrow> string) \<Rightarrow> string \<Rightarrow> worker_token \<Rightarrow> bool" where
  "match_clause hash_token tf r =
     (if sublist ELLIPSIS tf then t_prefix r = before_first ELLIPSIS tf
      else t_hash r = hash_token tf)"

definition find_worker_id_for_token ::
  "(string \<Rightarrow> string) \<Rightarrow> string \<Rightarrow> worker_token list \<Rightarrow> string option"
where
  "find_worker_id_for_token hash_token tf ts =
     (case find (match_clause hash_token tf) ts of None \<Rightarrow> None | Some r \<Rightarrow> t_worker_id r)"

definition revoke_token ::
  "(string \<Rightarrow> string) \<Rightarrow> time \<Rightarrow> string \<Rightarrow> worker_token list \<Rightarrow> bool \<times> worker_token list"
where
  "revoke_token hash_token now tf ts =
     (let P = (\<lambda>r. match_clause hash_token tf r \<and> t_revoked_at r = None)
      in (rowcount P ts \<noteq> 0, update_where P (\<lambda>r. r\<lparr>t_revoked_at := Some now\<rparr>) ts))"

definition demo_token :: worker_token where
  "demo_token = \<lparr>t_hash = ''h'', t_prefix = ''abc123'', t_label = ''gpu'', t_worker_id = None,
     t_created_at = 0, t_revoked_at = None, t_last_used_at = None, t_expires_at = None\<rparr>"

section \<open>Facts\<close>

interpretation workers: keyed_table w_id get_worker update_where
  unfolding get_worker_def by (rule keyed_table_find_row)

interpretation tokens: keyed_table t_hash "find_row t_hash" update_where
  by (rule keyed_table_find_row)

lemma get_worker_upsert:
  "get_worker (upsert_worker now w ws) i =
     (if i = w_id w then
        Some (w\<lparr>w_last_heartbeat := Some now, w_updated_at := now,
                w_current_job_changed_at :=
                  (case get_worker ws i of None \<Rightarrow> None | Some r \<Rightarrow> w_current_job_changed_at r),
                w_registered_at := (case get_worker ws i of None \<Rightarrow> now | Some r \<Rightarrow> w_registered_at r)\<rparr>)
      else get_worker ws i)"
proof (cases "w_id w \<in> w_id ` set ws")
  case True
  let ?f = "\<lambda>r. w\<lparr>w_last_heartbeat := Some now, w_updated_at := now,
       w_current_job_changed_at := w_current_job_changed_at r, w_registered_at := w_registered_at r\<rparr>"
  have u: "upsert_worker now w ws = map (\<lambda>r. if w_id r = w_id w then ?f r else r) ws"
    using True by (simp add: upsert_worker_def update_where_def)
  have f: "find_row w_id (map (\<lambda>r. if w_id r = w_id w then ?f r else r) ws) i
      = map_option (\<lambda>r. if w_id r = w_id w then ?f r else r) (find_row w_id ws i)" for i
    by (induction ws) (auto simp: find_row_def)
  show ?thesis
  proof (cases "find_row w_id ws i")
    case None
    with True have "i \<noteq> w_id w" by (auto simp: find_row_None_iff)
    with None show ?thesis by (simp add: u f get_worker_def)
  next
    case (Some r)
    with find_row_SomeD [OF Some] show ?thesis
      by (cases "i = w_id w") (simp_all add: u f get_worker_def)
  qed
next
  case False
  have f: "find_row w_id (ws @ [r]) i = (case find_row w_id ws i of None \<Rightarrow> if w_id r = i then Some r else None
      | Some x \<Rightarrow> Some x)" for r i
    by (induction ws) (auto simp: find_row_def)
  have n: "find_row w_id ws (w_id w) = None" using False by (simp add: find_row_None_iff)
  with False show ?thesis
    by (cases "find_row w_id ws i") (auto simp: upsert_worker_def get_worker_def f)
qed

text \<open>
  A heartbeat stamps \<open>current_job_changed_at\<close> exactly when it changes which job the worker
  names (a change to or from no job included); repeating the same job keeps the stamp, so the
  stamp always dates the start of the current, uninterrupted claim. The rows of other workers
  are untouched.
\<close>

lemma heartbeat_dates_job_change:
  assumes "get_worker ws i = Some r"
  shows "\<exists>r'. get_worker (update_worker_heartbeat now i st cur ws) i = Some r'
      \<and> w_current_job_id r' = cur \<and> w_status r' = st \<and> w_last_heartbeat r' = Some now
      \<and> w_current_job_changed_at r' =
          (if w_current_job_id r = cur then w_current_job_changed_at r else Some now)
      \<and> (\<forall>k. k \<noteq> i \<longrightarrow> get_worker (update_worker_heartbeat now i st cur ws) k = get_worker ws k)"
proof -
  let ?f = "\<lambda>r. r\<lparr>w_last_heartbeat := Some now, w_status := st,
      w_current_job_changed_at :=
        (if (\<exists>c. w_current_job_id r = Some c \<and> cur = Some c) \<or> (w_current_job_id r = None \<and> cur = None)
         then w_current_job_changed_at r else Some now),
      w_current_job_id := cur, w_updated_at := now\<rparr>"
  from assms workers.get_key have "w_id r = i" by blast
  with assms have g: "get_worker (update_worker_heartbeat now i st cur ws) i = Some (?f r)"
    by (simp add: update_worker_heartbeat_def workers.get_upd)
  have o: "get_worker (update_worker_heartbeat now i st cur ws) k = get_worker ws k" if "k \<noteq> i" for k
    unfolding update_worker_heartbeat_def using that by (intro workers.upd_other) auto
  have "((\<exists>c. w_current_job_id r = Some c \<and> cur = Some c) \<or> (w_current_job_id r = None \<and> cur = None))
      \<longleftrightarrow> w_current_job_id r = cur"
    by (cases cur) auto
  with g o show ?thesis by auto
qed

text \<open>
  Two registrations racing to bind the same unbound token cannot both win: after one
  compare-and-set from a binding \<open>e\<close> succeeded, a second one from the same \<open>e\<close> matches no row and
  leaves the table as the first left it. (The new worker id is fresh, so it differs from \<open>e\<close>.)
\<close>

lemma link_worker_single_winner:
  assumes "link_worker h w1 e ts = (True, ts1)" and "e \<noteq> Some w1"
    and "link_worker h w2 e ts1 = (b, ts2)"
  shows "\<not> b \<and> ts2 = ts1 \<and> (\<forall>r\<in>set ts2. t_hash r = h \<longrightarrow> t_worker_id r \<noteq> e)"
proof -
  let ?P = "\<lambda>r. t_hash r = h \<and> t_worker_id r = e"
  from assms(1) have ts1: "ts1 = update_where ?P (\<lambda>r. r\<lparr>t_worker_id := Some w1\<rparr>) ts"
    by (simp add: link_worker_def Let_def)
  have no: "\<not> ?P r" if "r \<in> set ts1" for r
  proof -
    from that obtain r0 where "r = (if ?P r0 then r0\<lparr>t_worker_id := Some w1\<rparr> else r0)"
      unfolding ts1 set_update_where by blast
    with assms(2) show ?thesis by (cases "?P r0") auto
  qed
  from assms(3) have b: "b \<longleftrightarrow> rowcount ?P ts1 \<noteq> 0"
    and ts2: "ts2 = update_where ?P (\<lambda>r. r\<lparr>t_worker_id := Some w2\<rparr>) ts1"
    unfolding link_worker_def Let_def by blast+
  have "rowcount ?P ts1 = 0" using no by (simp add: rowcount_zero)
  with b have nb: "\<not> b" by simp
  have eq: "ts2 = ts1" unfolding ts2 using no by (intro update_where_none) blast
  show ?thesis unfolding eq using nb no by blast
qed

lemma before_first_marker:
  "c \<notin> set p \<Longrightarrow> before_first (c # sep) (p @ c # sep) = p"
  by (induction p) auto

lemma ellipsis_absent:
  assumes "char_of (226 :: nat) \<notin> set p"
  shows "\<not> sublist ELLIPSIS p" and "before_first ELLIPSIS (p @ ELLIPSIS) = p"
proof -
  show "\<not> sublist ELLIPSIS p"
    using assms set_mono_sublist [of ELLIPSIS p] by (auto simp: ELLIPSIS_def)
  show "before_first ELLIPSIS (p @ ELLIPSIS) = p"
    using before_first_marker [OF assms, of "map char_of [128, 166 :: nat]"]
    by (simp add: ELLIPSIS_def)
qed

text \<open>
  Revocation is immediate: after a token was revoked under its raw value, or under the
  fingerprint the interface shows for it, no request carrying that token authenticates, at any
  time. Rows the argument does not name are unchanged.
\<close>

lemma revoked_token_never_authenticates:
  assumes "revoke_token hash_token now tf ts = (b, ts')"
    and "tf = token \<or> tf = fingerprint_prefix token @ ELLIPSIS"
    and "char_of (226 :: nat) \<notin> set token"
    and "\<forall>r\<in>set ts. t_hash r = hash_token token \<longrightarrow> t_prefix r = fingerprint_prefix token"
  shows "find_active hash_token later token ts' = None
    \<and> (\<forall>r\<in>set ts. \<not> match_clause hash_token tf r \<longrightarrow> r \<in> set ts')"
proof -
  let ?P = "\<lambda>r. match_clause hash_token tf r \<and> t_revoked_at r = None"
  from assms(1) have ts': "ts' = update_where ?P (\<lambda>r. r\<lparr>t_revoked_at := Some now\<rparr>) ts"
    unfolding revoke_token_def Let_def by blast
  have pre: "char_of (226 :: nat) \<notin> set (fingerprint_prefix token)"
    using assms(3) by (auto simp: fingerprint_prefix_def dest: in_set_takeD)
  have m: "match_clause hash_token tf r" if "r \<in> set ts" "t_hash r = hash_token token" for r
    using assms(2,4) that ellipsis_absent [OF assms(3)] ellipsis_absent(2) [OF pre]
    by (auto simp: match_clause_def)
  have "\<not> (t_hash r = hash_token token \<and> usable_token later r)" if "r \<in> set ts'" for r
  proof -
    from that obtain r0 where r0: "r0 \<in> set ts" "r = (if ?P r0 then r0\<lparr>t_revoked_at := Some now\<rparr> else r0)"
      unfolding ts' set_update_where by blast
    show ?thesis using r0 m [OF r0(1)] by (cases "?P r0") (auto simp: usable_token_def)
  qed
  then have "find_active hash_token later token ts' = None"
    by (auto simp: find_active_def find_None_iff)
  moreover have "r \<in> set ts'" if "r \<in> set ts" "\<not> match_clause hash_token tf r" for r
    unfolding ts' set_update_where using that by (intro image_eqI [of _ _ r]) auto
  ultimately show ?thesis by blast
qed

end
