(* ===== verification/MediaRepo.thy ===== *)
theory MediaRepo
  imports JobRepo
begin

text \<open>
  The catalog (\<open>repos/media.py\<close>), the skip and derivative records, and the exclusion list
  (\<open>repos/skipped.py\<close>, \<open>repos/derivatives.py\<close>, \<open>repos/exclusions.py\<close>). The fresh \<open>uuid4()\<close> of an
  insert is the argument \<open>new_id\<close>.
\<close>

section \<open>Catalog rows\<close>

definition initial_status :: "string option \<Rightarrow> MediaStatus \<times> string option" where
  "initial_status video_codec =
     (case video_codec of
        None \<Rightarrow> (M_pending, None)
      | Some c \<Rightarrow>
          if c = ''hevc'' then (M_complete, Some ''already_hevc'')
          else if c \<noteq> [] \<and> c \<noteq> ''h264'' then (M_skipped, Some ''not_h264'')
          else if c = ''h264'' then (M_needs_transcode, None)
          else (M_pending, None))"

text \<open>
  The row a scan found (\<open>probed\<close> carries the columns of the statement's \<open>VALUES\<close>; its status
  columns are set here). \<open>ON CONFLICT(file_path)\<close> keeps the identity columns of the existing row
  and adopts the new status only when the probed codec is known and differs.
\<close>

definition same_codec :: "media_file \<Rightarrow> media_file \<Rightarrow> bool" where
  "same_codec excluded r \<longleftrightarrow>
     m_video_codec excluded = None
     \<or> m_video_codec r \<noteq> None \<and> m_video_codec excluded = m_video_codec r"

definition merge_media :: "media_file \<Rightarrow> media_file \<Rightarrow> media_file" where
  "merge_media excluded r =
     r\<lparr>m_video_codec := m_video_codec excluded, m_audio_codec := m_audio_codec excluded,
       m_resolution := m_resolution excluded, m_width := m_width excluded,
       m_height := m_height excluded, m_bitrate := m_bitrate excluded,
       m_duration := m_duration excluded, m_file_size := m_file_size excluded,
       m_transcode_status := (if same_codec excluded r then m_transcode_status r
                              else m_transcode_status excluded),
       m_skip_reason := (if same_codec excluded r then m_skip_reason r else m_skip_reason excluded),
       m_file_modified_at := m_file_modified_at excluded,
       m_scanned_at := m_scanned_at excluded, m_updated_at := m_updated_at excluded\<rparr>"

definition upsert_media_file ::
  "time \<Rightarrow> string \<Rightarrow> media_file \<Rightarrow> media_file list \<Rightarrow> string \<times> media_file list"
where
  "upsert_media_file now new_id probed ms =
     (let (status, skip_reason) = initial_status (m_video_codec probed);
          excluded = probed\<lparr>m_id := new_id, m_transcode_status := status,
                       m_skip_reason := skip_reason, m_job_id := None,
                       m_scanned_at := now, m_updated_at := now\<rparr>
      in (new_id,
          if m_file_path probed \<in> m_file_path ` set ms
          then update_where (\<lambda>r. m_file_path r = m_file_path probed) (merge_media excluded) ms
          else ms @ [excluded]))"

definition get_media_file :: "media_file list \<Rightarrow> string \<Rightarrow> media_file option" where
  "get_media_file = find_row m_id"

definition ids_by_paths :: "media_file list \<Rightarrow> string list \<Rightarrow> string \<rightharpoonup> string" where
  "ids_by_paths ms paths =
     (if paths = [] then Map.empty
      else map_of (map (\<lambda>r. (m_file_path r, m_id r)) (filter (\<lambda>r. m_file_path r \<in> set paths) ms)))"

definition paths_for_library :: "media_file list \<Rightarrow> string \<Rightarrow> string \<rightharpoonup> string" where
  "paths_for_library ms library_id =
     map_of (map (\<lambda>r. (m_file_path r, m_id r)) (filter (\<lambda>r. m_library_id r = library_id) ms))"

fun delete_id_chunks :: "string list list \<Rightarrow> media_file list \<Rightarrow> media_file list" where
  "delete_id_chunks [] ms = ms"
| "delete_id_chunks (c # cs) ms = delete_id_chunks cs (delete_where (\<lambda>r. m_id r \<in> set c) ms)"

definition delete_by_ids :: "string list \<Rightarrow> media_file list \<Rightarrow> nat \<times> media_file list" where
  "delete_by_ids file_ids ms = (length file_ids, delete_id_chunks (batched DELETE_CHUNK file_ids) ms)"

definition get_by_ids :: "media_file list \<Rightarrow> string list \<Rightarrow> media_file list" where
  "get_by_ids ms file_ids = (if file_ids = [] then [] else filter (\<lambda>r. m_id r \<in> set file_ids) ms)"

definition update_media_status ::
  "time \<Rightarrow> string \<Rightarrow> MediaStatus \<Rightarrow> string option \<Rightarrow> string option \<Rightarrow> media_file list \<Rightarrow> media_file list"
where
  "update_media_status now file_id status skip_reason job_id ms =
     update_where (\<lambda>r. m_id r = file_id)
       (\<lambda>r. r\<lparr>m_transcode_status := status, m_skip_reason := skip_reason, m_job_id := job_id,
              m_updated_at := now\<rparr>) ms"

definition update_status_by_job ::
  "time \<Rightarrow> string \<Rightarrow> MediaStatus \<Rightarrow> string option \<Rightarrow> media_file list \<Rightarrow> media_file list"
where
  "update_status_by_job now job_id status skip_reason ms =
     update_where (\<lambda>r. m_job_id r = Some job_id)
       (\<lambda>r. r\<lparr>m_transcode_status := status, m_skip_reason := skip_reason, m_updated_at := now\<rparr>) ms"

text \<open>Python's \<open>//\<close> on the positive divisor is \<open>div\<close>; \<open>not width\<close> holds for \<open>None\<close> and 0.\<close>

definition scaled_width :: "int option \<Rightarrow> int option \<Rightarrow> int \<Rightarrow> int option" where
  "scaled_width width height target_height =
     (case (width, height) of
        (Some w, Some h) \<Rightarrow>
          if w = 0 \<or> h = 0 then None else Some ((w * target_height + h) div (2 * h) * 2)
      | _ \<Rightarrow> None)"

definition format_resolution :: "int \<Rightarrow> int \<Rightarrow> string" where
  "format_resolution width height = str_int width @ ''x'' @ str_int height"

definition swapped_row :: "library list \<Rightarrow> string \<Rightarrow> media_file \<Rightarrow> bool" where
  "swapped_row libs job_id r \<longleftrightarrow>
     m_job_id r = Some job_id
     \<and> m_library_id r \<in> set (map l_id (filter (\<lambda>l. l_backend l \<noteq> S3) libs))"

definition describe_output :: "time \<Rightarrow> string \<Rightarrow> int \<Rightarrow> int option \<Rightarrow> media_file \<Rightarrow> media_file" where
  "describe_output now video_codec file_size target_height r =
     (case target_height of
        None \<Rightarrow> r\<lparr>m_video_codec := Some video_codec, m_file_size := Some file_size, m_updated_at := now\<rparr>
      | Some th \<Rightarrow>
          (case scaled_width (m_width r) (m_height r) th of
             None \<Rightarrow> r\<lparr>m_video_codec := Some video_codec, m_file_size := Some file_size,
                       m_height := Some th, m_updated_at := now\<rparr>
           | Some w \<Rightarrow> r\<lparr>m_video_codec := Some video_codec, m_file_size := Some file_size,
                       m_width := Some w, m_height := Some th,
                       m_resolution := Some (format_resolution w th), m_updated_at := now\<rparr>))"

text \<open>
  With a target height the code selects the ids first and then updates row by row, by id; the
  row it reads is the row it writes.
\<close>

fun describe_rows :: "time \<Rightarrow> string \<Rightarrow> int \<Rightarrow> int option \<Rightarrow> media_file list \<Rightarrow> media_file list \<Rightarrow> media_file list" where
  "describe_rows now codec sz th [] ms = ms"
| "describe_rows now codec sz th (r # rs) ms =
     describe_rows now codec sz th rs
       (update_where (\<lambda>x. m_id x = m_id r)
          (\<lambda>x. describe_output now codec sz th (x\<lparr>m_width := m_width r, m_height := m_height r\<rparr>)) ms)"

definition update_output_by_job ::
  "time \<Rightarrow> library list \<Rightarrow> string \<Rightarrow> string \<Rightarrow> int \<Rightarrow> int option \<Rightarrow> media_file list \<Rightarrow> media_file list"
where
  "update_output_by_job now libs job_id video_codec file_size target_height ms =
     (case target_height of
        None \<Rightarrow> update_where (swapped_row libs job_id) (describe_output now video_codec file_size None) ms
      | Some th \<Rightarrow> describe_rows now video_codec file_size (Some th)
                    (filter (swapped_row libs job_id) ms) ms)"

definition bulk_update_status ::
  "time \<Rightarrow> string list \<Rightarrow> MediaStatus \<Rightarrow> string option \<Rightarrow> media_file list \<Rightarrow> nat \<times> media_file list"
where
  "bulk_update_status now file_ids status skip_reason ms =
     (if file_ids = [] then (0, ms)
      else (rowcount (\<lambda>r. m_id r \<in> set file_ids) ms,
            update_where (\<lambda>r. m_id r \<in> set file_ids)
              (\<lambda>r. r\<lparr>m_transcode_status := status, m_skip_reason := skip_reason, m_updated_at := now\<rparr>) ms))"

section \<open>Skips, derivatives, exclusions\<close>

definition record_skip ::
  "time \<Rightarrow> string \<Rightarrow> string \<Rightarrow> string \<Rightarrow> string option \<Rightarrow> string \<Rightarrow> string option \<Rightarrow> int option
   \<Rightarrow> SkipReason \<Rightarrow> string option \<Rightarrow> skipped_file list \<Rightarrow> skipped_file list"
where
  "record_skip now new_id file_path library library_id codec resolution file_size reason scan_id ss =
     (if file_path \<in> s_file_path ` set ss
      then update_where (\<lambda>r. s_file_path r = file_path)
             (\<lambda>r. r\<lparr>s_library_id := library_id, s_codec := codec, s_resolution := resolution,
                    s_file_size := file_size, s_skip_reason := reason, s_scan_id := scan_id,
                    s_updated_at := now\<rparr>) ss
      else ss @ [\<lparr>s_id = new_id, s_file_path = file_path, s_library = library,
                  s_library_id = library_id, s_codec = codec, s_resolution = resolution,
                  s_file_size = file_size, s_skip_reason = reason, s_scan_id = scan_id,
                  s_created_at = now, s_updated_at = now\<rparr>])"

definition lookup_by_key :: "derivative list \<Rightarrow> string \<Rightarrow> derivative option" where
  "lookup_by_key = find_row d_derivative_key"

text \<open>The UNIQUE key makes a second insert return the existing row's id.\<close>

definition create_derivative :: "derivative \<Rightarrow> derivative list \<Rightarrow> string \<times> derivative list" where
  "create_derivative d ds =
     (case lookup_by_key ds (d_derivative_key d) of
        Some e \<Rightarrow> (d_id e, ds)
      | None \<Rightarrow> (d_id d, ds @ [d]))"

definition is_excluded :: "string list \<Rightarrow> string \<Rightarrow> bool" where
  "is_excluded excl path \<longleftrightarrow> path \<in> set excl"

definition filter_excluded :: "string list \<Rightarrow> string list \<Rightarrow> string set" where
  "filter_excluded excl paths = (if paths = [] then {} else set (filter (\<lambda>p. p \<in> set paths) excl))"

definition add_exclusion :: "string \<Rightarrow> string list \<Rightarrow> string list" where
  "add_exclusion path excl = (if path \<in> set excl then excl else excl @ [path])"

definition remove_exclusion :: "string \<Rightarrow> string list \<Rightarrow> bool \<times> string list" where
  "remove_exclusion path excl = (path \<in> set excl, filter (\<lambda>p. p \<noteq> path) excl)"

section \<open>Facts\<close>

interpretation media: keyed_table m_id get_media_file update_where
  unfolding get_media_file_def by (rule keyed_table_find_row)

interpretation media_paths: keyed_table m_file_path "find_row m_file_path" update_where
  by (rule keyed_table_find_row)

interpretation derivatives: keyed_table d_derivative_key lookup_by_key update_where
  unfolding lookup_by_key_def by (rule keyed_table_find_row)

lemma delete_id_chunks_set:
  "delete_id_chunks cs ms = delete_where (\<lambda>r. m_id r \<in> set (concat cs)) ms"
  by (induction cs arbitrary: ms) (auto simp: delete_where_def intro!: filter_cong)

lemma describe_output_m_id [simp]: "m_id (describe_output now c s th r) = m_id r"
  by (simp add: describe_output_def split: option.splits)

lemma describe_rows_pointwise:
  assumes "distinct (map m_id rs)" and "distinct (map m_id ms)" and "set rs \<subseteq> set ms"
  shows "describe_rows now c s th rs ms =
     update_where (\<lambda>r. m_id r \<in> m_id ` set rs) (describe_output now c s th) ms"
  using assms
proof (induction rs arbitrary: ms)
  case Nil
  then show ?case by (simp add: update_where_def)
next
  case (Cons r rs)
  let ?g = "\<lambda>x. describe_output now c s th (x\<lparr>m_width := m_width r, m_height := m_height r\<rparr>)"
  let ?ms = "update_where (\<lambda>x. m_id x = m_id r) ?g ms"
  have step: "?ms = update_where (\<lambda>x. m_id x = m_id r) (describe_output now c s th) ms"
    unfolding update_where_def
  proof (rule map_cong [OF refl])
    fix x assume x: "x \<in> set ms"
    show "(if m_id x = m_id r then ?g x else x)
        = (if m_id x = m_id r then describe_output now c s th x else x)"
    proof (cases "m_id x = m_id r")
      case True
      with x Cons.prems(2,3) have "x = r" by (auto simp: distinct_map inj_on_def)
      then show ?thesis by simp
    qed simp
  qed
  have keys: "map m_id ?ms = map m_id ms" by (rule map_key_update_where) simp
  have sub: "set rs \<subseteq> set ?ms"
  proof
    fix x assume "x \<in> set rs"
    with Cons.prems have "x \<in> set ms" and "m_id x \<noteq> m_id r" by (auto simp: image_iff)
    then show "x \<in> set ?ms" unfolding set_update_where by (intro image_eqI [of _ _ x]) auto
  qed
  have "describe_rows now c s th (r # rs) ms =
     update_where (\<lambda>x. m_id x \<in> m_id ` set rs) (describe_output now c s th) ?ms"
    using Cons.IH [of ?ms] Cons.prems(1,2) keys sub by simp
  also have "\<dots> = update_where (\<lambda>x. m_id x \<in> m_id ` set (r # rs)) (describe_output now c s th) ms"
    using Cons.prems(1) unfolding step by (auto simp: update_where_def)
  finally show ?case .
qed

text \<open>
  After a completed job the catalog describes the output: every filesystem row queued into
  the job carries the new codec and size and, for a downscale, the new height and the width the
  encoder's \<open>scale=-2:H\<close> gives; rows of other jobs, and rows of object-storage libraries (whose
  master object is never replaced), are exactly as they were.
\<close>

lemma update_output_describes_swapped_rows:
  assumes "distinct (map m_id ms)" and "r \<in> set ms"
  shows "get_media_file (update_output_by_job now libs i codec sz th ms) (m_id r) =
     Some (if swapped_row libs i r then describe_output now codec sz th r else r)"
proof -
  have sel: "m_id x \<in> m_id ` set (filter (swapped_row libs i) ms) \<longleftrightarrow> swapped_row libs i x"
    if "x \<in> set ms" for x
    using that assms(1) by (auto simp: distinct_map inj_on_def)
  have rows: "update_output_by_job now libs i codec sz th ms =
     update_where (swapped_row libs i) (describe_output now codec sz th) ms"
  proof (cases th)
    case (Some h)
    have "describe_rows now codec sz th (filter (swapped_row libs i) ms) ms =
       update_where (\<lambda>x. m_id x \<in> m_id ` set (filter (swapped_row libs i) ms))
         (describe_output now codec sz th) ms"
      by (rule describe_rows_pointwise) (use assms(1) in \<open>auto simp: distinct_map_filter\<close>)
    also have "\<dots> = update_where (swapped_row libs i) (describe_output now codec sz th) ms"
      unfolding update_where_def by (rule map_cong [OF refl]) (use sel in presburger)
    finally show ?thesis using Some by (simp add: update_output_by_job_def)
  qed (simp add: update_output_by_job_def)
  have "get_media_file ms (m_id r) = Some r"
    using assms by (rule media.get_complete)
  then show ?thesis by (simp add: rows media.get_upd)
qed

text \<open>
  The width recorded for a downscaled file is the even number nearest to the exact scaled
  width: even, and at most one away from \<open>w * H / h\<close>.
\<close>

lemma scaled_width_nearest_even:
  assumes "scaled_width (Some w) (Some h) th = Some x" and "0 < h" and "0 \<le> w" and "0 \<le> th"
  shows "even x \<and> 0 \<le> x \<and> \<bar>x * h - w * th\<bar> \<le> h"
proof -
  define q where "q = (w * th + h) div (2 * h)"
  from assms(1) have x: "x = q * 2" by (auto simp: scaled_width_def q_def split: if_splits)
  have "2 * h * q + (w * th + h) mod (2 * h) = w * th + h"
    unfolding q_def by (rule mult_div_mod_eq)
  moreover have "0 \<le> (w * th + h) mod (2 * h)" "(w * th + h) mod (2 * h) < 2 * h"
    using assms(2) by simp_all
  ultimately have "\<bar>2 * h * q - w * th\<bar> \<le> h" by linarith
  moreover have "0 \<le> q" unfolding q_def using assms(2-4) by (simp add: pos_imp_zdiv_nonneg_iff)
  ultimately show ?thesis by (simp add: x mult.commute mult.left_commute)
qed

text \<open>
  A rescan never disturbs a job in flight: when the probe fails or finds the codec the row
  already has, the row keeps its status, its skip reason and its job; when the codec changed, it
  takes the status the new codec implies. The row's identity, library and job link survive
  either way, and every other row is untouched.
\<close>

lemma rescan_keeps_status_of_same_codec:
  assumes "distinct (map m_file_path ms)" and "r \<in> set ms" and "m_file_path probed = m_file_path r"
    and "upsert_media_file now nid probed ms = (i, ms')"
  shows "\<exists>r'. find_row m_file_path ms' (m_file_path r) = Some r'
      \<and> m_id r' = m_id r \<and> m_library_id r' = m_library_id r \<and> m_job_id r' = m_job_id r
      \<and> m_video_codec r' = m_video_codec probed
      \<and> (m_transcode_status r', m_skip_reason r') =
          (if m_video_codec probed = None \<or> m_video_codec probed = m_video_codec r
           then (m_transcode_status r, m_skip_reason r)
           else initial_status (m_video_codec probed))
      \<and> (\<forall>p. p \<noteq> m_file_path r \<longrightarrow> find_row m_file_path ms' p = find_row m_file_path ms p)"
proof -
  obtain st sk where ini: "initial_status (m_video_codec probed) = (st, sk)" by (rule prod.exhaust)
  let ?e = "probed\<lparr>m_id := nid, m_transcode_status := st, m_skip_reason := sk, m_job_id := None,
       m_scanned_at := now, m_updated_at := now\<rparr>"
  have path: "m_file_path (merge_media e x) = m_file_path x" for e x
    by (simp add: merge_media_def)
  from assms(2-4) ini have ms': "ms' = update_where (\<lambda>x. m_file_path x = m_file_path r) (merge_media ?e) ms"
    by (auto simp: upsert_media_file_def)
  have g: "find_row m_file_path ms (m_file_path r) = Some r"
    using assms(1,2) by (rule media_paths.get_complete)
  have "find_row m_file_path ms' (m_file_path r) = Some (merge_media ?e r)"
    unfolding ms' using g by (simp add: media_paths.get_upd path)
  moreover have "same_codec ?e r \<longleftrightarrow> m_video_codec probed = None \<or> m_video_codec probed = m_video_codec r"
    by (cases "m_video_codec r") (auto simp: same_codec_def)
  moreover have "find_row m_file_path ms' p = find_row m_file_path ms p" if "p \<noteq> m_file_path r" for p
    unfolding ms' using that by (intro media_paths.upd_other) (auto simp: path)
  ultimately show ?thesis by (simp add: merge_media_def ini)
qed

end
