(* ===== verification/Schedules.thy ===== *)
theory Schedules
  imports JobRepo
begin

text \<open>
  What decides whether the queue runs and with which settings: the schedule windows
  (\<open>repos/schedules.py\<close>), the global flags (\<open>repos/system.py\<close>), the tunable settings
  (\<open>repos/settings.py\<close>) and the libraries (\<open>repos/libraries.py\<close>). Python's \<open>float\<close> and \<open>int\<close>
  conversions of a string are the arguments \<open>py_float\<close> and \<open>py_int\<close>; \<open>None\<close> stands for a
  \<open>ValueError\<close> or, for \<open>float\<close>, a value that is not finite.
\<close>

unbundle bit_operations_syntax

section \<open>Schedule windows\<close>

record schedule =
  sc_id :: string
  sc_name :: string
  sc_enabled :: bool
  sc_start_hour :: int
  sc_end_hour :: int
  sc_days_mask :: int
  sc_created_at :: time
  sc_updated_at :: time

definition DAY_MASK_ALL :: int where "DAY_MASK_ALL = 127"

text \<open>\<open>datetime.hour\<close> and \<open>datetime.weekday()\<close> in UTC; 1 January 1970 was a Thursday.\<close>

definition hour_of :: "time \<Rightarrow> int" where
  "hour_of now = (now div (3600 * SECOND)) mod 24"

definition weekday_of :: "time \<Rightarrow> nat" where
  "weekday_of now = nat ((now div (86400 * SECOND) + 3) mod 7)"

definition is_active_now :: "time \<Rightarrow> schedule \<Rightarrow> bool" where
  "is_active_now n s =
     (if \<not> sc_enabled s then False
      else if sc_days_mask s AND push_bit (weekday_of n) 1 = 0 then False
      else let start = sc_start_hour s; stop = sc_end_hour s; hour = hour_of n
           in if start = stop then True
              else if start < stop then start \<le> hour \<and> hour < stop
              else hour \<ge> start \<or> hour < stop)"

definition list_schedules :: "schedule list \<Rightarrow> schedule list" where
  "list_schedules ss = sort_key sc_created_at ss"

definition get_schedule :: "schedule list \<Rightarrow> string \<Rightarrow> schedule option" where
  "get_schedule = find_row sc_id"

definition validate_window :: "int \<Rightarrow> int \<Rightarrow> int \<Rightarrow> bool" where
  "validate_window start_hour end_hour days_mask \<longleftrightarrow>
     start_hour \<in> {0..<24} \<and> end_hour \<in> {0..<24} \<and> 0 \<le> days_mask \<and> days_mask \<le> DAY_MASK_ALL"

definition valid_window :: "schedule \<Rightarrow> bool" where
  "valid_window s = validate_window (sc_start_hour s) (sc_end_hour s) (sc_days_mask s)"

definition create_schedule ::
  "time \<Rightarrow> string \<Rightarrow> string \<Rightarrow> int \<Rightarrow> int \<Rightarrow> int \<Rightarrow> bool \<Rightarrow> schedule list \<Rightarrow> (string \<times> schedule list) option"
where
  "create_schedule now new_id name start_hour end_hour days_mask enabled ss =
     (if \<not> validate_window start_hour end_hour days_mask then None
      else Some (new_id, ss @ [\<lparr>sc_id = new_id, sc_name = name, sc_enabled = enabled,
             sc_start_hour = start_hour, sc_end_hour = end_hour, sc_days_mask = days_mask,
             sc_created_at = now, sc_updated_at = now\<rparr>]))"

datatype schedule_field =
  S_name string | S_enabled bool | S_start_hour int | S_end_hour int | S_days_mask int
| S_other string

primrec set_schedule_field :: "schedule_field \<Rightarrow> schedule \<Rightarrow> schedule" where
  "set_schedule_field (S_name v) s = s\<lparr>sc_name := v\<rparr>"
| "set_schedule_field (S_enabled v) s = s\<lparr>sc_enabled := v\<rparr>"
| "set_schedule_field (S_start_hour v) s = s\<lparr>sc_start_hour := v\<rparr>"
| "set_schedule_field (S_end_hour v) s = s\<lparr>sc_end_hour := v\<rparr>"
| "set_schedule_field (S_days_mask v) s = s\<lparr>sc_days_mask := v\<rparr>"
| "set_schedule_field (S_other c) s = s"

definition merge_schedule :: "schedule_field list \<Rightarrow> schedule \<Rightarrow> schedule" where
  "merge_schedule flds s = foldl (\<lambda>r f. set_schedule_field f r) s flds"

primrec is_window_field :: "schedule_field \<Rightarrow> bool" where
  "is_window_field (S_name v) = False"
| "is_window_field (S_enabled v) = False"
| "is_window_field (S_start_hour v) = True"
| "is_window_field (S_end_hour v) = True"
| "is_window_field (S_days_mask v) = True"
| "is_window_field (S_other c) = False"

text \<open>The \<open>None\<close> of the result is the \<open>ValueError\<close> of a bad field or an invalid window.\<close>

definition update_schedule ::
  "time \<Rightarrow> string \<Rightarrow> schedule_field list \<Rightarrow> schedule list \<Rightarrow> (bool \<times> schedule list) option"
where
  "update_schedule now schedule_id flds ss =
     (if flds = [] then Some (False, ss)
      else if \<exists>f\<in>set flds. \<exists>c. f = S_other c then None
      else let write = Some (rowcount (\<lambda>s. sc_id s = schedule_id) ss \<noteq> 0,
                 update_where (\<lambda>s. sc_id s = schedule_id)
                   (\<lambda>s. (merge_schedule flds s)\<lparr>sc_updated_at := now\<rparr>) ss)
           in if \<exists>f\<in>set flds. is_window_field f then
                (case get_schedule ss schedule_id of
                   None \<Rightarrow> Some (False, ss)
                 | Some existing \<Rightarrow>
                     let merged = merge_schedule flds existing
                     in if validate_window (sc_start_hour merged) (sc_end_hour merged) (sc_days_mask merged)
                        then write else None)
              else write)"

definition delete_schedule :: "string \<Rightarrow> schedule list \<Rightarrow> bool \<times> schedule list" where
  "delete_schedule schedule_id ss =
     (rowcount (\<lambda>s. sc_id s = schedule_id) ss \<noteq> 0, delete_where (\<lambda>s. sc_id s = schedule_id) ss)"

definition is_within_active_window :: "time \<Rightarrow> schedule list \<Rightarrow> bool" where
  "is_within_active_window now ss =
     (let enabled = filter sc_enabled (list_schedules ss)
      in if enabled = [] then True else list_ex (is_active_now now) enabled)"

section \<open>Global flags\<close>

definition get_state :: "(string \<times> string) list \<Rightarrow> string \<Rightarrow> string \<Rightarrow> string" where
  "get_state st key dflt = (case map_of st key of None \<Rightarrow> dflt | Some v \<Rightarrow> v)"

definition set_state :: "string \<Rightarrow> string \<Rightarrow> (string \<times> string) list \<Rightarrow> (string \<times> string) list" where
  "set_state key val st =
     (if key \<in> fst ` set st then map (\<lambda>(k, v). if k = key then (k, val) else (k, v)) st
      else st @ [(key, val)])"

definition is_queue_paused :: "time \<Rightarrow> (string \<times> string) list \<Rightarrow> schedule list \<Rightarrow> bool" where
  "is_queue_paused now st ss =
     (if get_state st ''queue_paused'' ''0'' = ''1'' then True
      else \<not> is_within_active_window now ss)"

definition set_queue_paused :: "bool \<Rightarrow> (string \<times> string) list \<Rightarrow> (string \<times> string) list" where
  "set_queue_paused paused st = set_state ''queue_paused'' (if paused then ''1'' else ''0'') st"

section \<open>Tunable settings\<close>

definition validate_codec :: "string \<Rightarrow> string option" where
  "validate_codec v = (if v \<in> {''hevc'', ''av1''} then Some v else None)"

definition validate_vmaf :: "(string \<Rightarrow> num option) \<Rightarrow> string \<Rightarrow> string option" where
  "validate_vmaf py_float v =
     (case py_float v of None \<Rightarrow> None | Some score \<Rightarrow> if 0 \<le> score \<and> score \<le> 100 then Some v else None)"

definition validate_quality :: "(string \<Rightarrow> int option) \<Rightarrow> string \<Rightarrow> string option" where
  "validate_quality py_int v =
     (case py_int v of None \<Rightarrow> None | Some q \<Rightarrow> if 1 \<le> q \<and> q \<le> 51 then Some v else None)"

definition TUNABLE_KEYS ::
  "(string \<Rightarrow> num option) \<Rightarrow> (string \<Rightarrow> int option) \<Rightarrow> (string \<times> (string \<Rightarrow> string option)) list"
where
  "TUNABLE_KEYS py_float py_int =
     [(''default_codec'', validate_codec), (''target_vmaf'', validate_vmaf py_float),
      (''vmaf_safety_mean'', validate_vmaf py_float), (''vmaf_safety_perc5'', validate_vmaf py_float),
      (''quality_movies'', validate_quality py_int), (''quality_tv'', validate_quality py_int),
      (''quality_anime'', validate_quality py_int)]"

definition get_override :: "(string \<times> string) list \<Rightarrow> string \<Rightarrow> string option" where
  "get_override st key = map_of st key"

definition set_override ::
  "(string \<Rightarrow> num option) \<Rightarrow> (string \<Rightarrow> int option) \<Rightarrow> string \<Rightarrow> string
   \<Rightarrow> (string \<times> string) list \<Rightarrow> (string \<times> string) list option"
where
  "set_override py_float py_int key val st =
     (case map_of (TUNABLE_KEYS py_float py_int) key of
        None \<Rightarrow> None
      | Some validator \<Rightarrow>
          (case validator val of None \<Rightarrow> None | Some validated \<Rightarrow> Some (set_state key validated st)))"

definition clear_override :: "string \<Rightarrow> (string \<times> string) list \<Rightarrow> (string \<times> string) list" where
  "clear_override key st = filter (\<lambda>e. fst e \<noteq> key) st"

definition effective ::
  "(string \<Rightarrow> string) \<Rightarrow> (string \<times> string) list \<Rightarrow> string \<Rightarrow> string option"
where
  "effective env st key =
     (if key \<notin> set (map fst (TUNABLE_KEYS (\<lambda>_. None) (\<lambda>_. None))) then None
      else (case get_override st key of Some v \<Rightarrow> Some v | None \<Rightarrow> Some (env key)))"

section \<open>Libraries\<close>

definition get_library :: "library list \<Rightarrow> string \<Rightarrow> library option" where
  "get_library = find_row l_id"

text \<open>\<open>path\<close> is UNIQUE: the integrity error of a second library on one path is \<open>None\<close>.\<close>

definition create_library ::
  "time \<Rightarrow> string \<Rightarrow> library \<Rightarrow> library list \<Rightarrow> (string \<times> library list) option"
where
  "create_library now new_id l ls =
     (if l_path l \<in> l_path ` set ls then None
      else Some (new_id, ls @ [l\<lparr>l_id := new_id, l_created_at := now, l_updated_at := now\<rparr>]))"

definition path_in_use :: "library list \<Rightarrow> string \<Rightarrow> bool" where
  "path_in_use ls path \<longleftrightarrow> (\<exists>l\<in>set ls. l_path l = path)"

definition list_libraries :: "string option \<Rightarrow> bool \<Rightarrow> library list \<Rightarrow> library list" where
  "list_libraries media_type enabled_only ls =
     sort_key l_media_type (sort_key l_name
       (filter (\<lambda>l. (case media_type of None \<Rightarrow> True | Some m \<Rightarrow> m = [] \<or> l_media_type l = m)
                  \<and> (enabled_only \<longrightarrow> l_enabled l)) ls))"

definition delete_library ::
  "string \<Rightarrow> media_file list \<Rightarrow> library list \<Rightarrow> bool \<times> media_file list \<times> library list"
where
  "delete_library lib_id ms ls =
     (rowcount (\<lambda>l. l_id l = lib_id) ls > 0, delete_where (\<lambda>m. m_library_id m = lib_id) ms,
      delete_where (\<lambda>l. l_id l = lib_id) ls)"

section \<open>Facts\<close>

interpretation schedules: keyed_table sc_id get_schedule update_where
  unfolding get_schedule_def by (rule keyed_table_find_row)

interpretation libraries: keyed_table l_id get_library update_where
  unfolding get_library_def by (rule keyed_table_find_row)

lemma map_of_set_state: "map_of (set_state key val st) = (map_of st)(key \<mapsto> val)"
proof (cases "key \<in> fst ` set st")
  case True
  have other: "map_of (map (\<lambda>(k, v). if k = key then (k, val) else (k, v)) st) k = map_of st k"
    if "k \<noteq> key" for k
    using that by (induction st) auto
  have "map_of (map (\<lambda>(k, v). if k = key then (k, val) else (k, v)) st) key = Some val"
    using True by (induction st) auto
  with other True show ?thesis by (simp add: set_state_def fun_eq_iff)
next
  case False
  then have "map_of st key = None" by (simp add: map_of_eq_None_iff)
  with False show ?thesis by (simp add: set_state_def map_add_def fun_eq_iff split: option.splits)
qed

lemma day_bit_clear: "m AND 2 ^ n = (0 :: int) \<longleftrightarrow> \<not> bit m n"
proof -
  have "m AND 2 ^ n = (if bit m n then 2 ^ n else 0)"
    by (rule bit_eqI) (auto simp: bit_and_iff bit_exp_iff)
  then show ?thesis by simp
qed

lemma hour_of_range: "0 \<le> hour_of n" "hour_of n < 24"
  by (simp_all add: hour_of_def)

lemma cyclic_distance:
  fixes x y :: int
  assumes "0 \<le> x" "x < 24" "0 \<le> y" "y < 24"
  shows "(x - y) mod 24 = (if y \<le> x then x - y else x - y + 24)"
proof (cases "y \<le> x")
  case False
  have "(x - y) mod 24 = (x - y + 24) mod 24" by simp
  also have "\<dots> = x - y + 24" using False assms by (intro mod_pos_pos_trivial) simp_all
  finally show ?thesis using False by simp
qed (use assms in \<open>simp add: mod_pos_pos_trivial\<close>)

lemma is_active_now_iff:
  "is_active_now n s \<longleftrightarrow> sc_enabled s \<and> bit (sc_days_mask s) (weekday_of n)
     \<and> (sc_start_hour s = sc_end_hour s
        \<or> (sc_start_hour s < sc_end_hour s \<and> sc_start_hour s \<le> hour_of n \<and> hour_of n < sc_end_hour s)
        \<or> (sc_end_hour s < sc_start_hour s \<and> (sc_start_hour s \<le> hour_of n \<or> hour_of n < sc_end_hour s)))"
  by (auto simp: is_active_now_def Let_def day_bit_clear)

text \<open>
  On a matching day an enabled schedule is active exactly while the clock's hour lies in the
  cyclic interval from its start to its end: the hours elapsed since the start, modulo a day, are
  fewer than the window is long (a window of equal ends being the whole day). Same-day and
  midnight-wrapping windows are the same rule, and a window longer than nothing is active for
  exactly its length.
\<close>

lemma schedule_window_is_cyclic:
  assumes "validate_window (sc_start_hour s) (sc_end_hour s) (sc_days_mask s)"
    and "sc_enabled s" and "bit (sc_days_mask s) (weekday_of n)"
  shows "is_active_now n s \<longleftrightarrow>
     (hour_of n - sc_start_hour s) mod 24 <
       (if sc_start_hour s = sc_end_hour s then 24 else (sc_end_hour s - sc_start_hour s) mod 24)"
proof -
  let ?h = "hour_of n" and ?a = "sc_start_hour s" and ?b = "sc_end_hour s"
  have r: "0 \<le> ?a" "?a < 24" "0 \<le> ?b" "?b < 24" using assms(1) by (simp_all add: validate_window_def)
  note h = hour_of_range [of n]
  show ?thesis
    unfolding is_active_now_iff cyclic_distance [OF h r(1,2)] cyclic_distance [OF r(3,4) r(1,2)]
    using assms(2,3) r h by (cases "?a \<le> ?h"; cases "?a \<le> ?b"; cases "?a = ?b") simp_all
qed

text \<open>
  A paused queue stays paused whatever the schedules say; a resumed one runs exactly when no
  schedule is enabled or one of the enabled windows is open.
\<close>

lemma queue_pause_gate:
  "is_queue_paused now (set_queue_paused p st) ss =
     (p \<or> (\<exists>s\<in>set ss. sc_enabled s) \<and> \<not> (\<exists>s\<in>set ss. sc_enabled s \<and> is_active_now now s))"
proof -
  have flag: "get_state (set_queue_paused p st) ''queue_paused'' ''0'' = (if p then ''1'' else ''0'')"
    by (simp add: get_state_def set_queue_paused_def map_of_set_state)
  have win: "is_within_active_window now ss \<longleftrightarrow>
     (\<forall>s\<in>set ss. \<not> sc_enabled s) \<or> (\<exists>s\<in>set ss. sc_enabled s \<and> is_active_now now s)"
    by (auto simp: is_within_active_window_def list_schedules_def Let_def list_ex_iff filter_empty_conv)
  show ?thesis unfolding is_queue_paused_def flag win by auto
qed

lemma merge_schedule_keeps_window:
  "(\<forall>f\<in>set fs. \<not> is_window_field f) \<Longrightarrow>
     sc_start_hour (merge_schedule fs s) = sc_start_hour s
     \<and> sc_end_hour (merge_schedule fs s) = sc_end_hour s
     \<and> sc_days_mask (merge_schedule fs s) = sc_days_mask s"
proof (induction fs arbitrary: s)
  case (Cons f fs)
  then show ?case by (cases f) (simp_all add: merge_schedule_def)
qed (simp add: merge_schedule_def)

lemma update_schedule_written:
  assumes "keys_distinct sc_id ss" and "update_schedule now k flds ss = Some (ok, ss')" and "ss' \<noteq> ss"
    and "x \<in> set ss" and "sc_id x = k" and "valid_window x"
  shows "valid_window (merge_schedule flds x)"
proof -
  from assms(2,3) have "(\<forall>f\<in>set flds. \<not> is_window_field f)
      \<or> (\<exists>e. get_schedule ss k = Some e \<and> valid_window (merge_schedule flds e))"
    by (auto simp: update_schedule_def valid_window_def Let_def split: if_splits option.splits)
  moreover have "get_schedule ss k = Some x"
    using assms(1,4,5) by (simp add: get_schedule_def find_row_Some_iff)
  ultimately show ?thesis
    using merge_schedule_keeps_window [of flds x] assms(6) by (auto simp: valid_window_def)
qed

text \<open>
  A schedule in the table always has a valid window: creation and update either store valid
  hours and a seven-bit day mask or change nothing.
\<close>

lemma stored_windows_valid:
  assumes "list_all valid_window ss" and "keys_distinct sc_id ss"
    and "create_schedule now i name a b m e ss = Some (j, ss') \<or> update_schedule now k flds ss = Some (ok, ss')"
  shows "list_all valid_window ss'"
  using assms(3)
proof
  assume "create_schedule now i name a b m e ss = Some (j, ss')"
  with assms(1) show ?thesis by (auto simp: create_schedule_def valid_window_def split: if_splits)
next
  assume u: "update_schedule now k flds ss = Some (ok, ss')"
  show ?thesis
  proof (cases "ss' = ss")
    case False
    with u have "ss' = update_where (\<lambda>s. sc_id s = k) (\<lambda>s. (merge_schedule flds s)\<lparr>sc_updated_at := now\<rparr>) ss"
      by (auto simp: update_schedule_def Let_def split: if_splits option.splits)
    moreover have "valid_window (merge_schedule flds x)" if "x \<in> set ss" "sc_id x = k" for x
      using update_schedule_written [OF assms(2) u False that] that assms(1) by (simp add: list_all_iff)
    ultimately show ?thesis using assms(1)
      by (auto simp: list_all_iff set_update_where valid_window_def)
  qed (use assms(1) in simp)
qed

end
