(* ===== verification/Handlers.thy ===== *)
theory Handlers
  imports Coroutine WorkerRepo MediaRepo Schedules
begin

text \<open>
  The scheduler's request handlers: the worker API (\<open>api/routes/worker_api.py\<close>), the job, media,
  worker, token, schedule, exclusion and library routes, and the periodic sweeps of \<open>main.py\<close>.

  A handler is a coroutine of \<open>Coroutine\<close>; between two of its database calls any other request may
  run. A statement, and a \<open>db.transaction()\<close> block as a whole, is atomic. The wall clock is part of the state, so it may
  advance at every await. Fresh \<open>uuid4()\<close> values and the parameters of the deployment (token hash,
  environment settings, Python's float parser) are arguments.
\<close>

section \<open>The state and the calls of a handler\<close>

record db =
  db_clock :: time
  db_jobs :: "job list"
  db_workers :: "worker list"
  db_tokens :: "worker_token list"
  db_media :: "media_file list"
  db_skipped :: "skipped_file list"
  db_derivatives :: "derivative list"
  db_libraries :: "library list"
  db_exclusions :: "string list"
  db_system_state :: "(string \<times> string) list"
  db_app_settings :: "(string \<times> string) list"
  db_schedules :: "schedule list"

datatype http_error = HTTPException nat | Uncaught

type_synonym interference = "(db \<Rightarrow> db) list"
type_synonym 'a io = "(db, http_error, 'a) coroutine"

section \<open>Guards of the worker API\<close>

definition require_worker_token :: "(string \<Rightarrow> string) \<Rightarrow> string option \<Rightarrow> worker_token io" where
  "require_worker_token hash_token authorization =
     (case authorization of
        None \<Rightarrow> throw (HTTPException 401)
      | Some a \<Rightarrow>
          if \<not> prefix ''Bearer '' a then throw (HTTPException 401)
          else let token = strip (drop (length ''Bearer '') a)
               in bind (query (\<lambda>d. find_active hash_token (db_clock d) token (db_tokens d)))
                    (\<lambda>row. case row of
                       None \<Rightarrow> throw (HTTPException 401)
                     | Some r \<Rightarrow>
                         bind (stmt (\<lambda>d. ((), d\<lparr>db_tokens :=
                                  touch_token hash_token (db_clock d) token (db_tokens d)\<rparr>)))
                           (\<lambda>_. ret r)))"

definition REBIND_LIVENESS_SECONDS :: int where "REBIND_LIVENESS_SECONDS = 90"

definition worker_is_live :: "time \<Rightarrow> worker \<Rightarrow> bool" where
  "worker_is_live now w =
     (if \<not> alive (w_status w) then False
      else (case w_last_heartbeat w of
              None \<Rightarrow> False
            | Some beat \<Rightarrow> now - beat < REBIND_LIVENESS_SECONDS * SECOND))"

definition require_worker_identity :: "worker_token \<Rightarrow> string \<Rightarrow> unit io" where
  "require_worker_identity token_row worker_id =
     (if t_worker_id token_row \<noteq> Some worker_id then throw (HTTPException 403) else ret ())"

definition require_owned_job :: "string \<Rightarrow> worker_token \<Rightarrow> job io" where
  "require_owned_job job_id token_row =
     bind (query (\<lambda>d. get_job (db_jobs d) job_id))
       (\<lambda>job. case job of
          None \<Rightarrow> throw (HTTPException 404)
        | Some j \<Rightarrow>
            if t_worker_id token_row = None \<or> j_worker_id j \<noteq> t_worker_id token_row
            then throw (HTTPException 403) else ret j)"

definition require_claim_token :: "worker_token \<Rightarrow> string option \<Rightarrow> string option io" where
  "require_claim_token token_row claim_token =
     (case claim_token of
        Some tok \<Rightarrow> ret (Some tok)
      | None \<Rightarrow>
          bind (case t_worker_id token_row of
                  None \<Rightarrow> ret None
                | Some w \<Rightarrow> if w = [] then ret None else query (\<lambda>d. get_worker (db_workers d) w))
            (\<lambda>worker. case worker of
               None \<Rightarrow> ret None
             | Some w \<Rightarrow> if w_sends_claim_token w then throw (HTTPException 403) else ret None))"

definition is_duplicate_terminal_report :: "job \<Rightarrow> JobStatus \<Rightarrow> bool io" where
  "is_duplicate_terminal_report job incoming =
     (if j_status job = incoming then ret True
      else if terminal (j_status job) then throw (HTTPException 409)
      else ret False)"

definition answer_lost_finalize :: "string \<Rightarrow> JobStatus \<Rightarrow> unit io" where
  "answer_lost_finalize job_id incoming =
     bind (query (\<lambda>d. get_job (db_jobs d) job_id))
       (\<lambda>job. case job of
          None \<Rightarrow> throw (HTTPException 404)
        | Some j \<Rightarrow>
            bind (is_duplicate_terminal_report j incoming)
              (\<lambda>dup. if dup then ret () else throw (HTTPException 403)))"

section \<open>Registration, heartbeat, claim\<close>

record register_request =
  rq_name :: string
  rq_host :: string
  rq_capabilities :: "string list"
  rq_supported_codecs :: "string list option"
  rq_supports_downscale :: bool
  rq_sends_claim_token :: bool
  rq_ffmpeg_version :: "string option"
  rq_max_concurrent :: int

definition registered_worker :: "string \<Rightarrow> register_request \<Rightarrow> worker" where
  "registered_worker worker_id body =
     \<lparr>w_id = worker_id, w_name = rq_name body, w_host = rq_host body,
      w_capabilities = rq_capabilities body,
      w_supported_codecs = claim_codecs (rq_supported_codecs body),
      w_supports_downscale = rq_supports_downscale body,
      w_sends_claim_token = rq_sends_claim_token body, w_ffmpeg_version = rq_ffmpeg_version body,
      w_max_concurrent = rq_max_concurrent body, w_status = ONLINE, w_current_job_id = None,
      w_current_job_changed_at = None, w_last_heartbeat = None, w_registered_at = 0,
      w_updated_at = 0\<rparr>"

text \<open>The binding the registration continues with: \<open>None\<close> when a new worker row is needed.\<close>

definition keep_binding :: "register_request \<Rightarrow> worker_token \<Rightarrow> string option io" where
  "keep_binding body token_row =
     (case t_worker_id token_row of
        None \<Rightarrow> ret None
      | Some bound_id \<Rightarrow>
          bind (query (\<lambda>d. (get_worker (db_workers d) bound_id, db_clock d)))
            (\<lambda>(existing, now). case existing of
               None \<Rightarrow> ret None
             | Some w \<Rightarrow>
                 if (w_name w, w_host w) \<noteq> (rq_name body, rq_host body) \<and> worker_is_live now w
                 then throw (HTTPException 409) else ret (Some bound_id)))"

definition release_worker_jobs :: "string \<Rightarrow> db \<Rightarrow> nat \<times> db" where
  "release_worker_jobs worker_id d =
     (let P = (\<lambda>j. j_worker_id j = Some worker_id \<and> active (j_status j))
      in (rowcount P (db_jobs d),
          d\<lparr>db_jobs := update_where P (release_job (db_clock d)) (db_jobs d)\<rparr>))"

definition register :: "string \<Rightarrow> register_request \<Rightarrow> worker_token \<Rightarrow> string io" where
  "register new_id body token_row =
     bind (keep_binding body token_row) (\<lambda>bound_id.
       let worker_id = (case bound_id of Some b \<Rightarrow> if b = [] then new_id else b | None \<Rightarrow> new_id)
       in bind (if bound_id = None
                then bind (stmt (\<lambda>d. (case link_worker (t_hash token_row) worker_id
                                          (t_worker_id token_row) (db_tokens d) of
                                        (ok, ts) \<Rightarrow> (ok, d\<lparr>db_tokens := ts\<rparr>))))
                       (\<lambda>claimed. if claimed then ret () else throw (HTTPException 409))
                else ret ())
          (\<lambda>_. bind (stmt (\<lambda>d. ((), d\<lparr>db_workers :=
                        upsert_worker (db_clock d) (registered_worker worker_id body) (db_workers d)\<rparr>)))
          (\<lambda>_. bind (stmt (release_worker_jobs worker_id)) (\<lambda>_. ret worker_id))))"

definition heartbeat :: "string \<Rightarrow> WorkerStatus \<Rightarrow> string option \<Rightarrow> worker_token \<Rightarrow> unit io" where
  "heartbeat worker_id status current_job_id token_row =
     (if status = DEAD then throw (HTTPException 422)
      else bind (require_worker_identity token_row worker_id) (\<lambda>_.
        stmt (\<lambda>d. ((), d\<lparr>db_workers :=
          update_worker_heartbeat (db_clock d) worker_id status current_job_id (db_workers d)\<rparr>))))"

record claim =
  cl_job :: job
  cl_claim_token :: "string option"
  cl_library :: "library option"
  cl_safety_mean :: num
  cl_safety_perc5 :: num

definition float_setting ::
  "(string \<Rightarrow> string) \<Rightarrow> (string \<Rightarrow> num option) \<Rightarrow> string \<Rightarrow> num io"
where
  "float_setting env py_float key =
     bind (query (\<lambda>d. effective env (db_app_settings d) key))
       (\<lambda>v. case v of None \<Rightarrow> throw Uncaught
          | Some s \<Rightarrow> (case py_float s of None \<Rightarrow> throw Uncaught | Some x \<Rightarrow> ret x))"

text \<open>The inner \<open>None\<close> is the answer \<open>{"job": null}\<close>, with or without a reason.\<close>

definition claim_job ::
  "(string \<Rightarrow> string) \<Rightarrow> (string \<Rightarrow> num option) \<Rightarrow> string \<Rightarrow> string \<Rightarrow> worker_token \<Rightarrow> claim option io"
where
  "claim_job env py_float new_token worker_id token_row =
     bind (require_worker_identity token_row worker_id) (\<lambda>_.
     bind (query (\<lambda>d. get_state (db_system_state d) ''queue_paused'' ''0'')) (\<lambda>flag.
     bind (if flag = ''1'' then ret True
           else query (\<lambda>d. \<not> is_within_active_window (db_clock d) (db_schedules d))) (\<lambda>paused.
     if paused then ret None
     else bind (query (\<lambda>d. get_worker (db_workers d) worker_id)) (\<lambda>worker.
       let supported_codecs = (case worker of None \<Rightarrow> [''hevc''] | Some w \<Rightarrow> w_supported_codecs w);
           supports_downscale = (case worker of None \<Rightarrow> False | Some w \<Rightarrow> w_supports_downscale w)
       in bind (stmt (\<lambda>d. case claim_next_job (db_clock d) new_token worker_id
                              (Some supported_codecs) supports_downscale (db_jobs d) of
                            (r, t) \<Rightarrow> (r, d\<lparr>db_jobs := t\<rparr>)))
          (\<lambda>job. case job of
             None \<Rightarrow> ret None
           | Some j \<Rightarrow>
               bind (case j_library_id j of
                       None \<Rightarrow> ret None
                     | Some l \<Rightarrow> if l = [] then ret None
                                else query (\<lambda>d. get_library (db_libraries d) l)) (\<lambda>library.
               bind (float_setting env py_float ''vmaf_safety_perc5'') (\<lambda>safety_perc5.
               bind (float_setting env py_float ''vmaf_safety_mean'') (\<lambda>safety_mean.
               ret (Some \<lparr>cl_job = j, cl_claim_token = j_claim_token j, cl_library = library,
                          cl_safety_mean = safety_mean, cl_safety_perc5 = safety_perc5\<rparr>)))))))))"

section \<open>Progress and terminal reports\<close>

record progress_request =
  pr_claim_token :: "string option"
  pr_progress :: num
  pr_phase :: "string option"
  pr_phase_pct :: "num option"
  pr_phase_detail :: "string option"

definition progress_fields :: "progress_request \<Rightarrow> job_field list" where
  "progress_fields body =
     F_progress (pr_progress body) #
     (case pr_phase body of
        None \<Rightarrow> []
      | Some p \<Rightarrow> [F_phase (Some p), F_phase_pct (pr_phase_pct body), F_phase_detail (pr_phase_detail body)])"

text \<open>\<open>job.worker_id or ""\<close>.\<close>

definition owner_of :: "job \<Rightarrow> string" where
  "owner_of j = (case j_worker_id j of None \<Rightarrow> [] | Some w \<Rightarrow> w)"

text \<open>The Redis publication after a won report is best effort and touches no table.\<close>

definition progress_report :: "string \<Rightarrow> progress_request \<Rightarrow> worker_token \<Rightarrow> unit io" where
  "progress_report job_id body token_row =
     bind (require_owned_job job_id token_row) (\<lambda>job.
     bind (require_claim_token token_row (pr_claim_token body)) (\<lambda>claim_token.
     bind (stmt (\<lambda>d. case report_progress (db_clock d) job_id (owner_of job) claim_token
                          (progress_fields body) (db_jobs d) of
                        Inl e \<Rightarrow> (None, d)
                      | Inr (won, t) \<Rightarrow> (Some won, d\<lparr>db_jobs := t\<rparr>))) (\<lambda>won.
     case won of None \<Rightarrow> throw Uncaught
     | Some w \<Rightarrow> if w then ret () else throw (HTTPException 403))))"

record outcome =
  oc_claim_token :: "string option"
  oc_output_size :: int
  oc_space_saved :: int
  oc_source_size :: int
  oc_achieved_vmaf :: "num option"
  oc_achieved_vmaf_perc5 :: "num option"
  oc_predicted_vmaf_mean :: "num option"
  oc_predicted_vmaf_perc5 :: "num option"
  oc_resolved_crf :: "int option"
  oc_backend_used :: "string option"
  oc_reason :: SkipReason
  oc_error_message :: string
  oc_retry_count :: int

text \<open>
  The bodies of the three terminal reports are one record here; each handler reads only the
  fields of its own request type.
\<close>

definition measurement_fields :: "outcome \<Rightarrow> job_field list" where
  "measurement_fields body =
     [F_achieved_vmaf (oc_achieved_vmaf body), F_achieved_vmaf_perc5 (oc_achieved_vmaf_perc5 body),
      F_predicted_vmaf_mean (oc_predicted_vmaf_mean body),
      F_predicted_vmaf_perc5 (oc_predicted_vmaf_perc5 body),
      F_resolved_crf (oc_resolved_crf body), F_backend_used (oc_backend_used body)]"

definition complete_fields :: "time \<Rightarrow> outcome \<Rightarrow> job_field list" where
  "complete_fields now body =
     [F_output_size (Some (oc_output_size body)), F_space_saved (Some (oc_space_saved body)),
      F_source_size (Some (oc_source_size body))]
     @ measurement_fields body @ [F_progress 1, F_completed_at (Some now)]"

definition MAX_ERROR_MESSAGE_LEN :: nat where "MAX_ERROR_MESSAGE_LEN = 10000"

definition skip_fields :: "time \<Rightarrow> outcome \<Rightarrow> job_field list" where
  "skip_fields now body =
     F_error_message (let m = take MAX_ERROR_MESSAGE_LEN (oc_error_message body)
                      in if m = [] then None else Some m)
     # measurement_fields body @ [F_completed_at (Some now)]"

definition fail_fields :: "time \<Rightarrow> outcome \<Rightarrow> job_field list" where
  "fail_fields now body =
     [F_error_message (Some (take MAX_ERROR_MESSAGE_LEN (oc_error_message body))),
      F_retry_count (oc_retry_count body), F_completed_at (Some now)]"

text \<open>The transaction of each terminal report: the fenced transition and, if won, its effects.\<close>

definition complete_tx :: "string \<Rightarrow> job \<Rightarrow> string option \<Rightarrow> outcome \<Rightarrow> db \<Rightarrow> bool option \<times> db" where
  "complete_tx job_id job claim_token body d =
     (case finalize_job (db_clock d) job_id (owner_of job) COMPLETE claim_token
             (complete_fields (db_clock d) body) (db_jobs d) of
        Inl e \<Rightarrow> (None, d)
      | Inr (won, t) \<Rightarrow>
          (Some won,
           if won then
             d\<lparr>db_jobs := t,
               db_media := update_output_by_job (db_clock d) (db_libraries d) job_id
                 (j_target_codec job) (oc_output_size body) (j_target_height job)
                 (update_status_by_job (db_clock d) job_id M_complete None (db_media d))\<rparr>
           else d\<lparr>db_jobs := t\<rparr>))"

definition skip_tx ::
  "string \<Rightarrow> string \<Rightarrow> job \<Rightarrow> string option \<Rightarrow> outcome \<Rightarrow> db \<Rightarrow> bool option \<times> db"
where
  "skip_tx new_id job_id job claim_token body d =
     (case finalize_job (db_clock d) job_id (owner_of job) SKIPPED claim_token
             (skip_fields (db_clock d) body) (db_jobs d) of
        Inl e \<Rightarrow> (None, d)
      | Inr (won, t) \<Rightarrow>
          (Some won,
           if won then
             d\<lparr>db_jobs := t,
               db_skipped := record_skip (db_clock d) new_id (j_source_path job) (j_library job)
                 (j_library_id job) (j_source_codec job) (j_source_resolution job)
                 (j_source_size job) (oc_reason body) None (db_skipped d),
               db_media := update_status_by_job (db_clock d) job_id M_skipped
                 (Some (skip_reason_value (oc_reason body))) (db_media d)\<rparr>
           else d\<lparr>db_jobs := t\<rparr>))"

definition fail_tx :: "string \<Rightarrow> job \<Rightarrow> string option \<Rightarrow> outcome \<Rightarrow> db \<Rightarrow> bool option \<times> db" where
  "fail_tx job_id job claim_token body d =
     (case finalize_job (db_clock d) job_id (owner_of job) FAILED claim_token
             (fail_fields (db_clock d) body) (db_jobs d) of
        Inl e \<Rightarrow> (None, d)
      | Inr (won, t) \<Rightarrow>
          (Some won,
           if won then
             d\<lparr>db_jobs := t,
               db_media := update_status_by_job (db_clock d) job_id M_needs_transcode None (db_media d)\<rparr>
           else d\<lparr>db_jobs := t\<rparr>))"

definition settle_report :: "string \<Rightarrow> JobStatus \<Rightarrow> bool option \<Rightarrow> unit io" where
  "settle_report job_id incoming won =
     (case won of None \<Rightarrow> throw Uncaught
      | Some w \<Rightarrow> if w then ret () else answer_lost_finalize job_id incoming)"

definition complete_job :: "string \<Rightarrow> outcome \<Rightarrow> worker_token \<Rightarrow> unit io" where
  "complete_job job_id body token_row =
     bind (require_owned_job job_id token_row) (\<lambda>job.
     bind (is_duplicate_terminal_report job COMPLETE) (\<lambda>dup.
     if dup then ret ()
     else bind (require_claim_token token_row (oc_claim_token body)) (\<lambda>claim_token.
          bind (stmt (complete_tx job_id job claim_token body))
            (settle_report job_id COMPLETE))))"

definition skip_job :: "string \<Rightarrow> string \<Rightarrow> outcome \<Rightarrow> worker_token \<Rightarrow> unit io" where
  "skip_job new_id job_id body token_row =
     (if oc_reason body \<notin> {BELOW_VMAF_FLOOR, SIZE_REGRESSION, STREAM_LOSS} then throw (HTTPException 422)
      else bind (require_owned_job job_id token_row) (\<lambda>job.
      bind (is_duplicate_terminal_report job SKIPPED) (\<lambda>dup.
      if dup then ret ()
      else bind (require_claim_token token_row (oc_claim_token body)) (\<lambda>claim_token.
           bind (stmt (skip_tx new_id job_id job claim_token body))
             (settle_report job_id SKIPPED)))))"

definition fail_job :: "string \<Rightarrow> outcome \<Rightarrow> worker_token \<Rightarrow> unit io" where
  "fail_job job_id body token_row =
     bind (require_owned_job job_id token_row) (\<lambda>job.
     bind (is_duplicate_terminal_report job FAILED) (\<lambda>dup.
     if dup then ret ()
     else bind (require_claim_token token_row (oc_claim_token body)) (\<lambda>claim_token.
          bind (stmt (fail_tx job_id job claim_token body))
            (settle_report job_id FAILED))))"

section \<open>Derivatives\<close>

definition dedup_fields :: "time \<Rightarrow> derivative \<Rightarrow> job_field list" where
  "dedup_fields now existing =
     [F_output_size (Some (d_output_size existing)), F_space_saved (Some 0), F_progress 1,
      F_completed_at (Some now)]"

definition check_derivative ::
  "string \<Rightarrow> string option \<Rightarrow> string \<Rightarrow> worker_token \<Rightarrow> int option io"
where
  "check_derivative job_id claim_token0 derivative_key token_row =
     bind (require_owned_job job_id token_row) (\<lambda>job.
     bind (query (\<lambda>d. lookup_by_key (db_derivatives d) derivative_key)) (\<lambda>existing.
     case existing of
       None \<Rightarrow> ret None
     | Some e \<Rightarrow>
         bind (is_duplicate_terminal_report job COMPLETE) (\<lambda>dup.
         if dup then ret (Some (d_output_size e))
         else bind (require_claim_token token_row claim_token0) (\<lambda>claim_token.
              bind (stmt (\<lambda>d. case finalize_job (db_clock d) job_id (owner_of job) COMPLETE claim_token
                                    (dedup_fields (db_clock d) e) (db_jobs d) of
                                 Inl _ \<Rightarrow> (None, d)
                               | Inr (won, t) \<Rightarrow> (Some won, d\<lparr>db_jobs := t\<rparr>))) (\<lambda>won.
              bind (settle_report job_id COMPLETE won) (\<lambda>_. ret (Some (d_output_size e))))))))"

definition derivative_of ::
  "string \<Rightarrow> time \<Rightarrow> job \<Rightarrow> library \<Rightarrow> string \<Rightarrow> int \<Rightarrow> num option \<Rightarrow> int option \<Rightarrow> string option \<Rightarrow> derivative"
where
  "derivative_of new_id now job library derivative_key output_size achieved_vmaf resolved_crf backend_used =
     \<lparr>d_id = new_id, d_library_id = l_id library, d_source_key = j_source_path job,
      d_source_path = j_source_path job,
      d_source_resolution = (case j_source_resolution job of None \<Rightarrow> None
                             | Some r \<Rightarrow> if r = [] then None else Some r),
      d_source_audio_codec = None,
      d_target_resolution = target_resolution_for (j_target_height job) (j_source_resolution job),
      d_target_audio_codec = ''copy'', d_target_codec = j_target_codec job,
      d_target_vmaf = j_target_vmaf job, d_achieved_vmaf = achieved_vmaf,
      d_backend = (case backend_used of None \<Rightarrow> ''cpu'' | Some b \<Rightarrow> if b = [] then ''cpu'' else b),
      d_crf = (case resolved_crf of Some c \<Rightarrow> c | None \<Rightarrow> j_quality_value job), d_preset = [],
      d_derivative_key = derivative_key, d_output_size = output_size, d_created_at = now\<rparr>"

text \<open>The insert of a row whose library vanished meanwhile violates the foreign key and surfaces.\<close>

definition register_derivative ::
  "string \<Rightarrow> string \<Rightarrow> string \<Rightarrow> int \<Rightarrow> num option \<Rightarrow> int option \<Rightarrow> string option \<Rightarrow> worker_token \<Rightarrow> unit io"
where
  "register_derivative new_id job_id derivative_key output_size achieved_vmaf resolved_crf backend_used token_row =
     bind (require_owned_job job_id token_row) (\<lambda>job.
     bind (case j_library_id job of
             None \<Rightarrow> ret None
           | Some l \<Rightarrow> if l = [] then ret None else query (\<lambda>d. get_library (db_libraries d) l)) (\<lambda>library.
     case library of
       None \<Rightarrow> throw (HTTPException 409)
     | Some lib \<Rightarrow>
         bind (query (\<lambda>d. lookup_by_key (db_derivatives d) derivative_key)) (\<lambda>existing.
         if existing \<noteq> None then ret ()
         else bind (stmt (\<lambda>d.
                if get_library (db_libraries d) (l_id lib) = None then (False, d)
                else (True, d\<lparr>db_derivatives := snd (create_derivative
                        (derivative_of new_id (db_clock d) job lib derivative_key output_size
                           achieved_vmaf resolved_crf backend_used) (db_derivatives d))\<rparr>)))
                (\<lambda>inserted. if inserted then ret () else throw Uncaught))))"

section \<open>Job routes\<close>

definition retry_job :: "string \<Rightarrow> job option io" where
  "retry_job job_id =
     bind (query (\<lambda>d. get_job (db_jobs d) job_id)) (\<lambda>job.
     case job of
       None \<Rightarrow> throw (HTTPException 404)
     | Some j \<Rightarrow>
         if j_status j \<notin> {FAILED, CANCELLED} then throw (HTTPException 400)
         else bind (query (\<lambda>d. is_excluded (db_exclusions d) (j_source_path j))) (\<lambda>excluded.
         if excluded then throw (HTTPException 400)
         else bind (stmt (\<lambda>d. case update_job (db_clock d) job_id
                              [F_status PENDING, F_worker_id None, F_claim_token None, F_progress 0,
                               F_error_message None, F_retry_count (j_retry_count j + 1)] (db_jobs d) of
                            Inl _ \<Rightarrow> (None, d)
                          | Inr (r, t) \<Rightarrow> (Some r, d\<lparr>db_jobs := t\<rparr>))) (\<lambda>updated.
         case updated of
           None \<Rightarrow> throw Uncaught
         | Some r \<Rightarrow>
             bind (stmt (\<lambda>d. ((), d\<lparr>db_media :=
                     update_status_by_job (db_clock d) job_id M_queued None (db_media d)\<rparr>)))
               (\<lambda>_. ret r))))"

definition cancel_waiting_job :: "string \<Rightarrow> job io" where
  "cancel_waiting_job job_id =
     bind (stmt (\<lambda>d. case cancel_if_waiting (db_clock d) job_id (db_jobs d) of
                        (ok, t) \<Rightarrow> (ok, d\<lparr>db_jobs := t\<rparr>))) (\<lambda>cancelled.
     if \<not> cancelled
     then bind (query (\<lambda>d. get_job (db_jobs d) job_id))
            (\<lambda>job. throw (HTTPException (if job = None then 404 else 400)))
     else bind (stmt (\<lambda>d. ((), d\<lparr>db_media :=
                  update_status_by_job (db_clock d) job_id M_needs_transcode None (db_media d)\<rparr>))) (\<lambda>_.
          bind (query (\<lambda>d. get_job (db_jobs d) job_id))
            (\<lambda>job. case job of None \<Rightarrow> throw (HTTPException 404) | Some j \<Rightarrow> ret j)))"

definition cancel_all_pending :: "nat io" where
  "cancel_all_pending =
     bind (stmt (\<lambda>d. ((), d\<lparr>db_media :=
             update_where (points_into (map j_id (filter (\<lambda>j. waiting (j_status j)) (db_jobs d))))
               (\<lambda>m. m\<lparr>m_transcode_status := M_needs_transcode, m_skip_reason := None,
                      m_updated_at := db_clock d\<rparr>) (db_media d)\<rparr>))) (\<lambda>_.
     stmt (\<lambda>d. (rowcount (\<lambda>j. waiting (j_status j)) (db_jobs d),
             d\<lparr>db_jobs := update_where (\<lambda>j. waiting (j_status j))
               (\<lambda>j. j\<lparr>j_status := CANCELLED, j_updated_at := db_clock d\<rparr>) (db_jobs d)\<rparr>)))"

definition delete_jobs_tx :: "JobStatus list option \<Rightarrow> db \<Rightarrow> (nat \<times> nat) \<times> db" where
  "delete_jobs_tx statuses d =
     (case delete_jobs (db_clock d) statuses (db_jobs d) (db_media d) of
        (removed, released, t, ms) \<Rightarrow> ((removed, released), d\<lparr>db_jobs := t, db_media := ms\<rparr>))"

definition clear_completed :: "(nat \<times> nat) io" where
  "clear_completed = stmt (delete_jobs_tx (Some [COMPLETE, CANCELLED]))"

definition reset_all_jobs :: "string \<Rightarrow> (nat \<times> nat) io" where
  "reset_all_jobs confirm =
     (if confirm \<noteq> ''yes-delete-all'' then throw (HTTPException 400) else stmt (delete_jobs_tx None))"

definition pause_queue :: "bool \<Rightarrow> unit io" where
  "pause_queue paused =
     stmt (\<lambda>d. ((), d\<lparr>db_system_state := set_queue_paused paused (db_system_state d)\<rparr>))"

section \<open>Queueing media files\<close>

definition downscale_codec :: "string option \<Rightarrow> string option \<Rightarrow> string \<Rightarrow> string option" where
  "downscale_codec source_codec explicit h264_default =
     (if source_codec = Some ''h264'' then Some h264_default
      else if source_codec = Some ''hevc''
      then Some (case explicit of Some c \<Rightarrow> if c = [] then ''hevc'' else c | None \<Rightarrow> ''hevc'')
      else if source_codec = Some ''av1''
      then (if explicit = Some ''hevc'' then None else Some ''av1'')
      else None)"

text \<open>The eligibility matrix: the codec a file would be queued with, or \<open>None\<close> to skip it.\<close>

definition resolve_codec ::
  "string option \<Rightarrow> string \<Rightarrow> int option \<Rightarrow> media_file \<Rightarrow> string option"
where
  "resolve_codec codec target_codec target_height mf =
     (if m_transcode_status mf \<in> set IN_FLIGHT_STATUSES then None
      else case target_height of
        None \<Rightarrow>
          if m_video_codec mf \<noteq> Some ''h264'' \<or> m_transcode_status mf = M_complete then None
          else Some target_codec
      | Some th \<Rightarrow>
          (case downscale_codec (m_video_codec mf) codec target_codec of
             None \<Rightarrow> None
           | Some r \<Rightarrow>
               (case m_height mf of
                  None \<Rightarrow> None
                | Some h \<Rightarrow> if h = 0 \<or> h \<le> th then None else Some r)))"

fun queue_candidates ::
  "(string \<Rightarrow> media_file option) \<Rightarrow> (media_file \<Rightarrow> string option) \<Rightarrow> string list
   \<Rightarrow> nat \<times> (media_file \<times> string) list"
where
  "queue_candidates by_id resolve [] = (0, [])"
| "queue_candidates by_id resolve (file_id # ids) =
     (case queue_candidates by_id resolve ids of
        (skipped, cands) \<Rightarrow>
          (case by_id file_id of
             None \<Rightarrow> (skipped + 1, cands)
           | Some mf \<Rightarrow>
               (case resolve mf of
                  None \<Rightarrow> (skipped + 1, cands)
                | Some r \<Rightarrow> (skipped, (mf, r) # cands))))"

definition queued_job ::
  "string \<Rightarrow> library list \<Rightarrow> int option \<Rightarrow> num \<Rightarrow> media_file \<Rightarrow> string \<Rightarrow> job"
where
  "queued_job new_id libs target_height target_vmaf mf resolved =
     (let lib = get_library libs (m_library_id mf)
      in (new_job new_id (m_file_path mf)
            (case lib of None \<Rightarrow> m_library_id mf | Some l \<Rightarrow> l_name l)
            (case m_video_codec mf of None \<Rightarrow> [] | Some c \<Rightarrow> c)
            (case lib of None \<Rightarrow> 21 | Some l \<Rightarrow> l_quality_preset l) 0)
         \<lparr>j_library_id := Some (m_library_id mf), j_source_resolution := m_resolution mf,
          j_source_bitrate := m_bitrate mf, j_source_duration := m_duration mf,
          j_source_size := m_file_size mf, j_target_codec := resolved,
          j_target_height := target_height, j_target_vmaf := Some target_vmaf,
          j_status := QUEUED\<rparr>)"

text \<open>
  The loop of the transaction. \<open>new_id n\<close> is the id of the \<open>n\<close>-th job created; an id already
  taken aborts the transaction (\<open>None\<close>).
\<close>

fun queue_batch ::
  "(nat \<Rightarrow> string) \<Rightarrow> string set \<Rightarrow> int option \<Rightarrow> num \<Rightarrow> (media_file \<times> string) list
   \<Rightarrow> nat \<Rightarrow> nat \<Rightarrow> string list \<Rightarrow> db \<Rightarrow> (nat \<times> nat \<times> db) option"
where
  "queue_batch new_id blocked th vmaf [] queued skipped seen d = Some (queued, skipped, d)"
| "queue_batch new_id blocked th vmaf ((mf, resolved) # rest) queued skipped seen d =
     (if m_file_path mf \<in> blocked \<or> m_file_path mf \<in> set seen
      then queue_batch new_id blocked th vmaf rest queued (skipped + 1) seen d
      else case create_job (db_clock d)
               (queued_job (new_id queued) (db_libraries d) th vmaf mf resolved) (db_jobs d) of
             None \<Rightarrow> None
           | Some (i, t) \<Rightarrow>
               queue_batch new_id blocked th vmaf rest (queued + 1) skipped (m_file_path mf # seen)
                 (d\<lparr>db_jobs := t,
                    db_media := update_media_status (db_clock d) (m_id mf) M_queued None (Some i)
                      (db_media d)\<rparr>))"

definition queue_files ::
  "(string \<Rightarrow> string) \<Rightarrow> (string \<Rightarrow> num option) \<Rightarrow> (nat \<Rightarrow> string) \<Rightarrow> string list \<Rightarrow> string option
   \<Rightarrow> int option \<Rightarrow> (nat \<times> nat) io"
where
  "queue_files env py_float new_id file_ids codec target_height =
     bind (case codec of
             Some c \<Rightarrow> if c = [] then query (\<lambda>d. effective env (db_app_settings d) ''default_codec'')
                       else ret (Some c)
           | None \<Rightarrow> query (\<lambda>d. effective env (db_app_settings d) ''default_codec'')) (\<lambda>tc.
     case tc of None \<Rightarrow> throw Uncaught | Some target_codec \<Rightarrow>
     bind (float_setting env py_float ''target_vmaf'') (\<lambda>target_vmaf.
     bind (query (\<lambda>d. get_by_ids (db_media d) file_ids)) (\<lambda>rows.
       let found = queue_candidates (find_row m_id rows)
                     (resolve_codec codec target_codec target_height) file_ids;
           cands = snd found;
           paths = map (\<lambda>c. m_file_path (fst c)) cands
       in bind (query (\<lambda>d. filter_excluded (db_exclusions d) paths)) (\<lambda>excluded.
          bind (query (\<lambda>d. active_paths paths (db_jobs d))) (\<lambda>busy.
          bind (stmt (\<lambda>d. case queue_batch new_id (excluded \<union> busy) target_height target_vmaf
                               cands 0 (fst found) [] d of
                             None \<Rightarrow> (None, d)
                           | Some (q, s, d') \<Rightarrow> (Some (q, s), d')))
            (\<lambda>r. case r of None \<Rightarrow> throw Uncaught | Some qs \<Rightarrow> ret qs))))))"

text \<open>
  The same transaction statement by statement, as it runs on SQLite's shared connection, where the statements
  of other tasks can come between its own. What the rollback of a failed block leaves is \<open>Database\<close>'s.
\<close>

fun queue_statements ::
  "(nat \<Rightarrow> string) \<Rightarrow> library list \<Rightarrow> string set \<Rightarrow> int option \<Rightarrow> num \<Rightarrow> (media_file \<times> string) list
   \<Rightarrow> nat \<Rightarrow> nat \<Rightarrow> string list \<Rightarrow> (nat \<times> nat) io"
where
  "queue_statements new_id libs blocked th vmaf [] queued skipped seen = ret (queued, skipped)"
| "queue_statements new_id libs blocked th vmaf ((mf, resolved) # rest) queued skipped seen =
     (if m_file_path mf \<in> blocked \<or> m_file_path mf \<in> set seen
      then queue_statements new_id libs blocked th vmaf rest queued (skipped + 1) seen
      else bind (stmt (\<lambda>d. case create_job (db_clock d) (queued_job (new_id queued) libs th vmaf mf resolved) (db_jobs d) of
                          None \<Rightarrow> (None, d) | Some (i, t) \<Rightarrow> (Some i, d\<lparr>db_jobs := t\<rparr>))) (\<lambda>created.
           case created of None \<Rightarrow> throw Uncaught | Some i \<Rightarrow>
             bind (stmt (\<lambda>d. ((), d\<lparr>db_media := update_media_status (db_clock d) (m_id mf) M_queued None (Some i) (db_media d)\<rparr>)))
               (\<lambda>_. queue_statements new_id libs blocked th vmaf rest (queued + 1) skipped (m_file_path mf # seen))))"

definition queue_transaction ::
  "(nat \<Rightarrow> string) \<Rightarrow> string set \<Rightarrow> int option \<Rightarrow> num \<Rightarrow> (media_file \<times> string) list \<Rightarrow> nat \<Rightarrow> (nat \<times> nat) io"
where
  "queue_transaction new_id blocked th vmaf cands skipped =
     bind (query (\<lambda>d. db_libraries d)) (\<lambda>libs. queue_statements new_id libs blocked th vmaf cands 0 skipped [])"

definition skip_selected_files :: "string list \<Rightarrow> string \<Rightarrow> nat io" where
  "skip_selected_files file_ids reason =
     stmt (\<lambda>d. case bulk_update_status (db_clock d) file_ids M_skipped (Some reason) (db_media d) of
                  (n, ms) \<Rightarrow> (n, d\<lparr>db_media := ms\<rparr>))"

definition unskip_selected_files :: "string list \<Rightarrow> nat io" where
  "unskip_selected_files file_ids =
     stmt (\<lambda>d. case bulk_update_status (db_clock d) file_ids M_needs_transcode None (db_media d) of
                  (n, ms) \<Rightarrow> (n, d\<lparr>db_media := ms\<rparr>))"

section \<open>Workers, tokens, libraries, exclusions\<close>

definition WORKER_STALE_THRESHOLD_SECONDS :: int where "WORKER_STALE_THRESHOLD_SECONDS = 1800"

definition delete_worker_tx :: "string \<Rightarrow> db \<Rightarrow> bool \<times> db" where
  "delete_worker_tx worker_id d =
     (case delete_worker worker_id (db_workers d) of (ok, ws) \<Rightarrow> (ok, d\<lparr>db_workers := ws\<rparr>))"

definition delete_worker_route :: "string \<Rightarrow> bool io" where
  "delete_worker_route worker_id =
     bind (query (\<lambda>d. (get_worker (db_workers d) worker_id, db_clock d))) (\<lambda>(worker, now).
     case worker of
       None \<Rightarrow> throw (HTTPException 404)
     | Some w \<Rightarrow>
         if (case w_last_heartbeat w of None \<Rightarrow> False
             | Some beat \<Rightarrow> now - beat < WORKER_STALE_THRESHOLD_SECONDS * SECOND)
         then throw (HTTPException 409)
         else bind (query (\<lambda>d. count_active_jobs_for_worker worker_id (db_jobs d))) (\<lambda>n.
         if n > 0 then throw (HTTPException 409) else stmt (delete_worker_tx worker_id)))"

definition issue_token :: "(string \<Rightarrow> string) \<Rightarrow> string \<Rightarrow> string \<Rightarrow> string io" where
  "issue_token hash_token token label =
     stmt (\<lambda>d. case create_token hash_token (db_clock d) token label None (db_tokens d) of
                  (tok, ts) \<Rightarrow> (tok, d\<lparr>db_tokens := ts\<rparr>))"

definition revoke_token_route :: "(string \<Rightarrow> string) \<Rightarrow> string \<Rightarrow> bool io" where
  "revoke_token_route hash_token token =
     bind (query (\<lambda>d. find_worker_id_for_token hash_token token (db_tokens d))) (\<lambda>worker_id.
     bind (stmt (\<lambda>d. case revoke_token hash_token (db_clock d) token (db_tokens d) of
                        (ok, ts) \<Rightarrow> (ok, d\<lparr>db_tokens := ts\<rparr>))) (\<lambda>revoked.
     if \<not> revoked then throw (HTTPException 404)
     else case worker_id of
       None \<Rightarrow> ret False
     | Some wid \<Rightarrow>
         if wid = [] then ret False
         else bind (query (\<lambda>d. (get_worker (db_workers d) wid, db_clock d))) (\<lambda>(worker, now).
         case (case worker of None \<Rightarrow> None | Some w \<Rightarrow> w_last_heartbeat w) of
           None \<Rightarrow> ret False
         | Some beat \<Rightarrow>
             bind (query (\<lambda>d. count_active_jobs_for_worker wid (db_jobs d))) (\<lambda>n.
             if now - beat \<ge> WORKER_STALE_THRESHOLD_SECONDS * SECOND \<and> n = 0
             then stmt (delete_worker_tx wid) else ret False))))"

text \<open>Two statements, each visible to the others before the next (the order is the foreign key's).\<close>

definition delete_library_route :: "string \<Rightarrow> bool io" where
  "delete_library_route lib_id =
     bind (stmt (\<lambda>d. ((), d\<lparr>db_media := delete_where (\<lambda>m. m_library_id m = lib_id) (db_media d)\<rparr>))) (\<lambda>_.
     stmt (\<lambda>d. (rowcount (\<lambda>l. l_id l = lib_id) (db_libraries d) > 0,
                d\<lparr>db_libraries := delete_where (\<lambda>l. l_id l = lib_id) (db_libraries d)\<rparr>)))"

definition add_exclusion_route :: "string \<Rightarrow> unit io" where
  "add_exclusion_route path =
     (if strip path = [] then throw (HTTPException 400)
      else stmt (\<lambda>d. ((), d\<lparr>db_exclusions := add_exclusion path (db_exclusions d)\<rparr>)))"

definition remove_exclusion_route :: "string \<Rightarrow> bool io" where
  "remove_exclusion_route path =
     stmt (\<lambda>d. case remove_exclusion path (db_exclusions d) of
                  (ok, ex) \<Rightarrow> (ok, d\<lparr>db_exclusions := ex\<rparr>))"

section \<open>The periodic sweeps\<close>

definition stale_worker_pass :: "int \<Rightarrow> nat io" where
  "stale_worker_pass heartbeat_timeout =
     stmt (\<lambda>d. case cleanup_stale_workers (db_clock d) (heartbeat_timeout * 3) (db_workers d) of
                  (n, ws) \<Rightarrow> (n, d\<lparr>db_workers := ws\<rparr>))"

definition orphan_requeue_pass :: "((string \<times> string) list \<times> (string \<times> string) list) io" where
  "orphan_requeue_pass =
     bind (stmt (\<lambda>d. case requeue_orphan_active_jobs (db_clock d) ORPHAN_REQUEUE_GRACE_SECONDS
                          (db_workers d) (db_jobs d) of (r, t) \<Rightarrow> (r, d\<lparr>db_jobs := t\<rparr>))) (\<lambda>requeued.
     bind (stmt (\<lambda>d. case requeue_abandoned_active_jobs (db_clock d) ABANDONED_GRACE_SECONDS
                          (db_workers d) (db_jobs d) of (r, t) \<Rightarrow> (r, d\<lparr>db_jobs := t\<rparr>))) (\<lambda>abandoned.
     ret (requeued, abandoned)))"

end
