(* ===== verification/Scheduler.thy ===== *)
theory Scheduler
  imports Handlers
begin

text \<open>
  The scheduler as a whole: one step of the system is one atomic statement of one handler or
  sweep, so every interleaving of requests is a run of \<open>sched_step\<close>. The state carries the history
  of the attempts: \<open>Claimed\<close> when a claim issued a token, \<open>Recorded\<close> when an attempt's terminal
  outcome was written. The theory shows that every handler, whatever runs between its statements,
  is such a run, and proves the system's invariants over all runs.
\<close>

section \<open>Steps\<close>

datatype event = Claimed string | Recorded string JobStatus

type_synonym sys = "db \<times> event list"

definition retry_fields :: "int \<Rightarrow> job_field list" where
  "retry_fields n = [F_status PENDING, F_worker_id None, F_claim_token None, F_progress 0,
     F_error_message None, F_retry_count n]"

text \<open>The attempt a won transition ends: the token on the row.\<close>

definition attempt_of :: "string \<Rightarrow> job list \<Rightarrow> string" where
  "attempt_of job_id t = (case get_job t job_id of None \<Rightarrow> []
     | Some j \<Rightarrow> (case j_claim_token j of None \<Rightarrow> [] | Some tok \<Rightarrow> tok))"

inductive sched_step :: "sys \<Rightarrow> sys \<Rightarrow> bool" where
  s_claim: "claim_next_job (db_clock d) tok w cs ds (db_jobs d) = (Some j, t)
    \<Longrightarrow> sched_step (d, tr) (d\<lparr>db_jobs := t\<rparr>, tr @ [Claimed tok])"
| s_progress: "report_progress (db_clock d) i w tok (progress_fields body) (db_jobs d) = Inr (b, t)
    \<Longrightarrow> sched_step (d, tr) (d\<lparr>db_jobs := t\<rparr>, tr)"
| s_complete: "complete_tx i job tok body d = (Some True, d')
    \<Longrightarrow> sched_step (d, tr) (d', tr @ [Recorded (attempt_of i (db_jobs d)) COMPLETE])"
| s_skip: "skip_tx nid i job tok body d = (Some True, d')
    \<Longrightarrow> sched_step (d, tr) (d', tr @ [Recorded (attempt_of i (db_jobs d)) SKIPPED])"
| s_fail: "fail_tx i job tok body d = (Some True, d')
    \<Longrightarrow> sched_step (d, tr) (d', tr @ [Recorded (attempt_of i (db_jobs d)) FAILED])"
| s_dedup: "finalize_job (db_clock d) i w COMPLETE tok (dedup_fields (db_clock d) e) (db_jobs d) = Inr (True, t)
    \<Longrightarrow> sched_step (d, tr) (d\<lparr>db_jobs := t\<rparr>, tr @ [Recorded (attempt_of i (db_jobs d)) COMPLETE])"
| s_retry: "update_job (db_clock d) i (retry_fields n) (db_jobs d) = Inr (r, t)
    \<Longrightarrow> sched_step (d, tr) (d\<lparr>db_jobs := t\<rparr>, tr)"
| s_cancel: "cancel_if_waiting (db_clock d) i (db_jobs d) = (b, t)
    \<Longrightarrow> sched_step (d, tr) (d\<lparr>db_jobs := t\<rparr>, tr)"
| s_cancel_all: "sched_step (d, tr) (d\<lparr>db_jobs := update_where (\<lambda>j. waiting (j_status j))
      (\<lambda>j. j\<lparr>j_status := CANCELLED, j_updated_at := db_clock d\<rparr>) (db_jobs d)\<rparr>, tr)"
| s_queue: "queue_batch new_id blocked th vmaf cands q s seen d = Some (q', s', d')
    \<Longrightarrow> sched_step (d, tr) (d', tr)"
| s_delete: "delete_jobs_tx st d = (n, d') \<Longrightarrow> sched_step (d, tr) (d', tr)"
| s_release: "release_worker_jobs w d = (n, d') \<Longrightarrow> sched_step (d, tr) (d', tr)"
| s_orphans: "requeue_orphan_active_jobs (db_clock d) g (db_workers d) (db_jobs d) = (ids, t)
    \<Longrightarrow> sched_step (d, tr) (d\<lparr>db_jobs := t\<rparr>, tr)"
| s_abandoned: "requeue_abandoned_active_jobs (db_clock d) g (db_workers d) (db_jobs d) = (ids, t)
    \<Longrightarrow> sched_step (d, tr) (d\<lparr>db_jobs := t\<rparr>, tr)"
| s_job_catalog: "sched_step (d, tr) (d\<lparr>db_media := update_status_by_job (db_clock d) i st sk (db_media d)\<rparr>, tr)"
| s_cancel_catalog: "sched_step (d, tr) (d\<lparr>db_media :=
      update_where (points_into ids) (\<lambda>m. m\<lparr>m_transcode_status := M_needs_transcode,
        m_skip_reason := None, m_updated_at := db_clock d\<rparr>) (db_media d)\<rparr>, tr)"
| s_bulk_catalog: "bulk_update_status (db_clock d) ids st sk (db_media d) = (n, ms)
    \<Longrightarrow> sched_step (d, tr) (d\<lparr>db_media := ms\<rparr>, tr)"
| s_scan: "upsert_media_file (db_clock d) nid probed (db_media d) = (i, ms)
    \<Longrightarrow> sched_step (d, tr) (d\<lparr>db_media := ms\<rparr>, tr)"
| s_prune: "sched_step (d, tr) (d\<lparr>db_media := delete_where P (db_media d)\<rparr>, tr)"
| s_other: "db_jobs d' = db_jobs d \<Longrightarrow> db_media d' = db_media d \<Longrightarrow> sched_step (d, tr) (d', tr)"

text \<open>What the rest of the system may do to the tables between two statements.\<close>

definition reach :: "db \<Rightarrow> db \<Rightarrow> bool" where
  "reach d d' \<longleftrightarrow> (\<forall>tr. \<exists>tr'. run sched_step (d, tr) (d', tr @ tr'))"

abbreviation interferes :: "interference \<Rightarrow> bool" where
  "interferes \<equiv> interferes_as reach"

abbreviation follows :: "'a io \<Rightarrow> bool" where
  "follows \<equiv> follows_as reach"

section \<open>Invariants\<close>

definition job_ok :: "job \<Rightarrow> bool" where
  "job_ok j \<longleftrightarrow>
     (waiting (j_status j) \<longrightarrow> j_worker_id j = None \<and> j_claim_token j = None)
     \<and> (active (j_status j) \<longrightarrow> j_worker_id j \<noteq> None \<and> j_claim_token j \<noteq> None)"

definition links_ok :: "job list \<Rightarrow> media_file list \<Rightarrow> bool" where
  "links_ok t ms \<longleftrightarrow>
     list_all (\<lambda>m. case m_job_id m of None \<Rightarrow> True | Some i \<Rightarrow> i \<in> set (map j_id t)) ms"

definition consistent :: "db \<Rightarrow> bool" where
  "consistent d \<longleftrightarrow> keys_distinct j_id (db_jobs d) \<and> list_all job_ok (db_jobs d)
     \<and> links_ok (db_jobs d) (db_media d)"

definition claimed :: "event list \<Rightarrow> string list" where
  "claimed tr = List.map_filter (\<lambda>e. case e of Claimed tok \<Rightarrow> Some tok | Recorded _ _ \<Rightarrow> None) tr"

definition recorded :: "event list \<Rightarrow> string list" where
  "recorded tr = List.map_filter (\<lambda>e. case e of Claimed _ \<Rightarrow> None | Recorded tok _ \<Rightarrow> Some tok) tr"

definition tokens_of :: "job list \<Rightarrow> string list" where
  "tokens_of t = List.map_filter j_claim_token t"

text \<open>
  The history of attempts, given that issued tokens are pairwise distinct: every token on a row
  was issued and is on one row only; an attempt is recorded at most once, was issued, and from
  then on no unfinished job carries its token.
\<close>

definition attempts_hold :: "job list \<Rightarrow> event list \<Rightarrow> bool" where
  "attempts_hold t tr \<longleftrightarrow>
     distinct (tokens_of t) \<and> set (tokens_of t) \<subseteq> set (claimed tr)
     \<and> distinct (recorded tr) \<and> set (recorded tr) \<subseteq> set (claimed tr)
     \<and> list_all (\<lambda>j. terminal (j_status j) \<or> (case j_claim_token j of None \<Rightarrow> True
          | Some tok \<Rightarrow> tok \<notin> set (recorded tr))) t"

definition attempts_ok :: "sys \<Rightarrow> bool" where
  "attempts_ok s \<longleftrightarrow> (distinct (claimed (snd s)) \<longrightarrow> attempts_hold (db_jobs (fst s)) (snd s))"

text \<open>A change of one row that no invariant notices.\<close>

definition row_ok :: "job \<Rightarrow> job \<Rightarrow> bool" where
  "row_ok r r' \<longleftrightarrow> j_id r' = j_id r \<and> (job_ok r \<longrightarrow> job_ok r')
     \<and> (j_claim_token r' = None
        \<or> j_claim_token r' = j_claim_token r \<and> (terminal (j_status r) \<longrightarrow> terminal (j_status r')))"

text \<open>The three report transactions have one shape: a won transition and linked catalog rows.\<close>

definition report_shape :: "string \<Rightarrow> JobStatus \<Rightarrow> db \<Rightarrow> db \<Rightarrow> bool" where
  "report_shape i st d d' \<longleftrightarrow>
     (\<exists>w tok fs t. finalize_job (db_clock d) i w st tok fs (db_jobs d) = Inr (True, t) \<and> db_jobs d' = t)
     \<and> (links_ok (db_jobs d) (db_media d) \<longrightarrow> links_ok (db_jobs d) (db_media d'))"

section \<open>Row-wise changes\<close>

lemma status_disjoint:
  "terminal s \<Longrightarrow> \<not> waiting s" "terminal s \<Longrightarrow> \<not> active s" "active s \<Longrightarrow> \<not> waiting s"
  "\<not> terminal s \<Longrightarrow> \<not> waiting s \<Longrightarrow> active s"
  by (cases s; simp add: status_sets)+

lemma row_ok_refl [simp]: "row_ok r r"
  by (simp add: row_ok_def)

lemma update_where_row_ok:
  "(\<And>r. r \<in> set t \<Longrightarrow> P r \<Longrightarrow> row_ok r (f r)) \<Longrightarrow> list_all2 row_ok t (update_where P f t)"
  by (induction t) (auto simp: update_where_def)

lemma tokens_of_simps [simp]:
  "tokens_of [] = []"
  "tokens_of (j # t) = (case j_claim_token j of None \<Rightarrow> tokens_of t | Some tok \<Rightarrow> tok # tokens_of t)"
  "tokens_of (t @ u) = tokens_of t @ tokens_of u"
  by (simp_all add: tokens_of_def List.map_filter_def split: option.splits)

lemma set_tokens_of: "tok \<in> set (tokens_of t) \<longleftrightarrow> (\<exists>j\<in>set t. j_claim_token j = Some tok)"
  by (induction t) (auto split: option.splits)

lemma claimed_simps [simp]:
  "claimed [] = []" "claimed (tr @ [Claimed tok]) = claimed tr @ [tok]"
  "claimed (tr @ [Recorded tok st]) = claimed tr"
  by (simp_all add: claimed_def List.map_filter_def)

lemma recorded_simps [simp]:
  "recorded [] = []" "recorded (tr @ [Claimed tok]) = recorded tr"
  "recorded (tr @ [Recorded tok st]) = recorded tr @ [tok]"
  by (simp_all add: recorded_def List.map_filter_def)

lemma row_ok_keys: "list_all2 row_ok t t' \<Longrightarrow> map j_id t' = map j_id t"
  by (induction rule: list_all2_induct) (auto simp: row_ok_def)

lemma row_ok_jobs: "list_all2 row_ok t t' \<Longrightarrow> list_all job_ok t \<Longrightarrow> list_all job_ok t'"
  by (induction rule: list_all2_induct) (auto simp: row_ok_def)

lemma row_ok_tokens_set: "list_all2 row_ok t t' \<Longrightarrow> set (tokens_of t') \<subseteq> set (tokens_of t)"
  by (induction rule: list_all2_induct) (auto simp: row_ok_def split: option.splits)

lemma row_ok_tokens_distinct:
  "list_all2 row_ok t t' \<Longrightarrow> distinct (tokens_of t) \<Longrightarrow> distinct (tokens_of t')"
proof (induction rule: list_all2_induct)
  case (Cons r t r' t')
  then show ?case
    using row_ok_tokens_set [OF Cons.hyps(2)]
    by (auto simp: row_ok_def split: option.splits)
qed simp

lemma row_ok_unfinished:
  "list_all2 row_ok t t' \<Longrightarrow>
     list_all (\<lambda>j. terminal (j_status j) \<or> (case j_claim_token j of None \<Rightarrow> True | Some tok \<Rightarrow> tok \<notin> R)) t \<Longrightarrow>
     list_all (\<lambda>j. terminal (j_status j) \<or> (case j_claim_token j of None \<Rightarrow> True | Some tok \<Rightarrow> tok \<notin> R)) t'"
  by (induction rule: list_all2_induct) (auto simp: row_ok_def split: option.splits)

lemma row_ok_links: "list_all2 row_ok t t' \<Longrightarrow> links_ok t ms \<Longrightarrow> links_ok t' ms"
  using row_ok_keys [of t t'] by (simp only: links_ok_def)

lemma row_ok_attempts: "list_all2 row_ok t t' \<Longrightarrow> attempts_hold t tr \<Longrightarrow> attempts_hold t' tr"
  using row_ok_tokens_set row_ok_tokens_distinct row_ok_unfinished [of t t' "set (recorded tr)"]
  unfolding attempts_hold_def by blast

section \<open>The row changes of the repository\<close>

lemma terminal_row_ok:
  assumes "terminal st" and "invalid_cols fs = []" and "''status'' \<notin> set (map col fs)"
    and "''worker_id'' \<notin> set (map col fs)" and "''claim_token'' \<notin> set (map col fs)"
  shows "row_ok r (set_fields (F_status st # fs @ [F_updated_at now]) r)"
  using assms status_disjoint(1,2) [OF assms(1)]
  by (simp add: row_ok_def job_ok_def set_fields_frame valid_fields_keep_id)

lemma finalize_rows:
  assumes "finalize_job now i w st tok fs t = Inr (b, t')" and "terminal st"
  shows "list_all2 row_ok t t'"
  unfolding finalize_job_cases(2) [OF assms(1)]
  by (rule update_where_row_ok, rule terminal_row_ok [OF assms(2)])
    (use finalize_job_cases(3-6) [OF assms(1)] in simp_all)

lemma progress_rows:
  assumes "report_progress now i w tok (progress_fields body) t = Inr (b, t')"
  shows "list_all2 row_ok t t'"
  unfolding report_progress_cases(2) [OF assms]
  by (rule update_where_row_ok)
    (simp add: row_ok_def job_ok_def progress_fields_def split: option.splits)

lemma retry_rows:
  assumes "update_job now i (retry_fields n) t = Inr (r, t')"
  shows "list_all2 row_ok t t'"
proof -
  from assms have "t' = update_where (\<lambda>j. j_id j = i) (set_fields (retry_fields n @ [F_updated_at now])) t"
    by (auto simp: update_job_def retry_fields_def Let_def split: if_splits)
  then show ?thesis
    by (simp only:) (rule update_where_row_ok, simp add: row_ok_def job_ok_def retry_fields_def status_sets)
qed

lemma cancel_rows:
  "list_all2 row_ok t (update_where (\<lambda>j. P j \<and> waiting (j_status j))
     (\<lambda>j. j\<lparr>j_status := CANCELLED, j_updated_at := now\<rparr>) t)"
  by (rule update_where_row_ok) (auto simp: row_ok_def job_ok_def status_sets)

lemma release_rows: "list_all2 row_ok t (update_where P (release_job now) t)"
  by (rule update_where_row_ok) (simp add: row_ok_def job_ok_def release_job_def status_sets)

lemma sweep_row_ok: "sweep now a b t = (ids, t') \<Longrightarrow> list_all2 row_ok t t'"
  by (auto simp: sweep_def Let_def intro: release_rows)

lemmas quiet_rows = progress_rows retry_rows release_rows sweep_row_ok


section \<open>Claims and recorded outcomes\<close>

lemma split_row:
  assumes "keys_distinct j_id t" and "k \<in> set t"
  obtains xs ys where "t = xs @ k # ys" "\<And>j. j \<in> set xs \<union> set ys \<Longrightarrow> j_id j \<noteq> j_id k"
proof -
  from assms(2) obtain xs ys where t: "t = xs @ k # ys" by (auto dest: split_list)
  with assms(1) have "\<And>j. j \<in> set xs \<union> set ys \<Longrightarrow> j_id j \<noteq> j_id k"
    by (auto simp: keys_distinct_def image_iff)
  with t that show thesis by blast
qed

lemma update_split_row:
  assumes "t = xs @ k # ys" and "\<And>j. j \<in> set xs \<union> set ys \<Longrightarrow> \<not> P j" and "P k"
  shows "update_where P f t = xs @ f k # ys"
  using assms by (auto simp: update_where_def map_idI)

lemma claim_split:
  assumes "keys_distinct j_id t" and "list_all job_ok t"
    and "claim_next_job now tok w cs d t = (Some j, t')"
  obtains xs ys k where "t = xs @ k # ys" "t' = xs @ j # ys" "j_id j = j_id k" "j_claim_token k = None"
    "j_claim_token j = Some tok" "j_worker_id j = Some w" "j_status j = TRANSCODING"
proof -
  let ?f = "\<lambda>j. j\<lparr>j_status := TRANSCODING, j_worker_id := Some w, j_claim_token := Some tok,
                   j_started_at := Some now, j_updated_at := now\<rparr>"
  obtain k where k: "get_job t (j_id j) = Some k" "claimable (claim_codecs cs) d k" "j = ?f k"
    "t' = update_where (\<lambda>l. j_id l = j_id j) ?f t"
    by (rule claim_next_job_Some [OF assms(1,3)]) blast
  then have m: "k \<in> set t" using assms(1) by (simp add: get_job_Some_iff)
  obtain xs ys where t: "t = xs @ k # ys" "\<And>j. j \<in> set xs \<union> set ys \<Longrightarrow> j_id j \<noteq> j_id k"
    by (rule split_row [OF assms(1) m]) blast
  have id: "j_id j = j_id k" using k(3) by simp
  have "t' = xs @ ?f k # ys"
    unfolding k(4) by (rule update_split_row [OF t(1)]) (use t(2) id in auto)
  then have t': "t' = xs @ j # ys" by (simp only: k(3) [symmetric])
  have "job_ok k" using assms(2) m by (simp add: list_all_iff)
  then have "j_claim_token k = None" using k(2) by (simp add: job_ok_def claimable_def)
  with t(1) t' id k(3) that show thesis by simp
qed

lemma claim_attempts:
  assumes "keys_distinct j_id t" and "list_all job_ok t"
    and "claim_next_job now tok w cs d t = (Some j, t')" and "attempts_hold t tr"
    and "distinct (claimed tr @ [tok])"
  shows "attempts_hold t' (tr @ [Claimed tok])"
proof -
  obtain xs ys k where c: "t = xs @ k # ys" "t' = xs @ j # ys" "j_claim_token k = None"
    "j_claim_token j = Some tok"
    by (rule claim_split [OF assms(1-3)]) blast
  have "tok \<notin> set (tokens_of t)" and "tok \<notin> set (recorded tr)"
    using assms(4,5) by (auto simp: attempts_hold_def)
  with assms(4) c show ?thesis
    unfolding attempts_hold_def recorded_simps claimed_simps by auto
qed

lemma claim_consistent:
  assumes "keys_distinct j_id t" and "list_all job_ok t"
    and "claim_next_job now tok w cs d t = (Some j, t')"
  shows "keys_distinct j_id t' \<and> list_all job_ok t' \<and> map j_id t' = map j_id t"
proof -
  obtain xs ys k where c: "t = xs @ k # ys" "t' = xs @ j # ys" "j_id j = j_id k"
    "j_claim_token j = Some tok" "j_worker_id j = Some w" "j_status j = TRANSCODING"
    by (rule claim_split [OF assms]) blast
  have "job_ok j" using c(4-6) by (simp add: job_ok_def status_sets)
  with assms(1,2) c(1-3) show ?thesis by (simp add: keys_distinct_def)
qed

lemma distinct_tokens_same:
  assumes "distinct (tokens_of t)" and "j \<in> set t" and "k \<in> set t"
    and "j_claim_token j = Some tok" and "j_claim_token k = Some tok"
  shows "j = k"
  using assms
proof (induction t)
  case (Cons x t)
  then show ?case by (cases "j_claim_token x") (auto simp: set_tokens_of)
qed simp

lemma finalize_attempts:
  assumes "keys_distinct j_id t" and "list_all job_ok t" and "terminal st"
    and "finalize_job now i w st tok fs t = Inr (True, t')" and "attempts_hold t tr"
  shows "attempts_hold t' (tr @ [Recorded (attempt_of i t) st])"
proof -
  obtain j j' where j: "get_job t i = Some j" "finalize_guard i w tok j" "get_job t' i = Some j'"
    "j_status j' = st" by (rule finalize_job_won_row [OF assms(1,4)]) blast
  from j(1) have m: "j \<in> set t" "j_id j = i" using assms(1) by (simp_all add: get_job_Some_iff)
  have nt: "\<not> terminal (j_status j)" and ow: "j_worker_id j = Some w"
    using j(2) by (simp_all add: finalize_guard_def)
  have jok: "job_ok j" using assms(2) m(1) by (simp add: list_all_iff)
  then have "active (j_status j)" using nt ow status_disjoint(4) by (auto simp: job_ok_def)
  with jok obtain a where a: "j_claim_token j = Some a" by (auto simp: job_ok_def)
  have att: "attempt_of i t = a" by (simp add: attempt_of_def j(1) a)
  have "a \<in> set (tokens_of t)" using m(1) a by (auto simp: set_tokens_of)
  with assms(5) m(1) nt a have new: "a \<notin> set (recorded tr)" and iss: "a \<in> set (claimed tr)"
    by (auto simp: attempts_hold_def list_all_iff)
  note rows = finalize_rows [OF assms(4,3)]
  have h: "attempts_hold t' tr" by (rule row_ok_attempts [OF rows assms(5)])
  have d': "keys_distinct j_id t'" using assms(1) row_ok_keys [OF rows] by (simp add: keys_distinct_def)
  have tok': "j_claim_token j' = Some a"
    by (rule finalize_job_won_row [OF assms(1,4)]) (use j(1,3) a in simp)
  have fin: "terminal (j_status l)" if "l \<in> set t'" "j_claim_token l = Some a" for l
  proof -
    have "j' \<in> set t'" using j(3) d' by (simp add: get_job_Some_iff)
    with distinct_tokens_same [of t' l j' a] that tok' h have "l = j'" by (simp add: attempts_hold_def)
    with j(4) assms(3) show ?thesis by simp
  qed
  have "list_all (\<lambda>j. terminal (j_status j) \<or> (case j_claim_token j of None \<Rightarrow> True
          | Some tok \<Rightarrow> tok \<notin> set (recorded (tr @ [Recorded a st])))) t'"
    unfolding list_all_iff
  proof
    fix l assume l: "l \<in> set t'"
    with h fin show "terminal (j_status l) \<or> (case j_claim_token l of None \<Rightarrow> True
          | Some tok \<Rightarrow> tok \<notin> set (recorded (tr @ [Recorded a st])))"
      by (auto simp: attempts_hold_def list_all_iff split: option.splits)
  qed
  with h new iss show ?thesis by (simp add: attempts_hold_def att)
qed


section \<open>Queueing, deletion and the catalog\<close>

lemma attempts_append: "attempts_hold t tr \<Longrightarrow> j_claim_token j = None \<Longrightarrow> attempts_hold (t @ [j]) tr"
  by (simp add: attempts_hold_def)

lemma tokens_of_filter:
  "set (tokens_of (filter P t)) \<subseteq> set (tokens_of t)"
  "distinct (tokens_of t) \<Longrightarrow> distinct (tokens_of (filter P t))"
proof -
  show s: "set (tokens_of (filter P t)) \<subseteq> set (tokens_of t)" for t by (auto simp: set_tokens_of)
  show "distinct (tokens_of t) \<Longrightarrow> distinct (tokens_of (filter P t))"
  proof (induction t)
    case (Cons j t)
    with s [of t] show ?case by (auto split: option.splits)
  qed simp
qed

lemma attempts_filter: "attempts_hold t tr \<Longrightarrow> attempts_hold (filter P t) tr"
  using tokens_of_filter [where P = P and t = t] unfolding attempts_hold_def by (auto simp: list_all_iff)

lemma links_update:
  assumes "\<And>m. m_job_id (f m) = m_job_id m" and "links_ok t ms"
  shows "links_ok t (update_where P f ms)"
  using assms by (auto simp: links_ok_def list_all_iff set_update_where)

lemma links_status_by_job: "links_ok t ms \<Longrightarrow> links_ok t (update_status_by_job now i st sk ms)"
  unfolding update_status_by_job_def by (rule links_update) simp_all

lemma describe_output_m_job_id [simp]: "m_job_id (describe_output now c s th r) = m_job_id r"
  by (simp add: describe_output_def split: option.splits)

lemma links_describe_rows: "links_ok t ms \<Longrightarrow> links_ok t (describe_rows now c s th rs ms)"
  by (induction rs arbitrary: ms) (simp_all add: links_update)

lemma links_output_by_job:
  "links_ok t ms \<Longrightarrow> links_ok t (update_output_by_job now libs i c s th ms)"
  by (simp add: update_output_by_job_def links_update links_describe_rows split: option.splits)

lemma links_upsert:
  "links_ok t ms \<Longrightarrow> upsert_media_file now nid probed ms = (i, ms') \<Longrightarrow> links_ok t ms'"
  by (auto simp: upsert_media_file_def merge_media_def Let_def links_ok_def list_all_iff
      set_update_where split: prod.splits if_splits)

lemma links_subset: "links_ok t ms \<Longrightarrow> set ms' \<subseteq> set ms \<Longrightarrow> links_ok t ms'"
  by (auto simp: links_ok_def list_all_iff)

lemma links_bulk:
  "links_ok t ms \<Longrightarrow> bulk_update_status now ids st sk ms = (n, ms') \<Longrightarrow> links_ok t ms'"
  by (auto simp: bulk_update_status_def split: if_splits intro: links_update)

lemma queue_batch_keeps:
  assumes "queue_batch new_id blocked th vmaf cands q s seen d = Some (q', s', d')" and "consistent d"
  shows "consistent d' \<and> (attempts_hold (db_jobs d) tr \<longrightarrow> attempts_hold (db_jobs d') tr)"
  using assms
proof (induction cands arbitrary: q s seen d)
  case (Cons c rest)
  obtain mf resolved where c: "c = (mf, resolved)" by (rule prod.exhaust)
  show ?case
  proof (cases "m_file_path mf \<in> blocked \<or> m_file_path mf \<in> set seen")
    case True
    with Cons.prems Cons.IH show ?thesis by (auto simp: c)
  next
    case False
    let ?j = "queued_job (new_id q) (db_libraries d) th vmaf mf resolved"
    from False Cons.prems(1) obtain i t where t: "create_job (db_clock d) ?j (db_jobs d) = Some (i, t)"
      by (auto simp: c split: option.splits)
    then obtain j where j: "t = db_jobs d @ [j]" "j_id j = i" "i \<notin> j_id ` set (db_jobs d)"
      "j_status j = QUEUED" "j_worker_id j = None" "j_claim_token j = None"
      by (auto simp: create_job_def queued_job_def new_job_def Let_def split: if_splits)
    let ?d = "d\<lparr>db_jobs := t, db_media := update_media_status (db_clock d) (m_id mf) M_queued None
        (Some i) (db_media d)\<rparr>"
    have "job_ok j" using j(4-6) by (simp add: job_ok_def status_sets)
    with Cons.prems(2) j have "consistent ?d"
      by (auto simp: consistent_def keys_distinct_def links_ok_def list_all_iff update_media_status_def
          set_update_where split: option.splits)
    moreover have "attempts_hold (db_jobs d) tr \<longrightarrow> attempts_hold (db_jobs ?d) tr"
      using j(1,6) by (simp add: attempts_append)
    moreover from False Cons.prems(1) t
    have "queue_batch new_id blocked th vmaf rest (q + 1) s (m_file_path mf # seen) ?d = Some (q', s', d')"
      by (simp add: c)
    ultimately show ?thesis using Cons.IH by blast
  qed
qed simp

lemma delete_keeps:
  assumes "delete_jobs_tx st d = (n, d')" and "consistent d"
  shows "consistent d' \<and> (attempts_hold (db_jobs d) tr \<longrightarrow> attempts_hold (db_jobs d') tr)"
proof -
  have k: "keys_distinct j_id (db_jobs d)" using assms(2) by (simp add: consistent_def)
  let ?gone = "map j_id (filter (selected st) (db_jobs d))"
  from assms(1) have d': "d' = d\<lparr>db_jobs := filter (\<lambda>j. \<not> selected st j) (db_jobs d),
      db_media := update_where (points_into ?gone) (release_media (db_clock d)) (db_media d)\<rparr>"
    by (simp add: delete_jobs_tx_def delete_jobs_result [OF k])
  have "links_ok (db_jobs d') (db_media d')"
    unfolding links_ok_def list_all_iff
  proof
    fix m' assume "m' \<in> set (db_media d')"
    then obtain m where m: "m \<in> set (db_media d)"
      "m' = (if points_into ?gone m then release_media (db_clock d) m else m)"
      by (auto simp: d' set_update_where)
    with assms(2) show "case m_job_id m' of None \<Rightarrow> True | Some i \<Rightarrow> i \<in> set (map j_id (db_jobs d'))"
      by (auto simp: d' consistent_def links_ok_def list_all_iff points_into_def release_media_def
          split: option.splits) blast
  qed
  with assms(2) show ?thesis
    by (auto simp: d' consistent_def keys_distinct_def list_all_iff distinct_map_filter attempts_filter)
qed

section \<open>Every step keeps the invariants\<close>

lemma rows_keep:
  assumes "consistent d" and "list_all2 row_ok (db_jobs d) t"
    and "links_ok (db_jobs d) ms" and "db_jobs d' = t" and "db_media d' = ms"
  shows "consistent d' \<and> (attempts_hold (db_jobs d) tr \<longrightarrow> attempts_hold (db_jobs d') tr)"
proof -
  have "keys_distinct j_id t"
    using row_ok_keys [OF assms(2)] assms(1) by (simp add: consistent_def keys_distinct_def)
  with row_ok_jobs [OF assms(2)] row_ok_links [OF assms(2,3)] row_ok_attempts [OF assms(2)] assms
  show ?thesis by (simp add: consistent_def)
qed

lemma quiet_keep:
  assumes "consistent d" and "list_all2 row_ok (db_jobs d) t"
  shows "consistent (d\<lparr>db_jobs := t\<rparr>) \<and> (attempts_hold (db_jobs d) tr \<longrightarrow> attempts_hold t tr)"
  using rows_keep [OF assms, of "db_media d" "d\<lparr>db_jobs := t\<rparr>"] assms(1) by (simp add: consistent_def)

lemma catalog_keep:
  assumes "consistent d" and "links_ok (db_jobs d) ms"
  shows "consistent (d\<lparr>db_media := ms\<rparr>)"
  using assms by (simp add: consistent_def)

lemma report_tx_cases:
  assumes "(won, d') = (case finalize_job (db_clock d) i w st tok fs (db_jobs d) of
        Inl e \<Rightarrow> (None, d) | Inr (b, t) \<Rightarrow> (Some b, if b then eff t else d\<lparr>db_jobs := t\<rparr>))"
    and "\<And>t. db_jobs (eff t) = t"
    and "\<And>t. links_ok (db_jobs d) (db_media d) \<Longrightarrow> links_ok (db_jobs d) (db_media (eff t))"
  shows "won = Some True \<and> report_shape i st d d' \<or> won \<noteq> Some True \<and> d' = d"
proof (cases "finalize_job (db_clock d) i w st tok fs (db_jobs d)")
  case (Inr r)
  obtain b t where r: "r = (b, t)" by (rule prod.exhaust)
  show ?thesis
  proof (cases b)
    case True
    with assms Inr r have "won = Some True" "d' = eff t" by auto
    with Inr r True assms(2,3) show ?thesis by (auto simp: report_shape_def)
  next
    case False
    with Inr r have "t = db_jobs d" using finalize.lost [where a = "(st, fs)"] by simp
    with assms(1) Inr r False show ?thesis by auto
  qed
qed (use assms(1) in auto)

lemma complete_tx_cases:
  "complete_tx i job tok body d = (won, d') \<Longrightarrow>
     won = Some True \<and> report_shape i COMPLETE d d' \<or> won \<noteq> Some True \<and> d' = d"
  unfolding complete_tx_def
  by (rule report_tx_cases, erule sym) (simp_all add: links_status_by_job links_output_by_job)

lemma skip_tx_cases:
  "skip_tx nid i job tok body d = (won, d') \<Longrightarrow>
     won = Some True \<and> report_shape i SKIPPED d d' \<or> won \<noteq> Some True \<and> d' = d"
  unfolding skip_tx_def
  by (rule report_tx_cases, erule sym) (simp_all add: links_status_by_job)

lemma fail_tx_cases:
  "fail_tx i job tok body d = (won, d') \<Longrightarrow>
     won = Some True \<and> report_shape i FAILED d d' \<or> won \<noteq> Some True \<and> d' = d"
  unfolding fail_tx_def
  by (rule report_tx_cases, erule sym) (simp_all add: links_status_by_job)

lemma report_keep:
  assumes "report_shape i st d d'" and "terminal st" and "consistent d"
  shows "consistent d' \<and> (attempts_hold (db_jobs d) tr
     \<longrightarrow> attempts_hold (db_jobs d') (tr @ [Recorded (attempt_of i (db_jobs d)) st]))"
proof -
  from assms(1) obtain w tok fs where f: "finalize_job (db_clock d) i w st tok fs (db_jobs d) = Inr (True, db_jobs d')"
    and l: "links_ok (db_jobs d) (db_media d')"
    using assms(3) by (auto simp: report_shape_def consistent_def)
  from rows_keep [OF assms(3) finalize_rows [OF f assms(2)] l refl refl]
    finalize_attempts [OF _ _ assms(2) f] assms(3)
  show ?thesis by (simp add: consistent_def)
qed

lemma sched_step_keeps:
  assumes "sched_step s s'" and "consistent (fst s)"
  shows "consistent (fst s') \<and> (attempts_ok s \<longrightarrow> attempts_ok s')"
  using assms
proof (cases rule: sched_step.cases)
  case (s_claim d tok w cs ds j t tr)
  from claim_consistent [OF _ _ s_claim(3)] assms(2) s_claim(1) have "map j_id t = map j_id (db_jobs d)"
    by (simp add: consistent_def)
  then have "links_ok t ms = links_ok (db_jobs d) ms" for ms by (simp only: links_ok_def)
  with s_claim assms(2) claim_consistent [OF _ _ s_claim(3)] claim_attempts [OF _ _ s_claim(3)]
  show ?thesis by (auto simp: consistent_def attempts_ok_def)
next
  case (s_progress d i w tok body b t tr)
  with assms(2) quiet_keep [OF _ progress_rows [OF s_progress(3)]] show ?thesis by (simp add: attempts_ok_def)
next
  case (s_complete i job tok body d d' tr)
  with complete_tx_cases [OF s_complete(3)] report_keep [of i COMPLETE d d'] assms(2)
  show ?thesis by (auto simp: attempts_ok_def status_sets)
next
  case (s_skip nid i job tok body d d' tr)
  with skip_tx_cases [OF s_skip(3)] report_keep [of i SKIPPED d d'] assms(2)
  show ?thesis by (auto simp: attempts_ok_def status_sets)
next
  case (s_fail i job tok body d d' tr)
  with fail_tx_cases [OF s_fail(3)] report_keep [of i FAILED d d'] assms(2)
  show ?thesis by (auto simp: attempts_ok_def status_sets)
next
  case (s_dedup d i w tok e t tr)
  have "report_shape i COMPLETE d (d\<lparr>db_jobs := t\<rparr>)"
    using s_dedup(3) unfolding report_shape_def by auto
  with s_dedup report_keep [of i COMPLETE d "d\<lparr>db_jobs := t\<rparr>"] assms(2)
  show ?thesis by (auto simp: attempts_ok_def status_sets)
next
  case (s_retry d i n r t tr)
  with assms(2) quiet_keep [OF _ retry_rows [OF s_retry(3)]] show ?thesis by (simp add: attempts_ok_def)
next
  case (s_cancel d i b t tr)
  then have "t = update_where (\<lambda>j. j_id j = i \<and> waiting (j_status j))
      (\<lambda>j. j\<lparr>j_status := CANCELLED, j_updated_at := db_clock d\<rparr>) (db_jobs d)"
    by (simp add: cancel_if_waiting_def Let_def)
  with s_cancel assms(2) quiet_keep [OF _ cancel_rows [of "db_jobs d" "\<lambda>j. j_id j = i" "db_clock d"]]
  show ?thesis by (simp add: attempts_ok_def)
next
  case (s_cancel_all d tr)
  with assms(2) quiet_keep [OF _ cancel_rows [of "db_jobs d" "\<lambda>j. True" "db_clock d"]]
  show ?thesis by (simp add: attempts_ok_def)
next
  case (s_queue new_id blocked th vmaf cands q s0 seen d q' s0' d' tr)
  with assms(2) queue_batch_keeps [OF s_queue(3)] show ?thesis by (simp add: attempts_ok_def)
next
  case (s_delete st d n d' tr)
  with assms(2) delete_keeps [OF s_delete(3)] show ?thesis by (simp add: attempts_ok_def)
next
  case (s_release w d n d' tr)
  with assms(2) quiet_keep [OF _ release_rows] show ?thesis
    by (auto simp: attempts_ok_def release_worker_jobs_def Let_def)
next
  case (s_orphans d g ids t tr)
  with assms(2) quiet_keep [OF _ sweep_row_ok] show ?thesis
    by (auto simp: attempts_ok_def requeue_orphan_active_jobs_def Let_def)
next
  case (s_abandoned d g ids t tr)
  with assms(2) quiet_keep [OF _ sweep_row_ok] show ?thesis
    by (auto simp: attempts_ok_def requeue_abandoned_active_jobs_def Let_def)
next
  case (s_bulk_catalog d ids st sk n ms tr)
  with assms(2) catalog_keep [OF _ links_bulk [OF _ s_bulk_catalog(3)]] show ?thesis
    by (simp add: attempts_ok_def consistent_def)
next
  case (s_scan d nid probed i ms tr)
  with assms(2) catalog_keep [OF _ links_upsert [OF _ s_scan(3)]] show ?thesis
    by (simp add: attempts_ok_def consistent_def)
next
  case (s_job_catalog d tr i st sk)
  with assms(2) catalog_keep [OF _ links_status_by_job] show ?thesis
    by (simp add: attempts_ok_def consistent_def)
next
  case (s_cancel_catalog d tr ids)
  with assms(2) catalog_keep [OF _ links_update] show ?thesis
    by (simp add: attempts_ok_def consistent_def)
next
  case (s_prune d tr P)
  with assms(2) catalog_keep [OF _ links_subset [of _ _ "delete_where P (db_media d)"]] show ?thesis
    by (auto simp: attempts_ok_def consistent_def)
next
  case (s_other d' d tr)
  with assms(2) show ?thesis by (simp add: attempts_ok_def consistent_def)
qed


interpretation consistency: invariant_system "\<lambda>s. consistent (fst s)" sched_step "\<lambda>s. consistent (fst s)"
  by unfold_locales (auto dest: sched_step_keeps)

interpretation attempts: invariant_system
  "\<lambda>s. consistent (fst s) \<and> tokens_of (db_jobs (fst s)) = [] \<and> snd s = []" sched_step
  "\<lambda>s. consistent (fst s) \<and> attempts_ok s"
proof
  fix s :: sys
  assume s: "consistent (fst s) \<and> tokens_of (db_jobs (fst s)) = [] \<and> snd s = []"
  then have "j_claim_token j = None" if "j \<in> set (db_jobs (fst s))" for j
    using that set_tokens_of [of _ "db_jobs (fst s)"] by (cases "j_claim_token j") auto
  with s show "consistent (fst s) \<and> attempts_ok s"
    by (simp add: attempts_ok_def attempts_hold_def list_all_iff)
qed (auto dest: sched_step_keeps)

section \<open>Every handler is a run of steps\<close>

lemma run_trans: "run step t u \<Longrightarrow> run step s t \<Longrightarrow> run step s u"
  by (induction rule: run.induct) (auto intro: run.intros)

lemma reach_refl [simp]: "reach d d"
  unfolding reach_def by (metis append_Nil2 run_refl)

lemma reach_trans: "reach d e \<Longrightarrow> reach e f \<Longrightarrow> reach d f"
  unfolding reach_def by (metis append.assoc run_trans)

lemma reach_step: "(\<And>tr. sched_step (d, tr) (d', tr @ ev)) \<Longrightarrow> reach d d'"
  unfolding reach_def by (metis run_refl run_step)

lemmas reach_quiet = reach_step [where ev = "[]", unfolded append_Nil2]

lemma reach_consistent: "reach d d' \<Longrightarrow> consistent d \<Longrightarrow> consistent d'"
  using consistency.inv_run [of "(d, [])"] unfolding reach_def by (metis fst_conv)

interpretation sched: interleaving reach
  by unfold_locales (simp, rule reach_trans)

lemmas follows_stmt = sched.follows_stmt and io_rules = sched.io_rules

text \<open>A statement that leaves the job table and the catalog alone.\<close>

lemma follows_other:
  assumes "\<And>d. db_jobs (snd (f d)) = db_jobs d" and "\<And>d. db_media (snd (f d)) = db_media d"
  shows "follows (stmt f)"
  by (rule follows_stmt, rule reach_quiet, rule s_other) (fact assms)+

lemma follows_report:
  assumes "\<And>d won d'. f d = (won, d') \<Longrightarrow> won \<noteq> Some True \<Longrightarrow> d' = d"
    and "\<And>d d' tr. f d = (Some True, d') \<Longrightarrow> sched_step (d, tr) (d', tr @ [Recorded (attempt_of i (db_jobs d)) st])"
  shows "follows (stmt f)"
proof (rule follows_stmt)
  fix d
  obtain won d' where f: "f d = (won, d')" by (rule prod.exhaust)
  show "reach d (snd (f d))"
  proof (cases "won = Some True")
    case True
    with f assms(2) have "sched_step (d, tr) (d', tr @ [Recorded (attempt_of i (db_jobs d)) st])" for tr by simp
    then have "reach d d'" by (rule reach_step)
    with f show ?thesis by simp
  next
    case False
    with assms(1) [OF f] f show ?thesis by simp
  qed
qed

lemma follows_require_worker_token: "follows (require_worker_token h a)"
  unfolding require_worker_token_def Let_def by (intro io_rules follows_other) simp_all

lemma follows_guards:
  "follows (require_worker_identity tr w)" "follows (require_owned_job i tr)"
  "follows (require_claim_token tr tok)" "follows (is_duplicate_terminal_report j st)"
  "follows (answer_lost_finalize i st)" "follows (settle_report i st won)"
  "follows (float_setting env pf k)" "follows (keep_binding body tr)"
  unfolding require_worker_identity_def require_owned_job_def require_claim_token_def
    is_duplicate_terminal_report_def answer_lost_finalize_def settle_report_def float_setting_def
    keep_binding_def
  by (intro io_rules)+

lemma follows_register: "follows (register nid body tr)"
proof -
  have link: "follows (stmt (\<lambda>d. case link_worker h w e (db_tokens d) of (ok, ts) \<Rightarrow> (ok, d\<lparr>db_tokens := ts\<rparr>)))" for h w e
    by (rule follows_other) (simp_all add: link_worker_def Let_def)
  have ups: "follows (stmt (\<lambda>d. ((), d\<lparr>db_workers := f d\<rparr>)))" for f
    by (rule follows_other) simp_all
  have rel: "follows (stmt (release_worker_jobs w))" for w
    by (rule follows_stmt, rule reach_quiet, rule s_release, rule surjective_pairing)
  show ?thesis
    unfolding register_def Let_def by (intro io_rules follows_guards link ups rel)
qed

lemma follows_heartbeat: "follows (heartbeat w st cur tr)"
proof -
  have "follows (stmt (\<lambda>d. ((), d\<lparr>db_workers := f d\<rparr>)))" for f by (rule follows_other) simp_all
  then show ?thesis unfolding heartbeat_def by (intro io_rules follows_guards)
qed

lemma claim_none_unchanged: "claim_next_job now tok w cs ds t = (None, t') \<Longrightarrow> t' = t"
proof -
  assume c: "claim_next_job now tok w cs ds t = (None, t')"
  show "t' = t"
  proof (cases "oldest (filter (claimable (claim_codecs cs) ds) t)")
    case None
    with c show ?thesis by (simp add: claim_next_job_def)
  next
    case (Some k)
    then have "k \<in> set t" using oldest_SomeD by fastforce
    then have "get_job t (j_id k) \<noteq> None" by (auto simp: get_job_def find_row_None_iff)
    with c Some show ?thesis by (simp add: claim_next_job_def Let_def jobs.get_upd)
  qed
qed

lemma follows_claim: "follows (claim_job env pf tok w tr)"
proof -
  have "follows (stmt (\<lambda>d. case claim_next_job (db_clock d) tok w cs ds (db_jobs d) of
      (r, t) \<Rightarrow> (r, d\<lparr>db_jobs := t\<rparr>)))" for cs ds
  proof (rule follows_stmt)
    fix d :: db
    obtain r t where c: "claim_next_job (db_clock d) tok w cs ds (db_jobs d) = (r, t)" by (rule prod.exhaust)
    show "reach d (snd (case claim_next_job (db_clock d) tok w cs ds (db_jobs d) of (r, t) \<Rightarrow> (r, d\<lparr>db_jobs := t\<rparr>)))"
    proof (cases r)
      case (Some j)
      with c have "reach d (d\<lparr>db_jobs := t\<rparr>)" by (intro reach_step [OF s_claim]) simp
      with c show ?thesis by simp
    next
      case None
      with c have "t = db_jobs d" by (auto dest: claim_none_unchanged)
      with c show ?thesis by simp
    qed
  qed
  then show ?thesis unfolding claim_job_def Let_def by (intro io_rules follows_guards)
qed


lemma follows_progress: "follows (progress_report i body tr)"
proof -
  have "follows (stmt (\<lambda>d. case report_progress (db_clock d) i w tok (progress_fields body) (db_jobs d) of
      Inl e \<Rightarrow> (None, d) | Inr (won, t) \<Rightarrow> (Some won, d\<lparr>db_jobs := t\<rparr>)))" for w tok
    by (rule follows_stmt) (auto intro: reach_quiet s_progress split: sum.splits prod.splits)
  then show ?thesis unfolding progress_report_def by (intro io_rules follows_guards)
qed

lemma follows_terminal:
  "follows (complete_job i body tr)" "follows (skip_job nid i body tr)" "follows (fail_job i body tr)"
proof -
  have 1: "follows (stmt (complete_tx i job tok body))" for job tok
    by (rule follows_report [where i = i and st = COMPLETE]) (auto dest: complete_tx_cases intro: s_complete)
  have 2: "follows (stmt (skip_tx nid i job tok body))" for job tok
    by (rule follows_report [where i = i and st = SKIPPED]) (auto dest: skip_tx_cases intro: s_skip)
  have 3: "follows (stmt (fail_tx i job tok body))" for job tok
    by (rule follows_report [where i = i and st = FAILED]) (auto dest: fail_tx_cases intro: s_fail)
  show "follows (complete_job i body tr)" unfolding complete_job_def
    by (intro io_rules follows_guards 1)
  show "follows (skip_job nid i body tr)" unfolding skip_job_def
    by (intro io_rules follows_guards 2)
  show "follows (fail_job i body tr)" unfolding fail_job_def
    by (intro io_rules follows_guards 3)
qed

lemma finalize_lost: "finalize_job now i w st tok fs t = Inr (b, t') \<Longrightarrow> \<not> b \<Longrightarrow> t' = t"
  using finalize.lost [where a = "(st, fs)"] by simp

lemma follows_check_derivative: "follows (check_derivative i tok key tr)"
proof -
  have "follows (stmt (\<lambda>d. case finalize_job (db_clock d) i w COMPLETE tk (dedup_fields (db_clock d) e) (db_jobs d) of
      Inl _ \<Rightarrow> (None, d) | Inr (won, t) \<Rightarrow> (Some won, d\<lparr>db_jobs := t\<rparr>)))" for w tk e
    by (rule follows_report [where i = i and st = COMPLETE])
      (auto intro: s_dedup split: sum.splits prod.splits, rule ccontr, drule (1) finalize_lost, simp)
  then show ?thesis unfolding check_derivative_def by (intro io_rules follows_guards)
qed

lemma follows_register_derivative: "follows (register_derivative nid i key os av rc bu tr)"
  unfolding register_derivative_def
  by (intro io_rules follows_guards follows_other) simp_all

lemma follows_catalog:
  "follows (stmt (\<lambda>d. ((), d\<lparr>db_media := update_status_by_job (db_clock d) i st sk (db_media d)\<rparr>)))"
  by (rule follows_stmt) (simp add: reach_quiet s_job_catalog)

lemma follows_retry: "follows (retry_job i)"
proof -
  have "follows (stmt (\<lambda>d. case update_job (db_clock d) i
      [F_status PENDING, F_worker_id None, F_claim_token None, F_progress 0, F_error_message None,
       F_retry_count n] (db_jobs d) of Inl _ \<Rightarrow> (None, d) | Inr (r, t) \<Rightarrow> (Some r, d\<lparr>db_jobs := t\<rparr>)))" for n
    by (rule follows_stmt, unfold retry_fields_def [symmetric])
      (auto intro: reach_quiet s_retry split: sum.splits prod.splits)
  then show ?thesis unfolding retry_job_def by (intro io_rules follows_catalog)
qed

lemma follows_cancel: "follows (cancel_waiting_job i)" "follows cancel_all_pending"
proof -
  have 1: "follows (stmt (\<lambda>d. case cancel_if_waiting (db_clock d) i (db_jobs d) of (ok, t) \<Rightarrow> (ok, d\<lparr>db_jobs := t\<rparr>)))"
    by (rule follows_stmt) (auto intro: reach_quiet s_cancel split: prod.splits)
  have 2: "follows (stmt (\<lambda>d. ((), d\<lparr>db_media := update_where (points_into (ids d))
      (\<lambda>m. m\<lparr>m_transcode_status := M_needs_transcode, m_skip_reason := None, m_updated_at := db_clock d\<rparr>)
      (db_media d)\<rparr>)))" for ids
    by (rule follows_stmt) (simp add: reach_quiet s_cancel_catalog)
  have 3: "follows (stmt (\<lambda>d. (rowcount (\<lambda>j. waiting (j_status j)) (db_jobs d),
      d\<lparr>db_jobs := update_where (\<lambda>j. waiting (j_status j))
        (\<lambda>j. j\<lparr>j_status := CANCELLED, j_updated_at := db_clock d\<rparr>) (db_jobs d)\<rparr>)))"
    by (rule follows_stmt) (simp add: reach_quiet s_cancel_all)
  show "follows (cancel_waiting_job i)" unfolding cancel_waiting_job_def
    by (intro io_rules follows_catalog 1)
  show "follows cancel_all_pending" unfolding cancel_all_pending_def by (intro io_rules 2 3)
qed

lemma follows_delete: "follows clear_completed" "follows (reset_all_jobs c)"
proof -
  have 1: "follows (stmt (delete_jobs_tx st))" for st
    by (rule follows_stmt, rule reach_quiet, rule s_delete, rule surjective_pairing)
  show "follows clear_completed" unfolding clear_completed_def by (intro io_rules 1)
  show "follows (reset_all_jobs c)" unfolding reset_all_jobs_def by (intro io_rules 1)
qed

lemma follows_queue_files: "follows (queue_files env pf nid ids c th)"
proof -
  have "follows (stmt (\<lambda>d. case queue_batch nid B th v cands 0 n [] d of
      None \<Rightarrow> (None, d) | Some (q, s, d') \<Rightarrow> (Some (q, s), d')))" for B v cands n
    by (rule follows_stmt) (auto intro: reach_quiet s_queue split: option.splits)
  then show ?thesis unfolding queue_files_def Let_def by (intro io_rules follows_guards)
qed

lemma follows_bulk: "follows (skip_selected_files ids r)" "follows (unskip_selected_files ids)"
  unfolding skip_selected_files_def unskip_selected_files_def
  by (rule follows_stmt, auto intro: reach_quiet s_bulk_catalog split: prod.splits)+

lemma follows_delete_worker: "follows (stmt (delete_worker_tx w))"
  by (rule follows_other) (simp_all add: delete_worker_tx_def delete_worker_def)

lemma follows_admin:
  "follows (delete_worker_route w)" "follows (issue_token h t l)" "follows (revoke_token_route h t)"
  "follows (pause_queue p)" "follows (add_exclusion_route path)" "follows (remove_exclusion_route path)"
  "follows (delete_library_route l)" "follows (stale_worker_pass n)" "follows orphan_requeue_pass"
proof -
  have other: "follows (stmt f)" if "\<And>d. db_jobs (snd (f d)) = db_jobs d \<and> db_media (snd (f d)) = db_media d" for f :: "db \<Rightarrow> 'z \<times> db"
    by (rule follows_other) (use that in simp_all)
  show "follows (delete_worker_route w)" unfolding delete_worker_route_def
    by (intro io_rules follows_delete_worker)
  show "follows (issue_token h t l)" unfolding issue_token_def
    by (rule other) (simp add: create_token_def)
  show "follows (revoke_token_route h t)" unfolding revoke_token_route_def
    by (intro io_rules follows_delete_worker other) (simp add: revoke_token_def Let_def)
  show "follows (pause_queue p)" unfolding pause_queue_def by (rule other) simp
  show "follows (add_exclusion_route path)" unfolding add_exclusion_route_def
    by (intro io_rules other) simp
  show "follows (remove_exclusion_route path)" unfolding remove_exclusion_route_def
    by (rule other) (simp add: remove_exclusion_def)
  have prune: "follows (stmt (\<lambda>d. ((), d\<lparr>db_media := delete_where P (db_media d)\<rparr>)))" for P
    by (rule follows_stmt) (simp add: reach_quiet s_prune)
  have libs: "follows (stmt (\<lambda>d. (f d, d\<lparr>db_libraries := g d\<rparr>)))" for f :: "db \<Rightarrow> bool" and g
    by (rule other) simp
  show "follows (delete_library_route l)" unfolding delete_library_route_def
    by (intro io_rules prune libs)
  show "follows (stale_worker_pass n)" unfolding stale_worker_pass_def
    by (rule other) (simp add: cleanup_stale_workers_def)
  have 1: "follows (stmt (\<lambda>d. case requeue_orphan_active_jobs (db_clock d) g (db_workers d) (db_jobs d) of
      (r, t) \<Rightarrow> (r, d\<lparr>db_jobs := t\<rparr>)))" for g
    by (rule follows_stmt) (auto intro: reach_quiet s_orphans split: prod.splits)
  have 2: "follows (stmt (\<lambda>d. case requeue_abandoned_active_jobs (db_clock d) g (db_workers d) (db_jobs d) of
      (r, t) \<Rightarrow> (r, d\<lparr>db_jobs := t\<rparr>)))" for g
    by (rule follows_stmt) (auto intro: reach_quiet s_abandoned split: prod.splits)
  show "follows orphan_requeue_pass" unfolding orphan_requeue_pass_def by (intro io_rules 1 2)
qed

end
