(* ===== verification/Requests.thy ===== *)
theory Requests
  imports Scheduler
begin

text \<open>
  The scheduler's entry points as one dispatcher, and what holds of it whatever the interleaving:
  every request keeps the tables consistent, an attempt's outcome is recorded at most once, a
  report that lost its attempt writes nothing, and the sequential behaviour of the main handlers.
\<close>

record deployment =
  dp_hash :: "string \<Rightarrow> string"
  dp_env :: "string \<Rightarrow> string"
  dp_float :: "string \<Rightarrow> num option"

datatype request =
  Register "string option" string register_request
| Heartbeat "string option" string WorkerStatus "string option"
| ClaimJob "string option" string string
| CheckDerivative "string option" string "string option" string
| Progress "string option" string progress_request
| Complete "string option" string outcome
| Skip "string option" string string outcome
| Fail "string option" string outcome
| RegisterDerivative "string option" string string string int "num option" "int option" "string option"
| Retry string | Cancel string | CancelAll | ClearCompleted | Reset string | Pause bool
| Queue "nat \<Rightarrow> string" "string list" "string option" "int option"
| SkipFiles "string list" string | UnskipFiles "string list"
| DeleteWorker string | IssueToken string string | RevokeToken string
| AddExclusion string | RemoveExclusion string | DeleteLibrary string
| StaleWorkers int | OrphanPass

definition void :: "'a io \<Rightarrow> unit io" where
  "void m = bind m (\<lambda>_. ret ())"

definition authed :: "deployment \<Rightarrow> string option \<Rightarrow> (worker_token \<Rightarrow> 'a io) \<Rightarrow> unit io" where
  "authed dep auth f = void (bind (require_worker_token (dp_hash dep) auth) f)"

fun handle :: "deployment \<Rightarrow> request \<Rightarrow> unit io" where
  "handle dep (Register a nid body) = authed dep a (register nid body)"
| "handle dep (Heartbeat a w st cur) = authed dep a (heartbeat w st cur)"
| "handle dep (ClaimJob a tok w) = authed dep a (claim_job (dp_env dep) (dp_float dep) tok w)"
| "handle dep (CheckDerivative a i tok key) = authed dep a (check_derivative i tok key)"
| "handle dep (Progress a i body) = authed dep a (progress_report i body)"
| "handle dep (Complete a i body) = authed dep a (complete_job i body)"
| "handle dep (Skip a nid i body) = authed dep a (skip_job nid i body)"
| "handle dep (Fail a i body) = authed dep a (fail_job i body)"
| "handle dep (RegisterDerivative a nid i key os av rc bu) =
     authed dep a (register_derivative nid i key os av rc bu)"
| "handle dep (Retry i) = void (retry_job i)"
| "handle dep (Cancel i) = void (cancel_waiting_job i)"
| "handle dep CancelAll = void cancel_all_pending"
| "handle dep ClearCompleted = void clear_completed"
| "handle dep (Reset c) = void (reset_all_jobs c)"
| "handle dep (Pause p) = void (pause_queue p)"
| "handle dep (Queue nid ids c th) = void (queue_files (dp_env dep) (dp_float dep) nid ids c th)"
| "handle dep (SkipFiles ids r) = void (skip_selected_files ids r)"
| "handle dep (UnskipFiles ids) = void (unskip_selected_files ids)"
| "handle dep (DeleteWorker w) = void (delete_worker_route w)"
| "handle dep (IssueToken t l) = void (issue_token (dp_hash dep) t l)"
| "handle dep (RevokeToken t) = void (revoke_token_route (dp_hash dep) t)"
| "handle dep (AddExclusion p) = void (add_exclusion_route p)"
| "handle dep (RemoveExclusion p) = void (remove_exclusion_route p)"
| "handle dep (DeleteLibrary l) = void (delete_library_route l)"
| "handle dep (StaleWorkers n) = void (stale_worker_pass n)"
| "handle dep OrphanPass = void orphan_requeue_pass"

definition empty_db :: db where
  "empty_db = \<lparr>db_clock = 0, db_jobs = [], db_workers = [], db_tokens = [], db_media = [],
     db_skipped = [], db_derivatives = [], db_libraries = [], db_exclusions = [],
     db_system_state = [], db_app_settings = [], db_schedules = []\<rparr>"

definition demo_db :: db where
  "demo_db = empty_db\<lparr>db_jobs := [demo_job],
     db_tokens := [demo_token\<lparr>t_worker_id := Some ''w1''\<rparr>],
     db_media := [(blank_media ''m1'' ''lib'' ''/m/a.mkv'')
        \<lparr>m_job_id := Some ''j1'', m_transcode_status := M_queued\<rparr>]\<rparr>"

definition blank_outcome :: outcome where
  "blank_outcome = \<lparr>oc_claim_token = Some ''tok1'', oc_output_size = 70, oc_space_saved = 30,
     oc_source_size = 100, oc_achieved_vmaf = None, oc_achieved_vmaf_perc5 = None,
     oc_predicted_vmaf_mean = None, oc_predicted_vmaf_perc5 = None, oc_resolved_crf = None,
     oc_backend_used = None, oc_reason = SIZE_REGRESSION, oc_error_message = [], oc_retry_count = 0\<rparr>"

text \<open>How a computation may end: an error of \<open>S\<close> or a value satisfying \<open>Q\<close>, whatever interferes.\<close>

definition gives :: "'a io \<Rightarrow> ('a \<Rightarrow> bool) \<Rightarrow> http_error set \<Rightarrow> bool" where
  "gives m Q S \<longleftrightarrow> (\<forall>es d. case fst (m es d) of Inl e \<Rightarrow> e \<in> S | Inr a \<Rightarrow> Q a)"

definition REPORT_ANSWERS :: "http_error set" where
  "REPORT_ANSWERS = {HTTPException 403, HTTPException 404, HTTPException 409}"

text \<open>What another task may do that leaves every job there.\<close>

definition spares_jobs :: "db \<Rightarrow> db \<Rightarrow> bool" where
  "spares_jobs d d' \<longleftrightarrow> (consistent d \<longrightarrow> consistent d') \<and> j_id ` set (db_jobs d) \<subseteq> j_id ` set (db_jobs d')"

section \<open>Facts\<close>

lemma follows_handle: "follows (handle dep rq)"
proof -
  have v: "follows (void m)" if "follows m" for m :: "'z io"
    unfolding void_def by (intro io_rules that)
  have a: "follows (authed dep x f)" if "\<And>t. follows (f t)" for x and f :: "worker_token \<Rightarrow> 'z io"
    unfolding authed_def by (intro v io_rules follows_require_worker_token that)
  show ?thesis
    by (cases rq; simp only: handle.simps;
        (rule a v, rule follows_register follows_heartbeat follows_claim follows_check_derivative
          follows_progress follows_terminal follows_register_derivative follows_retry follows_cancel
          follows_delete follows_queue_files follows_bulk follows_admin))
qed

lemma demo_db_consistent: "consistent demo_db"
  by (simp add: consistent_def demo_db_def empty_db_def keys_distinct_def job_ok_def status_sets
      links_ok_def)

text \<open>
  C6. Whatever the other requests do between a handler's atomic steps, and whatever the handler
  answers, the tables stay consistent: job ids are unique, a waiting job has no owner and no
  attempt, a running job has both, and no catalog row points at a job that is gone. An atomic step is an
  SQL statement or a whole \<open>db.transaction()\<close> block: PostgreSQL publishes the writes of a block at
  once, on SQLite this is so as long as no other task runs a statement while the block is open.
\<close>

theorem requests_keep_consistency:
  assumes "consistent d" and "interferes es" and "handle dep rq es d = (r, es', d')"
  shows "keys_distinct j_id (db_jobs d')
    \<and> (\<forall>j\<in>set (db_jobs d'). (waiting (j_status j) \<longrightarrow> j_worker_id j = None \<and> j_claim_token j = None)
         \<and> (active (j_status j) \<longrightarrow> j_worker_id j \<noteq> None \<and> j_claim_token j \<noteq> None))
    \<and> (\<forall>m\<in>set (db_media d'). \<forall>i. m_job_id m = Some i \<longrightarrow> get_job (db_jobs d') i \<noteq> None)"
proof -
  from follows_handle assms(2,3) have "reach d d'" by (auto simp: follows_as_def)
  then have "consistent d'" using assms(1) by (rule reach_consistent)
  then show ?thesis
    by (auto simp: consistent_def job_ok_def links_ok_def list_all_iff get_job_def find_row_None_iff
        split: option.splits)
qed

theorem requests_keep_consistency_witness:
  "\<exists>r es' d'. handle \<lparr>dp_hash = id, dp_env = id, dp_float = (\<lambda>_. None)\<rparr> OrphanPass
      [\<lambda>d. d\<lparr>db_clock := db_clock d + 1\<rparr>] demo_db = (r, es', d')
    \<and> keys_distinct j_id (db_jobs d')"
proof -
  let ?dep = "\<lparr>dp_hash = id, dp_env = id, dp_float = (\<lambda>_. None)\<rparr>"
  let ?g = "\<lambda>d :: db. d\<lparr>db_clock := db_clock d + 1\<rparr>"
  have "reach d (?g d)" for d by (rule reach_quiet, rule s_other) simp_all
  then have es: "interferes [?g]" by (simp add: interferes_as_def)
  obtain r es' d' where h: "handle ?dep OrphanPass [?g] demo_db = (r, es', d')" by (rule prod_cases3)
  from requests_keep_consistency [OF demo_db_consistent es h] h show ?thesis by blast
qed

text \<open>
  On SQLite's shared connection the statements of other tasks may come between those of a block. When all
  jobs are deleted after the queueing block has written a job and before it links the catalog row, the
  link is left pointing at a job that is gone.
\<close>

lemma reset_inside_queueing_breaks_link:
  "(case queue_transaction (\<lambda>_. ''new'') {} None 95 [(blank_media ''m1'' ''lib'' ''/m/a.mkv'', ''hevc'')] 0
       [\<lambda>d. d, \<lambda>d. d, \<lambda>d. snd (delete_jobs_tx None d)] (empty_db\<lparr>db_media := [blank_media ''m1'' ''lib'' ''/m/a.mkv'']\<rparr>) of
      (r, es, d) \<Rightarrow> r = Inr (1, 0) \<and> db_jobs d = [] \<and> map m_job_id (db_media d) = [Some ''new''])"
  by code_simp

lemma queue_statements_keep:
  assumes "consistent d" and "interferes_as spares_jobs es"
    and "queue_statements new_id libs blocked th vmaf cands q s seen es d = (r, es', d')"
  shows "consistent d'"
  using assms
proof (induction cands arbitrary: q s seen es d)
  case Nil
  then show ?case by (simp add: ret_def)
next
  case (Cons c rest)
  obtain mf resolved where c: "c = (mf, resolved)" by (rule prod.exhaust)
  show ?case
  proof (cases "m_file_path mf \<in> blocked \<or> m_file_path mf \<in> set seen")
    case True
    with Cons.prems Cons.IH show ?thesis by (simp add: c)
  next
    case False
    let ?j = "queued_job (new_id q) libs th vmaf mf resolved" and ?d = "next_state es d"
    have d: "consistent ?d" using Cons.prems(1,2) by (cases es) (auto simp: next_state_def interferes_as_def spares_jobs_def)
    show ?thesis
    proof (cases "create_job (db_clock ?d) ?j (db_jobs ?d)")
      case None
      with False Cons.prems(3) d show ?thesis by (simp add: c bind_stmt throw_def)
    next
      case (Some it)
      then obtain i t where t: "create_job (db_clock ?d) ?j (db_jobs ?d) = Some (i, t)" by (cases it) simp
      then obtain j where j: "t = db_jobs ?d @ [j]" "j_id j = i" "i \<notin> j_id ` set (db_jobs ?d)"
        "j_status j = QUEUED" "j_worker_id j = None" "j_claim_token j = None"
        by (auto simp: create_job_def queued_job_def new_job_def Let_def split: if_splits)
      let ?d1 = "?d\<lparr>db_jobs := t\<rparr>"
      have "job_ok j" using j(4-6) by (simp add: job_ok_def status_sets)
      with d j have d1: "consistent ?d1"
        by (auto simp: consistent_def keys_distinct_def links_ok_def list_all_iff split: option.splits)
      let ?es = "List.tl es"
      have es: "interferes_as spares_jobs ?es" "interferes_as spares_jobs (List.tl ?es)"
        using Cons.prems(2) by (simp_all add: interferes_tl)
      let ?d2 = "next_state ?es ?d1"
      have d2: "consistent ?d2" "i \<in> j_id ` set (db_jobs ?d2)"
        using d1 j(1,2) es(1) by (cases ?es; force simp: next_state_def interferes_as_def spares_jobs_def)+
      let ?d3 = "?d2\<lparr>db_media := update_media_status (db_clock ?d2) (m_id mf) M_queued None (Some i) (db_media ?d2)\<rparr>"
      have d3: "consistent ?d3"
        using d2 by (auto simp: consistent_def links_ok_def list_all_iff update_media_status_def set_update_where split: option.splits)
      from False Cons.prems(3) t
      have "queue_statements new_id libs blocked th vmaf rest (q + 1) s (m_file_path mf # seen) (List.tl ?es) ?d3 = (r, es', d')"
        by (simp add: c bind_stmt)
      from Cons.IH [OF d3 es(2) this] show ?thesis .
    qed
  qed
qed

text \<open>
  Deleting jobs is the one thing that does it. When what other tasks do between the statements of the block
  keeps the tables consistent and deletes no job, then after the block has run to its end no catalog row
  points at a job that is gone.
\<close>

lemma queueing_survives_calm_interleaving:
  assumes "consistent d" and "\<forall>g \<in> set es. \<forall>d. (consistent d \<longrightarrow> consistent (g d)) \<and> j_id ` set (db_jobs d) \<subseteq> j_id ` set (db_jobs (g d))"
    and "queue_transaction new_id blocked th vmaf cands n es d = (Inr counts, es', d')"
  shows "keys_distinct j_id (db_jobs d')
    \<and> (\<forall>m \<in> set (db_media d'). \<forall>i. m_job_id m = Some i \<longrightarrow> get_job (db_jobs d') i \<noteq> None)"
proof -
  have es: "interferes_as spares_jobs es" using assms(2) by (simp add: interferes_as_def spares_jobs_def)
  have "consistent (next_state es d)" using assms(1,2) by (cases es) (simp_all add: next_state_def)
  moreover from assms(3) have "queue_statements new_id (db_libraries (next_state es d)) blocked th vmaf cands 0 n []
      (List.tl es) (next_state es d) = (Inr counts, es', d')"
    by (simp add: queue_transaction_def bind_query)
  ultimately have "consistent d'" using queue_statements_keep interferes_tl [OF es] by blast
  then show ?thesis
    by (auto simp: consistent_def links_ok_def list_all_iff get_job_def find_row_None_iff split: option.splits)
qed

text \<open>
  C1. Exactly-once outcomes under at-least-once delivery: in every run of the system from a
  database with no attempt in it, if no two claims drew the same token then no attempt's terminal
  outcome is recorded twice, only claimed attempts are recorded, and once an attempt is recorded
  no unfinished job carries its token, so nothing can be recorded under it again.
\<close>

theorem outcome_recorded_at_most_once:
  assumes "consistent d" and "tokens_of (db_jobs d) = []" and "run sched_step (d, []) (d', tr)"
    and "distinct (claimed tr)"
  shows "distinct (recorded tr) \<and> set (recorded tr) \<subseteq> set (claimed tr)
    \<and> (\<forall>j\<in>set (db_jobs d'). \<forall>tok\<in>set (recorded tr). j_claim_token j = Some tok \<longrightarrow> terminal (j_status j))"
proof -
  from attempts.inv_reachable [OF _ assms(3)] assms(1,2) have "attempts_ok (d', tr)" by simp
  with assms(4) have "attempts_hold (db_jobs d') tr" by (simp add: attempts_ok_def)
  then show ?thesis by (fastforce simp: attempts_hold_def list_all_iff)
qed

theorem outcome_recorded_at_most_once_witness:
  "\<exists>d'. run sched_step (empty_db\<lparr>db_jobs := [demo_pending ''j2'' 4]\<rparr>, []) (d', [Claimed ''t''])
     \<and> distinct (recorded [Claimed ''t''])"
proof -
  let ?d = "empty_db\<lparr>db_jobs := [demo_pending ''j2'' 4]\<rparr>"
  have tok: "j_claim_token (demo_pending ''j2'' 4) = None" "j_worker_id (demo_pending ''j2'' 4) = None"
    by (simp_all add: demo_pending_def new_job_def)
  have c: "consistent ?d" and n: "tokens_of (db_jobs ?d) = []"
    by (simp_all add: consistent_def empty_db_def keys_distinct_def job_ok_def links_ok_def status_sets tok)
  obtain r t where cl: "claim_next_job (db_clock ?d) ''t'' ''w'' None False (db_jobs ?d) = (r, t)"
    by (rule prod.exhaust)
  have "r \<noteq> None"
    using claim_next_job_None(1) [of "db_jobs ?d" "db_clock ?d" "''t''" "''w''" None False] cl
    by (simp add: empty_db_def keys_distinct_def claimable_def claim_codecs_def status_sets)
  then obtain j where "r = Some j" by blast
  with cl have "sched_step (?d, []) (?d\<lparr>db_jobs := t\<rparr>, [] @ [Claimed ''t''])" by (intro s_claim) simp
  then have r: "run sched_step (?d, []) (?d\<lparr>db_jobs := t\<rparr>, [Claimed ''t''])"
    by (metis append_Nil run_refl run_step)
  have "distinct (claimed [Claimed ''t''])" by (simp add: claimed_def List.map_filter_def)
  from outcome_recorded_at_most_once [OF c n r this] r show ?thesis by blast
qed


section \<open>Reports\<close>

lemma gives_ret: "Q a \<Longrightarrow> gives (ret a) Q S" and gives_throw: "e \<in> S \<Longrightarrow> gives (throw e) Q S"
  by (simp_all add: gives_def ret_def throw_def)

lemma gives_bind:
  assumes "gives m P S" and "\<And>a. P a \<Longrightarrow> gives (f a) Q S"
  shows "gives (bind m f) Q S"
  unfolding gives_def
proof (intro allI)
  fix es d
  obtain x es1 d1 where m: "m es d = (x, es1, d1)" by (rule prod_cases3)
  have x: "case x of Inl e \<Rightarrow> e \<in> S | Inr a \<Rightarrow> P a"
    using assms(1) m unfolding gives_def by (metis fst_conv)
  show "case fst (bind m f es d) of Inl e \<Rightarrow> e \<in> S | Inr a \<Rightarrow> Q a"
  proof (cases x)
    case (Inl e)
    with m x show ?thesis by (simp add: bind_def)
  next
    case (Inr a)
    with x assms(2) have "gives (f a) Q S" by simp
    with m Inr show ?thesis by (simp add: bind_def gives_def)
  qed
qed

lemma gives_stmt: "(\<And>d. Q (fst (f d))) \<Longrightarrow> gives (stmt f) Q S"
  by (simp add: gives_def stmt_def split: list.splits)

lemma gives_query: "gives (query f) (\<lambda>_. True) S"
  unfolding query_def by (rule gives_stmt) simp

lemma gives_if: "gives a Q S \<Longrightarrow> gives b Q S \<Longrightarrow> gives (if c then a else b) Q S" by simp

lemma gives_option:
  "gives a Q S \<Longrightarrow> (\<And>x. gives (b x) Q S) \<Longrightarrow> gives (case z of None \<Rightarrow> a | Some x \<Rightarrow> b x) Q S"
  by (cases z) simp_all

lemma gives_guards:
  "gives (require_owned_job i tr) (\<lambda>_. True) REPORT_ANSWERS"
  "gives (require_claim_token tr tok) (\<lambda>_. True) REPORT_ANSWERS"
  "gives (is_duplicate_terminal_report j st) (\<lambda>_. True) REPORT_ANSWERS"
proof -
  show 1: "gives (is_duplicate_terminal_report j st) (\<lambda>_. True) REPORT_ANSWERS" for j
    unfolding is_duplicate_terminal_report_def REPORT_ANSWERS_def
    by (intro gives_if gives_ret gives_throw) simp_all
  show "gives (require_owned_job i tr) (\<lambda>_. True) REPORT_ANSWERS"
    unfolding require_owned_job_def REPORT_ANSWERS_def
    by (intro gives_bind [OF gives_query] gives_option gives_if gives_ret gives_throw) simp_all
  show "gives (require_claim_token tr tok) (\<lambda>_. True) REPORT_ANSWERS"
    unfolding require_claim_token_def REPORT_ANSWERS_def
    by (intro gives_bind [where P = "\<lambda>_. True"] gives_query gives_option gives_if gives_ret gives_throw)
      simp_all
qed

lemma gives_settle: "won \<noteq> None \<Longrightarrow> gives (settle_report i st won) (\<lambda>_. True) REPORT_ANSWERS"
proof -
  assume "won \<noteq> None"
  moreover have "gives (answer_lost_finalize i st) (\<lambda>_. True) REPORT_ANSWERS"
    unfolding answer_lost_finalize_def
    by (intro gives_bind [OF gives_query] gives_bind [OF gives_guards(3)] gives_option gives_if
        gives_ret gives_throw) (simp_all add: REPORT_ANSWERS_def)
  ultimately show ?thesis
    unfolding settle_report_def by (cases won) (auto intro: gives_if gives_ret)
qed

lemma report_fields_valid:
  "invalid_cols (complete_fields now b) = []" "invalid_cols (skip_fields now b) = []"
  "invalid_cols (fail_fields now b) = []"
  "duplicate_keywords [''job_id'', ''worker_id'', ''status'', ''claim_token''] (complete_fields now b) = []"
  "duplicate_keywords [''job_id'', ''worker_id'', ''status'', ''claim_token''] (skip_fields now b) = []"
  "duplicate_keywords [''job_id'', ''worker_id'', ''status'', ''claim_token''] (fail_fields now b) = []"
  by (simp_all add: complete_fields_def skip_fields_def fail_fields_def measurement_fields_def
      invalid_cols_def VALID_JOB_COLUMNS_def duplicate_keywords_def)

lemma report_tx_defined:
  "fst (complete_tx i job tok b d) \<noteq> None" "fst (skip_tx nid i job tok b d) \<noteq> None"
  "fst (fail_tx i job tok b d) \<noteq> None"
  by (simp_all add: complete_tx_def skip_tx_def fail_tx_def finalize_job_def report_fields_valid Let_def)

text \<open>
  Every terminal report has a defined answer whatever happens while it is processed: it
  succeeds, or it is refused with 403, 404 or 409 (a skip with an unknown reason with 422). No
  interleaving makes a report end in an unhandled error.
\<close>

lemma report_answers_defined:
  "(case fst (complete_job i body tr es d) of Inl e \<Rightarrow> e \<in> REPORT_ANSWERS | Inr _ \<Rightarrow> True)
   \<and> (case fst (fail_job i body tr es d) of Inl e \<Rightarrow> e \<in> REPORT_ANSWERS | Inr _ \<Rightarrow> True)
   \<and> (case fst (skip_job nid i body tr es d) of
        Inl e \<Rightarrow> e \<in> insert (HTTPException 422) REPORT_ANSWERS | Inr _ \<Rightarrow> True)"
proof -
  have mono: "gives m Q S \<Longrightarrow> S \<subseteq> T \<Longrightarrow> gives m Q T" for m :: "unit io" and Q S T
    unfolding gives_def by (auto split: sum.splits)
  have c: "gives (complete_job i body tr) (\<lambda>_. True) REPORT_ANSWERS"
    unfolding complete_job_def
    by (intro gives_bind [OF gives_guards(1)] gives_bind [OF gives_guards(2)] gives_bind [OF gives_guards(3)]
        gives_if gives_ret gives_bind [OF gives_stmt [where Q = "\<lambda>w. w \<noteq> None"]] gives_settle)
      (simp_all add: report_tx_defined)
  have f: "gives (fail_job i body tr) (\<lambda>_. True) REPORT_ANSWERS"
    unfolding fail_job_def
    by (intro gives_bind [OF gives_guards(1)] gives_bind [OF gives_guards(2)] gives_bind [OF gives_guards(3)]
        gives_if gives_ret gives_bind [OF gives_stmt [where Q = "\<lambda>w. w \<noteq> None"]] gives_settle)
      (simp_all add: report_tx_defined)
  have s: "gives (skip_job nid i body tr) (\<lambda>_. True) (insert (HTTPException 422) REPORT_ANSWERS)"
    unfolding skip_job_def
    by (intro gives_if gives_throw, simp, rule mono [OF _ subset_insertI])
      (intro gives_bind [OF gives_guards(1)] gives_bind [OF gives_guards(2)] gives_bind [OF gives_guards(3)]
        gives_if gives_ret gives_bind [OF gives_stmt [where Q = "\<lambda>w. w \<noteq> None"]] gives_settle,
       simp_all add: report_tx_defined)
  from c f s show ?thesis unfolding gives_def by blast
qed

lemma stale_tx:
  assumes "keys_distinct j_id (db_jobs d)"
    and "\<And>j. get_job (db_jobs d) i = Some j \<Longrightarrow> j_claim_token j \<noteq> Some tok"
  shows "complete_tx i job (Some tok) b d = (Some False, d)"
    and "skip_tx nid i job (Some tok) b d = (Some False, d)"
    and "fail_tx i job (Some tok) b d = (Some False, d)"
proof -
  have n: "\<not> finalize_guard i w (Some tok) j" if "j \<in> set (db_jobs d)" for j w
    using that assms by (auto simp: finalize_guard_def attempt_fence_def get_job_Some_iff)
  then have r: "rowcount (finalize_guard i w (Some tok)) (db_jobs d) = 0" for w
    by (simp add: table_simps)
  have u: "update_where (finalize_guard i w (Some tok)) f (db_jobs d) = db_jobs d" for w f
    using n by (simp add: update_where_none)
  show "complete_tx i job (Some tok) b d = (Some False, d)"
    "skip_tx nid i job (Some tok) b d = (Some False, d)" "fail_tx i job (Some tok) b d = (Some False, d)"
    by (simp_all add: complete_tx_def skip_tx_def fail_tx_def finalize_job_def report_fields_valid
        Let_def r u)
qed


lemmas io_eval = bind_def ret_def throw_def stmt_def query_def

text \<open>
  C12. A report whose attempt is taken away while it is processed writes nothing. Say another
  request changes the database (\<open>ga\<close> before the ownership check, \<open>gb\<close> before the transaction) so that
  the job, if it still exists, no longer carries the report's token: the tables the handler leaves
  are exactly the ones the other requests produced, for all three terminal reports.
\<close>

theorem lost_attempt_writes_nothing:
  assumes "oc_claim_token body = Some tok" and "keys_distinct j_id (db_jobs (gb (ga d)))"
    and "\<forall>j. get_job (db_jobs (gb (ga d))) i = Some j \<longrightarrow> j_claim_token j \<noteq> Some tok"
  shows "snd (snd (complete_job i body tr [ga, gb] d)) \<in> {d, ga d, gb (ga d)}
    \<and> snd (snd (skip_job nid i body tr [ga, gb] d)) \<in> {d, ga d, gb (ga d)}
    \<and> snd (snd (fail_job i body tr [ga, gb] d)) \<in> {d, ga d, gb (ga d)}"
proof -
  note tx = stale_tx [OF assms(2) assms(3) [rule_format]]
  note defs = require_owned_job_def is_duplicate_terminal_report_def require_claim_token_def
    settle_report_def answer_lost_finalize_def
  have "snd (snd (complete_job i body tr [ga, gb] d)) \<in> {d, ga d, gb (ga d)}"
    by (simp add: complete_job_def defs io_eval assms(1) tx split: option.splits)
  moreover have "snd (snd (skip_job nid i body tr [ga, gb] d)) \<in> {d, ga d, gb (ga d)}"
    by (simp add: skip_job_def defs io_eval assms(1) tx split: option.splits)
  moreover have "snd (snd (fail_job i body tr [ga, gb] d)) \<in> {d, ga d, gb (ga d)}"
    by (simp add: fail_job_def defs io_eval assms(1) tx split: option.splits)
  ultimately show ?thesis by blast
qed

theorem lost_attempt_writes_nothing_witness:
  "let g = (\<lambda>d :: db. snd (release_worker_jobs ''w1'' d)) in
     snd (snd (complete_job ''j1'' blank_outcome (demo_token\<lparr>t_worker_id := Some ''w1''\<rparr>) [\<lambda>d. d, g] demo_db))
       \<in> {demo_db, g demo_db}"
proof -
  let ?g = "\<lambda>d :: db. snd (release_worker_jobs ''w1'' d)"
  have b: "oc_claim_token blank_outcome = Some ''tok1''" by (simp add: blank_outcome_def)
  have "db_jobs (?g ((\<lambda>d. d) demo_db)) = [release_job 0 demo_job]"
    by (simp add: release_worker_jobs_def demo_db_def empty_db_def update_where_def status_sets Let_def)
  then have k: "keys_distinct j_id (db_jobs (?g ((\<lambda>d. d) demo_db)))"
    and t: "\<forall>j. get_job (db_jobs (?g ((\<lambda>d. d) demo_db))) ''j1'' = Some j \<longrightarrow> j_claim_token j \<noteq> Some ''tok1''"
    by (simp_all add: keys_distinct_def get_job_def find_row_def release_job_def)
  from lost_attempt_writes_nothing [where ga = "\<lambda>d. d" and gb = ?g and d = demo_db
      and i = "''j1''", OF b] k t show ?thesis by (simp add: Let_def)
qed

text \<open>
  While the queue is paused, by the flag or by the schedules, no worker is handed a job: the
  claim answers with none and changes nothing.
\<close>

lemma paused_queue_hands_out_nothing:
  assumes "is_queue_paused (db_clock d) (db_system_state d) (db_schedules d)"
    and "t_worker_id tr = Some w"
  shows "claim_job env pf tok w tr [] d = (Inr None, [], d)"
  using assms
  by (auto simp: claim_job_def require_worker_identity_def is_queue_paused_def io_eval split: if_splits)

section \<open>Queueing\<close>

lemma queue_candidates_spec:
  "queue_candidates by_id res ids = (n, cands) \<Longrightarrow> n + length cands = length ids
     \<and> (\<forall>c\<in>set cands. \<exists>k\<in>set ids. by_id k = Some (fst c) \<and> res (fst c) = Some (snd c))"
proof (induction ids arbitrary: n cands)
  case (Cons k ids)
  obtain n' cands' where q: "queue_candidates by_id res ids = (n', cands')" by (rule prod.exhaust)
  from Cons.prems q Cons.IH [OF q] show ?case
    by (auto split: option.splits)
qed simp

lemma queued_job_simps [simp]:
  "j_source_path (queued_job i libs th v mf r) = m_file_path mf"
  "j_status (queued_job i libs th v mf r) = QUEUED"
  "j_target_codec (queued_job i libs th v mf r) = r"
  "j_target_height (queued_job i libs th v mf r) = th"
  by (simp_all add: queued_job_def new_job_def Let_def)

lemma queue_batch_spec:
  assumes "queue_batch nid B th v cands q s seen d = Some (q', s', d')"
  shows "\<exists>fresh. db_jobs d' = db_jobs d @ fresh \<and> q' = q + length fresh
     \<and> q' + s' = q + s + length cands \<and> distinct (map j_source_path fresh)
     \<and> (\<forall>j\<in>set fresh. j_source_path j \<notin> B \<and> j_source_path j \<notin> set seen \<and> j_status j = QUEUED
          \<and> j_target_height j = th
          \<and> (\<exists>c\<in>set cands. j_source_path j = m_file_path (fst c) \<and> j_target_codec j = snd c))"
  using assms
proof (induction cands arbitrary: q s seen d)
  case (Cons c rest)
  obtain mf r where c: "c = (mf, r)" by (rule prod.exhaust)
  show ?case
  proof (cases "m_file_path mf \<in> B \<or> m_file_path mf \<in> set seen")
    case True
    with Cons.prems have "queue_batch nid B th v rest q (s + 1) seen d = Some (q', s', d')" by (auto simp: c)
    from Cons.IH [OF this] show ?thesis by fastforce
  next
    case False
    let ?j = "queued_job (nid q) (db_libraries d) th v mf r"
    from False Cons.prems obtain i t where t: "create_job (db_clock d) ?j (db_jobs d) = Some (i, t)"
      by (auto simp: c split: option.splits)
    then obtain j where j: "t = db_jobs d @ [j]" "j_source_path j = m_file_path mf" "j_status j = QUEUED"
      "j_target_codec j = r" "j_target_height j = th"
      by (auto simp: create_job_def split: if_splits)
    let ?d1 = "d\<lparr>db_jobs := t, db_media := update_media_status (db_clock d) (m_id mf) M_queued None
        (Some i) (db_media d)\<rparr>"
    from False Cons.prems t
    have d1: "db_jobs ?d1 = t"
      "queue_batch nid B th v rest (q + 1) s (m_file_path mf # seen) ?d1 = Some (q', s', d')"
      by (simp_all add: c)
    from Cons.IH [OF d1(2)] obtain fresh where
      f: "db_jobs d' = db_jobs ?d1 @ fresh" "q' = q + 1 + length fresh" "q' + s' = q + 1 + s + length rest"
      "distinct (map j_source_path fresh)"
      and fj: "\<forall>j\<in>set fresh. j_source_path j \<notin> B \<and> j_source_path j \<notin> set (m_file_path mf # seen)
          \<and> j_status j = QUEUED \<and> j_target_height j = th
          \<and> (\<exists>c\<in>set rest. j_source_path j = m_file_path (fst c) \<and> j_target_codec j = snd c)"
      by blast
    show ?thesis
    proof (intro exI [of _ "j # fresh"] conjI)
      show "distinct (map j_source_path (j # fresh))" using f(4) fj j(2) by auto
    qed (use f(1-3) d1(1) j fj False c in auto)
  qed
qed simp

lemma not_blocked:
  assumes "p \<in> set paths"
  shows "p \<notin> filter_excluded excl paths \<Longrightarrow> p \<notin> set excl"
    and "p \<notin> active_paths paths t \<Longrightarrow> \<not> job_exists_for_path p t"
proof -
  have "paths \<noteq> []" using assms by auto
  then show "p \<notin> filter_excluded excl paths \<Longrightarrow> p \<notin> set excl"
    using assms by (auto simp: filter_excluded_def)
  have "p \<in> active_paths paths t" if "job_exists_for_path p t"
  proof -
    from that obtain j where "j \<in> set t" "j_source_path j = p" "j_status j \<notin> {FAILED, CANCELLED}"
      by (auto simp: job_exists_for_path_def filter_empty_conv)
    then show ?thesis using assms \<open>paths \<noteq> []\<close> by (auto simp: active_paths_def)
  qed
  then show "p \<notin> active_paths paths t \<Longrightarrow> \<not> job_exists_for_path p t" by blast
qed

lemma resolve_codec_downward:
  "resolve_codec codec tc (Some h) mf = Some r \<Longrightarrow> \<exists>x. m_height mf = Some x \<and> h < x"
  by (auto simp: resolve_codec_def split: if_splits option.splits)


text \<open>
  What queueing does: the answer accounts for every requested file; the existing jobs are
  untouched and exactly the counted number of jobs is added, each queued, for a catalog row among
  the requested ids, on a path that is neither excluded nor the source of a job that is not failed
  or cancelled, no path twice; a downscale is queued only for a file strictly taller than its
  target, and with the codec the eligibility matrix resolved.
\<close>

lemma queue_files_creates_eligible_jobs:
  assumes "queue_files env pf nid ids codec th [] d = (Inr (q, s), es', d')"
  shows "q + s = length ids
    \<and> (\<exists>fresh. db_jobs d' = db_jobs d @ fresh \<and> length fresh = q \<and> distinct (map j_source_path fresh)
       \<and> (\<forall>j\<in>set fresh. j_status j = QUEUED \<and> j_source_path j \<notin> set (db_exclusions d)
            \<and> \<not> job_exists_for_path (j_source_path j) (db_jobs d)
            \<and> (\<exists>mf\<in>set (db_media d). m_id mf \<in> set ids \<and> m_file_path mf = j_source_path j
                 \<and> (\<exists>tc. resolve_codec codec tc th mf = Some (j_target_codec j))
                 \<and> (\<forall>h. th = Some h \<longrightarrow> (\<exists>x. m_height mf = Some x \<and> h < x)))))"
proof -
  from assms obtain tc v where
    b: "let found = queue_candidates (find_row m_id (get_by_ids (db_media d) ids)) (resolve_codec codec tc th) ids;
          cands = snd found; paths = map (\<lambda>c. m_file_path (fst c)) cands
        in queue_batch nid (filter_excluded (db_exclusions d) paths \<union> active_paths paths (db_jobs d))
             th v cands 0 (fst found) [] d = Some (q, s, d')"
    by (auto simp: queue_files_def float_setting_def io_eval Let_def split: option.splits if_splits)
  obtain n cands where f: "queue_candidates (find_row m_id (get_by_ids (db_media d) ids))
      (resolve_codec codec tc th) ids = (n, cands)" by (rule prod.exhaust)
  let ?paths = "map (\<lambda>c. m_file_path (fst c)) cands"
  let ?B = "filter_excluded (db_exclusions d) ?paths \<union> active_paths ?paths (db_jobs d)"
  from b f have qb: "queue_batch nid ?B th v cands 0 n [] d = Some (q, s, d')" by (simp add: Let_def)
  note cs = queue_candidates_spec [OF f]
  from queue_batch_spec [OF qb] obtain fresh where
    1: "db_jobs d' = db_jobs d @ fresh" "q = length fresh" "q + s = n + length cands"
       "distinct (map j_source_path fresh)"
    and 2: "\<And>j. j \<in> set fresh \<Longrightarrow> j_source_path j \<notin> ?B \<and> j_status j = QUEUED
       \<and> (\<exists>c\<in>set cands. j_source_path j = m_file_path (fst c) \<and> j_target_codec j = snd c)"
    by auto
  have "j_status j = QUEUED \<and> j_source_path j \<notin> set (db_exclusions d)
      \<and> \<not> job_exists_for_path (j_source_path j) (db_jobs d)
      \<and> (\<exists>mf\<in>set (db_media d). m_id mf \<in> set ids \<and> m_file_path mf = j_source_path j
           \<and> (\<exists>tc. resolve_codec codec tc th mf = Some (j_target_codec j))
           \<and> (\<forall>h. th = Some h \<longrightarrow> (\<exists>x. m_height mf = Some x \<and> h < x)))" if j: "j \<in> set fresh" for j
  proof -
    from 2 [OF j] obtain c where c: "c \<in> set cands" "j_source_path j = m_file_path (fst c)"
      "j_target_codec j = snd c" by blast
    then have p: "j_source_path j \<in> set ?paths" by auto
    from cs c(1) obtain k where k: "k \<in> set ids"
      "find_row m_id (get_by_ids (db_media d) ids) k = Some (fst c)"
      "resolve_codec codec tc th (fst c) = Some (snd c)" by blast
    from find_row_SomeD [OF k(2)] have m: "fst c \<in> set (db_media d)" "m_id (fst c) \<in> set ids"
      using k(1) by (auto simp: get_by_ids_def split: if_splits)
    have "j_source_path j \<notin> set (db_exclusions d)" "\<not> job_exists_for_path (j_source_path j) (db_jobs d)"
      using 2 [OF j] not_blocked [OF p] by blast+
    with 2 [OF j] m c k(3) resolve_codec_downward show ?thesis by (metis (no_types))
  qed
  with 1 cs show ?thesis by auto
qed


section \<open>Registration\<close>

text \<open>
  Registration, undisturbed. A token bound to a worker that is still live under another name
  or host is refused with 409 and changes nothing. Otherwise the worker that registers holds no
  running job afterwards: exactly its running jobs go back to the queue with the attempt cleared,
  every other job is untouched, and its row is online.
\<close>

lemma register_releases_or_refuses:
  assumes "register nid body tr [] d = (r, es', d')"
  shows "(\<forall>b x. t_worker_id tr = Some b \<and> get_worker (db_workers d) b = Some x
        \<and> (w_name x, w_host x) \<noteq> (rq_name body, rq_host body) \<and> worker_is_live (db_clock d) x
        \<longrightarrow> r = Inl (HTTPException 409))
    \<and> ((r = Inl (HTTPException 409) \<and> d' = d)
       \<or> (\<exists>w row. r = Inr w \<and> get_worker (db_workers d') w = Some row \<and> w_status row = ONLINE
           \<and> db_jobs d' = map (\<lambda>j. if j_worker_id j = Some w \<and> active (j_status j)
                                 then release_job (db_clock d) j else j) (db_jobs d)))"
proof (intro conjI allI impI)
  show "r = Inl (HTTPException 409)" if "t_worker_id tr = Some b \<and> get_worker (db_workers d) b = Some x
        \<and> (w_name x, w_host x) \<noteq> (rq_name body, rq_host body) \<and> worker_is_live (db_clock d) x" for b x
    using that assms by (auto simp: register_def keep_binding_def io_eval)
next
  have up: "\<exists>row. get_worker (upsert_worker now (registered_worker w body) ws) w = Some row
      \<and> w_status row = ONLINE" for now w ws
    by (simp add: get_worker_upsert registered_worker_def)
  have lk: "link_worker h w e ts = (False, ts') \<Longrightarrow> ts' = ts" for h w e ts ts'
    by (auto simp: link_worker_def Let_def table_simps intro!: update_where_none)
  let ?goal = "(r = Inl (HTTPException 409) \<and> d' = d)
       \<or> (\<exists>w row. r = Inr w \<and> get_worker (db_workers d') w = Some row \<and> w_status row = ONLINE
           \<and> db_jobs d' = map (\<lambda>j. if j_worker_id j = Some w \<and> active (j_status j)
                                 then release_job (db_clock d) j else j) (db_jobs d))"
  show ?goal
  proof (cases "fst (keep_binding body tr [] d)")
    case (Inl e)
    with assms have "r = Inl (HTTPException 409)" "d' = d"
      by (auto simp: register_def keep_binding_def io_eval split: option.splits prod.splits if_splits)
    then show ?goal by blast
  next
    case (Inr b)
    then have kb: "keep_binding body tr [] d = (Inr b, [], d)"
      by (auto simp: keep_binding_def io_eval split: option.splits prod.splits if_splits)
    show ?goal
    proof (cases b)
      case None
      obtain ok ts where l: "link_worker (t_hash tr) nid (t_worker_id tr) (db_tokens d) = (ok, ts)"
        by (rule prod.exhaust)
      show ?goal
      proof (cases ok)
        case True
        with assms kb None l up show ?goal
          by (auto simp: register_def io_eval release_worker_jobs_def update_where_def Let_def)
      next
        case False
        with l lk have "ts = db_tokens d" by simp
        with False assms kb None l show ?goal by (auto simp: register_def io_eval)
      qed
    next
      case (Some w)
      with assms kb up show ?goal
        by (auto simp: register_def io_eval release_worker_jobs_def update_where_def Let_def)
    qed
  qed
qed


section \<open>The deduplication shortcut and the catalog\<close>

lemma require_claim_token_reads: "\<exists>x. require_claim_token tr tok [] d = (x, [], d)"
proof (cases tok)
  case None
  then show ?thesis
    by (cases "t_worker_id tr"; cases "get_worker (db_workers d) (the (t_worker_id tr))")
      (simp_all add: require_claim_token_def io_eval)
qed (simp add: require_claim_token_def io_eval)

text \<open>
  When \<open>check_derivative\<close> finds the output already stored it completes the job, but neither it nor
  the \<open>/complete\<close> report that follows (answered as a duplicate) touches the catalog: the row queued
  into the job keeps the status it had.
\<close>

lemma dedup_completion_leaves_catalog:
  assumes "keys_distinct j_id (db_jobs d)" and "check_derivative i tok key tr [] d = (Inr (Some n), es, d1)"
  shows "db_media d1 = db_media d \<and> complete_job i body tr [] d1 = (Inr (), [], d1)"
proof -
  from assms(2) obtain j where j: "get_job (db_jobs d) i = Some j" "t_worker_id tr \<noteq> None"
    "j_worker_id j = t_worker_id tr"
    by (auto simp: check_derivative_def require_owned_job_def io_eval split: option.splits if_splits)
  have row: "db_media d1 = db_media d \<and> (\<exists>j1. get_job (db_jobs d1) i = Some j1
      \<and> j_worker_id j1 = j_worker_id j \<and> j_status j1 = COMPLETE)"
  proof (cases "j_status j = COMPLETE")
    case True
    with assms(2) j show ?thesis
      by (auto simp: check_derivative_def require_owned_job_def is_duplicate_terminal_report_def io_eval
          split: option.splits if_splits)
  next
    case False
    have o: "require_owned_job i tr [] d = (Inr j, [], d)"
      using j by (simp add: require_owned_job_def io_eval)
    obtain x where x: "require_claim_token tr tok [] d = (x, [], d)"
      using require_claim_token_reads by blast
    obtain e where e: "lookup_by_key (db_derivatives d) key = Some e"
      using assms(2) o by (cases "lookup_by_key (db_derivatives d) key") (auto simp: check_derivative_def io_eval)
    obtain ct where ct: "x = Inr ct"
      using assms(2) o e x False
      by (cases x) (auto simp: check_derivative_def is_duplicate_terminal_report_def io_eval split: if_splits)
    let ?f = "finalize_job (db_clock d) i (owner_of j) COMPLETE ct (dedup_fields (db_clock d) e) (db_jobs d)"
    have nt: "\<not> terminal (j_status j)"
      using assms(2) o e False
      by (auto simp: check_derivative_def is_duplicate_terminal_report_def io_eval split: if_splits)
    obtain won t where r: "?f = Inr (won, t)"
      using assms(2) o e x ct False nt
      by (cases ?f) (auto simp: check_derivative_def is_duplicate_terminal_report_def settle_report_def io_eval)
    have won
    proof (rule ccontr)
      assume "\<not> won"
      with r have "t = db_jobs d" by (auto dest: finalize_lost)
      with \<open>\<not> won\<close> assms(2) o e x ct False nt r j(1) show False
        by (simp add: check_derivative_def is_duplicate_terminal_report_def settle_report_def
            answer_lost_finalize_def io_eval)
    qed
    with r have f: "?f = Inr (True, t)" by simp
    with assms(2) o e x ct False nt have d1: "d1 = d\<lparr>db_jobs := t\<rparr>"
      by (simp add: check_derivative_def is_duplicate_terminal_report_def settle_report_def io_eval)
    obtain j' where "get_job t i = Some j'" "j_status j' = COMPLETE" "j_worker_id j' = Some (owner_of j)"
      by (rule finalize_job_won_row [OF assms(1) f]) blast
    with d1 j show ?thesis by (auto simp: owner_of_def)
  qed
  then obtain j1 where "get_job (db_jobs d1) i = Some j1" "j_worker_id j1 = j_worker_id j" "j_status j1 = COMPLETE"
    by blast
  with j row show ?thesis
    by (auto simp: complete_job_def require_owned_job_def is_duplicate_terminal_report_def io_eval)
qed


end
