(* ===== verification/FileStore.thy ===== *)
theory FileStore
  imports Prelude
begin

text \<open>
  The filesystem side of a transcode (\<open>worker/storage/filesystem.py\<close>): the sidecar names, the lock
  file, the two-rename swap with its rollback, and the crash recovery at claim time and at worker
  start.

  A path is a directory and a name. In a lock's JSON a text in ISO format is a time stamp; worker
  and job ids are other texts. File contents are opaque except for the lock's JSON. Every
  mutating system call consults the next entry of a fault list: it may work, fail with
  \<open>OSError\<close>, or never happen because the process dies there (\<open>Crash\<close>, after which nothing of the
  program runs, handlers included). An exhausted list means no further faults. Reads do not fail.
  \<open>p_calls\<close> counts the external commands run so far, so that two runs of one command may answer
  differently.
\<close>

section \<open>Files and system calls\<close>

type_synonym path = "string \<times> string"

datatype jval = JText string | JTime time | JNull

text \<open>A file's text: media bytes, a JSON object, other JSON, or text that is no JSON (a torn write).\<close>

datatype content = Media string | JDict "(string \<times> jval) list" | JOther | Torn

type_synonym files = "path \<Rightarrow> content option"

record process =
  p_fs :: files
  p_now :: time
  p_mutating :: bool
  p_confirmed :: bool
  p_calls :: nat

text \<open>
  What the environment does at the next point where it can act: let a system call work, fail it, end
  the process, cancel the task, or let the lock heartbeat run at the given times. A point where an
  event has no meaning takes it as \<open>Fine\<close>.
\<close>

datatype fault = Fine | Fault | Crash | Cancel | Beats "time list"

text \<open>
  The exceptions that leave the pipeline. \<open>diagnostics\<close> is what the skip outcomes carry: resolved
  quality, backend, predicted mean and worst-scene score.
\<close>

record diagnostics =
  dg_crf :: "int option"
  dg_backend :: "string option"
  dg_mean :: "num option"
  dg_perc5 :: "num option"

datatype exn =
    Pipeline_error string
  | Size_regression int int diagnostics
  | Vmaf_gate num num num num diagnostics
  | Stream_loss string "string list" diagnostics
  | Value_error
  | Cancelled_error

datatype 'a result = Done 'a | OSError | Raised exn | Crashed

type_synonym 'a act = "fault list \<Rightarrow> process \<Rightarrow> 'a result \<times> fault list \<times> process"

definition finish :: "'a \<Rightarrow> 'a act" where
  "finish a os s = (Done a, os, s)"

definition raise_error :: "exn \<Rightarrow> 'a act" where
  "raise_error e os s = (Raised e, os, s)"

definition asks :: "(process \<Rightarrow> 'a) \<Rightarrow> 'a act" where
  "asks f os s = (Done (f s), os, s)"

definition modify :: "(process \<Rightarrow> process) \<Rightarrow> unit act" where
  "modify f os s = (Done (), os, f s)"

definition andthen :: "'a act \<Rightarrow> ('a \<Rightarrow> 'b act) \<Rightarrow> 'b act" where
  "andthen m f os s =
     (case m os s of
        (Done a, os', s') \<Rightarrow> f a os' s'
      | (OSError, os', s') \<Rightarrow> (OSError, os', s')
      | (Raised st, os', s') \<Rightarrow> (Raised st, os', s')
      | (Crashed, os', s') \<Rightarrow> (Crashed, os', s'))"

text \<open>\<open>except OSError\<close>.\<close>

definition on_oserror :: "'a act \<Rightarrow> 'a act \<Rightarrow> 'a act" where
  "on_oserror m h os s =
     (case m os s of (OSError, os', s') \<Rightarrow> h os' s' | (r, os', s') \<Rightarrow> (r, os', s'))"

definition syscall :: "(files \<Rightarrow> files option) \<Rightarrow> unit act" where
  "syscall op os s =
     (case os of
        Crash # os' \<Rightarrow> (Crashed, os', s)
      | Fault # os' \<Rightarrow> (OSError, os', s)
      | _ \<Rightarrow> (case op (p_fs s) of None \<Rightarrow> (OSError, tl os, s)
              | Some f \<Rightarrow> (Done (), tl os, s\<lparr>p_fs := f\<rparr>)))"

definition rename :: "path \<Rightarrow> path \<Rightarrow> unit act" where
  "rename src dst = syscall (\<lambda>f. case f src of None \<Rightarrow> None | Some c \<Rightarrow> Some (f(src := None, dst := Some c)))"

definition unlink :: "path \<Rightarrow> unit act" where
  "unlink p = syscall (\<lambda>f. if f p = None then None else Some (f(p := None)))"

text \<open>Writing into an existing file truncates it first: a failed write leaves a torn file.\<close>

definition write_file :: "path \<Rightarrow> content \<Rightarrow> unit act" where
  "write_file p c =
     andthen (syscall (\<lambda>f. Some (f(p := Some Torn)))) (\<lambda>_. syscall (\<lambda>f. Some (f(p := Some c))))"

text \<open>\<open>open(path, "x")\<close>: creates an empty file, or answers that the path is taken.\<close>

definition create_exclusive :: "path \<Rightarrow> bool act" where
  "create_exclusive p os s =
     (case os of
        Crash # os' \<Rightarrow> (Crashed, os', s)
      | Fault # os' \<Rightarrow> (OSError, os', s)
      | _ \<Rightarrow> if p_fs s p \<noteq> None then (Done False, tl os, s)
             else (Done True, tl os, s\<lparr>p_fs := (p_fs s)(p := Some Torn)\<rparr>))"

definition path_exists :: "path \<Rightarrow> bool act" where
  "path_exists p = asks (\<lambda>s. p_fs s p \<noteq> None)"

section \<open>Names\<close>

definition LOCK_SUFFIX :: string where "LOCK_SUFFIX = ''.tf_lock''"
definition BAK_SUFFIX :: string where "BAK_SUFFIX = ''.tf_bak''"
definition TMP_SUFFIX :: string where "TMP_SUFFIX = ''.tf_tmp''"

definition LOCK_TOUCH_INTERVAL :: int where "LOCK_TOUCH_INTERVAL = 300"
definition RECOVERY_STALE_LOCK_SECONDS :: int where
  "RECOVERY_STALE_LOCK_SECONDS = 3 * LOCK_TOUCH_INTERVAL"

text \<open>\<open>Path.suffix\<close> and \<open>Path.stem\<close>: the part from the last dot on, when that dot is neither the
  first nor the last character of the name.\<close>

definition path_suffix :: "string \<Rightarrow> string" where
  "path_suffix name =
     (let ext = rev (takeWhile (\<lambda>c. c \<noteq> CHR ''.'') (rev name));
          i = length name - length ext
      in if 1 < i \<and> ext \<noteq> [] then CHR ''.'' # ext else [])"

definition path_stem :: "string \<Rightarrow> string" where
  "path_stem name = take (length name - length (path_suffix name)) name"

definition with_name :: "path \<Rightarrow> string \<Rightarrow> path" where
  "with_name p name = (fst p, name)"

definition pipeline_artifacts :: "path \<Rightarrow> path \<times> path \<times> path" where
  "pipeline_artifacts src =
     (with_name src (snd src @ LOCK_SUFFIX),
      with_name src (path_stem (snd src) @ TMP_SUFFIX @ path_suffix (snd src)),
      with_name src (path_stem (snd src) @ BAK_SUFFIX @ path_suffix (snd src)))"

abbreviation lock_of :: "path \<Rightarrow> path" where "lock_of p \<equiv> fst (pipeline_artifacts p)"
abbreviation tmp_of :: "path \<Rightarrow> path" where "tmp_of p \<equiv> fst (snd (pipeline_artifacts p))"
abbreviation bak_of :: "path \<Rightarrow> path" where "bak_of p \<equiv> snd (snd (pipeline_artifacts p))"

section \<open>The lock file\<close>

definition lock_data :: "string \<Rightarrow> string \<Rightarrow> time \<Rightarrow> content" where
  "lock_data job_id worker_id t =
     JDict [(''job_id'', JText job_id), (''worker_id'', JText worker_id), (''timestamp'', JTime t)]"

definition safe_delete :: "path \<Rightarrow> unit act" where
  "safe_delete p =
     andthen (path_exists p) (\<lambda>e. if e then on_oserror (unlink p) (finish ()) else finish ())"

definition acquire_lock :: "path \<Rightarrow> string \<Rightarrow> string \<Rightarrow> unit act" where
  "acquire_lock lock_path job_id worker_id =
     andthen (asks p_now) (\<lambda>t.
     andthen (create_exclusive lock_path) (\<lambda>created.
     if \<not> created then raise_error (Pipeline_error ''LOCK'')
     else syscall (\<lambda>f. Some (f(lock_path := Some (lock_data job_id worker_id t))))))"

definition lock_matches :: "path \<Rightarrow> string \<Rightarrow> string \<Rightarrow> files \<Rightarrow> bool" where
  "lock_matches lock_path job_id worker_id f =
     (case f lock_path of
        Some (JDict kv) \<Rightarrow> map_of kv ''job_id'' = Some (JText job_id)
                           \<and> map_of kv ''worker_id'' = Some (JText worker_id)
      | _ \<Rightarrow> False)"

definition touch_lock :: "path \<Rightarrow> string \<Rightarrow> string \<Rightarrow> unit act" where
  "touch_lock lock_path job_id worker_id =
     andthen (asks p_now) (\<lambda>t.
       let tmp = with_name lock_path (snd lock_path @ ''.new'')
       in on_oserror
            (andthen (write_file tmp (lock_data job_id worker_id t)) (\<lambda>_. rename tmp lock_path))
            (andthen (safe_delete tmp) (\<lambda>_ os s. (OSError, os, s))))"

text \<open>
  \<open>content.get\<close> on JSON that is no object is an \<open>AttributeError\<close> the function does not catch; it
  is the outer \<open>None\<close>. The inner \<open>None\<close> is the code's \<open>None\<close>: missing, unreadable or incomplete.
  A missing \<open>worker_id\<close> key reads as JSON null.
\<close>

definition read_lock :: "path \<Rightarrow> files \<Rightarrow> ((jval \<times> time) option) option" where
  "read_lock lock_path f =
     (case f lock_path of
        Some (JDict kv) \<Rightarrow>
          (case map_of kv ''timestamp'' of
             Some (JTime t) \<Rightarrow>
               Some (Some (case map_of kv ''worker_id'' of None \<Rightarrow> JNull | Some w \<Rightarrow> w, t))
           | _ \<Rightarrow> Some None)
      | Some JOther \<Rightarrow> None
      | _ \<Rightarrow> Some None)"

definition lock_is_active :: "path \<Rightarrow> string \<Rightarrow> time \<Rightarrow> time \<Rightarrow> files \<Rightarrow> bool option" where
  "lock_is_active lock_path worker_id stale_after t f =
     (case read_lock lock_path f of
        None \<Rightarrow> None
      | Some None \<Rightarrow> Some False
      | Some (Some (lock_worker, ts)) \<Rightarrow>
          Some (if lock_worker = JText worker_id then False else t - ts < stale_after))"

definition lock_holder :: "path \<Rightarrow> time \<Rightarrow> files \<Rightarrow> ((string \<times> int) option) option" where
  "lock_holder original t f =
     (case read_lock (lock_of original) f of
        None \<Rightarrow> None
      | Some None \<Rightarrow> Some None
      | Some (Some (w, ts)) \<Rightarrow>
          Some (Some (case w of JText n \<Rightarrow> if n = [] then ''unknown'' else n | _ \<Rightarrow> ''unknown'',
                      max 0 ((t - ts) div 1000000))))"

section \<open>The swap\<close>

definition atomic_swap :: "path \<Rightarrow> path \<Rightarrow> path \<Rightarrow> unit act" where
  "atomic_swap original tmp bak =
     andthen (path_exists bak) (\<lambda>stranded.
     if stranded then raise_error (Pipeline_error ''SWAP'')
     else andthen (modify (\<lambda>s. s\<lparr>p_mutating := True\<rparr>)) (\<lambda>_.
          andthen (on_oserror (rename original bak) (raise_error (Pipeline_error ''SWAP''))) (\<lambda>_.
          on_oserror (rename tmp original)
            (andthen (on_oserror (rename bak original) (finish ())) (\<lambda>_. raise_error (Pipeline_error ''SWAP''))))))"

definition rollback_swap :: "path \<Rightarrow> path \<Rightarrow> bool act" where
  "rollback_swap original bak =
     andthen (path_exists bak) (\<lambda>e.
     if \<not> e then finish True
     else on_oserror (andthen (rename bak original) (\<lambda>_. finish True)) (finish False))"

section \<open>Recovery at claim time\<close>

datatype recovery = R_clean | R_restored | R_cleaned | R_active | R_attention | R_restore_failed

definition restore_backup :: "path \<Rightarrow> path \<Rightarrow> path \<Rightarrow> path \<Rightarrow> recovery option act" where
  "restore_backup original lock tmp bak =
     on_oserror
       (andthen (rename bak original) (\<lambda>_.
        andthen (safe_delete lock) (\<lambda>_.
        andthen (safe_delete tmp) (\<lambda>_. finish (Some R_restored)))))
       (asks (\<lambda>s. if p_fs s bak = None \<and> p_fs s original \<noteq> None
                  then Some R_restored else Some R_restore_failed))"

text \<open>\<open>None\<close> is the uncaught exception of a lock file that holds JSON but no object.\<close>

definition recover_source_path :: "path \<Rightarrow> string \<Rightarrow> time \<Rightarrow> recovery option act" where
  "recover_source_path original worker_id stale_after =
     (let lock = lock_of original; tmp = tmp_of original; bak = bak_of original
      in andthen (asks (\<lambda>s. (p_fs s, p_now s))) (\<lambda>(f, t).
         case (if f lock \<noteq> None then lock_is_active lock worker_id stale_after t f else Some False) of
           None \<Rightarrow> finish None
         | Some active \<Rightarrow>
             if active then finish (Some R_active)
             else if f bak \<noteq> None then
               if f original \<noteq> None \<and> f lock = None then finish (Some R_attention)
               else restore_backup original lock tmp bak
             else if f lock \<noteq> None \<or> f tmp \<noteq> None then
               andthen (safe_delete lock) (\<lambda>_. andthen (safe_delete tmp) (\<lambda>_. finish (Some R_cleaned)))
             else finish (Some R_clean)))"

section \<open>Recovery at worker start\<close>

record recovery_stats =
  rs_restored :: nat
  rs_locks_removed :: nat
  rs_tmp_removed :: nat
  rs_skipped_active :: nat
  rs_needs_attention :: nat

text \<open>Deleting a leftover, counted when it was there and went.\<close>

definition delete_counted :: "path \<Rightarrow> (recovery_stats \<Rightarrow> recovery_stats) \<Rightarrow> recovery_stats \<Rightarrow> recovery_stats act" where
  "delete_counted p count st =
     andthen (path_exists p) (\<lambda>e.
     if e then on_oserror (andthen (unlink p) (\<lambda>_. finish (count st))) (finish st) else finish st)"

definition original_of_bak :: "path \<Rightarrow> path" where
  "original_of_bak bak = with_name bak (replace_first BAK_SUFFIX [] (snd bak))"

definition recover_backup :: "string \<Rightarrow> time \<Rightarrow> path \<Rightarrow> recovery_stats \<Rightarrow> recovery_stats option act" where
  "recover_backup worker_id stale_after bak st =
     (if \<not> sublist BAK_SUFFIX (snd bak) then finish (Some st)
      else let original = original_of_bak bak;
               lock = with_name original (snd original @ LOCK_SUFFIX);
               tmp = with_name original (path_stem (snd original) @ TMP_SUFFIX @ path_suffix (snd original))
           in andthen (asks (\<lambda>s. (p_fs s, p_now s))) (\<lambda>(f, t).
              if f bak = None then finish (Some st)
              else case (if f lock \<noteq> None then lock_is_active lock worker_id stale_after t f else Some False) of
                None \<Rightarrow> finish None
              | Some active \<Rightarrow>
                  if active then finish (Some (st\<lparr>rs_skipped_active := rs_skipped_active st + 1\<rparr>))
                  else if f original \<noteq> None \<and> f lock = None
                  then finish (Some (st\<lparr>rs_needs_attention := rs_needs_attention st + 1\<rparr>))
                  else on_oserror
                    (andthen (rename bak original) (\<lambda>_.
                     andthen (delete_counted lock (\<lambda>r. r\<lparr>rs_locks_removed := rs_locks_removed r + 1\<rparr>)
                                (st\<lparr>rs_restored := rs_restored st + 1\<rparr>)) (\<lambda>st1.
                     andthen (delete_counted tmp (\<lambda>r. r\<lparr>rs_tmp_removed := rs_tmp_removed r + 1\<rparr>) st1)
                       (\<lambda>st2. finish (Some st2)))))
                    (finish (Some st))))"

definition remove_stale_lock :: "string \<Rightarrow> time \<Rightarrow> path \<Rightarrow> recovery_stats \<Rightarrow> recovery_stats option act" where
  "remove_stale_lock worker_id stale_after lock st =
     (if \<not> suffix LOCK_SUFFIX (snd lock) then finish (Some st)
      else let original = with_name lock (take (length (snd lock) - length LOCK_SUFFIX) (snd lock));
               tmp = with_name original (path_stem (snd original) @ TMP_SUFFIX @ path_suffix (snd original))
           in andthen (asks (\<lambda>s. (p_fs s, p_now s))) (\<lambda>(f, t).
              if f lock = None then finish (Some st)
              else case lock_is_active lock worker_id stale_after t f of
                None \<Rightarrow> finish None
              | Some active \<Rightarrow>
                  if active then finish (Some st)
                  else on_oserror
                    (andthen (unlink lock) (\<lambda>_.
                     andthen (delete_counted tmp (\<lambda>r. r\<lparr>rs_tmp_removed := rs_tmp_removed r + 1\<rparr>)
                                (st\<lparr>rs_locks_removed := rs_locks_removed st + 1\<rparr>))
                       (\<lambda>st1. finish (Some st1))))
                    (finish (Some st))))"

text \<open>The loops over the sorted directory listing of one root (the result of \<open>rglob\<close>).\<close>

fun scan_files ::
  "(path \<Rightarrow> recovery_stats \<Rightarrow> recovery_stats option act) \<Rightarrow> path list \<Rightarrow> recovery_stats \<Rightarrow> recovery_stats option act"
where
  "scan_files step [] st = finish (Some st)"
| "scan_files step (p # ps) st =
     andthen (step p st) (\<lambda>r. case r of None \<Rightarrow> finish None | Some st' \<Rightarrow> scan_files step ps st')"

fun recover_orphaned_backups ::
  "string \<Rightarrow> time \<Rightarrow> path list list \<Rightarrow> recovery_stats \<Rightarrow> recovery_stats option act"
where
  "recover_orphaned_backups worker_id stale_after [] st = finish (Some st)"
| "recover_orphaned_backups worker_id stale_after (listing # roots) st =
     andthen (scan_files (recover_backup worker_id stale_after) listing st) (\<lambda>r.
     case r of None \<Rightarrow> finish None | Some st1 \<Rightarrow>
     andthen (scan_files (remove_stale_lock worker_id stale_after) listing st1) (\<lambda>r'.
     case r' of None \<Rightarrow> finish None | Some st2 \<Rightarrow>
     recover_orphaned_backups worker_id stale_after roots st2))"

text \<open>What a computation guarantees from a state on, whatever the faults.\<close>

definition wp :: "'a act \<Rightarrow> ('a result \<Rightarrow> process \<Rightarrow> bool) \<Rightarrow> process \<Rightarrow> bool" where
  "wp m Q s \<longleftrightarrow> (\<forall>os. case m os s of (r, os', s') \<Rightarrow> Q r s')"

definition crashed_swap :: process where
  "crashed_swap = \<lparr>p_fs = (\<lambda>q. if q = (''/m'', ''a.tf_bak.mkv'') then Some (Media ''film'')
       else if q = (''/m'', ''a.mkv.tf_lock'') then Some (lock_data ''j1'' ''w1'' 0) else None),
     p_now = 5, p_mutating = False, p_confirmed = False, p_calls = 0\<rparr>"

text \<open>Two computations that do the same to the files, whatever they return.\<close>

definition same_kind :: "'a result \<Rightarrow> 'b result \<Rightarrow> bool" where
  "same_kind r q = (case (r, q) of (Done _, Done _) \<Rightarrow> True | (OSError, OSError) \<Rightarrow> True
     | (Raised a, Raised b) \<Rightarrow> a = b | (Crashed, Crashed) \<Rightarrow> True | _ \<Rightarrow> False)"

definition same_effect :: "'a act \<Rightarrow> 'b act \<Rightarrow> bool" where
  "same_effect m k \<longleftrightarrow> (\<forall>os s. same_kind (fst (m os s)) (fst (k os s)) \<and> snd (m os s) = snd (k os s))"

section \<open>Names\<close>

lemma path_stem_suffix [simp]: "path_stem name @ path_suffix name = name"
proof -
  have "\<exists>pre. name = pre @ path_suffix name"
  proof (cases "CHR ''.'' \<in> set name")
    case True
    then obtain ys zs where n: "name = ys @ CHR ''.'' # zs" "CHR ''.'' \<notin> set zs"
      by (metis split_list_last)
    then have "takeWhile (\<lambda>c. c \<noteq> CHR ''.'') (rev name) = rev zs"
      by (auto simp: takeWhile_append)
    then show ?thesis using n(1) by (auto simp: path_suffix_def Let_def)
  next
    case False
    then have e: "takeWhile (\<lambda>c. c \<noteq> CHR ''.'') (rev name) = rev name"
      by (auto simp: takeWhile_eq_all_conv)
    show ?thesis unfolding path_suffix_def Let_def e by simp
  qed
  then obtain pre where n: "name = pre @ path_suffix name" by blast
  then have "length name - length (path_suffix name) = length pre" by (metis add_diff_cancel_right' length_append)
  with n have "path_stem name = pre" unfolding path_stem_def by (metis append_eq_conv_conj)
  with n show ?thesis by simp
qed

lemma length_stem_suffix: "length (path_stem n) + length (path_suffix n) = length n"
  by (metis length_append path_stem_suffix)

lemma artifact_names:
  "lock_of p = (fst p, snd p @ ''.tf_lock'')"
  "tmp_of p = (fst p, path_stem (snd p) @ ''.tf_tmp'' @ path_suffix (snd p))"
  "bak_of p = (fst p, path_stem (snd p) @ ''.tf_bak'' @ path_suffix (snd p))"
  by (simp_all add: pipeline_artifacts_def with_name_def LOCK_SUFFIX_def TMP_SUFFIX_def BAK_SUFFIX_def)

lemma artifacts_distinct [simp]:
  "lock_of p \<noteq> p" "tmp_of p \<noteq> p" "bak_of p \<noteq> p" "lock_of p \<noteq> tmp_of p" "lock_of p \<noteq> bak_of p"
  "tmp_of p \<noteq> bak_of p"
  "p \<noteq> lock_of p" "p \<noteq> tmp_of p" "p \<noteq> bak_of p" "tmp_of p \<noteq> lock_of p" "bak_of p \<noteq> lock_of p"
  "bak_of p \<noteq> tmp_of p"
proof -
  have len: "length (snd (lock_of p)) = length (snd p) + 8" "length (snd (tmp_of p)) = length (snd p) + 7"
    "length (snd (bak_of p)) = length (snd p) + 7"
    using length_stem_suffix [of "snd p"] by (simp_all add: artifact_names)
  have ne: "a \<noteq> b" if "length (snd a) \<noteq> length (snd b)" for a b :: path using that by auto
  show 1: "lock_of p \<noteq> p" "tmp_of p \<noteq> p" "bak_of p \<noteq> p" "lock_of p \<noteq> tmp_of p" "lock_of p \<noteq> bak_of p"
    by (rule ne, simp add: len)+
  show 2: "tmp_of p \<noteq> bak_of p" by (simp add: artifact_names)
  from 1 2 show "p \<noteq> lock_of p" "p \<noteq> tmp_of p" "p \<noteq> bak_of p" "tmp_of p \<noteq> lock_of p" "bak_of p \<noteq> lock_of p"
    "bak_of p \<noteq> tmp_of p" by metis+
qed


text \<open>An occurrence of \<open>.tf_bak\<close> has its dot in front, so none can straddle the end of the stem.\<close>

lemma replace_bak:
  assumes "\<not> sublist ''.tf_bak'' stem"
  shows "replace_first ''.tf_bak'' [] (stem @ ''.tf_bak'' @ ext) = stem @ ext"
  using assms
proof (induction stem)
  case Nil
  then show ?case using replace_first_prefix [of "''.tf_bak''" "[]" ext] by simp
next
  case (Cons x stem)
  have no: "\<not> prefix ''.tf_bak'' (x # stem @ ''.tf_bak'' @ ext)"
  proof
    assume p: "prefix ''.tf_bak'' (x # stem @ ''.tf_bak'' @ ext)"
    have np: "\<not> prefix ''.tf_bak'' (x # stem)"
      using Cons.prems by (meson prefix_imp_sublist)
    show False
    proof (cases "7 \<le> length (x # stem)")
      case True
      have "prefix ''.tf_bak'' (x # stem)"
        by (rule prefix_length_prefix [OF p]) (use True in simp_all)
      with np show False by simp
    next
      case False
      then have "length stem < 6" by simp
      then consider "stem = []" | a where "stem = [a]" | a b where "stem = [a, b]"
        | a b c where "stem = [a, b, c]" | a b c d where "stem = [a, b, c, d]"
        | a b c d e where "stem = [a, b, c, d, e]"
        by (cases stem rule: list.exhaust; cases "tl stem"; cases "tl (tl stem)"; cases "tl (tl (tl stem))";
            cases "tl (tl (tl (tl stem)))"; cases "tl (tl (tl (tl (tl stem))))") auto
      then show False using p by cases simp_all
    qed
  qed
  have "\<not> sublist ''.tf_bak'' stem" using Cons.prems by (auto simp: sublist_Cons_right)
  then have "replace_first ''.tf_bak'' [] (stem @ ''.tf_bak'' @ ext) = stem @ ext" by (rule Cons.IH)
  then show ?case unfolding append_Cons replace_first.simps(2) using no
    by (simp only: if_False append_Cons append_Nil)
qed

section \<open>Verification conditions\<close>

lemma wp_finish: "Q (Done a) s \<Longrightarrow> wp (finish a) Q s"
  by (simp add: wp_def finish_def)

lemma wp_raise: "Q (Raised e) s \<Longrightarrow> wp (raise_error e) Q s"
  by (simp add: wp_def raise_error_def)

lemma wp_asks: "Q (Done (f s)) s \<Longrightarrow> wp (asks f) Q s"
  by (simp add: wp_def asks_def)

lemma wp_modify: "Q (Done ()) (g s) \<Longrightarrow> wp (modify g) Q s"
  by (simp add: wp_def modify_def)

lemma wp_andthen:
  assumes "wp m (\<lambda>r s'. case r of Done a \<Rightarrow> wp (f a) Q s' | OSError \<Rightarrow> Q OSError s'
       | Raised e \<Rightarrow> Q (Raised e) s' | Crashed \<Rightarrow> Q Crashed s') s"
  shows "wp (andthen m f) Q s"
  unfolding wp_def
proof
  fix os
  obtain r os1 s1 where m: "m os s = (r, os1, s1)" by (rule prod_cases3)
  with assms have "case r of Done a \<Rightarrow> wp (f a) Q s1 | OSError \<Rightarrow> Q OSError s1
       | Raised e \<Rightarrow> Q (Raised e) s1 | Crashed \<Rightarrow> Q Crashed s1"
    unfolding wp_def by (metis (mono_tags, lifting) case_prod_conv)
  with m show "case andthen m f os s of (r, os', s') \<Rightarrow> Q r s'"
    by (cases r) (auto simp: andthen_def wp_def)
qed

lemma wp_on_oserror:
  assumes "wp m (\<lambda>r s'. case r of OSError \<Rightarrow> wp h Q s' | r \<Rightarrow> Q r s') s"
  shows "wp (on_oserror m h) Q s"
  unfolding wp_def
proof
  fix os
  obtain r os1 s1 where m: "m os s = (r, os1, s1)" by (rule prod_cases3)
  with assms have "case r of OSError \<Rightarrow> wp h Q s1 | r \<Rightarrow> Q r s1"
    unfolding wp_def by (metis (mono_tags, lifting) case_prod_conv)
  with m show "case on_oserror m h os s of (r, os', s') \<Rightarrow> Q r s'"
    by (cases r) (auto simp: on_oserror_def wp_def)
qed

lemma wp_syscall:
  assumes "Q Crashed s" and "Q OSError s" and "\<And>f. op (p_fs s) = Some f \<Longrightarrow> Q (Done ()) (s\<lparr>p_fs := f\<rparr>)"
  shows "wp (syscall op) Q s"
  using assms by (auto simp: wp_def syscall_def split: list.splits fault.splits option.splits)

lemma wp_create:
  assumes "Q Crashed s" and "Q OSError s" and "p_fs s p \<noteq> None \<Longrightarrow> Q (Done False) s"
    and "p_fs s p = None \<Longrightarrow> Q (Done True) (s\<lparr>p_fs := (p_fs s)(p := Some Torn)\<rparr>)"
  shows "wp (create_exclusive p) Q s"
  using assms by (auto simp: wp_def create_exclusive_def split: list.splits fault.splits option.splits)

lemma wp_mono: "wp m Q s \<Longrightarrow> (\<And>r s'. Q r s' \<Longrightarrow> R r s') \<Longrightarrow> wp m R s"
  unfolding wp_def by (auto split: prod.splits)

lemma wp_rename:
  assumes "Q Crashed s" and "Q OSError s"
    and "\<And>c. p_fs s a = Some c \<Longrightarrow> Q (Done ()) (s\<lparr>p_fs := (p_fs s)(a := None, b := Some c)\<rparr>)"
  shows "wp (rename a b) Q s"
  unfolding rename_def by (rule wp_syscall) (use assms in \<open>auto split: option.splits\<close>)

lemma wp_safe_delete:
  assumes "Q Crashed s" and "Q (Done ()) s" and "Q (Done ()) (s\<lparr>p_fs := (p_fs s)(p := None)\<rparr>)"
  shows "wp (safe_delete p) Q s"
  unfolding safe_delete_def path_exists_def unlink_def
  by (intro wp_andthen wp_asks) (use assms in \<open>auto intro!: wp_on_oserror wp_syscall wp_finish split: if_splits\<close>)

lemma wp_write:
  assumes "Q Crashed s" and "Q OSError s" and "Q Crashed (s\<lparr>p_fs := (p_fs s)(p := Some Torn)\<rparr>)"
    and "Q OSError (s\<lparr>p_fs := (p_fs s)(p := Some Torn)\<rparr>)"
    and "Q (Done ()) (s\<lparr>p_fs := (p_fs s)(p := Some c)\<rparr>)"
  shows "wp (write_file p c) Q s"
  unfolding write_file_def by (intro wp_andthen wp_syscall) (use assms in \<open>auto intro!: wp_syscall\<close>)


section \<open>Recovery\<close>

lemma wp_result:
  assumes "wp m Q s" and "m os s = (r, os', s')"
  shows "Q r s'"
  using assms unfolding wp_def by (metis (mono_tags, lifting) case_prod_conv)

lemma wp_restore_backup:
  assumes "p_fs s (bak_of p) = Some c" and "\<And>r s'. p_now s' = p_now s \<Longrightarrow> p_mutating s' = p_mutating s
      \<Longrightarrow> p_confirmed s' = p_confirmed s
      \<Longrightarrow> (p_fs s' p = Some c \<or> p_fs s' (bak_of p) = Some c)
      \<Longrightarrow> (\<forall>q. q \<notin> {p, lock_of p, tmp_of p, bak_of p} \<longrightarrow> p_fs s' q = p_fs s q) \<Longrightarrow> Q r s'"
  shows "wp (restore_backup p (lock_of p) (tmp_of p) (bak_of p)) Q s"
  unfolding restore_backup_def
  apply (rule wp_on_oserror, rule wp_andthen, rule wp_rename)
    apply (simp add: assms)
   apply (simp, rule wp_asks, simp add: assms)
  apply simp
  apply (rule wp_andthen, rule wp_safe_delete; simp add: assms)
   apply (rule wp_andthen, rule wp_safe_delete; simp add: assms; rule wp_finish; simp add: assms)
  apply (rule wp_andthen, rule wp_safe_delete; simp add: assms; rule wp_finish; simp add: assms)
  done

lemma wp_clear_leftovers:
  assumes "p_fs s p = Some c" and "\<And>r s'. p_fs s' p = Some c
      \<Longrightarrow> (\<forall>q. q \<notin> {p, lock_of p, tmp_of p, bak_of p} \<longrightarrow> p_fs s' q = p_fs s q) \<Longrightarrow> Q r s'"
  shows "wp (andthen (safe_delete (lock_of p)) (\<lambda>_. andthen (safe_delete (tmp_of p)) (\<lambda>_. finish x))) Q s"
  apply (rule wp_andthen, rule wp_safe_delete; simp add: assms)
   apply (rule wp_andthen, rule wp_safe_delete; simp add: assms; rule wp_finish; simp add: assms)
  apply (rule wp_andthen, rule wp_safe_delete; simp add: assms; rule wp_finish; simp add: assms)
  done

text \<open>
  The sidecars of a source never collide with it or with each other, and the startup scan
  derives the right original from a backup's name, provided the source's own stem does not
  contain the backup marker.
\<close>

lemma backup_name_inverts:
  assumes "\<not> sublist ''.tf_bak'' (path_stem (snd p))"
  shows "original_of_bak (bak_of p) = p \<and> distinct [p, lock_of p, tmp_of p, bak_of p]"
proof -
  have "original_of_bak (bak_of p) = p"
    using replace_bak [OF assms, of "path_suffix (snd p)"]
    by (simp add: original_of_bak_def with_name_def BAK_SUFFIX_def artifact_names(3) del: append_Cons)
  then show ?thesis by simp
qed

text \<open>
  Recovery never destroys the copy it treats as the original. Take any contents of the
  directory and any faults, a crash at any call included: the backup if there is one, else the
  file at the source path, is still at one of the two paths afterwards, and no file other than
  the source and its sidecars is touched.
\<close>

lemma recovery_keeps_a_copy:
  assumes "(if p_fs s (bak_of p) \<noteq> None then p_fs s (bak_of p) else p_fs s p) = Some c"
    and "recover_source_path p w stale os s = (r, os', s')"
  shows "(p_fs s' p = Some c \<or> p_fs s' (bak_of p) = Some c)
    \<and> (\<forall>q. q \<notin> {p, lock_of p, tmp_of p, bak_of p} \<longrightarrow> p_fs s' q = p_fs s q)"
proof -
  let ?f = "p_fs s"
  let ?a = "if ?f (lock_of p) \<noteq> None then lock_is_active (lock_of p) w stale (p_now s) ?f else Some False"
  define K where "K s' \<longleftrightarrow> (p_fs s' p = Some c \<or> p_fs s' (bak_of p) = Some c)
    \<and> (\<forall>q. q \<notin> {p, lock_of p, tmp_of p, bak_of p} \<longrightarrow> p_fs s' q = p_fs s q)" for s' :: process
  let ?Q = "\<lambda>(r :: recovery option result) s'. K s'"
  have "K s" using assms(1) by (auto simp: K_def split: if_splits)
  then have quiet: "wp (finish x) ?Q s" for x by (rule wp_finish)
  have "wp (recover_source_path p w stale) ?Q s"
    unfolding recover_source_path_def Let_def
  proof (rule wp_andthen, rule wp_asks, simp only: result.case prod.case, cases ?a, goal_cases)
    case 1
    then show ?case using quiet by simp
  next
    case (2 b)
    show ?case
    proof (cases "?f (bak_of p)")
      case None
      with assms(1) have "?f p = Some c" by simp
      then have "wp (andthen (safe_delete (lock_of p)) (\<lambda>_. andthen (safe_delete (tmp_of p)) (\<lambda>_. finish (Some R_cleaned)))) ?Q s"
        by (rule wp_clear_leftovers) (simp add: K_def)
      with 2 None quiet show ?thesis by simp
    next
      case (Some d)
      with assms(1) have d: "d = c" by simp
      have "wp (restore_backup p (lock_of p) (tmp_of p) (bak_of p)) ?Q s"
        by (rule wp_restore_backup [OF Some [unfolded d]]) (simp add: K_def)
      with 2 Some quiet show ?thesis by simp
    qed
  qed
  then have "K s'" using assms(2) by (rule wp_result)
  then show ?thesis by (simp add: K_def)
qed


lemma demo_names:
  "lock_of (''/m'', ''a.mkv'') = (''/m'', ''a.mkv.tf_lock'')"
  "tmp_of (''/m'', ''a.mkv'') = (''/m'', ''a.tf_tmp.mkv'')"
  "bak_of (''/m'', ''a.mkv'') = (''/m'', ''a.tf_bak.mkv'')"
  by (simp_all add: artifact_names path_stem_def path_suffix_def)

lemma same_effect_andthen:
  assumes "same_effect m k" and "\<And>a b. same_effect (f a) (g b)"
  shows "same_effect (andthen m f) (andthen k g)"
  unfolding same_effect_def
proof (intro allI)
  fix os s
  obtain r os1 s1 where m: "m os s = (r, os1, s1)" by (rule prod_cases3)
  with assms(1) obtain q where k: "k os s = (q, os1, s1)" and rq: "same_kind r q"
    unfolding same_effect_def by (metis fst_conv snd_conv surjective_pairing)
  from rq assms(2) show "same_kind (fst (andthen m f os s)) (fst (andthen k g os s))
      \<and> snd (andthen m f os s) = snd (andthen k g os s)"
    by (cases r; cases q) (simp_all add: andthen_def m k same_kind_def same_effect_def)
qed

lemma same_effect_on_oserror:
  assumes "same_effect m k" and "same_effect f g"
  shows "same_effect (on_oserror m f) (on_oserror k g)"
  unfolding same_effect_def
proof (intro allI)
  fix os s
  obtain r os1 s1 where m: "m os s = (r, os1, s1)" by (rule prod_cases3)
  with assms(1) obtain q where k: "k os s = (q, os1, s1)" and rq: "same_kind r q"
    unfolding same_effect_def by (metis fst_conv snd_conv surjective_pairing)
  from rq assms(2) show "same_kind (fst (on_oserror m f os s)) (fst (on_oserror k g os s))
      \<and> snd (on_oserror m f os s) = snd (on_oserror k g os s)"
    by (cases r; cases q) (simp_all add: on_oserror_def m k same_kind_def same_effect_def)
qed

lemma same_effect_refl: "same_effect m m"
  by (simp add: same_effect_def same_kind_def split: result.splits)

lemma same_effect_values:
  "same_effect (finish a) (finish b)" "same_effect (asks f) (finish b)"
  by (simp_all add: same_effect_def same_kind_def finish_def asks_def)

lemma same_effect_delete: "same_effect (safe_delete p) (delete_counted p count st)"
proof -
  have 1: "same_effect (unlink p) (andthen (unlink p) (\<lambda>_. finish (count st)))"
    by (simp add: same_effect_def andthen_def finish_def same_kind_def split: prod.splits result.splits)
  have 2: "same_effect (on_oserror (unlink p) (finish ()))
      (on_oserror (andthen (unlink p) (\<lambda>_. finish (count st))) (finish st))"
    by (rule same_effect_on_oserror [OF 1 same_effect_values(1)])
  have 3: "same_effect (finish ()) (finish st)" by (rule same_effect_values)
  show ?thesis
    unfolding same_effect_def
  proof (intro allI)
    fix os s
    show "same_kind (fst (safe_delete p os s)) (fst (delete_counted p count st os s))
        \<and> snd (safe_delete p os s) = snd (delete_counted p count st os s)"
      using 2 3 by (cases "p_fs s p") (simp_all add: safe_delete_def delete_counted_def path_exists_def
          andthen_def asks_def same_effect_def)
  qed
qed

text \<open>
  The startup scan and the claim-time recovery treat a backup alike, which the code keeps in
  step by hand: on a directory that holds the backup of a source whose stem is free of the backup
  marker, and under the same faults, both leave exactly the same files.
\<close>

lemma startup_scan_agrees_with_claim_recovery:
  assumes "\<not> sublist ''.tf_bak'' (path_stem (snd p))" and "p_fs s (bak_of p) \<noteq> None"
  shows "snd (recover_backup w stale (bak_of p) st os s) = snd (recover_source_path p w stale os s)"
proof -
  let ?f = "p_fs s"
  let ?a = "if ?f (lock_of p) \<noteq> None then lock_is_active (lock_of p) w stale (p_now s) ?f else Some False"
  have o: "original_of_bak (bak_of p) = p"
    using replace_bak [OF assms(1), of "path_suffix (snd p)"]
    by (simp add: original_of_bak_def with_name_def BAK_SUFFIX_def artifact_names(3) del: append_Cons)
  have sub: "sublist BAK_SUFFIX (snd (bak_of p))"
    by (simp add: artifact_names(3) BAK_SUFFIX_def sublist_appendI del: append_Cons)
  have names: "with_name p (snd p @ LOCK_SUFFIX) = lock_of p"
    "with_name p (path_stem (snd p) @ TMP_SUFFIX @ path_suffix (snd p)) = tmp_of p"
    by (simp_all add: pipeline_artifacts_def)
  have same: "same_effect (restore_backup p (lock_of p) (tmp_of p) (bak_of p))
     (on_oserror
        (andthen (rename (bak_of p) p) (\<lambda>_.
         andthen (delete_counted (lock_of p) c1 st1) (\<lambda>st1.
         andthen (delete_counted (tmp_of p) c2 st1) (\<lambda>st2. finish (Some st2)))))
        (finish (Some st)))" for c1 c2 st1
    unfolding restore_backup_def
    by (intro same_effect_on_oserror same_effect_andthen same_effect_refl same_effect_delete same_effect_values)
  show ?thesis
    unfolding recover_backup_def recover_source_path_def Let_def o names
    using sub assms(2) same
    by (cases ?a) (auto simp: andthen_def asks_def finish_def same_effect_def)
qed


text \<open>
  A path another worker is working on is left alone: when the lock names a different worker
  and was refreshed within the stale window, recovery reports it as active and makes no system
  call at all.
\<close>

lemma fresh_foreign_lock_is_respected:
  assumes "p_fs s (lock_of p) = Some (lock_data j w ts)" and "w \<noteq> me" and "p_now s - ts < stale"
  shows "recover_source_path p me stale os s = (Done (Some R_active), os, s)"
  using assms
  by (simp add: recover_source_path_def lock_is_active_def read_lock_def lock_data_def andthen_def
      asks_def finish_def Let_def)

end
