(* ===== verification/Ownership.thy ===== *)
theory Ownership
  imports FileStore
begin

text \<open>
  The owned source transaction (\<open>worker/storage/ownership.py\<close>): acquiring the lock opens it, the
  swap and the confirmation are settled units inside it, and one settled exit rolls back an
  unconfirmed mutation, deletes the temporary output and releases the lock, in that order.

  Cancellation reaches the task at its await points and, for a settled unit, once the unit has
  ended; an exception of the unit wins over it. The lock heartbeat runs at await points; the only
  files it touches are the lock and its replacement, so running it inside a swap would give the
  same files. Restoring owner, mode and time of the file does not change contents and is left out.
\<close>

section \<open>The transaction\<close>

record ownership =
  own_source :: path
  own_job :: string
  own_worker :: string

abbreviation own_lock :: "ownership \<Rightarrow> path" where "own_lock own \<equiv> lock_of (own_source own)"
abbreviation own_tmp :: "ownership \<Rightarrow> path" where "own_tmp own \<equiv> tmp_of (own_source own)"
abbreviation own_bak :: "ownership \<Rightarrow> path" where "own_bak own \<equiv> bak_of (own_source own)"

definition new_lock :: "ownership \<Rightarrow> path" where
  "new_lock own = with_name (own_lock own) (snd (own_lock own) @ ''.new'')"

definition holds_token :: "ownership \<Rightarrow> process \<Rightarrow> bool" where
  "holds_token own s = lock_matches (own_lock own) (own_job own) (own_worker own) (p_fs s)"

definition release_artifacts :: "ownership \<Rightarrow> unit act" where
  "release_artifacts own =
     andthen (asks (holds_token own)) (\<lambda>mine.
     if \<not> mine then finish ()
     else andthen (safe_delete (own_tmp own)) (\<lambda>_. safe_delete (own_lock own)))"

definition release_lock :: "ownership \<Rightarrow> unit act" where
  "release_lock own =
     andthen (asks (holds_token own)) (\<lambda>mine. if mine then safe_delete (own_lock own) else finish ())"

definition refresh_lock :: "ownership \<Rightarrow> unit act" where
  "refresh_lock own =
     andthen (asks (holds_token own)) (\<lambda>mine.
     if \<not> mine then finish ()
     else on_oserror (touch_lock (own_lock own) (own_job own) (own_worker own)) (finish ()))"

text \<open>Heartbeats at the given times; a clock reading never moves backwards.\<close>

fun beat :: "ownership \<Rightarrow> time list \<Rightarrow> unit act" where
  "beat own [] = finish ()"
| "beat own (t # ts) =
     andthen (modify (\<lambda>s. s\<lparr>p_now := max (p_now s) t\<rparr>)) (\<lambda>_.
     andthen (refresh_lock own) (\<lambda>_. beat own ts))"

definition cancel_point :: "unit act" where
  "cancel_point os s =
     (case os of
        Crash # os' \<Rightarrow> (Crashed, os', s)
      | Cancel # os' \<Rightarrow> (Raised Cancelled_error, os', s)
      | _ \<Rightarrow> (Done (), tl os, s))"

definition await_point :: "ownership \<Rightarrow> unit act" where
  "await_point own os s =
     (case os of Beats ts # os' \<Rightarrow> beat own ts os' s | _ \<Rightarrow> cancel_point os s)"

text \<open>A settled unit: it runs to its end and a cancellation that came meanwhile is raised after it.\<close>

definition settled :: "unit act \<Rightarrow> unit act \<Rightarrow> unit act" where
  "settled unit_act pending = andthen unit_act (\<lambda>_. pending)"

definition on_cancel :: "'a act \<Rightarrow> 'a act \<Rightarrow> 'a act" where
  "on_cancel m h os s =
     (case m os s of (Raised Cancelled_error, os', s') \<Rightarrow> h os' s' | (r, os', s') \<Rightarrow> (r, os', s'))"

definition own_enter :: "ownership \<Rightarrow> unit act" where
  "own_enter own =
     andthen (modify (\<lambda>s. s\<lparr>p_mutating := False, p_confirmed := False\<rparr>)) (\<lambda>_.
     on_cancel
       (settled (acquire_lock (own_lock own) (own_job own) (own_worker own)) cancel_point)
       (andthen (settled (release_lock own) cancel_point) (\<lambda>_. raise_error Cancelled_error)))"

definition own_swap :: "ownership \<Rightarrow> unit act" where
  "own_swap own = settled (atomic_swap (own_source own) (own_tmp own) (own_bak own)) (await_point own)"

definition own_finish :: "ownership \<Rightarrow> unit act" where
  "own_finish own =
     andthen (safe_delete (own_bak own)) (\<lambda>_. modify (\<lambda>s. s\<lparr>p_confirmed := True\<rparr>))"

definition own_confirm :: "ownership \<Rightarrow> unit act" where
  "own_confirm own = settled (own_finish own) (await_point own)"

definition own_settle :: "ownership \<Rightarrow> unit act" where
  "own_settle own =
     andthen (asks (\<lambda>s. p_mutating s \<and> \<not> p_confirmed s)) (\<lambda>unresolved.
     if unresolved then
       andthen (rollback_swap (own_source own) (own_bak own)) (\<lambda>restored.
       if \<not> restored then finish () else release_artifacts own)
     else release_artifacts own)"

definition own_exit :: "ownership \<Rightarrow> unit act" where
  "own_exit own = settled (own_settle own) cancel_point"

text \<open>\<open>async with\<close>: the exit runs whatever the body raised, unless the process died.\<close>

definition ensuring :: "'a act \<Rightarrow> unit act \<Rightarrow> 'a act" where
  "ensuring m h os s =
     (case m os s of
        (Crashed, os1, s1) \<Rightarrow> (Crashed, os1, s1)
      | (r, os1, s1) \<Rightarrow>
          (case h os1 s1 of
             (Done _, os2, s2) \<Rightarrow> (r, os2, s2)
           | (OSError, os2, s2) \<Rightarrow> (OSError, os2, s2)
           | (Raised e, os2, s2) \<Rightarrow> (Raised e, os2, s2)
           | (Crashed, os2, s2) \<Rightarrow> (Crashed, os2, s2)))"

definition owned :: "ownership \<Rightarrow> 'a act \<Rightarrow> 'a act" where
  "owned own body = andthen (own_enter own) (\<lambda>_. ensuring body (own_exit own))"

section \<open>The contract of a transaction\<close>

text \<open>What a run of heartbeats may change.\<close>

definition beat_frame :: "ownership \<Rightarrow> process \<Rightarrow> process \<Rightarrow> bool" where
  "beat_frame own s s' \<longleftrightarrow>
     (\<forall>q. q \<noteq> own_lock own \<and> q \<noteq> new_lock own \<longrightarrow> p_fs s' q = p_fs s q)
     \<and> (p_fs s' (own_lock own) = p_fs s (own_lock own)
        \<or> holds_token own s \<and> (\<exists>t. p_now s \<le> t \<and> t \<le> p_now s'
             \<and> p_fs s' (own_lock own) = Some (lock_data (own_job own) (own_worker own) t)))
     \<and> p_now s \<le> p_now s' \<and> p_mutating s' = p_mutating s \<and> p_confirmed s' = p_confirmed s"

definition tx_lock :: "ownership \<Rightarrow> process \<Rightarrow> bool" where
  "tx_lock own s \<longleftrightarrow>
     (\<exists>t \<le> p_now s. p_fs s (own_lock own) = Some (lock_data (own_job own) (own_worker own) t))"

text \<open>The three situations inside a transaction: nothing touched, a mutation not yet confirmed, and
  a confirmed one, where the source holds an output that \<open>good\<close> accepts.\<close>

definition tx_untouched :: "ownership \<Rightarrow> content \<Rightarrow> process \<Rightarrow> bool" where
  "tx_untouched own orig s \<longleftrightarrow> tx_lock own s \<and> p_fs s (own_source own) = Some orig \<and> p_fs s (own_bak own) = None
     \<and> \<not> p_mutating s \<and> \<not> p_confirmed s"

definition tx_mutated :: "ownership \<Rightarrow> content \<Rightarrow> process \<Rightarrow> bool" where
  "tx_mutated own orig s \<longleftrightarrow> tx_lock own s \<and> p_mutating s \<and> \<not> p_confirmed s
     \<and> (p_fs s (own_source own) = Some orig \<and> p_fs s (own_bak own) = None \<or> p_fs s (own_bak own) = Some orig)"

definition tx_confirmed :: "ownership \<Rightarrow> content \<Rightarrow> (content \<Rightarrow> bool) \<Rightarrow> process \<Rightarrow> bool" where
  "tx_confirmed own orig good s \<longleftrightarrow> tx_lock own s \<and> p_confirmed s
     \<and> (\<exists>e. p_fs s (own_source own) = Some e \<and> good e) \<and> p_fs s (own_bak own) \<in> {None, Some orig}"

text \<open>A result of the work has to fit the output that is in place.\<close>

definition tx_left ::
  "ownership \<Rightarrow> content \<Rightarrow> (content \<Rightarrow> bool) \<Rightarrow> ('a \<Rightarrow> content \<Rightarrow> bool) \<Rightarrow> 'a result \<Rightarrow> process \<Rightarrow> bool"
where
  "tx_left own orig good fits r s \<longleftrightarrow>
     (case r of Done a \<Rightarrow> tx_confirmed own orig (\<lambda>e. good e \<and> fits a e) s
      | Crashed \<Rightarrow> tx_untouched own orig s \<or> tx_mutated own orig s \<or> tx_confirmed own orig good s
      | OSError \<Rightarrow> tx_untouched own orig s \<or> tx_mutated own orig s
      | Raised e \<Rightarrow> tx_untouched own orig s \<or> tx_mutated own orig s
          \<or> e = Cancelled_error \<and> tx_confirmed own orig good s)"

text \<open>What a transaction leaves behind, by the contents of the source and its backup.\<close>

definition crash_safe :: "ownership \<Rightarrow> content \<Rightarrow> (content \<Rightarrow> bool) \<Rightarrow> files \<Rightarrow> bool" where
  "crash_safe own orig good f \<longleftrightarrow>
     (f (own_source own) = Some orig \<and> f (own_bak own) = None)
     \<or> (f (own_bak own) = Some orig \<and> f (own_lock own) \<noteq> None)
     \<or> ((\<exists>e. f (own_source own) = Some e \<and> good e) \<and> (f (own_bak own) = None \<or> f (own_bak own) = Some orig))"

definition lock_ours :: "ownership \<Rightarrow> process \<Rightarrow> bool" where
  "lock_ours own s \<longleftrightarrow> p_fs s (own_lock own) \<in> {None, Some Torn} \<or> tx_lock own s"

definition settled_as ::
  "ownership \<Rightarrow> content \<Rightarrow> (content \<Rightarrow> bool) \<Rightarrow> ('a \<Rightarrow> content \<Rightarrow> bool) \<Rightarrow> 'a result \<Rightarrow> process \<Rightarrow> bool"
where
  "settled_as own orig good fits r s \<longleftrightarrow>
     crash_safe own orig good (p_fs s) \<and> lock_ours own s
     \<and> (\<forall>a. r = Done a \<longrightarrow> (\<exists>e. p_fs s (own_source own) = Some e \<and> good e \<and> fits a e))
     \<and> ((\<forall>a. r \<noteq> Done a) \<and> r \<noteq> Crashed \<and> r \<noteq> Raised Cancelled_error \<longrightarrow>
          p_fs s (own_source own) = Some orig \<and> p_fs s (own_bak own) = None
          \<or> p_fs s (own_bak own) = Some orig \<and> p_fs s (own_lock own) \<noteq> None)"

text \<open>How the exit's own end combines with the body's.\<close>

definition exit_ok ::
  "ownership \<Rightarrow> content \<Rightarrow> (content \<Rightarrow> bool) \<Rightarrow> ('a \<Rightarrow> content \<Rightarrow> bool) \<Rightarrow> 'a result \<Rightarrow> process \<Rightarrow> bool"
where
  "exit_ok own orig good fits r s \<longleftrightarrow>
     (if r = Crashed then settled_as own orig good fits r s
      else wp (own_exit own) (\<lambda>r2 s2. case r2 of Done _ \<Rightarrow> settled_as own orig good fits r s2
        | OSError \<Rightarrow> settled_as own orig good fits (OSError :: 'a result) s2
        | Raised e \<Rightarrow> settled_as own orig good fits (Raised e :: 'a result) s2
        | Crashed \<Rightarrow> settled_as own orig good fits (Crashed :: 'a result) s2) s)"

definition demo_own :: ownership where
  "demo_own = \<lparr>own_source = (''/m'', ''a.mkv''), own_job = ''j1'', own_worker = ''w1''\<rparr>"

definition demo_start :: process where
  "demo_start = \<lparr>p_fs = (\<lambda>q. if q = (''/m'', ''a.mkv'') then Some (Media ''film'') else None),
     p_now = 7, p_mutating = False, p_confirmed = False, p_calls = 0\<rparr>"

section \<open>Verification conditions\<close>

lemma wp_ensuring:
  assumes "wp m (\<lambda>r s1. if r = Crashed then Q Crashed s1
      else wp h (\<lambda>r2 s2. case r2 of Done _ \<Rightarrow> Q r s2 | OSError \<Rightarrow> Q OSError s2
         | Raised e \<Rightarrow> Q (Raised e) s2 | Crashed \<Rightarrow> Q Crashed s2) s1) s"
  shows "wp (ensuring m h) Q s"
  unfolding wp_def
proof
  fix os
  obtain r os1 s1 where m: "m os s = (r, os1, s1)" by (rule prod_cases3)
  note R = wp_result [OF assms m]
  obtain r2 os2 s2 where h: "h os1 s1 = (r2, os2, s2)" by (rule prod_cases3)
  show "case ensuring m h os s of (r, os', s') \<Rightarrow> Q r s'"
  proof (cases "r = Crashed")
    case True
    with R m show ?thesis by (simp add: ensuring_def)
  next
    case False
    with R have "wp h (\<lambda>r2 s2. case r2 of Done _ \<Rightarrow> Q r s2 | OSError \<Rightarrow> Q OSError s2
         | Raised e \<Rightarrow> Q (Raised e) s2 | Crashed \<Rightarrow> Q Crashed s2) s1" by simp
    from wp_result [OF this h] False m h show ?thesis
      by (cases r; cases r2) (simp_all add: ensuring_def)
  qed
qed

lemma wp_cancel_point:
  assumes "Q (Done ()) s" and "Q Crashed s" and "Q (Raised Cancelled_error) s"
  shows "wp cancel_point Q s"
  using assms by (auto simp: wp_def cancel_point_def split: list.splits fault.splits)

lemma wp_on_cancel:
  assumes "wp m (\<lambda>r s'. if r = Raised Cancelled_error then wp h Q s' else Q r s') s"
  shows "wp (on_cancel m h) Q s"
  unfolding wp_def
proof
  fix os
  obtain r os1 s1 where m: "m os s = (r, os1, s1)" by (rule prod_cases3)
  note R = wp_result [OF assms m]
  show "case on_cancel m h os s of (r, os', s') \<Rightarrow> Q r s'"
  proof (cases "r = Raised Cancelled_error")
    case True
    with R m show ?thesis by (simp add: on_cancel_def wp_def)
  next
    case False
    with R m show ?thesis by (cases r) (auto simp: on_cancel_def split: exn.splits)
  qed
qed

lemma new_lock_distinct [simp]:
  "new_lock own \<noteq> own_source own" "new_lock own \<noteq> own_tmp own" "new_lock own \<noteq> own_bak own" "new_lock own \<noteq> own_lock own"
  "own_source own \<noteq> new_lock own" "own_tmp own \<noteq> new_lock own" "own_bak own \<noteq> new_lock own" "own_lock own \<noteq> new_lock own"
proof -
  have ne: "a \<noteq> b" if "length (snd a) \<noteq> length (snd b)" for a b :: path using that by auto
  note len = length_stem_suffix [of "snd (own_source own)"]
  show 1: "new_lock own \<noteq> own_source own" "new_lock own \<noteq> own_tmp own" "new_lock own \<noteq> own_bak own" "new_lock own \<noteq> own_lock own"
    by (rule ne, use len in \<open>simp add: new_lock_def with_name_def artifact_names\<close>)+
  from 1 show "own_source own \<noteq> new_lock own" "own_tmp own \<noteq> new_lock own" "own_bak own \<noteq> new_lock own" "own_lock own \<noteq> new_lock own"
    by metis+
qed

lemma wp_refresh:
  "wp (refresh_lock own) (\<lambda>r s'. r \<in> {Done (), Crashed} \<and> p_now s' = p_now s \<and> p_calls s' = p_calls s
     \<and> beat_frame own s s' \<and> (\<not> holds_token own s \<longrightarrow> s' = s)) s"
proof (cases "holds_token own s")
  case False
  then show ?thesis unfolding refresh_lock_def
    by (intro wp_andthen wp_asks) (simp add: wp_finish beat_frame_def)
next
  case True
  define K where "K s' \<longleftrightarrow> p_now s' = p_now s \<and> p_calls s' = p_calls s \<and> beat_frame own s s'" for s' :: process
  let ?n = "new_lock own" and ?ld = "lock_data (own_job own) (own_worker own) (p_now s)"
  let ?w = "\<lambda>v. s\<lparr>p_fs := (p_fs s)(?n := v)\<rparr>"
  have Ks: "K s" "K (?w v)" "K (?w v\<lparr>p_fs := (p_fs (?w v))(?n := None)\<rparr>)"
    "K (?w v\<lparr>p_fs := (p_fs (?w v))(?n := None, own_lock own := Some ?ld)\<rparr>)" for v
    using True by (auto simp: K_def beat_frame_def)
  have del: "wp (andthen (safe_delete ?n) (\<lambda>_ os s. (OSError, os, s))) (\<lambda>r s'. r \<in> {OSError, Crashed} \<and> K s') x"
    if "K x" "K (x\<lparr>p_fs := (p_fs x)(?n := None)\<rparr>)" for x
    by (rule wp_andthen, rule wp_safe_delete) (use that in \<open>simp_all add: wp_def\<close>)
  have "wp (touch_lock (own_lock own) (own_job own) (own_worker own))
      (\<lambda>r s'. r \<in> {Done (), OSError, Crashed} \<and> K s') s"
    unfolding touch_lock_def Let_def new_lock_def [symmetric]
    apply (rule wp_andthen, rule wp_asks, simp only: result.case)
    apply (rule wp_on_oserror, rule wp_andthen, rule wp_write; simp only: result.case)
    subgoal using Ks by simp
    subgoal by (rule wp_mono, rule del) (use Ks in auto)
    subgoal using Ks by simp
    subgoal by (rule wp_mono, rule del) (use Ks in auto)
    subgoal
      apply (rule wp_rename; simp only: result.case)
      subgoal using Ks by simp
      subgoal by (rule wp_mono, rule del) (use Ks in auto)
      subgoal for c using Ks(4) [of "Some ?ld"] by simp
      done
    done
  then have "wp (refresh_lock own) (\<lambda>r s'. r \<in> {Done (), Crashed} \<and> K s') s"
    unfolding refresh_lock_def
    apply (intro wp_andthen wp_asks)
    apply (simp add: True)
    apply (rule wp_on_oserror)
    apply (erule wp_mono)
    apply (auto intro: wp_finish split: result.splits)
    done
  then show ?thesis by (rule wp_mono) (simp add: K_def True)
qed

lemma beat_frame_refl: "beat_frame own s s"
  by (simp add: beat_frame_def)

lemma beat_frame_token: "beat_frame own s s' \<Longrightarrow> holds_token own s \<Longrightarrow> holds_token own s'"
  by (auto simp: beat_frame_def holds_token_def lock_matches_def lock_data_def)

lemma beat_frame_trans:
  assumes "beat_frame own a b" and "beat_frame own b c"
  shows "beat_frame own a c"
proof -
  have tok: "holds_token own a" if "holds_token own b"
    using assms(1) that by (auto simp: beat_frame_def holds_token_def lock_matches_def)
  show ?thesis using assms tok unfolding beat_frame_def by (smt (verit) order_trans)
qed

lemma beat_frame_clock: "beat_frame own s (s\<lparr>p_now := max (p_now s) t\<rparr>)"
  by (simp add: beat_frame_def)

lemma wp_beat:
  assumes "\<And>r s'. beat_frame own s s' \<Longrightarrow> p_calls s' = p_calls s \<Longrightarrow> r \<in> {Done (), Crashed} \<Longrightarrow> Q r s'"
  shows "wp (beat own ts) Q s"
  using assms
proof (induction ts arbitrary: s)
  case Nil
  then show ?case by (simp add: wp_finish beat_frame_refl)
next
  case (Cons t ts)
  show ?case unfolding beat.simps
  proof (rule wp_andthen, rule wp_modify, unfold result.case, rule wp_andthen, rule wp_mono, rule wp_refresh)
    fix r s1 let ?s = "s\<lparr>p_now := max (p_now s) t\<rparr>"
    assume A: "r \<in> {Done (), Crashed} \<and> p_now s1 = p_now ?s \<and> p_calls s1 = p_calls ?s
     \<and> beat_frame own ?s s1 \<and> (\<not> holds_token own ?s \<longrightarrow> s1 = ?s)"
    then have f: "beat_frame own s s1" using beat_frame_trans [OF beat_frame_clock] by blast
    have "wp (beat own ts) Q s1"
      by (rule Cons.IH) (use Cons.prems beat_frame_trans [OF f] A in simp)
    with A f Cons.prems show "case r of Done a \<Rightarrow> wp (beat own ts) Q s1 | OSError \<Rightarrow> Q OSError s1
        | Raised e \<Rightarrow> Q (Raised e) s1 | Crashed \<Rightarrow> Q Crashed s1" by auto
  qed
qed

lemma wp_await:
  assumes "\<And>r s'. beat_frame own s s' \<Longrightarrow> p_calls s' = p_calls s
      \<Longrightarrow> r \<in> {Done (), Crashed, Raised Cancelled_error} \<Longrightarrow> Q r s'"
  shows "wp (await_point own) Q s"
proof -
  have b: "wp (beat own ts) Q s" for ts by (rule wp_beat) (use assms in auto)
  have c: "wp cancel_point Q s" by (rule wp_cancel_point) (use assms beat_frame_refl in auto)
  have "case await_point own os s of (r, os', s') \<Rightarrow> Q r s'" for os
  proof (cases "\<exists>ts os'. os = Beats ts # os'")
    case True
    then obtain ts os' where "os = Beats ts # os'" by blast
    with b [of ts] show ?thesis by (simp add: await_point_def wp_def)
  next
    case False
    then have "await_point own os s = cancel_point os s"
      by (auto simp: await_point_def split: list.splits fault.splits)
    with c show ?thesis by (simp add: wp_def)
  qed
  then show ?thesis by (simp add: wp_def)
qed

lemma tx_lock_token: "tx_lock own s \<Longrightarrow> holds_token own s"
  by (auto simp: tx_lock_def holds_token_def lock_matches_def lock_data_def)

lemma beat_keeps:
  assumes "beat_frame own s s'"
  shows "tx_lock own s \<Longrightarrow> tx_lock own s'" and "tx_untouched own orig s \<Longrightarrow> tx_untouched own orig s'"
    and "tx_mutated own orig s \<Longrightarrow> tx_mutated own orig s'"
    and "tx_confirmed own orig good s \<Longrightarrow> tx_confirmed own orig good s'"
    and "p_fs s' (own_source own) = p_fs s (own_source own)" and "p_fs s' (own_tmp own) = p_fs s (own_tmp own)"
    and "p_fs s' (own_bak own) = p_fs s (own_bak own)"
proof -
  show l: "tx_lock own s'" if "tx_lock own s"
  proof -
    from that obtain t where t: "t \<le> p_now s" "p_fs s (own_lock own) = Some (lock_data (own_job own) (own_worker own) t)"
      by (auto simp: tx_lock_def)
    from assms have "p_now s \<le> p_now s'" and
      "p_fs s' (own_lock own) = p_fs s (own_lock own) \<or> (\<exists>t \<le> p_now s'. p_fs s' (own_lock own) = Some (lock_data (own_job own) (own_worker own) t))"
      by (auto simp: beat_frame_def)
    with t show ?thesis unfolding tx_lock_def by (metis order_trans)
  qed
  show eqs: "p_fs s' (own_source own) = p_fs s (own_source own)" "p_fs s' (own_tmp own) = p_fs s (own_tmp own)"
    "p_fs s' (own_bak own) = p_fs s (own_bak own)"
    using assms unfolding beat_frame_def by (metis artifacts_distinct new_lock_distinct)+
  have fl: "p_mutating s' = p_mutating s" "p_confirmed s' = p_confirmed s" using assms by (simp_all add: beat_frame_def)
  show "tx_untouched own orig s \<Longrightarrow> tx_untouched own orig s'" "tx_mutated own orig s \<Longrightarrow> tx_mutated own orig s'"
    "tx_confirmed own orig good s \<Longrightarrow> tx_confirmed own orig good s'"
    using l by (simp_all add: tx_untouched_def tx_mutated_def tx_confirmed_def eqs fl)
qed

text \<open>Releasing deletes only the temporary file and the lock.\<close>

lemma wp_release:
  assumes "\<And>r s'. p_fs s' (own_source own) = p_fs s (own_source own) \<Longrightarrow> p_fs s' (own_bak own) = p_fs s (own_bak own)
      \<Longrightarrow> p_fs s' (own_lock own) \<in> {None, p_fs s (own_lock own)} \<Longrightarrow> p_now s' = p_now s \<Longrightarrow> r \<in> {Done (), Crashed} \<Longrightarrow> Q r s'"
  shows "wp (release_artifacts own) Q s"
  unfolding release_artifacts_def
  apply (rule wp_andthen, rule wp_asks, simp add: wp_finish assms, rule impI)
  apply (rule wp_andthen, rule wp_safe_delete; simp add: assms; rule wp_safe_delete; simp add: assms)
  done

lemma wp_rollback:
  assumes "p_fs s b = None \<Longrightarrow> Q (Done True) s"
    and "\<And>c. p_fs s b = Some c \<Longrightarrow> Q (Done True) (s\<lparr>p_fs := (p_fs s)(b := None, p := Some c)\<rparr>)"
    and "p_fs s b \<noteq> None \<Longrightarrow> Q (Done False) s" and "p_fs s b \<noteq> None \<Longrightarrow> Q Crashed s"
  shows "wp (rollback_swap p b) Q s"
  unfolding rollback_swap_def path_exists_def
  apply (rule wp_andthen, rule wp_asks, simp, intro conjI impI)
   apply (rule wp_finish, simp add: assms(1))
  apply (rule wp_on_oserror, rule wp_andthen, rule wp_rename)
    apply (use assms in \<open>auto intro!: wp_finish\<close>)
  done

text \<open>
  The exit, from the two situations the body can leave: a mutation that is resolved (nothing to
  roll back) and one that is not (the backup, if any, holds the original).
\<close>

lemma wp_settle_resolved:
  assumes "\<not> p_mutating s \<or> p_confirmed s"
    and "\<And>r s'. p_fs s' (own_source own) = p_fs s (own_source own) \<Longrightarrow> p_fs s' (own_bak own) = p_fs s (own_bak own)
      \<Longrightarrow> p_fs s' (own_lock own) \<in> {None, p_fs s (own_lock own)} \<Longrightarrow> p_now s' = p_now s \<Longrightarrow> r \<in> {Done (), Crashed} \<Longrightarrow> Q r s'"
  shows "wp (own_settle own) Q s"
  unfolding own_settle_def
  by (rule wp_andthen, rule wp_asks) (use assms in \<open>auto intro!: wp_release\<close>)

lemma wp_settle_mutated:
  assumes "tx_mutated own orig s"
    and "\<And>r s'. p_fs s' (own_source own) = Some orig \<Longrightarrow> p_fs s' (own_bak own) = None
      \<Longrightarrow> p_fs s' (own_lock own) \<in> {None, p_fs s (own_lock own)} \<Longrightarrow> p_now s' = p_now s \<Longrightarrow> r \<in> {Done (), Crashed} \<Longrightarrow> Q r s'"
    and "\<And>r. p_fs s (own_bak own) = Some orig \<Longrightarrow> r \<in> {Done (), Crashed} \<Longrightarrow> Q r s"
  shows "wp (own_settle own) Q s"
  unfolding own_settle_def
  apply (rule wp_andthen, rule wp_asks, use assms(1) in \<open>simp add: tx_mutated_def\<close>)
  apply (rule wp_andthen, rule wp_rollback)
  using assms by (auto intro!: wp_release wp_finish simp: tx_mutated_def)

lemma wp_settled:
  assumes "wp m (\<lambda>r s'. case r of Done _ \<Rightarrow> wp pending Q s' | r \<Rightarrow> Q r s') s"
  shows "wp (settled m pending) Q s"
  unfolding settled_def by (rule wp_andthen) (use assms in \<open>auto elim!: wp_mono split: result.splits\<close>)

text \<open>Whatever situation the body leaves, the exit settles it.\<close>

lemma exit_okI:
  fixes r :: "'a result"
  assumes "r \<noteq> Crashed" and "wp (own_settle own) (\<lambda>r2 s2. St s2 \<and> r2 \<in> {Done (), Crashed}) s"
    and "\<And>s2 r'. St s2 \<Longrightarrow> r' \<in> {r, Crashed, Raised Cancelled_error} \<Longrightarrow> settled_as own orig good fits r' s2"
  shows "exit_ok own orig good fits r s"
proof -
  have "wp (own_exit own) (\<lambda>r2 s2. case r2 of Done _ \<Rightarrow> settled_as own orig good fits r s2
        | OSError \<Rightarrow> settled_as own orig good fits (OSError :: 'a result) s2
        | Raised e \<Rightarrow> settled_as own orig good fits (Raised e :: 'a result) s2
        | Crashed \<Rightarrow> settled_as own orig good fits (Crashed :: 'a result) s2) s"
    unfolding own_exit_def
    by (rule wp_settled, rule wp_mono [OF assms(2)]) (auto intro!: wp_cancel_point assms(3))
  with assms(1) show ?thesis by (simp add: exit_ok_def)
qed

lemma lock_ours_kept: "tx_lock own s \<Longrightarrow> p_fs s' (own_lock own) \<in> {None, p_fs s (own_lock own)} \<Longrightarrow> p_now s' = p_now s
    \<Longrightarrow> lock_ours own s'"
  by (auto simp: lock_ours_def tx_lock_def)

lemma tx_left_exit_ok:
  assumes "tx_left own orig good fits r s"
  shows "exit_ok own orig good fits r s"
proof -
  consider (crash) "r = Crashed" | (conf) "tx_confirmed own orig (\<lambda>e. good e \<and> (\<forall>a. r = Done a \<longrightarrow> fits a e)) s" "r \<noteq> Crashed"
      "(\<exists>a. r = Done a) \<or> r = Raised Cancelled_error"
    | (unt) "tx_untouched own orig s" "r \<noteq> Crashed" "\<forall>a. r \<noteq> Done a"
    | (mut) "tx_mutated own orig s" "r \<noteq> Crashed" "\<forall>a. r \<noteq> Done a"
    using assms by (cases r) (auto simp: tx_left_def)
  then show ?thesis
  proof cases
    case crash
    with assms show ?thesis
      by (auto simp: tx_left_def exit_ok_def settled_as_def crash_safe_def lock_ours_def tx_lock_def tx_untouched_def tx_mutated_def tx_confirmed_def)
  next
    case conf
    show ?thesis
    proof (rule exit_okI [OF conf(2), where St = "\<lambda>s2. (\<exists>e. p_fs s2 (own_source own) = Some e \<and> good e \<and> (\<forall>a. r = Done a \<longrightarrow> fits a e))
        \<and> p_fs s2 (own_bak own) \<in> {None, Some orig} \<and> lock_ours own s2"], rule wp_settle_resolved)
    qed (use conf(1,3) in \<open>auto simp: tx_confirmed_def lock_ours_kept settled_as_def crash_safe_def\<close>)
  next
    case unt
    show ?thesis
    proof (rule exit_okI [OF unt(2), where St = "\<lambda>s2. p_fs s2 (own_source own) = Some orig
        \<and> p_fs s2 (own_bak own) = None \<and> lock_ours own s2"], rule wp_settle_resolved)
    qed (use unt(1,3) in \<open>auto simp: tx_untouched_def lock_ours_kept settled_as_def crash_safe_def\<close>)
  next
    case mut
    show ?thesis
    proof (rule exit_okI [OF mut(2), where St = "\<lambda>s2. (p_fs s2 (own_source own) = Some orig \<and> p_fs s2 (own_bak own) = None
        \<or> p_fs s2 (own_bak own) = Some orig \<and> p_fs s2 (own_lock own) \<noteq> None) \<and> lock_ours own s2"],
        rule wp_settle_mutated [OF mut(1)])
    qed (use mut(1,3) in \<open>auto simp: tx_mutated_def lock_ours_kept lock_ours_def tx_lock_def settled_as_def crash_safe_def\<close>)
  qed
qed

lemma wp_acquire:
  assumes "p_fs s lock = None"
    and "Q (Done ()) (s\<lparr>p_fs := (p_fs s)(lock := Some (lock_data job w (p_now s)))\<rparr>)"
    and "\<And>r c. c \<in> {None, Some Torn} \<Longrightarrow> r \<in> {OSError, Crashed} \<Longrightarrow> Q r (s\<lparr>p_fs := (p_fs s)(lock := c)\<rparr>)"
  shows "wp (acquire_lock lock job w) Q s"
proof -
  have same: "s\<lparr>p_fs := (p_fs s)(lock := None)\<rparr> = s" using assms(1) by (simp add: fun_upd_idem)
  have "Q Crashed s" "Q OSError s" using assms(3) [of None] same by auto
  then show ?thesis unfolding acquire_lock_def
    apply (intro wp_andthen wp_asks, unfold result.case)
    apply (rule wp_andthen, rule wp_create, simp_all add: assms(1))
    apply (rule wp_syscall)
    using assms(2) assms(3) [of "Some Torn"] by auto
qed

lemma wp_enter:
  assumes "p_fs s (own_lock own) = None" and "p_fs s (own_source own) = Some orig" and "p_fs s (own_bak own) = None"
    and ok: "\<And>s'. tx_untouched own orig s' \<Longrightarrow> (\<forall>q. q \<noteq> own_lock own \<longrightarrow> p_fs s' q = p_fs s q) \<Longrightarrow> p_calls s' = p_calls s
      \<Longrightarrow> Q (Done ()) s'"
    and bad: "\<And>s' r. p_fs s' (own_source own) = Some orig \<Longrightarrow> p_fs s' (own_bak own) = None \<Longrightarrow> lock_ours own s'
      \<Longrightarrow> r \<in> {OSError, Crashed, Raised Cancelled_error} \<Longrightarrow> Q r s'"
  shows "wp (own_enter own) Q s"
proof -
  let ?s = "s\<lparr>p_mutating := False, p_confirmed := False\<rparr>"
  let ?l = "lock_data (own_job own) (own_worker own) (p_now s)"
  let ?w = "?s\<lparr>p_fs := (p_fs s)(own_lock own := Some ?l)\<rparr>"
  have locked: "tx_lock own ?w" by (auto simp: tx_lock_def)
  have rel: "wp (andthen (settled (release_lock own) cancel_point) (\<lambda>_. raise_error Cancelled_error)) Q ?w"
    unfolding release_lock_def using locked assms(2,3)
    by (intro wp_andthen wp_settled wp_asks)
      (auto intro!: wp_safe_delete wp_cancel_point wp_raise wp_finish bad simp: lock_ours_def)
  have "wp (settled (acquire_lock (own_lock own) (own_job own) (own_worker own)) cancel_point)
     (\<lambda>r s'. if r = Raised Cancelled_error
        then wp (andthen (settled (release_lock own) cancel_point) (\<lambda>_. raise_error Cancelled_error)) Q s' else Q r s') ?s"
  proof (rule wp_settled, rule wp_acquire, goal_cases)
    case 2
    have u: "tx_untouched own orig ?w" using locked assms(2,3) by (simp add: tx_untouched_def)
    have "Q (Done ()) ?w" by (rule ok [OF u]) simp_all
    moreover have "Q Crashed ?w" by (rule bad) (use assms locked in \<open>simp_all add: lock_ours_def\<close>)
    ultimately show ?case using rel by (auto intro!: wp_cancel_point)
  next
    case (3 r c)
    then have "Q r (?s\<lparr>p_fs := (p_fs ?s)(own_lock own := c)\<rparr>)"
      by (intro bad) (use assms in \<open>auto simp: lock_ours_def\<close>)
    with 3(2) show ?case by auto
  qed (simp add: assms(1))
  then show ?thesis unfolding own_enter_def by (intro wp_andthen wp_modify) (simp add: wp_on_cancel)
qed

lemma wp_swap:
  assumes "tx_untouched own orig s" "p_fs s (own_tmp own) = Some enc"
    and ok: "\<And>s'. tx_mutated own orig s' \<Longrightarrow> p_fs s' (own_source own) = Some enc \<Longrightarrow> p_fs s' (own_bak own) = Some orig
      \<Longrightarrow> Q (Done ()) s'"
    and bad: "\<And>s' r. tx_mutated own orig s' \<Longrightarrow> r \<in> {Raised (Pipeline_error ''SWAP''), Raised Cancelled_error, Crashed} \<Longrightarrow> Q r s'"
  shows "wp (own_swap own) Q s"
proof -
  have "wp (atomic_swap (own_source own) (own_tmp own) (own_bak own)) (\<lambda>r s'. tx_mutated own orig s'
     \<and> (r = Done () \<and> p_fs s' (own_source own) = Some enc \<and> p_fs s' (own_bak own) = Some orig
        \<or> r \<in> {Raised (Pipeline_error ''SWAP''), Crashed})) s"
    unfolding atomic_swap_def path_exists_def
    apply (rule wp_andthen, rule wp_asks, use assms(1) in \<open>simp add: tx_untouched_def\<close>)
    apply (rule wp_andthen, rule wp_modify, simp)
    apply (rule wp_andthen, rule wp_on_oserror, rule wp_rename)
      apply (use assms(1,2) in \<open>simp add: tx_untouched_def tx_mutated_def tx_lock_def\<close>)
     apply (use assms(1,2) in \<open>simp, intro wp_raise, simp add: tx_untouched_def tx_mutated_def tx_lock_def\<close>)
    apply simp
    apply (rule wp_on_oserror, rule wp_rename)
      apply (use assms(1,2) in \<open>simp add: tx_untouched_def tx_mutated_def tx_lock_def\<close>)
     apply simp
     apply (rule wp_andthen, rule wp_on_oserror, rule wp_rename)
       apply (use assms(1,2) in \<open>simp add: tx_untouched_def tx_mutated_def tx_lock_def\<close>)
      apply (use assms(1,2) in \<open>simp, intro wp_finish, simp, intro wp_raise, simp add: tx_untouched_def tx_mutated_def tx_lock_def\<close>)
     apply (use assms(1,2) in \<open>simp, intro wp_raise, simp add: tx_untouched_def tx_mutated_def tx_lock_def\<close>)
    apply (use assms(1,2) in \<open>simp add: tx_untouched_def tx_mutated_def tx_lock_def\<close>)
    done
  moreover have "wp (await_point own) Q s'" if "tx_mutated own orig s'" "p_fs s' (own_source own) = Some enc"
      "p_fs s' (own_bak own) = Some orig" for s'
  proof (rule wp_await)
    fix r x assume b: "beat_frame own s' x" and r: "r \<in> {Done (), Crashed, Raised Cancelled_error}"
    note k = beat_keeps(3) [OF b that(1)] beat_keeps(5) [OF b] beat_keeps(7) [OF b]
    show "Q r x" by (cases "r = Done ()") (use ok [OF k(1)] bad [OF k(1)] k that r in auto)
  qed
  ultimately show ?thesis unfolding own_swap_def
    by (intro wp_settled, elim wp_mono) (auto intro: bad split: result.splits)
qed

lemma wp_confirm:
  assumes "tx_mutated own orig s" "p_fs s (own_source own) = Some e" "good e" "p_fs s (own_bak own) = Some orig"
    and conf: "\<And>s' r. tx_confirmed own orig good s' \<Longrightarrow> p_fs s' (own_source own) = Some e
      \<Longrightarrow> r \<in> {Done (), Raised Cancelled_error, Crashed} \<Longrightarrow> Q r s'"
    and "Q Crashed s"
  shows "wp (own_confirm own) Q s"
proof -
  have "wp (own_finish own) (\<lambda>r s'. r = Done () \<and> tx_confirmed own orig good s' \<and> p_fs s' (own_source own) = Some e
      \<or> r = Crashed \<and> s' = s) s"
    unfolding own_finish_def
    by (rule wp_andthen, rule wp_safe_delete)
      (use assms(1-4) in \<open>auto intro!: wp_modify simp: tx_mutated_def tx_confirmed_def tx_lock_def\<close>)
  moreover have "wp (await_point own) Q s'" if "tx_confirmed own orig good s'" "p_fs s' (own_source own) = Some e" for s'
    by (rule wp_await, rule conf) (use that in \<open>auto simp: beat_keeps(4,5)\<close>)
  ultimately show ?thesis unfolding own_confirm_def
    by (intro wp_settled, elim wp_mono) (auto simp: assms(6))
qed

section \<open>Work under ownership\<close>

text \<open>
  The interface between the transaction and the work done inside it: from the untouched state,
  and under any faults, the work ends in one of the situations the exit can settle. The client's
  gain is that the whole transaction is safe, and that recovery heals what it leaves.
\<close>

locale owned_work =
  fixes own :: ownership and orig :: content and good :: "content \<Rightarrow> bool" and fits :: "'a \<Rightarrow> content \<Rightarrow> bool"
    and body :: "'a act"
  assumes body_left: "tx_untouched own orig s \<Longrightarrow> wp body (tx_left own orig good fits) s"
begin

lemma wp_owned:
  assumes "p_fs s (own_source own) = Some orig" "p_fs s (own_bak own) = None" "p_fs s (own_lock own) = None"
  shows "wp (owned own body) (settled_as own orig good fits) s"
proof -
  have b: "wp (ensuring body (own_exit own)) (settled_as own orig good fits) s'" if "tx_untouched own orig s'" for s'
    by (rule wp_ensuring, rule wp_mono [OF body_left [OF that]], drule tx_left_exit_ok)
      (auto simp: exit_ok_def split: if_splits)
  show ?thesis unfolding owned_def
    by (rule wp_andthen, rule wp_enter [OF assms(3,1,2)])
      (use b in \<open>auto simp: settled_as_def crash_safe_def\<close>)
qed

end

text \<open>What recovery does to the files when no system call fails.\<close>

lemma safe_delete_calm: "safe_delete q [] x = (Done (), [], x\<lparr>p_fs := (p_fs x)(q := None)\<rparr>)"
  by (simp add: safe_delete_def path_exists_def unlink_def andthen_def asks_def syscall_def on_oserror_def
      finish_def fun_upd_idem)

lemma rename_calm:
  "p_fs x a = Some c \<Longrightarrow> rename a b [] x = (Done (), [], x\<lparr>p_fs := (p_fs x)(a := None, b := Some c)\<rparr>)"
  by (simp add: rename_def syscall_def)

lemma recovery_of_settled:
  assumes "settled_as own orig good fits r s'" and "w = own_worker own \<or> stale \<le> later - p_now s'"
    and "recover_source_path (own_source own) w stale [] (s'\<lparr>p_now := later\<rparr>) = (r2, os2, s2)"
  shows "(p_fs s2 (own_source own) = Some orig \<or> (\<exists>e. good e \<and> p_fs s2 (own_source own) = Some e))
    \<and> (r2 = Done (Some R_attention)
         \<and> (\<exists>e. good e \<and> p_fs s2 (own_source own) = Some e) \<and> p_fs s2 (own_bak own) = Some orig
       \<or> r2 \<in> {Done (Some R_clean), Done (Some R_cleaned), Done (Some R_restored)}
         \<and> p_fs s2 (own_bak own) = None \<and> p_fs s2 (own_lock own) = None \<and> p_fs s2 (own_tmp own) = None)"
proof -
  let ?p = "own_source own" and ?f = "p_fs s'"
  from assms(1) have safe: "crash_safe own orig good ?f" and ours: "lock_ours own s'" by (simp_all add: settled_as_def)
  have act: "(if ?f (own_lock own) \<noteq> None then lock_is_active (own_lock own) w stale later ?f else Some False) = Some False"
    using ours assms(2) by (auto simp: lock_ours_def tx_lock_def lock_is_active_def read_lock_def lock_data_def)
  note run = recover_source_path_def restore_backup_def andthen_def asks_def finish_def on_oserror_def Let_def
    safe_delete_calm rename_calm
  show ?thesis
  proof (cases "?f (own_bak own)")
    case None
    with safe have src: "?f ?p = Some orig \<or> (\<exists>e. good e \<and> ?f ?p = Some e)"
      by (auto simp: crash_safe_def)
    show ?thesis
    proof (cases "?f (own_lock own) = None \<and> ?f (own_tmp own) = None")
      case True
      with assms(3) act None have "r2 = Done (Some R_clean)" "p_fs s2 = ?f" by (auto simp: run)
      with src None True show ?thesis by simp
    next
      case False
      with assms(3) act None have "r2 = Done (Some R_cleaned)"
        "p_fs s2 = ?f(own_lock own := None, own_tmp own := None)" by (auto simp: run)
      with src None show ?thesis by simp
    qed
  next
    case (Some b)
    with safe have b: "b = orig" by (auto simp: crash_safe_def)
    show ?thesis
    proof (cases "?f ?p \<noteq> None \<and> ?f (own_lock own) = None")
      case True
      with assms(3) act Some have "r2 = Done (Some R_attention)" "p_fs s2 = ?f" by (auto simp: run)
      moreover from safe Some True b have "\<exists>e. good e \<and> ?f ?p = Some e"
        by (auto simp: crash_safe_def)
      ultimately show ?thesis using Some b by simp
    next
      case False
      with assms(3) act Some have "r2 = Done (Some R_restored)"
        "p_fs s2 = ?f(own_bak own := None, ?p := Some b, own_lock own := None, own_tmp own := None)"
        by (auto simp: run)
      with b show ?thesis by simp
    qed
  qed
qed

lemma demo_own_simps [simp]:
  "own_source demo_own = (''/m'', ''a.mkv'')" "own_job demo_own = ''j1''" "own_worker demo_own = ''w1''"
  by (simp_all add: demo_own_def)

text \<open>
  The lock is a token. When the lock on disk no longer carries this job and worker, the
  release, the cancelled acquisition and the heartbeat make no system call: a successor's lock and
  temporary file are never deleted or overwritten. While it does carry them, a heartbeat leaves,
  under any faults, either the old lock or the complete refreshed one, never a partial write, and
  touches no file but the lock and its replacement.
\<close>

lemma lock_token_is_respected:
  assumes "refresh_lock own os s = (r, os', s')"
  shows "(\<not> holds_token own s \<longrightarrow> s' = s \<and> os' = os
        \<and> release_artifacts own os s = (Done (), os, s) \<and> release_lock own os s = (Done (), os, s))
    \<and> p_fs s' (own_lock own) \<in> {p_fs s (own_lock own), Some (lock_data (own_job own) (own_worker own) (p_now s))}
    \<and> (\<forall>q. q \<noteq> own_lock own \<and> q \<noteq> new_lock own \<longrightarrow> p_fs s' q = p_fs s q)"
proof -
  have "\<not> holds_token own s \<Longrightarrow> os' = os
        \<and> release_artifacts own os s = (Done (), os, s) \<and> release_lock own os s = (Done (), os, s)"
    using assms by (auto simp: refresh_lock_def release_artifacts_def release_lock_def andthen_def asks_def finish_def)
  with wp_result [OF wp_refresh assms] show ?thesis by (auto simp: beat_frame_def)
qed

end
