(* ===== verification/Probe.thy ===== *)
theory Probe
  imports FileStore
begin

text \<open>
  Reading media metadata (\<open>scanner/probe.py\<close>): the typed result of an \<open>ffprobe\<close> run, the stream
  inventory, and the file-name tests of the scanner.

  The external command is a parameter of the definitions that use it. What it can answer is a
  \<open>child\<close>: it hit the time limit, its binary is missing, or it exited with a code and an output.
  The output is what \<open>json.loads\<close> makes of it, with every key \<open>ffprobe\<close> documents as an optional
  field and numeric texts as numbers; \<open>None\<close> is text that is no JSON.
\<close>

section \<open>Results\<close>

record probe_result =
  pr_video_codec :: string
  pr_width :: int
  pr_height :: int
  pr_bitrate :: "int option"
  pr_duration :: num
  pr_file_size :: int
  pr_pix_fmt :: string

definition format_resolution :: "int \<Rightarrow> int \<Rightarrow> string" where
  "format_resolution width height = str_int width @ ''x'' @ str_int height"

definition is_10bit :: "probe_result \<Rightarrow> bool" where
  "is_10bit p \<longleftrightarrow> sublist ''10'' (pr_pix_fmt p) \<or> sublist ''p010'' (pr_pix_fmt p)"

record stream_info =
  st_index :: int
  st_codec_type :: string
  st_codec_name :: string
  st_language :: string
  st_attached_pic :: bool
  st_forced :: bool

datatype probe_error =
    Probe_timeout | Probe_no_binary | Probe_exit int | Probe_bad_json | Probe_no_video | Probe_no_duration

section \<open>Parsing\<close>

record raw_stream =
  rw_index :: "int option"
  rw_codec_type :: "string option"
  rw_codec_name :: "string option"
  rw_width :: "int option"
  rw_height :: "int option"
  rw_bit_rate :: "int option"
  rw_duration :: "num option"
  rw_pix_fmt :: "string option"
  rw_language :: "string option"
  rw_attached_pic :: int
  rw_forced :: int

record raw_format =
  fm_bit_rate :: "int option"
  fm_duration :: "num option"
  fm_size :: "int option"

datatype 'o child = Timed_out | No_binary | Exited int 'o

type_synonym probe_output = "((raw_stream list \<times> raw_format) option) child"

text \<open>Python's \<open>a or b\<close> on optional values that are true when present.\<close>

definition or_else :: "'a option \<Rightarrow> 'a option \<Rightarrow> 'a option" where
  "or_else a b = (case a of None \<Rightarrow> b | Some x \<Rightarrow> Some x)"

definition default :: "'a \<Rightarrow> 'a option \<Rightarrow> 'a" where
  "default d a = (case a of None \<Rightarrow> d | Some x \<Rightarrow> x)"

definition ffprobe :: "int \<Rightarrow> probe_output \<Rightarrow> probe_error + probe_result" where
  "ffprobe stat_size out =
     (case out of
        Timed_out \<Rightarrow> Inl Probe_timeout
      | No_binary \<Rightarrow> Inl Probe_no_binary
      | Exited rc data \<Rightarrow>
          if rc \<noteq> 0 then Inl (Probe_exit rc)
          else (case data of
            None \<Rightarrow> Inl Probe_bad_json
          | Some ([], fmt) \<Rightarrow> Inl Probe_no_video
          | Some (stream # _, fmt) \<Rightarrow>
              (case or_else (fm_duration fmt) (rw_duration stream) of
                 None \<Rightarrow> Inl Probe_no_duration
               | Some duration \<Rightarrow>
                   Inr \<lparr>pr_video_codec = default ''unknown'' (rw_codec_name stream),
                        pr_width = default 0 (rw_width stream),
                        pr_height = default 0 (rw_height stream),
                        pr_bitrate = or_else (rw_bit_rate stream) (fm_bit_rate fmt),
                        pr_duration = duration,
                        pr_file_size = (let n = default 0 (fm_size fmt) in if n \<noteq> 0 then n else stat_size),
                        pr_pix_fmt = default [] (rw_pix_fmt stream)\<rparr>)))"

definition UNTAGGED_LANGUAGES :: "string list" where
  "UNTAGGED_LANGUAGES = [''und'', ''unknown'']"

text \<open>\<open>str(x or "unknown")\<close>: an absent and an empty text both read as unknown.\<close>

definition name_or_unknown :: "string option \<Rightarrow> string" where
  "name_or_unknown x = (case x of None \<Rightarrow> ''unknown'' | Some n \<Rightarrow> if n = [] then ''unknown'' else n)"

definition read_stream :: "nat \<Rightarrow> raw_stream \<Rightarrow> stream_info" where
  "read_stream position r =
     (let language = lower (strip (default [] (rw_language r)))
      in \<lparr>st_index = default (int position) (rw_index r),
          st_codec_type = name_or_unknown (rw_codec_type r),
          st_codec_name = name_or_unknown (rw_codec_name r),
          st_language = (if language \<in> set UNTAGGED_LANGUAGES then [] else language),
          st_attached_pic = (rw_attached_pic r \<noteq> 0),
          st_forced = (rw_forced r \<noteq> 0)\<rparr>)"

fun read_streams :: "nat \<Rightarrow> raw_stream list \<Rightarrow> stream_info list" where
  "read_streams position [] = []"
| "read_streams position (r # rs) = read_stream position r # read_streams (position + 1) rs"

definition stream_inventory :: "probe_output \<Rightarrow> probe_error + stream_info list" where
  "stream_inventory out =
     (case out of
        Timed_out \<Rightarrow> Inl Probe_timeout
      | No_binary \<Rightarrow> Inl Probe_no_binary
      | Exited rc data \<Rightarrow>
          if rc \<noteq> 0 then Inl (Probe_exit rc)
          else (case data of None \<Rightarrow> Inl Probe_bad_json | Some (streams, _) \<Rightarrow> Inr (read_streams 0 streams)))"

section \<open>File names\<close>

definition VIDEO_EXTENSIONS :: "string list" where
  "VIDEO_EXTENSIONS = [''.mkv'', ''.mp4'', ''.avi'', ''.wmv'', ''.flv'', ''.mov'', ''.m4v'', ''.ts'', ''.m2ts'', ''.webm'']"

definition is_video_file :: "path \<Rightarrow> bool" where
  "is_video_file p \<longleftrightarrow> lower (path_suffix (snd p)) \<in> set VIDEO_EXTENSIONS"

definition PIPELINE_ARTIFACT_MARKERS :: "string list" where
  "PIPELINE_ARTIFACT_MARKERS = [''.tf_lock'', ''.tf_tmp'', ''.tf_bak'']"

definition is_pipeline_artifact :: "path \<Rightarrow> bool" where
  "is_pipeline_artifact p \<longleftrightarrow> list_ex (\<lambda>marker. sublist marker (snd p)) PIPELINE_ARTIFACT_MARKERS"

section \<open>Facts\<close>

lemma length_read_streams [simp]: "length (read_streams n rs) = length rs"
  by (induction rs arbitrary: n) simp_all

lemma read_streams_nth: "i < length rs \<Longrightarrow> read_streams n rs ! i = read_stream (n + i) (rs ! i)"
  by (induction rs arbitrary: n i) (auto simp: nth_Cons split: nat.splits)

text \<open>
  Every sidecar of every source (lock, temporary output, backup) is recognised as a pipeline
  artifact, so the scanner never catalogs one, whatever the name and extension of the source.
\<close>

lemma sidecars_are_recognised:
  "is_pipeline_artifact (lock_of p) \<and> is_pipeline_artifact (tmp_of p) \<and> is_pipeline_artifact (bak_of p)"
  using sublist_appendI [of "''.tf_lock''" "snd p" "[]"]
    sublist_appendI [of "''.tf_tmp''" "path_stem (snd p)" "path_suffix (snd p)"]
    sublist_appendI [of "''.tf_bak''" "path_stem (snd p)" "path_suffix (snd p)"]
  unfolding is_pipeline_artifact_def PIPELINE_ARTIFACT_MARKERS_def artifact_names by auto

end
