(* ===== verification/Encoder.thy ===== *)
theory Encoder
  imports Probe "HOL-Library.Multiset"
begin

text \<open>
  The encoding engine (\<open>worker/encoder.py\<close>): the stream plan, the quality map, the command
  builders for every pair of codec and backend, and the evaluation of a finished \<open>ffmpeg\<close> run.
  \<open>None\<close> is the \<open>ValueError\<close> of an unknown pair.
\<close>

section \<open>The stream plan\<close>

record planned_stream =
  pl_source_index :: int
  pl_ordinal :: nat
  pl_codec_type :: string
  pl_codec_name :: string
  pl_language :: string
  pl_attached_pic :: bool
  pl_forced :: bool

record dropped_stream =
  dr_source_index :: int
  dr_reason :: string

record stream_plan =
  plan_kept :: "planned_stream list"
  plan_dropped :: "dropped_stream list"

definition DROP_DATA_STREAM :: string where "DROP_DATA_STREAM = ''data stream, not carried into the output''"
definition DROP_UNKNOWN_STREAM :: string where "DROP_UNKNOWN_STREAM = ''stream of unknown type''"
definition DROP_UNMUXABLE_SUBTITLE :: string where
  "DROP_UNMUXABLE_SUBTITLE = ''subtitle with no identifiable codec''"

definition CARRIED_TYPES :: "string list" where
  "CARRIED_TYPES = [''video'', ''audio'', ''subtitle'', ''attachment'']"

definition accounted_indexes :: "stream_plan \<Rightarrow> int list" where
  "accounted_indexes plan = map pl_source_index (plan_kept plan) @ map dr_source_index (plan_dropped plan)"

definition primary_video_index :: "stream_info list \<Rightarrow> int option" where
  "primary_video_index inventory =
     map_option st_index (find (\<lambda>s. st_codec_type s = ''video'' \<and> \<not> st_attached_pic s) inventory)"

definition unmuxable_of :: "stream_info list \<Rightarrow> int list \<Rightarrow> int list" where
  "unmuxable_of inventory drop_sub_streams =
     (let subtitles = filter (\<lambda>s. st_codec_type s = ''subtitle'') inventory
      in map (\<lambda>n. st_index (subtitles ! nat n))
           (filter (\<lambda>n. 0 \<le> n \<and> n < int (length subtitles)) drop_sub_streams))"

definition omission :: "int list \<Rightarrow> stream_info \<Rightarrow> string option" where
  "omission unmuxable s =
     (if st_index s \<in> set unmuxable then Some DROP_UNMUXABLE_SUBTITLE
      else if st_codec_type s = ''data'' then Some DROP_DATA_STREAM
      else if st_codec_type s \<notin> set CARRIED_TYPES then Some DROP_UNKNOWN_STREAM
      else None)"

definition planned :: "string \<Rightarrow> int option \<Rightarrow> nat \<Rightarrow> stream_info \<Rightarrow> planned_stream" where
  "planned target_codec primary_index ordinal s =
     \<lparr>pl_source_index = st_index s, pl_ordinal = ordinal, pl_codec_type = st_codec_type s,
      pl_codec_name = (if Some (st_index s) = primary_index then target_codec else st_codec_name s),
      pl_language = st_language s, pl_attached_pic = st_attached_pic s, pl_forced = st_forced s\<rparr>"

definition carried_streams :: "stream_info list \<Rightarrow> int list \<Rightarrow> stream_info list" where
  "carried_streams inventory unmuxable =
     (let primary_index = primary_video_index inventory
      in (case find (\<lambda>s. Some (st_index s) = primary_index) inventory of None \<Rightarrow> [] | Some primary \<Rightarrow> [primary])
         @ filter (\<lambda>s. Some (st_index s) \<noteq> primary_index \<and> omission unmuxable s = None) inventory)"

definition plan_streams :: "stream_info list \<Rightarrow> string \<Rightarrow> int list \<Rightarrow> stream_plan" where
  "plan_streams inventory target_codec drop_sub_streams =
     (let unmuxable = unmuxable_of inventory drop_sub_streams;
          primary_index = primary_video_index inventory
      in \<lparr>plan_kept = map (\<lambda>(ordinal, s). planned target_codec primary_index ordinal s)
              (enumerate 0 (carried_streams inventory unmuxable)),
          plan_dropped = map (\<lambda>s. \<lparr>dr_source_index = st_index s, dr_reason = the (omission unmuxable s)\<rparr>)
              (filter (\<lambda>s. Some (st_index s) \<noteq> primary_index \<and> omission unmuxable s \<noteq> None) inventory)\<rparr>)"

definition SELECTOR_MAPS :: "string list" where
  "SELECTOR_MAPS = [''-map'', ''0:V:0'', ''-map'', ''0:a?'', ''-map'', ''0:s?'', ''-map'', ''0:t?'']"

definition map_args :: "stream_plan option \<Rightarrow> string list" where
  "map_args plan =
     (case plan of
        None \<Rightarrow> SELECTOR_MAPS
      | Some p \<Rightarrow> concat (map (\<lambda>planned. [''-map'', ''0:'' @ str_int (pl_source_index planned)])
                   (sort_key pl_ordinal (plan_kept p))))"

section \<open>Quality\<close>

definition QUALITY_MAP :: "((string \<times> string) \<times> (int \<times> int \<times> int)) list" where
  "QUALITY_MAP =
     [((''hevc'', ''cpu''), (0, 0, 51)),
      ((''hevc'', ''qsv''), (0, 1, 51)),
      ((''hevc'', ''nvenc''), (11, 0, 51)),
      ((''av1'', ''cpu''), (7, 0, 63)),
      ((''av1'', ''nvenc''), (6, 0, 51)),
      ((''av1'', ''qsv''), (4, 1, 51)),
      ((''hevc'', ''quadra''), (0, 0, 51)),
      ((''av1'', ''quadra''), (0, 0, 51))]"

definition map_quality :: "string \<Rightarrow> string \<Rightarrow> int \<Rightarrow> int option" where
  "map_quality codec backend quality =
     (case map_of QUALITY_MAP (codec, backend) of
        None \<Rightarrow> None
      | Some (offset, lo, hi) \<Rightarrow> Some (max lo (min hi (quality + offset))))"

section \<open>Commands\<close>

definition scale_args :: "int option \<Rightarrow> string list" where
  "scale_args target_height =
     (case target_height of None \<Rightarrow> [] | Some h \<Rightarrow> [''-filter:v:0'', ''scale=-2:'' @ str_int h])"

definition COPY_EVERYTHING :: "string list" where "COPY_EVERYTHING = [''-c'', ''copy'']"

definition COMMON_TAIL :: "string list" where
  "COMMON_TAIL = [''-ignore_unknown'', ''-progress'', ''pipe:2'', ''-nostats'', ''-y'']"

type_synonym builder = "string \<Rightarrow> string \<Rightarrow> int \<Rightarrow> string option \<Rightarrow> int option \<Rightarrow> string list option"

definition build_hevc_cpu_command :: builder where
  "build_hevc_cpu_command input_path output_path quality content target_height =
     map_option (\<lambda>q.
       [''ffmpeg'', ''-i'', input_path] @ COPY_EVERYTHING
       @ [''-c:v:0'', ''libx265'', ''-crf:v:0'', str_int q, ''-preset:v:0'', ''slow'']
       @ (if content = Some ''anime'' then [''-x265-params:v:0'', ''aq-mode=3''] else [])
       @ scale_args target_height @ [''-pix_fmt:v:0'', ''yuv420p10le''] @ COMMON_TAIL @ [output_path])
       (map_quality ''hevc'' ''cpu'' quality)"

definition build_hevc_qsv_command :: builder where
  "build_hevc_qsv_command input_path output_path quality content target_height =
     map_option (\<lambda>q.
       [''ffmpeg'', ''-hwaccel'', ''qsv'', ''-hwaccel_device'', ''/dev/dri/renderD128'', ''-i'', input_path]
       @ COPY_EVERYTHING
       @ [''-c:v:0'', ''hevc_qsv'', ''-global_quality:v:0'', str_int q, ''-preset:v:0'', ''fast'',
          ''-look_ahead:v:0'', ''1'', ''-low_power:v:0'', ''0'']
       @ scale_args target_height @ [''-pix_fmt:v:0'', ''p010le''] @ COMMON_TAIL @ [output_path])
       (map_quality ''hevc'' ''qsv'' quality)"

definition build_hevc_nvenc_command :: builder where
  "build_hevc_nvenc_command input_path output_path quality content target_height =
     map_option (\<lambda>q.
       [''ffmpeg'', ''-hwaccel'', ''cuda'', ''-i'', input_path] @ COPY_EVERYTHING
       @ [''-c:v:0'', ''hevc_nvenc'', ''-cq:v:0'', str_int q, ''-preset:v:0'', ''p7'', ''-tune:v:0'', ''hq'',
          ''-rc:v:0'', ''vbr'', ''-b:v:0'', ''0'']
       @ scale_args target_height @ [''-pix_fmt:v:0'', ''p010le''] @ COMMON_TAIL @ [output_path])
       (map_quality ''hevc'' ''nvenc'' quality)"

definition build_av1_cpu_command :: builder where
  "build_av1_cpu_command input_path output_path quality content target_height =
     map_option (\<lambda>q.
       [''ffmpeg'', ''-i'', input_path] @ COPY_EVERYTHING
       @ [''-c:v:0'', ''libsvtav1'', ''-crf:v:0'', str_int q, ''-preset:v:0'', ''6'',
          ''-svtav1-params:v:0'', ''tune=0:scm=0'']
       @ scale_args target_height @ [''-pix_fmt:v:0'', ''yuv420p10le''] @ COMMON_TAIL @ [output_path])
       (map_quality ''av1'' ''cpu'' quality)"

definition build_av1_nvenc_command :: builder where
  "build_av1_nvenc_command input_path output_path quality content target_height =
     map_option (\<lambda>q.
       [''ffmpeg'', ''-hwaccel'', ''cuda'', ''-i'', input_path] @ COPY_EVERYTHING
       @ [''-c:v:0'', ''av1_nvenc'', ''-cq:v:0'', str_int q, ''-preset:v:0'', ''p7'', ''-tune:v:0'', ''hq'',
          ''-rc:v:0'', ''vbr'', ''-b:v:0'', ''0'', ''-multipass:v:0'', ''fullres'']
       @ scale_args target_height @ [''-pix_fmt:v:0'', ''p010le''] @ COMMON_TAIL @ [output_path])
       (map_quality ''av1'' ''nvenc'' quality)"

definition build_av1_qsv_command :: builder where
  "build_av1_qsv_command input_path output_path quality content target_height =
     map_option (\<lambda>q.
       [''ffmpeg'', ''-hwaccel'', ''qsv'', ''-hwaccel_device'', ''/dev/dri/renderD128'', ''-i'', input_path]
       @ COPY_EVERYTHING
       @ [''-c:v:0'', ''av1_qsv'', ''-global_quality:v:0'', str_int q, ''-preset:v:0'', ''veryslow'']
       @ scale_args target_height @ [''-pix_fmt:v:0'', ''p010le''] @ COMMON_TAIL @ [output_path])
       (map_quality ''av1'' ''qsv'' quality)"

definition build_hevc_quadra_command :: builder where
  "build_hevc_quadra_command input_path output_path quality content target_height =
     map_option (\<lambda>q.
       [''ffmpeg'', ''-i'', input_path] @ COPY_EVERYTHING
       @ [''-c:v:0'', ''h265_ni_quadra_enc'', ''-xcoder-params:v:0'', ''RcEnable=0:crf='' @ str_int q]
       @ scale_args target_height @ [''-pix_fmt:v:0'', ''yuv420p10le''] @ COMMON_TAIL @ [output_path])
       (map_quality ''hevc'' ''quadra'' quality)"

definition build_av1_quadra_command :: builder where
  "build_av1_quadra_command input_path output_path quality content target_height =
     map_option (\<lambda>q.
       [''ffmpeg'', ''-i'', input_path] @ COPY_EVERYTHING
       @ [''-c:v:0'', ''av1_ni_quadra_enc'', ''-xcoder-params:v:0'', ''RcEnable=0:crf='' @ str_int q]
       @ scale_args target_height @ [''-pix_fmt:v:0'', ''yuv420p10le''] @ COMMON_TAIL @ [output_path])
       (map_quality ''av1'' ''quadra'' quality)"

definition ENCODER_BUILDERS :: "((string \<times> string) \<times> builder) list" where
  "ENCODER_BUILDERS =
     [((''hevc'', ''cpu''), build_hevc_cpu_command),
      ((''hevc'', ''qsv''), build_hevc_qsv_command),
      ((''hevc'', ''nvenc''), build_hevc_nvenc_command),
      ((''av1'', ''cpu''), build_av1_cpu_command),
      ((''av1'', ''nvenc''), build_av1_nvenc_command),
      ((''av1'', ''qsv''), build_av1_qsv_command),
      ((''hevc'', ''quadra''), build_hevc_quadra_command),
      ((''av1'', ''quadra''), build_av1_quadra_command)]"

text \<open>\<open>cmd.index("-progress")\<close> is the first occurrence; every builder's tail holds one.\<close>

definition insert_maps :: "string list \<Rightarrow> string list \<Rightarrow> string list" where
  "insert_maps maps cmd =
     takeWhile (\<lambda>a. a \<noteq> ''-progress'') cmd @ maps @ dropWhile (\<lambda>a. a \<noteq> ''-progress'') cmd"

definition build_encode_command ::
  "string \<Rightarrow> string \<Rightarrow> string \<Rightarrow> string \<Rightarrow> int \<Rightarrow> string option \<Rightarrow> int option \<Rightarrow> stream_plan option \<Rightarrow> string list option"
where
  "build_encode_command codec backend input_path output_path quality content target_height plan =
     (case map_of ENCODER_BUILDERS (codec, backend) of
        None \<Rightarrow> None
      | Some builder \<Rightarrow>
          map_option (insert_maps (map_args plan))
            (builder input_path output_path quality content target_height))"

text \<open>
  \<open>out\<close> is the codec name of each subtitle stream as \<open>ffprobe\<close> lists them, or \<open>None\<close> when the probe
  raised anything.
\<close>

definition unmuxable_subtitle_indexes :: "string option list option \<Rightarrow> int list" where
  "unmuxable_subtitle_indexes out =
     (case out of
        None \<Rightarrow> []
      | Some codecs \<Rightarrow>
          map (\<lambda>(i, c). int i)
            (filter (\<lambda>(i, c). c \<in> {None, Some [], Some ''none'', Some ''unknown''}) (enumerate 0 codecs)))"

section \<open>Running the encoder\<close>

definition PROGRESS_KEYS :: "string list" where
  "PROGRESS_KEYS = [''frame='', ''fps='', ''stream_'', ''bitrate='', ''total_size='', ''out_time_us='', ''out_time_ms='',
     ''out_time='', ''dup_frames='', ''drop_frames='', ''speed='', ''progress='']"

definition NOISE_PREFIXES :: "string list" where
  "NOISE_PREFIXES = [''x265 [info]:'', ''set_mempolicy:'', ''Press [q] to stop'']"

definition NOISE_SUBSTRINGS :: "string list" where
  "NOISE_SUBSTRINGS = [''deprecated pixel format used'']"

definition is_noise :: "string \<Rightarrow> bool" where
  "is_noise line \<longleftrightarrow> list_ex (\<lambda>k. prefix k line) (PROGRESS_KEYS @ NOISE_PREFIXES)
     \<or> list_ex (\<lambda>s. sublist s line) NOISE_SUBSTRINGS"

definition ERROR_LINES_BUFFER :: nat where "ERROR_LINES_BUFFER = 10"

text \<open>One line of the encoder's output, into the ring of recent error lines.\<close>

definition note_line :: "string \<Rightarrow> string list \<Rightarrow> string list" where
  "note_line raw ring =
     (let line = strip raw
      in if line = [] \<or> is_noise line then ring
         else let ring' = ring @ [line] in if ERROR_LINES_BUFFER < length ring' then tl ring' else ring')"

fun read_output :: "string list \<Rightarrow> string list \<Rightarrow> string list" where
  "read_output [] ring = ring"
| "read_output (raw # rest) ring = read_output rest (note_line raw ring)"

definition newest :: "nat \<Rightarrow> 'a list \<Rightarrow> 'a list" where
  "newest n xs = drop (length xs - n) xs"

fun join_lines :: "string list \<Rightarrow> string" where
  "join_lines [] = []"
| "join_lines [l] = l"
| "join_lines (l # ls) = l @ char_of (10 :: nat) # join_lines ls"

record encode_result =
  er_success :: bool
  er_output_size :: int
  er_returncode :: int
  er_error_message :: "string option"

text \<open>
  The evaluation of a finished run: how it ended, the lines it wrote (whatever the end), and the
  size of the output file if there is one.
\<close>

definition run_encode :: "unit child \<Rightarrow> string list \<Rightarrow> int option \<Rightarrow> encode_result" where
  "run_encode ending output out_size =
     (let error_lines = read_output output []
      in case ending of
        No_binary \<Rightarrow> \<lparr>er_success = False, er_output_size = 0, er_returncode = -1,
                      er_error_message = Some ''ffmpeg binary not found''\<rparr>
      | Timed_out \<Rightarrow>
          (let tail = join_lines (newest 3 error_lines)
           in \<lparr>er_success = False, er_output_size = 0, er_returncode = -1,
               er_error_message = Some (''ffmpeg went silent for 900s and was killed''
                 @ (if tail = [] then [] else char_of (10 :: nat) # tail))\<rparr>)
      | Exited rc _ \<Rightarrow>
          if rc \<noteq> 0 then \<lparr>er_success = False, er_output_size = default 0 out_size, er_returncode = rc,
                         er_error_message = Some (join_lines (newest 5 error_lines))\<rparr>
          else \<lparr>er_success = True, er_output_size = default 0 out_size, er_returncode = 0,
                er_error_message = None\<rparr>)"

definition demo_streams :: "stream_info list" where
  "demo_streams =
     [\<lparr>st_index = 0, st_codec_type = ''video'', st_codec_name = ''mjpeg'', st_language = [], st_attached_pic = True, st_forced = False\<rparr>,
      \<lparr>st_index = 1, st_codec_type = ''video'', st_codec_name = ''h264'', st_language = [], st_attached_pic = False, st_forced = False\<rparr>,
      \<lparr>st_index = 2, st_codec_type = ''data'', st_codec_name = ''bin'', st_language = [], st_attached_pic = False, st_forced = False\<rparr>]"

text \<open>
  What the part of a command before the shared tail is: options that name the input and the
  downscale, and that copy every stream before overriding the codec of the first video stream.
\<close>

definition options_ok :: "string \<Rightarrow> int option \<Rightarrow> string list \<Rightarrow> bool" where
  "options_ok input_path target_height opts \<longleftrightarrow>
     set opts \<inter> {''-progress'', ''-map''} \<subseteq> {input_path} \<and> sublist [''-i'', input_path] opts
     \<and> sublist [''-c'', ''copy'', ''-c:v:0''] opts \<and> sublist (scale_args target_height) opts"

definition builder_ok :: "string \<Rightarrow> string \<Rightarrow> builder \<Rightarrow> bool" where
  "builder_ok codec backend b \<longleftrightarrow> (\<forall>inp out q c h. \<exists>opts native. map_quality codec backend q = Some native
     \<and> b inp out q c h = Some (opts @ COMMON_TAIL @ [out]) \<and> options_ok inp h opts)"

section \<open>The plan covers the source\<close>

lemma find_SomeD: "find P xs = Some x \<Longrightarrow> x \<in> set xs \<and> P x"
  by (auto simp: find_Some_iff)

lemma primary_stream:
  assumes "distinct (map st_index inventory)"
  shows "(case find (\<lambda>s. Some (st_index s) = primary_video_index inventory) inventory of None \<Rightarrow> [] | Some primary \<Rightarrow> [primary])
       = filter (\<lambda>s. Some (st_index s) = primary_video_index inventory) inventory"
  using assms
proof (cases "primary_video_index inventory")
  case None
  then show ?thesis by (auto simp: find_None_iff split: option.splits dest!: find_SomeD)
next
  case (Some i)
  have "(case find (\<lambda>s. st_index s = i) xs of None \<Rightarrow> [] | Some p \<Rightarrow> [p]) = filter (\<lambda>s. st_index s = i) xs"
    if "distinct (map st_index xs)" for xs
    using that by (induction xs) (auto intro!: filter_False [symmetric], metis imageI)
  with assms Some show ?thesis by simp
qed

lemma mset_three_way:
  "mset (filter P xs) + mset (filter (\<lambda>x. \<not> P x \<and> Q x) xs) + mset (filter (\<lambda>x. \<not> P x \<and> \<not> Q x) xs) = mset xs"
  by (induction xs) auto

lemma carried_streams_split:
  assumes "distinct (map st_index inventory)"
  shows "carried_streams inventory un =
     filter (\<lambda>s. Some (st_index s) = primary_video_index inventory) inventory
     @ filter (\<lambda>s. Some (st_index s) \<noteq> primary_video_index inventory \<and> omission un s = None) inventory"
  using primary_stream [OF assms] by (simp add: carried_streams_def Let_def)

lemma plan_kept_map [simp]:
  "map pl_source_index (plan_kept (plan_streams inventory c d)) = map st_index (carried_streams inventory (unmuxable_of inventory d))"
  "map pl_ordinal (plan_kept (plan_streams inventory c d)) = [0 ..< length (carried_streams inventory (unmuxable_of inventory d))]"
  "map dr_source_index (plan_dropped (plan_streams inventory c d))
   = map st_index (filter (\<lambda>s. Some (st_index s) \<noteq> primary_video_index inventory \<and> \<not> omission (unmuxable_of inventory d) s = None) inventory)"
  by (auto simp: plan_streams_def Let_def planned_def enumerate_eq_zip intro!: nth_equalityI)

lemma accounted_mset:
  assumes "distinct (map st_index inventory)"
  shows "mset (accounted_indexes (plan_streams inventory c d)) = mset (map st_index inventory)"
proof -
  let ?un = "unmuxable_of inventory d" and ?P = "\<lambda>s. Some (st_index s) = primary_video_index inventory"
  have "mset (accounted_indexes (plan_streams inventory c d))
      = image_mset st_index (mset (filter ?P inventory) + mset (filter (\<lambda>s. \<not> ?P s \<and> omission ?un s = None) inventory)
          + mset (filter (\<lambda>s. \<not> ?P s \<and> \<not> omission ?un s = None) inventory))"
    unfolding accounted_indexes_def plan_kept_map carried_streams_split [OF assms] by simp
  then show ?thesis unfolding mset_three_way by simp
qed

lemma sorted_plan [simp]: "sort_key pl_ordinal (plan_kept (plan_streams inventory c d)) = plan_kept (plan_streams inventory c d)"
  by (rule sort_key_id_if_sorted) simp

lemma kept_stream:
  assumes "distinct (map st_index inventory)" and "p \<in> set (plan_kept (plan_streams inventory codec d))"
  shows "\<exists>s \<in> set inventory. pl_source_index p = st_index s \<and> pl_codec_type p = st_codec_type s
         \<and> (Some (st_index s) \<noteq> primary_video_index inventory \<longrightarrow> pl_codec_name p = st_codec_name s)"
proof -
  let ?c = "carried_streams inventory (unmuxable_of inventory d)"
  from assms(2) obtain x where x: "x \<in> set (enumerate 0 ?c)" "p = (case x of (n, s) \<Rightarrow> planned codec (primary_video_index inventory) n s)"
    unfolding plan_streams_def Let_def by auto
  obtain n s where ns: "x = (n, s)" by (rule prod.exhaust)
  from x(1) ns have "s \<in> set ?c" by (metis enumerate_eq_zip set_zip_rightD)
  then have "s \<in> set inventory" by (auto simp: carried_streams_split [OF assms(1)])
  with x(2) ns show ?thesis by (intro bexI [of _ s]) (simp_all add: planned_def)
qed

lemma dropped_stream:
  assumes "x \<in> set (plan_dropped (plan_streams inventory codec d))"
  shows "\<exists>s \<in> set inventory. dr_source_index x = st_index s
         \<and> (st_codec_type s = ''data'' \<or> st_codec_type s \<notin> set CARRIED_TYPES
            \<or> st_index s \<in> set (unmuxable_of inventory d))"
proof -
  from assms obtain s where s: "s \<in> set inventory" "omission (unmuxable_of inventory d) s \<noteq> None" "dr_source_index x = st_index s"
    unfolding plan_streams_def Let_def by auto
  from s(2) have "st_codec_type s = ''data'' \<or> st_codec_type s \<notin> set CARRIED_TYPES
            \<or> st_index s \<in> set (unmuxable_of inventory d)"
    unfolding omission_def by metis
  with s show ?thesis by blast
qed

lemma primary_first:
  assumes i: "primary_video_index inventory = Some i" and plan: "plan = plan_streams inventory codec d"
  shows "plan_kept plan \<noteq> [] \<and> pl_source_index (hd (plan_kept plan)) = i \<and> pl_codec_name (hd (plan_kept plan)) = codec
         \<and> subseq (map pl_source_index (tl (plan_kept plan))) (map st_index inventory)"
proof -
  let ?un = "unmuxable_of inventory d"
  let ?r = "filter (\<lambda>s. Some (st_index s) \<noteq> primary_video_index inventory \<and> omission ?un s = None) inventory"
  from i obtain v where "v \<in> set inventory" "st_index v = i"
    unfolding primary_video_index_def by (auto dest!: find_SomeD)
  then have "find (\<lambda>s. Some (st_index s) = primary_video_index inventory) inventory \<noteq> None"
    using i by (auto simp: find_None_iff)
  then obtain s where f: "find (\<lambda>s. Some (st_index s) = primary_video_index inventory) inventory = Some s" by blast
  then have si: "st_index s = i" using i by (auto dest: find_SomeD)
  have c: "carried_streams inventory ?un = s # ?r" using f by (simp add: carried_streams_def Let_def)
  then obtain rest where k: "plan_kept plan = planned codec (Some i) 0 s # rest"
    unfolding plan plan_streams_def Let_def i [symmetric] by simp
  have "map pl_source_index (plan_kept plan) = st_index s # map st_index ?r"
    unfolding plan plan_kept_map c by simp
  then have "map pl_source_index rest = map st_index ?r" unfolding k by simp
  moreover have "subseq (map st_index ?r) (map st_index inventory)" by (intro subseq_map subseq_filter_left)
  ultimately show ?thesis unfolding k using si by (simp add: planned_def)
qed

text \<open>
  C13. The plan speaks for every stream of the source exactly once, carried or dropped with a
  reason. The stream that is re-encoded is the first real video stream; it comes first in the
  output and alone is promised in the target codec, every other carried stream keeps its codec and
  its source order; and nothing is dropped but data streams, streams of unknown type and unmuxable
  subtitles.
\<close>

theorem plan_accounts_for_every_stream:
  assumes "distinct (map st_index inventory)" and "plan = plan_streams inventory codec drop_subs"
  shows "mset (accounted_indexes plan) = mset (map st_index inventory)
    \<and> map pl_ordinal (plan_kept plan) = [0 ..< length (plan_kept plan)]
    \<and> (\<forall>i. primary_video_index inventory = Some i \<longrightarrow>
         plan_kept plan \<noteq> [] \<and> pl_source_index (hd (plan_kept plan)) = i \<and> pl_codec_name (hd (plan_kept plan)) = codec
         \<and> subseq (map pl_source_index (tl (plan_kept plan))) (map st_index inventory))
    \<and> (\<forall>p \<in> set (plan_kept plan). \<exists>s \<in> set inventory. pl_source_index p = st_index s \<and> pl_codec_type p = st_codec_type s
         \<and> (Some (st_index s) \<noteq> primary_video_index inventory \<longrightarrow> pl_codec_name p = st_codec_name s))
    \<and> (\<forall>x \<in> set (plan_dropped plan). \<exists>s \<in> set inventory. dr_source_index x = st_index s
         \<and> (st_codec_type s = ''data'' \<or> st_codec_type s \<notin> set CARRIED_TYPES
            \<or> st_index s \<in> set (unmuxable_of inventory drop_subs)))"
proof (intro conjI allI impI ballI)
  show "mset (accounted_indexes plan) = mset (map st_index inventory)"
    using accounted_mset [OF assms(1)] assms(2) by simp
  have len: "length (plan_kept plan) = length (carried_streams inventory (unmuxable_of inventory drop_subs))"
    unfolding assms(2) using arg_cong [OF plan_kept_map(1) [of inventory codec drop_subs], of length] by (simp only: length_map)
  show "map pl_ordinal (plan_kept plan) = [0 ..< length (plan_kept plan)]" unfolding len using assms(2) by simp
qed (use kept_stream [OF assms(1)] dropped_stream primary_first assms(2) in blast)+

theorem plan_accounts_for_every_stream_witness:
  "mset (accounted_indexes (plan_streams demo_streams ''hevc'' [])) = mset [0, 1, 2]"
  using plan_accounts_for_every_stream [of demo_streams "plan_streams demo_streams ''hevc'' []" "''hevc''" "[]", THEN conjunct1]
  by (simp add: demo_streams_def)

section \<open>Commands\<close>

lemma str_int_no_option:
  assumes "str_int i = CHR ''-'' # c # cs"
  shows "48 \<le> (of_char c :: nat) \<and> (of_char c :: nat) \<le> 57"
proof (cases "i < 0")
  case True
  with assms have "str_nat (nat (- i)) = c # cs" by (simp add: str_int_def)
  with str_nat_digits [of c "nat (- i)"] show ?thesis by simp
next
  case False
  with assms have "str_nat (nat i) = CHR ''-'' # c # cs" by (simp add: str_int_def)
  with str_nat_digits [of "CHR ''-''" "nat i"] show ?thesis by simp
qed

lemma str_int_plain [simp]: "str_int i \<noteq> ''-progress''" "str_int i \<noteq> ''-map''"
  "''-progress'' \<noteq> str_int i" "''-map'' \<noteq> str_int i"
proof -
  show 1: "str_int i \<noteq> ''-progress''" "str_int i \<noteq> ''-map''"
    using str_int_no_option [of i "CHR ''p''" "''rogress''"] str_int_no_option [of i "CHR ''m''" "''ap''"] by auto
  from 1 show "''-progress'' \<noteq> str_int i" "''-map'' \<noteq> str_int i" by metis+
qed

lemma options_ok_shape:
  assumes "(set pre \<union> set mid \<union> set post) \<inter> {''-progress'', ''-map''} = {}"
  shows "options_ok inp h (pre @ [''-i'', inp] @ COPY_EVERYTHING @ ''-c:v:0'' # mid @ scale_args h @ post)"
proof -
  let ?l = "pre @ [''-i'', inp] @ COPY_EVERYTHING @ ''-c:v:0'' # mid @ scale_args h @ post"
  have "sublist [''-i'', inp] ?l" by (rule sublist_appendI)
  moreover have "sublist [''-c'', ''copy'', ''-c:v:0''] ?l"
    using sublist_appendI [of "[''-c'', ''copy'', ''-c:v:0'']" "pre @ [''-i'', inp]" "mid @ scale_args h @ post"]
    by (simp add: COPY_EVERYTHING_def)
  moreover have "sublist (scale_args h) ?l"
    using sublist_appendI [of "scale_args h" "pre @ [''-i'', inp] @ COPY_EVERYTHING @ ''-c:v:0'' # mid" post] by simp
  moreover have "set (scale_args h) \<inter> {''-progress'', ''-map''} = {}" by (auto simp: scale_args_def split: option.splits)
  ultimately show ?thesis using assms unfolding options_ok_def by (auto simp: COPY_EVERYTHING_def)
qed

lemma builder_okI:
  assumes "\<And>inp out q c h. b inp out q c h = map_option (\<lambda>n. (pre @ [''-i'', inp] @ COPY_EVERYTHING @ ''-c:v:0'' # mid n c
       @ scale_args h @ post) @ COMMON_TAIL @ [out]) (map_quality codec backend q)"
    and "map_of QUALITY_MAP (codec, backend) \<noteq> None"
    and "\<And>n c. (set pre \<union> set (mid n c) \<union> set post) \<inter> {''-progress'', ''-map''} = {}"
  shows "builder_ok codec backend b"
  unfolding builder_ok_def
proof (intro allI)
  fix inp out q c h
  from assms(2) obtain n where n: "map_quality codec backend q = Some n" by (auto simp: map_quality_def)
  with assms(1) [of inp out q c h] options_ok_shape [OF assms(3) [of n c], of inp h]
  show "\<exists>opts native. map_quality codec backend q = Some native
     \<and> b inp out q c h = Some (opts @ COMMON_TAIL @ [out]) \<and> options_ok inp h opts" by auto
qed

lemma hevc_cpu_ok: "builder_ok ''hevc'' ''cpu'' build_hevc_cpu_command"
  by (rule builder_okI [where pre = "[''ffmpeg'']"
        and mid = "\<lambda>n c. [''libx265'', ''-crf:v:0'', str_int n, ''-preset:v:0'', ''slow''] @ (if c = Some ''anime'' then [''-x265-params:v:0'', ''aq-mode=3''] else [])"
        and post = "[''-pix_fmt:v:0'', ''yuv420p10le'']"])
    (simp_all add: build_hevc_cpu_command_def QUALITY_MAP_def)

lemma hevc_qsv_ok: "builder_ok ''hevc'' ''qsv'' build_hevc_qsv_command"
  by (rule builder_okI [where pre = "[''ffmpeg'', ''-hwaccel'', ''qsv'', ''-hwaccel_device'', ''/dev/dri/renderD128'']"
        and mid = "\<lambda>n c. [''hevc_qsv'', ''-global_quality:v:0'', str_int n, ''-preset:v:0'', ''fast'', ''-look_ahead:v:0'', ''1'', ''-low_power:v:0'', ''0'']"
        and post = "[''-pix_fmt:v:0'', ''p010le'']"])
    (simp_all add: build_hevc_qsv_command_def QUALITY_MAP_def)

lemma hevc_nvenc_ok: "builder_ok ''hevc'' ''nvenc'' build_hevc_nvenc_command"
  by (rule builder_okI [where pre = "[''ffmpeg'', ''-hwaccel'', ''cuda'']"
        and mid = "\<lambda>n c. [''hevc_nvenc'', ''-cq:v:0'', str_int n, ''-preset:v:0'', ''p7'', ''-tune:v:0'', ''hq'', ''-rc:v:0'', ''vbr'', ''-b:v:0'', ''0'']"
        and post = "[''-pix_fmt:v:0'', ''p010le'']"])
    (simp_all add: build_hevc_nvenc_command_def QUALITY_MAP_def)

lemma av1_cpu_ok: "builder_ok ''av1'' ''cpu'' build_av1_cpu_command"
  by (rule builder_okI [where pre = "[''ffmpeg'']"
        and mid = "\<lambda>n c. [''libsvtav1'', ''-crf:v:0'', str_int n, ''-preset:v:0'', ''6'', ''-svtav1-params:v:0'', ''tune=0:scm=0'']"
        and post = "[''-pix_fmt:v:0'', ''yuv420p10le'']"])
    (simp_all add: build_av1_cpu_command_def QUALITY_MAP_def)

lemma av1_nvenc_ok: "builder_ok ''av1'' ''nvenc'' build_av1_nvenc_command"
  by (rule builder_okI [where pre = "[''ffmpeg'', ''-hwaccel'', ''cuda'']"
        and mid = "\<lambda>n c. [''av1_nvenc'', ''-cq:v:0'', str_int n, ''-preset:v:0'', ''p7'', ''-tune:v:0'', ''hq'', ''-rc:v:0'', ''vbr'', ''-b:v:0'', ''0'', ''-multipass:v:0'', ''fullres'']"
        and post = "[''-pix_fmt:v:0'', ''p010le'']"])
    (simp_all add: build_av1_nvenc_command_def QUALITY_MAP_def)

lemma av1_qsv_ok: "builder_ok ''av1'' ''qsv'' build_av1_qsv_command"
  by (rule builder_okI [where pre = "[''ffmpeg'', ''-hwaccel'', ''qsv'', ''-hwaccel_device'', ''/dev/dri/renderD128'']"
        and mid = "\<lambda>n c. [''av1_qsv'', ''-global_quality:v:0'', str_int n, ''-preset:v:0'', ''veryslow'']"
        and post = "[''-pix_fmt:v:0'', ''p010le'']"])
    (simp_all add: build_av1_qsv_command_def QUALITY_MAP_def)

lemma hevc_quadra_ok: "builder_ok ''hevc'' ''quadra'' build_hevc_quadra_command"
  by (rule builder_okI [where pre = "[''ffmpeg'']"
        and mid = "\<lambda>n c. [''h265_ni_quadra_enc'', ''-xcoder-params:v:0'', ''RcEnable=0:crf='' @ str_int n]"
        and post = "[''-pix_fmt:v:0'', ''yuv420p10le'']"])
    (simp_all add: build_hevc_quadra_command_def QUALITY_MAP_def)

lemma av1_quadra_ok: "builder_ok ''av1'' ''quadra'' build_av1_quadra_command"
  by (rule builder_okI [where pre = "[''ffmpeg'']"
        and mid = "\<lambda>n c. [''av1_ni_quadra_enc'', ''-xcoder-params:v:0'', ''RcEnable=0:crf='' @ str_int n]"
        and post = "[''-pix_fmt:v:0'', ''yuv420p10le'']"])
    (simp_all add: build_av1_quadra_command_def QUALITY_MAP_def)

lemmas builders_ok = hevc_cpu_ok hevc_qsv_ok hevc_nvenc_ok av1_cpu_ok av1_nvenc_ok av1_qsv_ok hevc_quadra_ok av1_quadra_ok

lemma builder_options:
  assumes "map_of ENCODER_BUILDERS (codec, backend) = Some b"
  shows "builder_ok codec backend b"
  using map_of_SomeD [OF assms] builders_ok unfolding ENCODER_BUILDERS_def by auto

text \<open>
  C30. The command carries exactly the plan. For every codec and backend the quality map knows
  (and no other pair is accepted) the command maps the planned source streams in output order, and
  nothing else, directly before the shared tail; the options before the maps copy every stream and
  then override only the first video stream, scale it when asked, and use the native quality; the
  output path is the last argument.
\<close>

theorem encode_command_carries_plan:
  assumes "input_path \<noteq> ''-progress''" and "input_path \<noteq> ''-map''"
  shows "case build_encode_command codec backend input_path output_path quality content height (Some plan) of
     None \<Rightarrow> map_quality codec backend quality = None
   | Some cmd \<Rightarrow> map_quality codec backend quality \<noteq> None
       \<and> (\<exists>opts. cmd = opts @ concat (map (\<lambda>p. [''-map'', ''0:'' @ str_int (pl_source_index p)])
                            (sort_key pl_ordinal (plan_kept plan)))
                    @ [''-progress'', ''pipe:2'', ''-nostats'', ''-y'', output_path]
            \<and> ''-map'' \<notin> set opts \<and> sublist [''-i'', input_path] opts
            \<and> sublist [''-c'', ''copy'', ''-c:v:0''] opts \<and> sublist (scale_args height) opts)"
proof (cases "map_of ENCODER_BUILDERS (codec, backend)")
  case None
  then have "map_quality codec backend quality = None"
    by (auto simp: ENCODER_BUILDERS_def map_quality_def QUALITY_MAP_def split: if_splits)
  with None show ?thesis by (simp add: build_encode_command_def)
next
  case (Some b)
  obtain opts where o: "map_quality codec backend quality \<noteq> None"
    "b input_path output_path quality content height = Some (opts @ COMMON_TAIL @ [output_path])" "options_ok input_path height opts"
    using builder_options [OF Some] unfolding builder_ok_def by blast
  from o(3) assms have clean: "''-progress'' \<notin> set opts" "''-map'' \<notin> set opts" by (auto simp: options_ok_def)
  let ?opts = "opts @ [''-ignore_unknown'']"
  have "insert_maps maps (opts @ COMMON_TAIL @ [output_path])
      = ?opts @ maps @ [''-progress'', ''pipe:2'', ''-nostats'', ''-y'', output_path]" for maps
    using clean(1) by (induction opts) (auto simp: insert_maps_def COMMON_TAIL_def)
  moreover have "''-map'' \<notin> set ?opts" "sublist [''-i'', input_path] ?opts" "sublist [''-c'', ''copy'', ''-c:v:0''] ?opts"
    "sublist (scale_args height) ?opts"
    using clean o(3) by (auto simp: options_ok_def sublist_append)
  ultimately show ?thesis using o Some by (auto simp: build_encode_command_def map_args_def)
qed

theorem encode_command_carries_plan_witness:
  "\<exists>cmd. build_encode_command ''hevc'' ''cpu'' ''/m/a.mkv'' ''/m/a.tf_tmp.mkv'' 20 None None (Some (plan_streams demo_streams ''hevc'' [])) = Some cmd
     \<and> sublist [''-c'', ''copy'', ''-c:v:0''] cmd"
proof -
  let ?c = "build_encode_command ''hevc'' ''cpu'' ''/m/a.mkv'' ''/m/a.tf_tmp.mkv'' 20 None None (Some (plan_streams demo_streams ''hevc'' []))"
  have q: "map_quality ''hevc'' ''cpu'' 20 \<noteq> None" by (simp add: map_quality_def QUALITY_MAP_def)
  note T = encode_command_carries_plan [where input_path = "''/m/a.mkv''" and codec = "''hevc''" and backend = "''cpu''"
      and output_path = "''/m/a.tf_tmp.mkv''" and quality = 20 and content = None and height = None
      and plan = "plan_streams demo_streams ''hevc'' []"]
  from T q obtain cmd where c: "?c = Some cmd" by (cases ?c) auto
  with T show ?thesis by (auto simp: sublist_append)
qed

section \<open>The error ring\<close>

lemma length_newest [simp]: "length (newest n xs) = min n (length xs)"
  by (auto simp: newest_def)

lemma note_line_newest:
  "note_line raw (newest ERROR_LINES_BUFFER xs)
   = newest ERROR_LINES_BUFFER (if strip raw = [] \<or> is_noise (strip raw) then xs else xs @ [strip raw])"
proof -
  have "(let ring' = newest 10 xs @ [x] in if 10 < length ring' then tl ring' else ring') = newest 10 (xs @ [x])" for x :: string
  proof (cases "10 \<le> length xs")
    case True
    then have "length (xs @ [x]) - 10 = Suc (length xs - 10)" by simp
    then have "newest 10 (xs @ [x]) = drop (Suc (length xs - 10)) xs @ [x]"
      unfolding newest_def using True by (simp only: drop_append) simp
    moreover from True have "newest 10 xs \<noteq> []" by (simp add: newest_def)
    ultimately show ?thesis using True by (simp add: newest_def tl_append2 drop_Suc tl_drop)
  qed (simp add: newest_def)
  then show ?thesis by (simp add: note_line_def ERROR_LINES_BUFFER_def Let_def)
qed

text \<open>
  The bounded ring kept while the encoder runs is the last ten lines of what a complete log
  would hold after blank lines and known noise are removed, so a failure message is built from real
  diagnostics however much chatter follows them.
\<close>

lemma error_ring_is_newest_lines:
  "read_output rows [] = newest 10 (filter (\<lambda>l. l \<noteq> [] \<and> \<not> is_noise l) (map strip rows))"
proof -
  have "read_output rows (newest ERROR_LINES_BUFFER xs)
      = newest ERROR_LINES_BUFFER (xs @ filter (\<lambda>l. l \<noteq> [] \<and> \<not> is_noise l) (map strip rows))" for xs
    by (induction rows arbitrary: xs) (simp_all add: note_line_newest)
  from this [of "[]"] show ?thesis by (simp add: newest_def ERROR_LINES_BUFFER_def)
qed

end
