(* ===== verification/Vmaf.thy ===== *)
theory Vmaf
  imports Encoder
begin

text \<open>
  Quality measurement and the quality search (\<open>worker/vmaf.py\<close>).

  A frame score is read from JSON, where Python accepts \<open>NaN\<close> and the infinities; it is a \<open>pyfloat\<close>
  here, and a score that has been accepted is a finite number. The runs of \<open>ffmpeg\<close> are parameters:
  what a scoring run answers is its end, its diagnostics and the frame scores of its log (\<open>None\<close> when
  the log cannot be read). The search never tries one quality twice, so a function of the quality
  describes every possible sequence of answers.
\<close>

section \<open>Scores\<close>

datatype pyfloat = Finite num | NaN | Infinity | Minus_infinity

definition isfinite :: "pyfloat \<Rightarrow> bool" where
  "isfinite x = (case x of Finite _ \<Rightarrow> True | _ \<Rightarrow> False)"

definition the_finite :: "pyfloat \<Rightarrow> num" where
  "the_finite x = (case x of Finite q \<Rightarrow> q | _ \<Rightarrow> 0)"

definition py_add :: "pyfloat \<Rightarrow> pyfloat \<Rightarrow> pyfloat" where
  "py_add a b =
     (case (a, b) of
        (Finite p, Finite q) \<Rightarrow> Finite (p + q)
      | (NaN, _) \<Rightarrow> NaN | (_, NaN) \<Rightarrow> NaN
      | (Infinity, Minus_infinity) \<Rightarrow> NaN | (Minus_infinity, Infinity) \<Rightarrow> NaN
      | (Infinity, _) \<Rightarrow> Infinity | (_, Infinity) \<Rightarrow> Infinity
      | (Minus_infinity, _) \<Rightarrow> Minus_infinity | (_, Minus_infinity) \<Rightarrow> Minus_infinity)"

fun py_sum :: "pyfloat \<Rightarrow> pyfloat list \<Rightarrow> pyfloat" where
  "py_sum acc [] = acc"
| "py_sum acc (x # xs) = py_sum (py_add acc x) xs"

definition py_div_nat :: "pyfloat \<Rightarrow> nat \<Rightarrow> pyfloat" where
  "py_div_nat a n = (case a of Finite p \<Rightarrow> Finite (p / of_nat n) | x \<Rightarrow> x)"

text \<open>\<open>Os_failure\<close> is an \<open>OSError\<close> that the measurement code does not turn into one of its own errors.\<close>

datatype vmaf_failure = Vmaf_error | Vmaf_unavailable | Os_failure

record vmaf_score =
  vs_mean :: num
  vs_perc5 :: num
  vs_min :: num

definition VMAF_MODEL_HD :: string where "VMAF_MODEL_HD = ''vmaf_v1.0.16_3d0h''"
definition VMAF_MODEL_4K :: string where "VMAF_MODEL_4K = ''vmaf_v1.0.16_1d5h_2160''"
definition VMAF_4K_MIN_HEIGHT :: int where "VMAF_4K_MIN_HEIGHT = 1440"
definition VMAF_SUBSAMPLE :: int where "VMAF_SUBSAMPLE = 5"
definition SAMPLE_SECONDS :: num where "SAMPLE_SECONDS = 20"
definition SAMPLE_OFFSETS :: "num list" where "SAMPLE_OFFSETS = [15 / 100, 50 / 100, 85 / 100]"
definition SEARCH_RANGE :: "int \<times> int" where "SEARCH_RANGE = (16, 30)"

definition select_model :: "int option \<Rightarrow> string" where
  "select_model height =
     (case height of Some h \<Rightarrow> if VMAF_4K_MIN_HEIGHT \<le> h then VMAF_MODEL_4K else VMAF_MODEL_HD | None \<Rightarrow> VMAF_MODEL_HD)"

definition build_gauge_graph :: "string \<Rightarrow> string \<Rightarrow> int \<Rightarrow> int \<Rightarrow> int option \<Rightarrow> string" where
  "build_gauge_graph model log_path n_subsample n_threads reference_scale_height =
     ''[0:v]settb=AVTB,setpts=N*100000,format=yuv420p10le[dis];''
     @ ''[1:v]settb=AVTB,setpts=N*100000''
     @ (case reference_scale_height of None \<Rightarrow> [] | Some h \<Rightarrow> '',scale=-2:'' @ str_int h @ '':flags=lanczos'')
     @ '',format=yuv420p10le[ref];''
     @ ''[dis][ref]libvmaf=''
     @ ''model=version='' @ model
     @ '':log_fmt=json:log_path='' @ log_path
     @ '':n_subsample='' @ str_int n_subsample @ '':n_threads='' @ str_int n_threads"

text \<open>
  \<open>_pool\<close> and the check of \<open>VmafScore\<close>. The mean is tested first and is not finite as soon as one
  score is not, so the order in which Python sorts such scores never matters. The percentile's
  index is \<open>int(0.05 * (n - 1))\<close>, a twentieth of \<open>n - 1\<close> rounded down.
\<close>

definition pool :: "pyfloat list \<Rightarrow> vmaf_failure + vmaf_score" where
  "pool scores =
     (if scores = [] then Inl Vmaf_error
      else if \<not> isfinite (py_div_nat (py_sum (Finite 0) scores) (length scores)) then Inl Vmaf_error
      else let ordered = sort (map the_finite scores);
               perc5_idx = (length ordered - 1) div 20
           in Inr \<lparr>vs_mean = the_finite (py_div_nat (py_sum (Finite 0) scores) (length scores)),
                   vs_perc5 = ordered ! perc5_idx,
                   vs_min = ordered ! 0\<rparr>)"

record gauge_run =
  gr_stderr :: string
  gr_log :: "pyfloat list option"

definition measure_vmaf :: "gauge_run child \<Rightarrow> vmaf_failure + vmaf_score" where
  "measure_vmaf answer =
     (case answer of
        Timed_out \<Rightarrow> Inl Vmaf_error
      | No_binary \<Rightarrow> Inl Vmaf_unavailable
      | Exited rc g \<Rightarrow>
          if rc \<noteq> 0 then
            (let err = gr_stderr g
             in if sublist ''libvmaf'' err \<and> (sublist ''No such filter'' err \<or> sublist ''Unknown filter'' err)
                then Inl Vmaf_unavailable
                else if sublist ''could not load libvmaf model'' err then Inl Vmaf_unavailable
                else Inl Vmaf_error)
          else (case gr_log g of None \<Rightarrow> Inl Vmaf_error | Some scores \<Rightarrow> pool scores))"

section \<open>The search\<close>

definition sample_offsets :: "num \<Rightarrow> num list" where
  "sample_offsets duration = (if duration \<le> SAMPLE_SECONDS * 2 then [0] else map (\<lambda>f. duration * f) SAMPLE_OFFSETS)"

text \<open>
  Extracting one clip per offset: how each command ended and whether it left a non-empty clip. A
  time-out (\<open>TimeoutError\<close>) and a missing binary (\<open>FileNotFoundError\<close>) are \<open>OSError\<close>s nobody here catches.
\<close>

fun extract_samples :: "bool child list \<Rightarrow> vmaf_failure option" where
  "extract_samples [] = None"
| "extract_samples (clip # rest) =
     (case clip of
        Timed_out \<Rightarrow> Some Os_failure
      | No_binary \<Rightarrow> Some Os_failure
      | Exited rc nonempty \<Rightarrow> if rc \<noteq> 0 \<or> \<not> nonempty then Some Vmaf_error else extract_samples rest)"

text \<open>One sample at one quality: whether the sample encode worked, and what the scoring run answered.\<close>

type_synonym sample_run = "bool \<times> gauge_run child"

fun sample_scores :: "sample_run list \<Rightarrow> num list \<Rightarrow> num list \<Rightarrow> vmaf_failure + (num list \<times> num list)" where
  "sample_scores [] means perc5s = Inr (means, perc5s)"
| "sample_scores ((encoded, gauge) # rest) means perc5s =
     (if \<not> encoded then Inl Vmaf_error
      else case measure_vmaf gauge of
        Inl e \<Rightarrow> Inl e
      | Inr score \<Rightarrow> sample_scores rest (means @ [vs_mean score]) (perc5s @ [vs_perc5 score]))"

definition evaluate_quality :: "sample_run list \<Rightarrow> vmaf_failure + (num \<times> num)" where
  "evaluate_quality samples =
     (case sample_scores samples [] [] of
        Inl e \<Rightarrow> Inl e
      | Inr (means, perc5s) \<Rightarrow> Inr (sum_list means / of_nat (length means), Min (set perc5s)))"

record quality_search_result =
  qs_quality :: int
  qs_predicted_mean :: num
  qs_predicted_perc5 :: num

definition meets_target :: "num \<Rightarrow> num \<Rightarrow> num \<times> num \<Rightarrow> bool" where
  "meets_target target_vmaf perc5_floor r \<longleftrightarrow> target_vmaf \<le> fst r \<and> perc5_floor \<le> snd r"

text \<open>
  The binary search. \<open>probe q\<close> is the evaluation of the samples at quality \<open>q\<close>; the second
  component of the result is the list of qualities probed, latest first.
\<close>

function search_loop ::
  "(int \<Rightarrow> vmaf_failure + (num \<times> num)) \<Rightarrow> (num \<times> num \<Rightarrow> bool) \<Rightarrow> int \<Rightarrow> int \<Rightarrow> quality_search_result \<Rightarrow> int list
   \<Rightarrow> (vmaf_failure + quality_search_result) \<times> int list"
where
  "search_loop probe ok lo hi best probed =
     (if lo < hi then
        let mid = (lo + hi + 1) div 2
        in case probe mid of
             Inl e \<Rightarrow> (Inl e, mid # probed)
           | Inr r \<Rightarrow>
               if ok r then
                 search_loop probe ok mid hi
                   \<lparr>qs_quality = mid, qs_predicted_mean = fst r, qs_predicted_perc5 = snd r\<rparr> (mid # probed)
               else search_loop probe ok lo (mid - 1) best (mid # probed)
      else (Inr best, probed))"
  by pat_completeness auto
termination
  by (relation "measure (\<lambda>(probe, ok, lo, hi, best, probed). nat (hi - lo))") auto

declare search_loop.simps [simp del]

definition find_quality_for_target ::
  "bool child list \<Rightarrow> (int \<Rightarrow> sample_run list) \<Rightarrow> num \<Rightarrow> num
   \<Rightarrow> (vmaf_failure + quality_search_result option) \<times> int list"
where
  "find_quality_for_target clips samples_at target_vmaf perc5_floor =
     (case extract_samples clips of Some e \<Rightarrow> (Inl e, [])
      | None \<Rightarrow> let (lo, hi) = SEARCH_RANGE;
               probe = (\<lambda>q. evaluate_quality (samples_at q));
               ok = meets_target target_vmaf perc5_floor
           in case probe lo of
                Inl e \<Rightarrow> (Inl e, [lo])
              | Inr r \<Rightarrow>
                  if \<not> ok r then (Inr None, [lo])
                  else case search_loop probe ok lo hi
                         \<lparr>qs_quality = lo, qs_predicted_mean = fst r, qs_predicted_perc5 = snd r\<rparr> [lo] of
                    (Inl e, probed) \<Rightarrow> (Inl e, probed)
                  | (Inr best, probed) \<Rightarrow> (Inr (Some best), probed))"

section \<open>Scores\<close>

lemma py_add_finite: "isfinite (py_add a b) \<longleftrightarrow> isfinite a \<and> isfinite b"
  by (cases a; cases b) (simp_all add: py_add_def isfinite_def)

lemma py_sum_finite: "isfinite (py_sum a xs) \<longleftrightarrow> isfinite a \<and> (\<forall>x \<in> set xs. isfinite x)"
  by (induction xs arbitrary: a) (auto simp: py_add_finite)

lemma py_sum_value:
  assumes "isfinite a" and "\<forall>x \<in> set xs. isfinite x"
  shows "py_sum a xs = Finite (the_finite a + sum_list (map the_finite xs))"
  using assms
proof (induction xs arbitrary: a)
  case Nil
  then show ?case by (cases a) (auto simp: isfinite_def the_finite_def)
next
  case (Cons x xs)
  then obtain p q where "a = Finite p" "x = Finite q" by (cases a; cases x) (auto simp: isfinite_def)
  with Cons show ?case by (simp add: py_add_def the_finite_def isfinite_def algebra_simps)
qed

lemma isfinite_div [simp]: "isfinite (py_div_nat a n) = isfinite a"
  by (cases a) (simp_all add: py_div_nat_def isfinite_def)

lemma pool_mean:
  assumes "\<forall>x \<in> set scores. isfinite x"
  shows "py_div_nat (py_sum (Finite 0) scores) n = Finite (sum_list (map the_finite scores) / of_nat n)"
  using py_sum_value [of "Finite 0" scores] assms by (simp add: isfinite_def the_finite_def py_div_nat_def)

lemma sorted_nth_below:
  fixes xs :: "'a :: linorder list"
  assumes "i < length xs"
  shows "length (filter (\<lambda>x. x < sort xs ! i) xs) \<le> i"
proof -
  have "length (filter (\<lambda>x. x < sort xs ! i) xs) = length (filter (\<lambda>x. x < sort xs ! i) (sort xs))"
    by (metis length_filter_conv_card mset_filter mset_sort size_mset)
  also have "\<dots> = card {j. j < length (sort xs) \<and> sort xs ! j < sort xs ! i}" by (simp add: length_filter_conv_card)
  also have "\<dots> \<le> card {..<i}"
  proof (rule card_mono)
    show "{j. j < length (sort xs) \<and> sort xs ! j < sort xs ! i} \<subseteq> {..<i}"
      using assms by (auto simp: not_le [symmetric]) (metis length_sort not_le sorted_nth_mono sorted_sort)
  qed simp
  finally show ?thesis by simp
qed

text \<open>
  A pooled score exists exactly when there are frame scores and every one of them is finite, so
  a nonfinite measurement can never pass a floor. The pooled mean is then the true mean, the minimum
  is the least score, and fewer than a twentieth of the frames score below the pooled percentile.
\<close>

lemma pooled_score_is_sound:
  "case pool scores of
     Inl e \<Rightarrow> scores = [] \<or> (\<exists>x \<in> set scores. \<not> isfinite x)
   | Inr s \<Rightarrow> scores \<noteq> [] \<and> (\<forall>x \<in> set scores. isfinite x)
       \<and> vs_mean s * of_nat (length scores) = sum_list (map the_finite scores)
       \<and> vs_min s = Min (the_finite ` set scores)
       \<and> vs_perc5 s \<in> the_finite ` set scores
       \<and> 20 * length (filter (\<lambda>x. the_finite x < vs_perc5 s) scores) < length scores"
proof (cases "scores = [] \<or> \<not> (\<forall>x \<in> set scores. isfinite x)")
  case True
  then show ?thesis by (auto simp: pool_def py_sum_finite)
next
  case False
  then have fin: "\<forall>x \<in> set scores. isfinite x" and ne: "scores \<noteq> []" by auto
  define i where "i = (length scores - 1) div 20"
  define xs where "xs = map the_finite scores"
  have i: "i < length xs" using ne by (simp add: i_def xs_def length_greater_0_conv [symmetric] less_eq_div_iff_mult_less_eq del: length_greater_0_conv)
  have below: "length (filter (\<lambda>x. the_finite x < sort xs ! i) scores) \<le> i"
    using sorted_nth_below [OF i] by (simp add: xs_def filter_map comp_def)
  have "20 * i \<le> length scores - 1" by (simp add: i_def)
  with below ne have few: "20 * length (filter (\<lambda>x. the_finite x < sort xs ! i) scores) < length scores"
    by (cases scores) auto
  have mem: "sort xs ! i \<in> the_finite ` set scores" using i nth_mem [of i "sort xs"] by (simp add: xs_def)
  have mn: "sort xs ! 0 = Min (the_finite ` set scores)"
  proof (rule Min_eqI [symmetric])
    show "sort xs ! 0 \<in> the_finite ` set scores" using ne nth_mem [of 0 "sort xs"] by (simp add: xs_def)
    show "sort xs ! 0 \<le> y" if "y \<in> the_finite ` set scores" for y
    proof -
      from that have "y \<in> set (sort xs)" by (simp add: xs_def)
      then obtain k where "k < length (sort xs)" "sort xs ! k = y" by (metis in_set_conv_nth)
      then show ?thesis by (metis le0 sorted_nth_mono sorted_sort)
    qed
  qed simp
  have "pool scores = Inr \<lparr>vs_mean = sum_list xs / of_nat (length scores), vs_perc5 = sort xs ! i, vs_min = sort xs ! 0\<rparr>"
    using ne by (simp add: pool_def pool_mean [OF fin] isfinite_def the_finite_def [of "Finite _"] Let_def xs_def i_def)
  with fin ne few mem mn show ?thesis by (simp add: xs_def)
qed

section \<open>The search\<close>

lemma search_loop_step:
  assumes "lo < hi" and "mid = (lo + hi + 1) div 2"
  shows "search_loop probe ok lo hi best probed =
     (case probe mid of Inl e \<Rightarrow> (Inl e, mid # probed)
      | Inr r \<Rightarrow> if ok r then
            search_loop probe ok mid hi
              \<lparr>qs_quality = mid, qs_predicted_mean = fst r, qs_predicted_perc5 = snd r\<rparr> (mid # probed)
          else search_loop probe ok lo (mid - 1) best (mid # probed))"
  using assms(1) by (subst search_loop.simps) (simp only: if_True Let_def assms(2))

text \<open>
  A search keeps \<open>best\<close> at the lower bound of the interval left to try and records what the probe
  answered there.
\<close>

lemma search_loop_sound:
  assumes "search_loop probe ok lo hi best probed = (Inr res, ps)" and "lo \<le> hi"
    and "qs_quality best = lo" and "probe lo = Inr (qs_predicted_mean best, qs_predicted_perc5 best)"
    and "ok (qs_predicted_mean best, qs_predicted_perc5 best)"
  shows "lo \<le> qs_quality res \<and> qs_quality res \<le> hi
     \<and> probe (qs_quality res) = Inr (qs_predicted_mean res, qs_predicted_perc5 res)
     \<and> ok (qs_predicted_mean res, qs_predicted_perc5 res)
     \<and> (\<forall>q. qs_quality res < q \<and> q \<le> hi \<longrightarrow> (\<exists>m \<le> q. qs_quality res < m \<and> (\<exists>r. probe m = Inr r \<and> \<not> ok r)))"
  using assms
proof (induction probe ok lo hi best probed rule: search_loop.induct)
  case (1 probe ok lo hi best probed)
  show ?case
  proof (cases "lo < hi")
    case False
    with 1 show ?thesis by (auto simp: search_loop.simps)
  next
    case True
    define mid where "mid = (lo + hi + 1) div 2"
    then have m: "lo < mid" "mid \<le> hi" using True by auto
    from 1(3) True obtain r where r: "probe mid = Inr r"
      unfolding search_loop_step [OF True mid_def] by (auto split: sum.splits)
    show ?thesis
    proof (cases "ok r")
      case ok: True
      with 1(3) True r have e: "search_loop probe ok mid hi
          \<lparr>qs_quality = mid, qs_predicted_mean = fst r, qs_predicted_perc5 = snd r\<rparr> (mid # probed) = (Inr res, ps)"
        unfolding search_loop_step [OF True mid_def] by simp
      from 1(1) [OF True mid_def r ok e] m r ok show ?thesis by simp
    next
      case no: False
      with 1(3) True r have e: "search_loop probe ok lo (mid - 1) best (mid # probed) = (Inr res, ps)"
        unfolding search_loop_step [OF True mid_def] by simp
      from 1(2) [OF True mid_def r no e] m 1(5-7)
      have IH: "lo \<le> qs_quality res \<and> qs_quality res \<le> mid - 1
        \<and> probe (qs_quality res) = Inr (qs_predicted_mean res, qs_predicted_perc5 res)
        \<and> ok (qs_predicted_mean res, qs_predicted_perc5 res)
        \<and> (\<forall>q. qs_quality res < q \<and> q \<le> mid - 1 \<longrightarrow> (\<exists>m \<le> q. qs_quality res < m \<and> (\<exists>r. probe m = Inr r \<and> \<not> ok r)))"
        by simp
      have "\<exists>m \<le> q. qs_quality res < m \<and> (\<exists>r. probe m = Inr r \<and> \<not> ok r)" if "qs_quality res < q" "q \<le> hi" for q
      proof (cases "q \<le> mid - 1")
        case True
        with IH that show ?thesis by blast
      next
        case False
        with IH r no show ?thesis by (intro exI [of _ mid]) auto
      qed
      with IH m show ?thesis by auto
    qed
  qed
qed

lemma search_loop_probes:
  assumes "search_loop probe ok lo hi best probed = (res, ps)" and "hi - lo < 2 ^ n"
  shows "length ps \<le> length probed + n \<and> (\<exists>new. ps = new @ probed \<and> distinct new \<and> set new \<subseteq> {lo<..hi})"
  using assms
proof (induction probe ok lo hi best probed arbitrary: n rule: search_loop.induct)
  case (1 probe ok lo hi best probed)
  show ?case
  proof (cases "lo < hi")
    case False
    with 1(3) show ?thesis by (auto simp: search_loop.simps)
  next
    case True
    define mid where "mid = (lo + hi + 1) div 2"
    then have m: "lo < mid" "mid \<le> hi" using True by auto
    from True 1(4) obtain k where n: "n = Suc k" by (cases n) auto
    have half: "hi - mid < 2 ^ k" "mid - 1 - lo < 2 ^ k" using 1(4) n by (auto simp: mid_def)
    show ?thesis
    proof (cases "probe mid")
      case (Inl e)
      with 1(3) True have "ps = mid # probed"
        unfolding search_loop_step [OF True mid_def] by simp
      with n m show ?thesis by auto
    next
      case (Inr r)
      show ?thesis
      proof (cases "ok r")
        case ok: True
        with 1(3) True Inr have e: "search_loop probe ok mid hi
          \<lparr>qs_quality = mid, qs_predicted_mean = fst r, qs_predicted_perc5 = snd r\<rparr> (mid # probed) = (res, ps)"
          unfolding search_loop_step [OF True mid_def] by simp
        from 1(1) [OF True mid_def Inr ok e half(1)] obtain new where
          "length ps \<le> Suc (length probed) + k" "ps = new @ mid # probed" "distinct new" "set new \<subseteq> {mid<..hi}" by auto
        with m n show ?thesis by (intro conjI exI [of _ "new @ [mid]"]) auto
      next
        case no: False
        with 1(3) True Inr have e: "search_loop probe ok lo (mid - 1) best (mid # probed) = (res, ps)"
          unfolding search_loop_step [OF True mid_def] by simp
        from 1(2) [OF True mid_def Inr no e half(2)] obtain new where
          "length ps \<le> Suc (length probed) + k" "ps = new @ mid # probed" "distinct new" "set new \<subseteq> {lo<..mid - 1}" by auto
        with m n show ?thesis by (intro conjI exI [of _ "new @ [mid]"]) auto
      qed
    qed
  qed
qed

lemma search_loop_error:
  assumes "search_loop probe ok lo hi best probed = (Inl e, ps)"
  shows "\<exists>q \<in> set ps. probe q = Inl e"
  using assms
proof (induction probe ok lo hi best probed rule: search_loop.induct)
  case (1 probe ok lo hi best probed)
  show ?case
  proof (cases "lo < hi")
    case False
    with 1(3) show ?thesis by (simp add: search_loop.simps)
  next
    case True
    define mid where "mid = (lo + hi + 1) div 2"
    from 1(3) have "(case probe mid of Inl e \<Rightarrow> (Inl e, mid # probed)
           | Inr r \<Rightarrow> if ok r then
                 search_loop probe ok mid hi
                   \<lparr>qs_quality = mid, qs_predicted_mean = fst r, qs_predicted_perc5 = snd r\<rparr> (mid # probed)
               else search_loop probe ok lo (mid - 1) best (mid # probed)) = (Inl e, ps)"
      unfolding search_loop_step [OF True mid_def] .
    then show ?thesis using 1(1,2) [OF True mid_def]
      by (cases "probe mid") (auto split: if_splits)
  qed
qed

text \<open>
  C14. With the sample clips extracted, the quality search ends after at most five evaluations, none of them repeated and all inside
  the search range. A quality it returns was measured and met both floors, with the predictions
  that measurement gave. If meeting the target is monotone in quality, no larger quality of the range
  meets it; and when the search returns no quality, the best-quality end of the range was measured
  and missed the target.
\<close>

theorem quality_search_correct:
  assumes "extract_samples clips = None"
    and "find_quality_for_target clips samples_at target lowest = (out, probed)"
  shows "length probed \<le> 5 \<and> distinct probed \<and> set probed \<subseteq> {16..30}
    \<and> (case out of
         Inl e \<Rightarrow> \<exists>q \<in> set probed. evaluate_quality (samples_at q) = Inl e
       | Inr None \<Rightarrow> \<exists>r. evaluate_quality (samples_at 16) = Inr r \<and> \<not> meets_target target lowest r
       | Inr (Some best) \<Rightarrow>
           evaluate_quality (samples_at (qs_quality best)) = Inr (qs_predicted_mean best, qs_predicted_perc5 best)
           \<and> target \<le> qs_predicted_mean best \<and> lowest \<le> qs_predicted_perc5 best
           \<and> ((\<forall>p q r. p \<le> q \<and> evaluate_quality (samples_at q) = Inr r \<and> meets_target target lowest r
                 \<longrightarrow> (\<forall>r'. evaluate_quality (samples_at p) = Inr r' \<longrightarrow> meets_target target lowest r'))
              \<longrightarrow> (\<forall>q r. qs_quality best < q \<and> q \<le> 30 \<and> evaluate_quality (samples_at q) = Inr r
                     \<longrightarrow> \<not> meets_target target lowest r)))" (is "_ \<and> _ \<and> _ \<and> ?outcome")
proof -
  let ?p = "\<lambda>q. evaluate_quality (samples_at q)" and ?ok = "meets_target target lowest"
  show ?thesis
  proof (cases "?p 16")
    case (Inl e)
    with assms have "out = Inl e" "probed = [16]" by (simp_all add: find_quality_for_target_def SEARCH_RANGE_def)
    with Inl show ?thesis by simp
  next
    case (Inr r)
    show ?thesis
    proof (cases "?ok r")
      case False
      with Inr assms have "out = Inr None" "probed = [16]" by (simp_all add: find_quality_for_target_def SEARCH_RANGE_def)
      with Inr False show ?thesis by simp
    next
      case True
      let ?b = "\<lparr>qs_quality = 16, qs_predicted_mean = fst r, qs_predicted_perc5 = snd r\<rparr>"
      obtain res ps where l: "search_loop ?p ?ok 16 30 ?b [16] = (res, ps)" by (rule prod.exhaust)
      with Inr True assms have "(out, probed) = (map_sum id Some res, ps)"
        by (cases res) (simp_all add: find_quality_for_target_def SEARCH_RANGE_def)
      then have o: "out = map_sum id Some res" "probed = ps" by simp_all
      from search_loop_probes [OF l, of 4] obtain new where
        n: "length ps \<le> 5" "ps = new @ [16]" "distinct new" "set new \<subseteq> {16<..30}" by auto
      have "case res of Inl e \<Rightarrow> \<exists>q \<in> set ps. ?p q = Inl e | Inr best \<Rightarrow> ?p (qs_quality best) = Inr (qs_predicted_mean best, qs_predicted_perc5 best)
          \<and> ?ok (qs_predicted_mean best, qs_predicted_perc5 best)
          \<and> (\<forall>q. qs_quality best < q \<and> q \<le> 30 \<longrightarrow> (\<exists>m \<le> q. qs_quality best < m \<and> (\<exists>r. ?p m = Inr r \<and> \<not> ?ok r)))"
      proof (cases res)
        case (Inl e)
        from search_loop_error [OF l [unfolded Inl]] show ?thesis unfolding Inl sum.case .
      next
        case r2: (Inr best)
        have "?p 16 = Inr (qs_predicted_mean ?b, qs_predicted_perc5 ?b)" using Inr by simp
        moreover have "?ok (qs_predicted_mean ?b, qs_predicted_perc5 ?b)" using True by simp
        ultimately show ?thesis unfolding r2 sum.case using search_loop_sound [OF l [unfolded r2]] by simp
      qed
      note R = this
      have "length probed \<le> 5 \<and> distinct probed \<and> set probed \<subseteq> {16..30}" unfolding o(2) using n by auto
      moreover have ?outcome
      proof (cases res)
        case (Inl e)
        from R show ?thesis unfolding o Inl map_sum.simps(1) sum.case(1) id_apply .
      next
        case r2: (Inr best)
        from R [unfolded r2 sum.case] have B: "?p (qs_quality best) = Inr (qs_predicted_mean best, qs_predicted_perc5 best)"
          "?ok (qs_predicted_mean best, qs_predicted_perc5 best)"
          "\<And>q. qs_quality best < q \<Longrightarrow> q \<le> 30 \<Longrightarrow> \<exists>m \<le> q. qs_quality best < m \<and> (\<exists>r. ?p m = Inr r \<and> \<not> ?ok r)" by blast+
        have top: "\<not> ?ok r" if mono: "\<forall>p q r. p \<le> q \<and> ?p q = Inr r \<and> ?ok r \<longrightarrow> (\<forall>r'. ?p p = Inr r' \<longrightarrow> ?ok r')"
          and q: "qs_quality best < q \<and> q \<le> 30 \<and> ?p q = Inr r" for q r
        proof
          assume "?ok r"
          from B(3) [of q] q obtain m r' where m: "m \<le> q" "?p m = Inr r'" "\<not> ?ok r'" by blast
          from mono [rule_format, of m q r r'] m q \<open>?ok r\<close> show False by blast
        qed
        have fl: "target \<le> qs_predicted_mean best" "lowest \<le> qs_predicted_perc5 best"
          using B(2) by (simp_all add: meets_target_def)
        show ?thesis unfolding o(1) r2 map_sum.simps(2) sum.case(2) option.case(2)
          by (intro conjI impI allI B(1) fl) (rule top)
      qed
      ultimately show ?thesis by blast
    qed
  qed
qed

theorem quality_search_correct_witness:
  "\<exists>outcome probed. find_quality_for_target [Exited 0 True]
       (\<lambda>q. [(True, Exited 0 \<lparr>gr_stderr = [], gr_log = Some [Finite (of_int (120 - q))]\<rparr>)]) 95 93 = (outcome, probed)
     \<and> length probed \<le> 5 \<and> distinct probed"
proof -
  obtain outcome probed where f: "find_quality_for_target [Exited 0 True]
       (\<lambda>q. [(True, Exited 0 \<lparr>gr_stderr = [], gr_log = Some [Finite (of_int (120 - q))]\<rparr>)]) 95 93 = (outcome, probed)"
    by (rule prod.exhaust)
  from quality_search_correct [OF _ f] f show ?thesis by simp
qed

end
