(* ===== verification/Pipeline.thy ===== *)
theory Pipeline
  imports Ownership Vmaf
begin

text \<open>
  The eight-step transcode pipeline (\<open>worker/pipeline.py\<close>): pre-flight probe, lock, quality search,
  encode, verify, compare (streams, size, quality), swap, confirm, cleanup, unlock.

  The external programs are the parameter \<open>tools\<close>. Each answer may depend on how many commands ran
  before, so two runs on one file may differ; the definitions use of a tool only what the code reads
  of its result. A command is an await point: cancellation and heartbeats come in there. Progress and
  phase callbacks are await points without effect on files.
\<close>

section \<open>External programs\<close>

record encode_run =
  en_partial :: "content option"
  en_end :: "unit child"
  en_lines :: "string list"
  en_file :: "content option"

record tools =
  tl_size :: "content \<Rightarrow> int"
  tl_video :: "nat \<Rightarrow> content \<Rightarrow> probe_output"
  tl_streams :: "nat \<Rightarrow> content \<Rightarrow> probe_output"
  tl_subtitles :: "nat \<Rightarrow> content \<Rightarrow> string option list option"
  tl_libvmaf :: "nat \<Rightarrow> bool"
  tl_clips :: "nat \<Rightarrow> content \<Rightarrow> int option \<Rightarrow> num list \<Rightarrow> bool child list"
  tl_samples :: "nat \<Rightarrow> content \<Rightarrow> string \<Rightarrow> string \<Rightarrow> int option \<Rightarrow> int \<Rightarrow> sample_run list"
  tl_encode :: "nat \<Rightarrow> string list \<Rightarrow> content \<Rightarrow> encode_run"
  tl_decode :: "nat \<Rightarrow> num \<Rightarrow> num \<Rightarrow> content \<Rightarrow> string child"
  tl_gauge_log :: "nat \<Rightarrow> string"
  tl_cpu_count :: int
  tl_gauge :: "nat \<Rightarrow> string \<Rightarrow> content \<Rightarrow> content \<Rightarrow> gauge_run child"

record pipeline_args =
  pa_source :: path
  pa_codec :: string
  pa_backend :: string
  pa_quality :: int
  pa_duration :: num
  pa_job :: string
  pa_worker :: string
  pa_target_vmaf :: "num option"
  pa_safety_mean :: num
  pa_safety_perc5 :: num
  pa_crf_search :: bool
  pa_content :: "string option"
  pa_target_height :: "int option"

record pipeline_result =
  rp_source_size :: int
  rp_output_size :: int
  rp_space_saved :: int
  rp_backend :: string
  rp_resolved_crf :: int
  rp_vmaf_mean :: "num option"
  rp_vmaf_perc5 :: "num option"
  rp_predicted_mean :: "num option"
  rp_predicted_perc5 :: "num option"

definition path_text :: "path \<Rightarrow> string" where
  "path_text p = fst p @ ''/'' @ snd p"

definition own_of :: "pipeline_args \<Rightarrow> ownership" where
  "own_of a = \<lparr>own_source = pa_source a, own_job = pa_job a, own_worker = pa_worker a\<rparr>"

text \<open>A command under \<open>pending\<close>, what can happen while the code waits for it.\<close>

definition command :: "unit act \<Rightarrow> (nat \<Rightarrow> 'a) \<Rightarrow> 'a act" where
  "command pending answer =
     andthen pending (\<lambda>_ os s. (Done (answer (p_calls s)), os, s\<lparr>p_calls := p_calls s + 1\<rparr>))"

definition raise_oserror :: "'a act" where
  "raise_oserror os s = (OSError, os, s)"

definition read_path :: "path \<Rightarrow> content option act" where
  "read_path p = asks (\<lambda>s. p_fs s p)"

section \<open>Stream accounting\<close>

definition describe :: "stream_info \<Rightarrow> string" where
  "describe s = ''#'' @ str_int (st_index s) @ '' '' @ st_codec_type s @ '' '' @ st_codec_name s
     @ (if st_language s = [] then [] else '' ['' @ st_language s @ '']'')
     @ (if st_attached_pic s then '' (attached picture)'' else [])"

definition describe_planned :: "planned_stream \<Rightarrow> string" where
  "describe_planned p = ''#'' @ str_int (pl_source_index p) @ '' '' @ pl_codec_type p @ '' '' @ pl_codec_name p
     @ (if pl_language p = [] then [] else '' ['' @ pl_language p @ '']'')
     @ (if pl_attached_pic p then '' (attached picture)'' else [])
     @ '' at output position '' @ str_nat (pl_ordinal p)"

type_synonym inventory_key = "string \<times> string \<times> string \<times> bool \<times> bool"

definition stream_key :: "stream_info \<Rightarrow> inventory_key" where
  "stream_key s = (st_codec_type s, st_codec_name s, st_language s, st_attached_pic s, st_forced s)"

definition planned_key :: "planned_stream \<Rightarrow> inventory_key" where
  "planned_key p = (pl_codec_type p, pl_codec_name p, pl_language p, pl_attached_pic p, pl_forced p)"

text \<open>\<open>any(candidate == key for candidate in remaining)\<close> consumes the iterator up to the match.\<close>

fun covers_in_order :: "inventory_key list \<Rightarrow> inventory_key list \<Rightarrow> bool" where
  "covers_in_order [] produced = True"
| "covers_in_order (key # promised) produced =
     (case dropWhile (\<lambda>candidate. candidate \<noteq> key) produced of
        [] \<Rightarrow> False | _ # remaining \<Rightarrow> covers_in_order promised remaining)"

definition check_plan_covers_source :: "stream_info list \<Rightarrow> stream_plan \<Rightarrow> diagnostics \<Rightarrow> exn option" where
  "check_plan_covers_source inventory plan diag =
     (let accounted = accounted_indexes plan;
          missing = map describe (filter (\<lambda>s. count_list accounted (st_index s) = 0) inventory)
      in if missing \<noteq> [] then Some (Stream_loss ''TRANSCODE'' missing diag)
         else if filter (\<lambda>i. 1 < count_list accounted i \<or> i \<notin> set (map st_index inventory)) accounted \<noteq> []
         then Some (Pipeline_error ''TRANSCODE'')
         else None)"

fun lost_streams :: "planned_stream list \<Rightarrow> inventory_key list \<Rightarrow> string list" where
  "lost_streams [] remaining = []"
| "lost_streams (p # ps) remaining =
     (if planned_key p \<in> set remaining then lost_streams ps (remove1 (planned_key p) remaining)
      else describe_planned p # lost_streams ps remaining)"

text \<open>The verdict on a finished output, from its own stream list.\<close>

definition verify_stream_inventory :: "probe_error + stream_info list \<Rightarrow> stream_plan \<Rightarrow> diagnostics \<Rightarrow> exn option" where
  "verify_stream_inventory actual plan diag =
     (case actual of
        Inl _ \<Rightarrow> Some (Pipeline_error ''COMPARE'')
      | Inr streams \<Rightarrow>
          (let ordered = sort_key pl_ordinal (plan_kept plan);
               promised = map planned_key ordered;
               produced = map stream_key streams
           in if covers_in_order promised produced then None
              else let lost = lost_streams ordered produced
                   in Some (Stream_loss ''COMPARE''
                        (if lost = []
                         then [''the output holds all '' @ str_nat (length promised) @ '' planned streams but not in the planned order'']
                         else lost) diag)))"

section \<open>Verification of an output\<close>

definition DURATION_TOLERANCE :: num where "DURATION_TOLERANCE = 2"
definition DECODE_SAMPLE_SECONDS :: num where "DECODE_SAMPLE_SECONDS = 10"
definition DECODE_SAMPLE_OFFSETS :: "num list" where "DECODE_SAMPLE_OFFSETS = [5 / 100, 50 / 100, 95 / 100]"

fun decode_at :: "tools \<Rightarrow> unit act \<Rightarrow> content \<Rightarrow> num \<Rightarrow> num list \<Rightarrow> unit act" where
  "decode_at tls pending c sample [] = finish ()"
| "decode_at tls pending c sample (offset # offsets) =
     andthen (command pending (\<lambda>n. tl_decode tls n offset sample c)) (\<lambda>r.
       case r of
         Timed_out \<Rightarrow> raise_error (Pipeline_error ''VERIFY'')
       | No_binary \<Rightarrow> raise_oserror
       | Exited rc err \<Rightarrow>
           if rc \<noteq> 0 \<or> strip err \<noteq> [] then raise_error (Pipeline_error ''VERIFY'')
           else decode_at tls pending c sample offsets)"

definition decode_plan :: "num \<Rightarrow> num \<times> num list" where
  "decode_plan duration =
     (if duration < DECODE_SAMPLE_SECONDS * 3 / 2 then (duration, [0])
      else (DECODE_SAMPLE_SECONDS, map (\<lambda>f. duration * f) DECODE_SAMPLE_OFFSETS))"

definition decode_check :: "tools \<Rightarrow> unit act \<Rightarrow> content \<Rightarrow> num \<Rightarrow> unit act" where
  "decode_check tls pending c duration =
     decode_at tls pending c (fst (decode_plan duration)) (snd (decode_plan duration))"

definition verify_output ::
  "tools \<Rightarrow> unit act \<Rightarrow> path \<Rightarrow> num \<Rightarrow> string \<Rightarrow> int option \<Rightarrow> unit act"
where
  "verify_output tls pending p expected_duration expected_codec expected_height =
     andthen (read_path p) (\<lambda>file.
     case file of
       None \<Rightarrow> raise_error (Pipeline_error ''VERIFY'')
     | Some c \<Rightarrow>
         if tl_size tls c = 0 then raise_error (Pipeline_error ''VERIFY'')
         else andthen (command pending (\<lambda>n. ffprobe (tl_size tls c) (tl_video tls n c))) (\<lambda>r.
           case r of
             Inl _ \<Rightarrow> raise_error (Pipeline_error ''VERIFY'')
           | Inr probe \<Rightarrow>
               if pr_video_codec probe \<noteq> expected_codec then raise_error (Pipeline_error ''VERIFY'')
               else if expected_height \<noteq> None \<and> expected_height \<noteq> Some (pr_height probe)
               then raise_error (Pipeline_error ''VERIFY'')
               else if DURATION_TOLERANCE < \<bar>pr_duration probe - expected_duration\<bar>
               then raise_error (Pipeline_error ''VERIFY'')
               else decode_check tls pending c (pr_duration probe)))"

text \<open>\<open>except (PipelineError, ProbeError)\<close> around the check of the swapped file.\<close>

definition confirming :: "'a act \<Rightarrow> 'a act" where
  "confirming m os s =
     (case m os s of
        (Raised e, os', s') \<Rightarrow>
          (Raised (if e = Cancelled_error \<or> e = Value_error then e else Pipeline_error ''CONFIRM''), os', s')
      | (r, os', s') \<Rightarrow> (r, os', s'))"

section \<open>The steps\<close>

text \<open>Before the lock: source size, the backend to use, and the source height if it was probed.\<close>

definition probe_source :: "tools \<Rightarrow> pipeline_args \<Rightarrow> content \<Rightarrow> (string \<times> int option) act" where
  "probe_source tls a orig =
     (if pa_backend a = ''qsv'' \<or> pa_target_vmaf a \<noteq> None \<or> pa_target_height a \<noteq> None then
        andthen (command cancel_point (\<lambda>n. ffprobe (tl_size tls orig) (tl_video tls n orig))) (\<lambda>r.
        case r of
          Inl _ \<Rightarrow> finish (pa_backend a, None)
        | Inr p \<Rightarrow> finish (if pa_backend a = ''qsv'' \<and> is_10bit p then ''cpu'' else pa_backend a,
                           if pr_height p = 0 then None else Some (pr_height p)))
      else finish (pa_backend a, None))"

definition check_downscale :: "pipeline_args \<Rightarrow> int option \<Rightarrow> unit act" where
  "check_downscale a source_height =
     (case pa_target_height a of
        None \<Rightarrow> finish ()
      | Some target \<Rightarrow>
          (case source_height of
             None \<Rightarrow> raise_error (Pipeline_error ''TRANSCODE'')
           | Some h \<Rightarrow> if h \<le> target then raise_error (Pipeline_error ''TRANSCODE'') else finish ()))"

definition source_inventory :: "tools \<Rightarrow> ownership \<Rightarrow> content \<Rightarrow> stream_info list act" where
  "source_inventory tls own orig =
     andthen (command (await_point own) (\<lambda>n. stream_inventory (tl_streams tls n orig))) (\<lambda>r.
     case r of Inl _ \<Rightarrow> raise_error (Pipeline_error ''TRANSCODE'') | Inr streams \<Rightarrow> finish streams)"

record search_state =
  ss_quality :: int
  ss_available :: bool
  ss_mean :: "num option"
  ss_perc5 :: "num option"

definition quality_search ::
  "tools \<Rightarrow> ownership \<Rightarrow> pipeline_args \<Rightarrow> string \<Rightarrow> int option \<Rightarrow> content \<Rightarrow> int option \<Rightarrow> search_state act"
where
  "quality_search tls own a backend source_height orig primary =
     (let fixed = (\<lambda>available. \<lparr>ss_quality = pa_quality a, ss_available = available, ss_mean = None, ss_perc5 = None\<rparr>)
      in case pa_target_vmaf a of
        None \<Rightarrow> finish (fixed True)
      | Some target \<Rightarrow>
          andthen (command (await_point own) (tl_libvmaf tls)) (\<lambda>available.
          if \<not> pa_crf_search a \<or> \<not> available then finish (fixed available)
          else andthen (await_point own) (\<lambda>_.
               andthen (command (await_point own) (\<lambda>n. fst (find_quality_for_target
                   (tl_clips tls n orig primary (sample_offsets (pa_duration a)))
                   (tl_samples tls n orig (pa_codec a) backend (pa_target_height a)) target (target - 2)))) (\<lambda>r.
               case r of
                 Inr (Some best) \<Rightarrow>
                   finish \<lparr>ss_quality = qs_quality best, ss_available = True,
                     ss_mean = Some (qs_predicted_mean best), ss_perc5 = Some (qs_predicted_perc5 best)\<rparr>
               | Inr None \<Rightarrow> finish (fixed True)
               | Inl Vmaf_unavailable \<Rightarrow> finish (fixed False)
               | Inl Vmaf_error \<Rightarrow> finish (fixed True)
               | Inl Os_failure \<Rightarrow> raise_oserror))))"

text \<open>Running the encoder writes the temporary file, a part of it as long as it runs.\<close>

definition encode :: "tools \<Rightarrow> ownership \<Rightarrow> string list \<Rightarrow> content \<Rightarrow> encode_result act" where
  "encode tls own cmd orig =
     andthen (asks p_calls) (\<lambda>n.
     let enc = tl_encode tls n cmd orig
     in andthen (modify (\<lambda>s. s\<lparr>p_calls := p_calls s + 1, p_fs := (p_fs s)(own_tmp own := en_partial enc)\<rparr>)) (\<lambda>_.
        andthen (await_point own) (\<lambda>_.
        andthen (modify (\<lambda>s. s\<lparr>p_fs := (p_fs s)(own_tmp own := en_file enc)\<rparr>)) (\<lambda>_.
        finish (run_encode (en_end enc) (en_lines enc) (map_option (tl_size tls) (en_file enc)))))))"

definition diagnosis :: "string \<Rightarrow> int \<Rightarrow> search_state \<Rightarrow> diagnostics" where
  "diagnosis backend crf st = \<lparr>dg_crf = Some crf, dg_backend = Some backend, dg_mean = ss_mean st, dg_perc5 = ss_perc5 st\<rparr>"

text \<open>A stream loss carries the resolved quality and backend only.\<close>

definition stream_diagnosis :: "string \<Rightarrow> int \<Rightarrow> diagnostics" where
  "stream_diagnosis backend crf = \<lparr>dg_crf = Some crf, dg_backend = Some backend, dg_mean = None, dg_perc5 = None\<rparr>"

definition transcode_step ::
  "tools \<Rightarrow> ownership \<Rightarrow> pipeline_args \<Rightarrow> string \<Rightarrow> search_state \<Rightarrow> int \<Rightarrow> content \<Rightarrow> stream_info list \<Rightarrow> stream_plan act"
where
  "transcode_step tls own a backend st crf orig streams =
     andthen (await_point own) (\<lambda>_.
     andthen (command (await_point own) (\<lambda>n. unmuxable_subtitle_indexes (tl_subtitles tls n orig))) (\<lambda>drop_subs.
     let plan = plan_streams streams (pa_codec a) drop_subs
     in case check_plan_covers_source streams plan (stream_diagnosis backend crf) of
          Some e \<Rightarrow> raise_error e
        | None \<Rightarrow>
            (case build_encode_command (pa_codec a) backend (path_text (own_source own)) (path_text (own_tmp own))
                    (ss_quality st) (pa_content a) (pa_target_height a) (Some plan) of
               None \<Rightarrow> raise_error Value_error
             | Some cmd \<Rightarrow>
                 andthen (encode tls own cmd orig) (\<lambda>result.
                 if \<not> er_success result then raise_error (Pipeline_error ''TRANSCODE'') else finish plan))))"

definition gauge_graph :: "tools \<Rightarrow> pipeline_args \<Rightarrow> int option \<Rightarrow> nat \<Rightarrow> string" where
  "gauge_graph tls a source_height n =
     build_gauge_graph (select_model (or_else (pa_target_height a) source_height)) (tl_gauge_log tls n)
       VMAF_SUBSAMPLE (tl_cpu_count tls) (pa_target_height a)"

definition quality_gate ::
  "tools \<Rightarrow> ownership \<Rightarrow> pipeline_args \<Rightarrow> int option \<Rightarrow> diagnostics \<Rightarrow> bool \<Rightarrow> content \<Rightarrow> content \<Rightarrow> (num \<times> num) option act"
where
  "quality_gate tls own a source_height diag available orig e =
     (if pa_target_vmaf a = None \<or> \<not> available then finish None
      else andthen (await_point own) (\<lambda>_.
           andthen (command (await_point own) (\<lambda>n. measure_vmaf (tl_gauge tls n (gauge_graph tls a source_height n) orig e))) (\<lambda>r.
           case r of
             Inl Vmaf_unavailable \<Rightarrow> finish None
           | Inl Vmaf_error \<Rightarrow> raise_error (Pipeline_error ''COMPARE'')
           | Inl Os_failure \<Rightarrow> raise_oserror
           | Inr score \<Rightarrow>
               if vs_mean score < pa_safety_mean a \<or> vs_perc5 score < pa_safety_perc5 a
               then raise_error (Vmaf_gate (vs_mean score) (vs_perc5 score) (pa_safety_mean a) (pa_safety_perc5 a) diag)
               else finish (Some (vs_mean score, vs_perc5 score)))))"

definition compare_step ::
  "tools \<Rightarrow> ownership \<Rightarrow> pipeline_args \<Rightarrow> int \<Rightarrow> string \<Rightarrow> int option \<Rightarrow> search_state \<Rightarrow> int \<Rightarrow> content \<Rightarrow> stream_plan
   \<Rightarrow> (int \<times> (num \<times> num) option) act"
where
  "compare_step tls own a source_size backend source_height st crf orig plan =
     andthen (read_path (own_tmp own)) (\<lambda>file.
     case file of
       None \<Rightarrow> raise_error (Pipeline_error ''COMPARE'')
     | Some e \<Rightarrow>
         andthen (command (await_point own) (\<lambda>n. stream_inventory (tl_streams tls n e))) (\<lambda>actual.
         case verify_stream_inventory actual plan (stream_diagnosis backend crf) of
           Some x \<Rightarrow> raise_error x
         | None \<Rightarrow>
             if source_size \<le> tl_size tls e
             then raise_error (Size_regression source_size (tl_size tls e) (diagnosis backend crf st))
             else andthen (quality_gate tls own a source_height (diagnosis backend crf st) (ss_available st) orig e) (\<lambda>vmaf.
                  finish (tl_size tls e, vmaf))))"

definition pipeline_body ::
  "tools \<Rightarrow> ownership \<Rightarrow> pipeline_args \<Rightarrow> int \<Rightarrow> string \<Rightarrow> int option \<Rightarrow> content \<Rightarrow> pipeline_result act"
where
  "pipeline_body tls own a source_size backend source_height orig =
     andthen (source_inventory tls own orig) (\<lambda>streams.
     andthen (quality_search tls own a backend source_height orig (primary_video_index streams)) (\<lambda>st.
     case map_quality (pa_codec a) backend (ss_quality st) of
       None \<Rightarrow> raise_error Value_error
     | Some crf \<Rightarrow>
         andthen (transcode_step tls own a backend st crf orig streams) (\<lambda>plan.
         andthen (await_point own) (\<lambda>_.
         andthen (verify_output tls (await_point own) (own_tmp own) (pa_duration a) (pa_codec a) (pa_target_height a)) (\<lambda>_.
         andthen (compare_step tls own a source_size backend source_height st crf orig plan) (\<lambda>(output_size, vmaf).
         andthen (await_point own) (\<lambda>_.
         andthen (own_swap own) (\<lambda>_.
         andthen (confirming (verify_output tls (await_point own) (own_source own) (pa_duration a) (pa_codec a) (pa_target_height a))) (\<lambda>_.
         andthen (own_confirm own) (\<lambda>_.
         finish \<lparr>rp_source_size = source_size, rp_output_size = output_size, rp_space_saved = source_size - output_size,
           rp_backend = backend, rp_resolved_crf = crf, rp_vmaf_mean = map_option fst vmaf, rp_vmaf_perc5 = map_option snd vmaf,
           rp_predicted_mean = ss_mean st, rp_predicted_perc5 = ss_perc5 st\<rparr>))))))))))"

definition run_pipeline :: "tools \<Rightarrow> pipeline_args \<Rightarrow> pipeline_result act" where
  "run_pipeline tls a =
     andthen (read_path (pa_source a)) (\<lambda>file.
     case file of
       None \<Rightarrow> raise_oserror
     | Some orig \<Rightarrow>
         andthen (probe_source tls a orig) (\<lambda>(backend, source_height).
         andthen (check_downscale a source_height) (\<lambda>_.
         owned (own_of a) (pipeline_body tls (own_of a) a (tl_size tls orig) backend source_height orig))))"

section \<open>What the gates accept\<close>

text \<open>
  The specification of the pipeline's gates, over the answers of the tools: an output one run of the
  checks accepted, an output that carries the planned streams in order, and one whose quality was
  measured above the floors unless no quality was asked for or no measurement was possible.
\<close>

definition verified :: "tools \<Rightarrow> pipeline_args \<Rightarrow> content \<Rightarrow> bool" where
  "verified tls a e \<longleftrightarrow> tl_size tls e \<noteq> 0 \<and>
     (\<exists>n probe. ffprobe (tl_size tls e) (tl_video tls n e) = Inr probe
        \<and> pr_video_codec probe = pa_codec a
        \<and> (\<forall>h. pa_target_height a = Some h \<longrightarrow> pr_height probe = h)
        \<and> \<bar>pr_duration probe - pa_duration a\<bar> \<le> DURATION_TOLERANCE
        \<and> (\<forall>t \<in> set (snd (decode_plan (pr_duration probe))).
             \<exists>k err. tl_decode tls k t (fst (decode_plan (pr_duration probe))) e = Exited 0 err \<and> strip err = []))"

definition streams_kept :: "tools \<Rightarrow> pipeline_args \<Rightarrow> content \<Rightarrow> content \<Rightarrow> bool" where
  "streams_kept tls a orig e \<longleftrightarrow>
     (\<exists>n streams m produced drop_subs.
        stream_inventory (tl_streams tls n orig) = Inr streams
        \<and> stream_inventory (tl_streams tls m e) = Inr produced
        \<and> (\<forall>s \<in> set streams. st_index s \<in> set (accounted_indexes (plan_streams streams (pa_codec a) drop_subs)))
        \<and> subseq (map planned_key (plan_kept (plan_streams streams (pa_codec a) drop_subs))) (map stream_key produced))"

definition unmeasurable :: "tools \<Rightarrow> bool" where
  "unmeasurable tls \<longleftrightarrow> (\<exists>n. \<not> tl_libvmaf tls n)
     \<or> (\<exists>n c p offs codec backend h t f. fst (find_quality_for_target (tl_clips tls n c p offs) (tl_samples tls n c codec backend h) t f)
           = Inl Vmaf_unavailable)
     \<or> (\<exists>n g c e. measure_vmaf (tl_gauge tls n g c e) = Inl Vmaf_unavailable)"

definition quality_kept :: "tools \<Rightarrow> pipeline_args \<Rightarrow> content \<Rightarrow> content \<Rightarrow> bool" where
  "quality_kept tls a orig e \<longleftrightarrow> pa_target_vmaf a = None \<or> unmeasurable tls
     \<or> (\<exists>n h score. measure_vmaf (tl_gauge tls n (gauge_graph tls a h n) orig e) = Inr score
          \<and> pa_safety_mean a \<le> vs_mean score \<and> pa_safety_perc5 a \<le> vs_perc5 score)"

definition acceptable :: "tools \<Rightarrow> pipeline_args \<Rightarrow> content \<Rightarrow> content \<Rightarrow> bool" where
  "acceptable tls a orig e \<longleftrightarrow>
     verified tls a e \<and> streams_kept tls a orig e \<and> tl_size tls e < tl_size tls orig \<and> quality_kept tls a orig e"

text \<open>A state that heartbeats and command counting leave alone, and work that stays inside it.\<close>

definition quiet :: "(process \<Rightarrow> bool) \<Rightarrow> 'a act \<Rightarrow> ('a \<Rightarrow> bool) \<Rightarrow> bool" where
  "quiet J m P \<longleftrightarrow> (\<forall>s. J s \<longrightarrow> wp m (\<lambda>r s'. J s' \<and> (\<forall>x. r = Done x \<longrightarrow> P x)) s)"

definition fits :: "tools \<Rightarrow> content \<Rightarrow> pipeline_result \<Rightarrow> content \<Rightarrow> bool" where
  "fits tls orig res e \<longleftrightarrow> rp_source_size res = tl_size tls orig \<and> rp_output_size res = tl_size tls e
     \<and> rp_space_saved res = tl_size tls orig - tl_size tls e"

text \<open>A small instance: an \<open>h264\<close> file whose encode is smaller and passes every check.\<close>

definition demo_raw :: "string \<Rightarrow> raw_stream" where
  "demo_raw codec = \<lparr>rw_index = Some 0, rw_codec_type = Some ''video'', rw_codec_name = Some codec, rw_width = Some 1920,
     rw_height = Some 1080, rw_bit_rate = None, rw_duration = None, rw_pix_fmt = Some ''yuv420p'', rw_language = None,
     rw_attached_pic = 0, rw_forced = 0\<rparr>"

definition demo_probe :: "content \<Rightarrow> probe_output" where
  "demo_probe c = Exited 0 (Some ([demo_raw (if c = Media ''small'' then ''hevc'' else ''h264'')],
     \<lparr>fm_bit_rate = None, fm_duration = Some 60, fm_size = None\<rparr>))"

definition demo_tools :: tools where
  "demo_tools = \<lparr>tl_size = (\<lambda>c. if c = Media ''small'' then 5 else 9), tl_video = (\<lambda>_. demo_probe), tl_streams = (\<lambda>_. demo_probe),
     tl_subtitles = (\<lambda>_ _. Some []), tl_libvmaf = (\<lambda>_. True), tl_clips = (\<lambda>_ _ _ _. []), tl_samples = (\<lambda>_ _ _ _ _ _. []),
     tl_encode = (\<lambda>_ _ _. \<lparr>en_partial = Some Torn, en_end = Exited 0 (), en_lines = [], en_file = Some (Media ''small'')\<rparr>),
     tl_decode = (\<lambda>_ _ _ _. Exited 0 []), tl_gauge_log = (\<lambda>_. []), tl_cpu_count = 1,
     tl_gauge = (\<lambda>_ _ _ _. Exited 0 \<lparr>gr_stderr = [], gr_log = Some [Finite 96]\<rparr>)\<rparr>"

definition demo_args :: pipeline_args where
  "demo_args = \<lparr>pa_source = (''/m'', ''a.mkv''), pa_codec = ''hevc'', pa_backend = ''cpu'', pa_quality = 22, pa_duration = 60,
     pa_job = ''j1'', pa_worker = ''w1'', pa_target_vmaf = Some 95, pa_safety_mean = 91, pa_safety_perc5 = 86,
     pa_crf_search = False, pa_content = None, pa_target_height = None\<rparr>"

section \<open>Streams\<close>

lemma covers_in_order_subseq: "covers_in_order promised produced \<longleftrightarrow> subseq promised produced"
proof (induction promised arbitrary: produced)
  case Nil
  then show ?case by simp
next
  case (Cons key promised)
  show ?case
  proof (induction produced)
    case Nil
    then show ?case by simp
  next
    case (Cons c produced)
    with \<open>\<And>produced. covers_in_order promised produced = subseq promised produced\<close> show ?case
      by (cases "c = key") (auto simp: subseq_Cons2_iff)
  qed
qed

lemma check_plan_accounts:
  assumes "check_plan_covers_source streams plan diag = None" and "s \<in> set streams"
  shows "st_index s \<in> set (accounted_indexes plan)"
  using assms
  by (auto simp: check_plan_covers_source_def Let_def filter_empty_conv count_list_0_iff split: if_splits)

lemma verify_inventory_covers:
  assumes "verify_stream_inventory actual (plan_streams streams codec d) diag = None"
  shows "\<exists>produced. actual = Inr produced
    \<and> subseq (map planned_key (plan_kept (plan_streams streams codec d))) (map stream_key produced)"
  using assms
  by (auto simp: verify_stream_inventory_def Let_def covers_in_order_subseq split: sum.splits if_splits)

section \<open>Quiet work\<close>

lemma quiet_finish: "P x \<Longrightarrow> quiet J (finish x) P"
  by (simp add: quiet_def wp_finish)

lemma quiet_raise: "quiet J (raise_error e) P"
  by (simp add: quiet_def wp_raise)

lemma quiet_oserror: "quiet J raise_oserror P"
  by (simp add: quiet_def wp_def raise_oserror_def)

lemma quiet_andthen:
  assumes "quiet J m P" and "\<And>x. P x \<Longrightarrow> quiet J (f x) Q"
  shows "quiet J (andthen m f) Q"
  unfolding quiet_def
proof (intro allI impI wp_andthen)
  fix s assume "J s"
  with assms(1) have "wp m (\<lambda>r s'. J s' \<and> (\<forall>x. r = Done x \<longrightarrow> P x)) s" by (simp add: quiet_def)
  then show "wp m (\<lambda>r s'. case r of Done a \<Rightarrow> wp (f a) (\<lambda>r s'. J s' \<and> (\<forall>x. r = Done x \<longrightarrow> Q x)) s'
     | OSError \<Rightarrow> J s' \<and> (\<forall>x. OSError = Done x \<longrightarrow> Q x) | Raised e \<Rightarrow> J s' \<and> (\<forall>x. Raised e = Done x \<longrightarrow> Q x)
     | Crashed \<Rightarrow> J s' \<and> (\<forall>x. Crashed = Done x \<longrightarrow> Q x)) s"
    by (rule wp_mono) (use assms(2) in \<open>auto simp: quiet_def split: result.splits\<close>)
qed

lemma quiet_read: "(\<And>s. J s \<Longrightarrow> p_fs s p = f) \<Longrightarrow> quiet J (read_path p) (\<lambda>x. x = f)"
  by (simp add: quiet_def read_path_def wp_asks)

lemma quiet_mono: "quiet J m P \<Longrightarrow> (\<And>x. P x \<Longrightarrow> Q x) \<Longrightarrow> quiet J m Q"
  unfolding quiet_def by (auto elim!: wp_mono)

text \<open>Leaving a quiet stage: what follows starts in the stage, and every failure ends in it.\<close>

lemma wp_quiet_then:
  assumes "quiet J m P" and "J s" and "\<And>x s'. J s' \<Longrightarrow> P x \<Longrightarrow> wp (f x) Q s'"
    and "\<And>r s'. J s' \<Longrightarrow> \<forall>x. r \<noteq> Done x \<Longrightarrow> Q r s'"
  shows "wp (andthen m f) Q s"
proof (rule wp_andthen)
  from assms(1,2) have "wp m (\<lambda>r s'. J s' \<and> (\<forall>x. r = Done x \<longrightarrow> P x)) s" by (simp add: quiet_def)
  then show "wp m (\<lambda>r s'. case r of Done a \<Rightarrow> wp (f a) Q s' | OSError \<Rightarrow> Q OSError s'
     | Raised e \<Rightarrow> Q (Raised e) s' | Crashed \<Rightarrow> Q Crashed s') s"
    by (rule wp_mono) (use assms(3,4) in \<open>auto split: result.splits\<close>)
qed

lemma quiet_confirming:
  assumes "quiet J m P"
  shows "quiet J (confirming m) P"
  unfolding quiet_def wp_def
proof (intro allI impI)
  fix s os assume "J s"
  obtain r os' s' where m: "m os s = (r, os', s')" by (rule prod_cases3)
  with assms \<open>J s\<close> have "J s' \<and> (\<forall>x. r = Done x \<longrightarrow> P x)"
    unfolding quiet_def wp_def by (metis (mono_tags, lifting) case_prod_conv)
  with m show "case confirming m os s of (r, os', s') \<Rightarrow> J s' \<and> (\<forall>x. r = Done x \<longrightarrow> P x)"
    by (cases r) (simp_all add: confirming_def)
qed

text \<open>
  A stage of the transaction: a set of states that heartbeats and the counting of commands do not
  leave. Every command of the pipeline is quiet in every stage; the three stages the pipeline goes
  through are interpretations.
\<close>

locale stage =
  fixes own :: ownership and J :: "process \<Rightarrow> bool"
  assumes beats_stay: "J s \<Longrightarrow> beat_frame own s s' \<Longrightarrow> J s'"
    and counting_stays: "J s \<Longrightarrow> J (s\<lparr>p_calls := n\<rparr>)"
begin

lemma quiet_await: "quiet J (await_point own) (\<lambda>_. True)"
  unfolding quiet_def by (intro allI impI, rule wp_await) (use beats_stay in blast)

lemma quiet_command:
  assumes "\<And>n. P (answer n)"
  shows "quiet J (command (await_point own) answer) P"
  unfolding command_def
  by (rule quiet_andthen [OF quiet_await]) (simp add: quiet_def wp_def assms counting_stays)

lemma quiet_command_any: "quiet J (command (await_point own) answer) (\<lambda>x. \<exists>n. x = answer n)"
  by (rule quiet_command) blast

lemma quiet_decode:
  "quiet J (decode_at tls (await_point own) c sample offsets)
     (\<lambda>_. \<forall>t \<in> set offsets. \<exists>k err. tl_decode tls k t sample c = Exited 0 err \<and> strip err = [])"
proof (induction offsets)
  case Nil
  then show ?case by (simp add: quiet_finish)
next
  case (Cons t offsets)
  show ?case unfolding decode_at.simps
  proof (rule quiet_andthen [OF quiet_command_any], erule exE)
    fix x n assume x: "x = tl_decode tls n t sample c"
    show "quiet J (case x of Timed_out \<Rightarrow> raise_error (Pipeline_error ''VERIFY'') | No_binary \<Rightarrow> raise_oserror
       | Exited rc err \<Rightarrow> if rc \<noteq> 0 \<or> strip err \<noteq> [] then raise_error (Pipeline_error ''VERIFY'')
           else decode_at tls (await_point own) c sample offsets)
       (\<lambda>_. \<forall>t \<in> set (t # offsets). \<exists>k err. tl_decode tls k t sample c = Exited 0 err \<and> strip err = [])"
    proof (cases x)
      case (Exited rc err)
      show ?thesis
      proof (cases "rc \<noteq> 0 \<or> strip err \<noteq> []")
        case False
        with x Exited have "tl_decode tls n t sample c = Exited 0 err" "strip err = []" by auto
        with False Exited show ?thesis by (simp, intro quiet_mono [OF Cons.IH]) auto
      qed (simp add: Exited quiet_raise)
    qed (simp_all add: quiet_raise quiet_oserror)
  qed
qed

lemma quiet_verify:
  assumes "\<And>s. J s \<Longrightarrow> p_fs s p = found"
  shows "quiet J (verify_output tls (await_point own) p (pa_duration a) (pa_codec a) (pa_target_height a))
     (\<lambda>_. \<exists>e. found = Some e \<and> verified tls a e)"
  unfolding verify_output_def
proof (rule quiet_andthen [OF quiet_read [OF assms]], assumption)
  fix x assume "x = found"
  show "quiet J (case x of None \<Rightarrow> raise_error (Pipeline_error ''VERIFY'')
     | Some c \<Rightarrow> if tl_size tls c = 0 then raise_error (Pipeline_error ''VERIFY'')
         else andthen (command (await_point own) (\<lambda>n. ffprobe (tl_size tls c) (tl_video tls n c))) (\<lambda>r.
           case r of Inl _ \<Rightarrow> raise_error (Pipeline_error ''VERIFY'')
           | Inr probe \<Rightarrow>
               if pr_video_codec probe \<noteq> pa_codec a then raise_error (Pipeline_error ''VERIFY'')
               else if pa_target_height a \<noteq> None \<and> pa_target_height a \<noteq> Some (pr_height probe)
               then raise_error (Pipeline_error ''VERIFY'')
               else if DURATION_TOLERANCE < \<bar>pr_duration probe - pa_duration a\<bar>
               then raise_error (Pipeline_error ''VERIFY'')
               else decode_check tls (await_point own) c (pr_duration probe))) (\<lambda>_. \<exists>e. found = Some e \<and> verified tls a e)"
  proof (cases x)
    case None
    then show ?thesis by (simp add: quiet_raise)
  next
    case (Some c)
    have "quiet J (case r of Inl _ \<Rightarrow> raise_error (Pipeline_error ''VERIFY'')
           | Inr probe \<Rightarrow>
               if pr_video_codec probe \<noteq> pa_codec a then raise_error (Pipeline_error ''VERIFY'')
               else if pa_target_height a \<noteq> None \<and> pa_target_height a \<noteq> Some (pr_height probe)
               then raise_error (Pipeline_error ''VERIFY'')
               else if DURATION_TOLERANCE < \<bar>pr_duration probe - pa_duration a\<bar>
               then raise_error (Pipeline_error ''VERIFY'')
               else decode_check tls (await_point own) c (pr_duration probe)) (\<lambda>_. \<exists>e. found = Some e \<and> verified tls a e)"
      if "tl_size tls c \<noteq> 0" "\<exists>n. r = ffprobe (tl_size tls c) (tl_video tls n c)" for r
    proof (cases r)
      case (Inl _)
      then show ?thesis by (simp add: quiet_raise)
    next
      case (Inr probe)
      with that(2) obtain n where n: "ffprobe (tl_size tls c) (tl_video tls n c) = Inr probe" by auto
      show ?thesis
      proof (cases "pr_video_codec probe \<noteq> pa_codec a \<or> pa_target_height a \<noteq> None \<and> pa_target_height a \<noteq> Some (pr_height probe)
          \<or> DURATION_TOLERANCE < \<bar>pr_duration probe - pa_duration a\<bar>")
        case True
        with Inr show ?thesis by (auto simp: quiet_raise)
      next
        case False
        have "quiet J (decode_check tls (await_point own) c (pr_duration probe)) (\<lambda>_. \<exists>e. found = Some e \<and> verified tls a e)"
          unfolding decode_check_def
        proof (rule quiet_mono [OF quiet_decode])
          fix y :: unit
          assume "\<forall>t \<in> set (snd (decode_plan (pr_duration probe))).
            \<exists>k err. tl_decode tls k t (fst (decode_plan (pr_duration probe))) c = Exited 0 err \<and> strip err = []"
          then have "verified tls a c" unfolding verified_def using False n that(1)
            by (intro conjI exI [of _ n] exI [of _ probe]) auto
          with Some \<open>x = found\<close> show "\<exists>e. found = Some e \<and> verified tls a e" by blast
        qed
        with False Inr show ?thesis by auto
      qed
    qed
    with Some show ?thesis by (auto intro!: quiet_raise quiet_andthen [OF quiet_command_any])
  qed
qed

lemma quiet_source_inventory:
  "quiet J (source_inventory tls own orig) (\<lambda>streams. \<exists>n. stream_inventory (tl_streams tls n orig) = Inr streams)"
  unfolding source_inventory_def
proof (rule quiet_andthen [OF quiet_command_any])
  fix x assume "\<exists>n. x = stream_inventory (tl_streams tls n orig)"
  then show "quiet J (case x of Inl _ \<Rightarrow> raise_error (Pipeline_error ''TRANSCODE'') | Inr streams \<Rightarrow> finish streams)
     (\<lambda>streams. \<exists>n. stream_inventory (tl_streams tls n orig) = Inr streams)"
    by (cases x) (auto intro!: quiet_raise quiet_finish)
qed

text \<open>A search that leaves measurement switched off has seen that it is impossible.\<close>

lemma quiet_search:
  "quiet J (quality_search tls own a backend h orig primary)
     (\<lambda>st. pa_target_vmaf a \<noteq> None \<and> \<not> ss_available st \<longrightarrow> unmeasurable tls)"
proof (cases "pa_target_vmaf a")
  case None
  then show ?thesis by (simp add: quality_search_def Let_def quiet_finish)
next
  case (Some target)
  define Q where "Q st \<longleftrightarrow> (pa_target_vmaf a \<noteq> None \<and> \<not> ss_available st \<longrightarrow> unmeasurable tls)" for st :: search_state
  define fixed where "fixed available = \<lparr>ss_quality = pa_quality a, ss_available = available, ss_mean = None, ss_perc5 = None\<rparr>" for available
  let ?f = "\<lambda>n. fst (find_quality_for_target (tl_clips tls n orig primary (sample_offsets (pa_duration a)))
       (tl_samples tls n orig (pa_codec a) backend (pa_target_height a)) target (target - 2))"
  let ?k = "\<lambda>r. case r of
       Inr (Some best) \<Rightarrow> finish \<lparr>ss_quality = qs_quality best, ss_available = True,
                     ss_mean = Some (qs_predicted_mean best), ss_perc5 = Some (qs_predicted_perc5 best)\<rparr>
     | Inr None \<Rightarrow> finish (fixed True) | Inl Vmaf_unavailable \<Rightarrow> finish (fixed False)
     | Inl Vmaf_error \<Rightarrow> finish (fixed True) | Inl Os_failure \<Rightarrow> raise_oserror"
  have one: "quiet J (?k r) Q" if "\<exists>n. r = ?f n" for r
  proof (cases r)
    case (Inl e)
    with that have "e = Vmaf_unavailable \<Longrightarrow> unmeasurable tls" unfolding unmeasurable_def by metis
    with Inl show ?thesis by (cases e) (auto intro!: quiet_finish quiet_oserror simp: Q_def fixed_def)
  next
    case (Inr b)
    then show ?thesis by (cases b) (auto intro!: quiet_finish simp: Q_def fixed_def)
  qed
  have "quiet J (andthen (command (await_point own) (tl_libvmaf tls)) (\<lambda>available.
          if \<not> pa_crf_search a \<or> \<not> available then finish (fixed available)
          else andthen (await_point own) (\<lambda>_. andthen (command (await_point own) ?f) ?k))) Q"
  proof (rule quiet_andthen [OF quiet_command_any])
    fix available assume "\<exists>n. available = tl_libvmaf tls n"
    then have "\<not> available \<Longrightarrow> unmeasurable tls" by (auto simp: unmeasurable_def)
    then have "quiet J (finish (fixed available)) Q" by (intro quiet_finish) (simp add: Q_def fixed_def)
    moreover have "quiet J (andthen (await_point own) (\<lambda>_. andthen (command (await_point own) ?f) ?k)) Q"
      by (rule quiet_andthen [OF quiet_await], rule quiet_andthen [OF quiet_command_any], rule one)
    ultimately show "quiet J (if \<not> pa_crf_search a \<or> \<not> available then finish (fixed available)
          else andthen (await_point own) (\<lambda>_. andthen (command (await_point own) ?f) ?k)) Q" by simp
  qed
  then show ?thesis unfolding quality_search_def Let_def Some option.case Q_def fixed_def by simp
qed

lemma quiet_gate:
  assumes "pa_target_vmaf a \<noteq> None \<and> \<not> available \<longrightarrow> unmeasurable tls"
  shows "quiet J (quality_gate tls own a h diag available orig e) (\<lambda>_. quality_kept tls a orig e)"
proof (cases "pa_target_vmaf a = None \<or> \<not> available")
  case True
  with assms show ?thesis by (auto simp: quality_gate_def quality_kept_def intro!: quiet_finish)
next
  case False
  let ?k = "\<lambda>r. case r of Inl Vmaf_unavailable \<Rightarrow> finish None
           | Inl Vmaf_error \<Rightarrow> raise_error (Pipeline_error ''COMPARE'')
           | Inl Os_failure \<Rightarrow> raise_oserror
           | Inr score \<Rightarrow>
               if vs_mean score < pa_safety_mean a \<or> vs_perc5 score < pa_safety_perc5 a
               then raise_error (Vmaf_gate (vs_mean score) (vs_perc5 score) (pa_safety_mean a) (pa_safety_perc5 a) diag)
               else finish (Some (vs_mean score, vs_perc5 score))"
  have k: "quiet J (?k r) (\<lambda>_. quality_kept tls a orig e)"
    if "\<exists>n. r = measure_vmaf (tl_gauge tls n (gauge_graph tls a h n) orig e)" for r
  proof (cases r)
    case (Inl x)
    with that have "x = Vmaf_unavailable \<Longrightarrow> unmeasurable tls" unfolding unmeasurable_def by metis
    with Inl show ?thesis by (cases x) (auto intro!: quiet_finish quiet_oserror quiet_raise simp: quality_kept_def)
  next
    case (Inr score)
    have "quality_kept tls a orig e" if "\<not> (vs_mean score < pa_safety_mean a \<or> vs_perc5 score < pa_safety_perc5 a)"
      using \<open>\<exists>n. r = _\<close> Inr that unfolding quality_kept_def by (metis not_less)
    with Inr show ?thesis by (auto intro!: quiet_raise quiet_finish)
  qed
  have "quiet J (andthen (await_point own) (\<lambda>_. andthen
      (command (await_point own) (\<lambda>n. measure_vmaf (tl_gauge tls n (gauge_graph tls a h n) orig e))) ?k)) (\<lambda>_. quality_kept tls a orig e)"
    by (rule quiet_andthen [OF quiet_await], rule quiet_andthen [OF quiet_command_any], rule k)
  with False show ?thesis unfolding quality_gate_def by (simp only: if_False)
qed

lemma quiet_compare:
  assumes "\<And>s. J s \<Longrightarrow> p_fs s (own_tmp own) = found"
    and "pa_target_vmaf a \<noteq> None \<and> \<not> ss_available st \<longrightarrow> unmeasurable tls"
  shows "quiet J (compare_step tls own a source_size backend h st crf orig plan)
     (\<lambda>(size, _). \<exists>e n. found = Some e \<and> size = tl_size tls e \<and> size < source_size \<and> quality_kept tls a orig e
        \<and> verify_stream_inventory (stream_inventory (tl_streams tls n e)) plan (stream_diagnosis backend crf) = None)"
    (is "quiet J _ ?Q")
proof -
  let ?gate = "\<lambda>e. quality_gate tls own a h (diagnosis backend crf st) (ss_available st) orig e"
  let ?k = "\<lambda>e actual. case verify_stream_inventory actual plan (stream_diagnosis backend crf) of
           Some x \<Rightarrow> raise_error x
         | None \<Rightarrow> if source_size \<le> tl_size tls e
             then raise_error (Size_regression source_size (tl_size tls e) (diagnosis backend crf st))
             else andthen (?gate e) (\<lambda>vmaf. finish (tl_size tls e, vmaf))"
  have k: "quiet J (?k e actual) ?Q" if "found = Some e" "\<exists>n. actual = stream_inventory (tl_streams tls n e)" for e actual
  proof (cases "verify_stream_inventory actual plan (stream_diagnosis backend crf) = None \<and> \<not> source_size \<le> tl_size tls e")
    case True
    have "quiet J (andthen (?gate e) (\<lambda>vmaf. finish (tl_size tls e, vmaf))) ?Q"
      by (rule quiet_andthen [OF quiet_gate [OF assms(2)]], rule quiet_finish) (use that True in auto)
    with True show ?thesis by simp
  next
    case False
    then show ?thesis by (auto intro!: quiet_raise split: option.splits)
  qed
  show ?thesis unfolding compare_step_def
  proof (rule quiet_andthen [OF quiet_read [OF assms(1)]], assumption)
    fix x assume "x = found"
    show "quiet J (case x of None \<Rightarrow> raise_error (Pipeline_error ''COMPARE'')
       | Some e \<Rightarrow> andthen (command (await_point own) (\<lambda>n. stream_inventory (tl_streams tls n e))) (?k e)) ?Q"
    proof (cases x)
      case (Some e)
      have "quiet J (andthen (command (await_point own) (\<lambda>n. stream_inventory (tl_streams tls n e))) (?k e)) ?Q"
        by (rule quiet_andthen [OF quiet_command_any], rule k) (use Some \<open>x = found\<close> in auto)
      with Some show ?thesis by simp
    qed (simp add: quiet_raise)
  qed
qed

end

lemma counting_keeps [simp]:
  "tx_untouched own orig (s\<lparr>p_calls := n\<rparr>) = tx_untouched own orig s"
  "tx_mutated own orig (s\<lparr>p_calls := n\<rparr>) = tx_mutated own orig s"
  by (simp_all add: tx_untouched_def tx_mutated_def tx_lock_def)

interpretation untouched: stage own "tx_untouched own orig" for own orig
  by unfold_locales (auto dest: beat_keeps(2))

interpretation encoded: stage own "\<lambda>s. tx_untouched own orig s \<and> p_fs s (own_tmp own) = found" for own orig found
  by unfold_locales (auto dest: beat_keeps(2,6))

interpretation swapped: stage own "\<lambda>s. tx_mutated own orig s \<and> p_fs s (own_source own) = Some e \<and> p_fs s (own_bak own) = Some orig"
  for own orig e
  by unfold_locales (auto dest: beat_keeps(3,5,7))
section \<open>The whole pipeline\<close>

lemma quiet_modify: "(\<And>s. J s \<Longrightarrow> J (f s)) \<Longrightarrow> quiet J (modify f) (\<lambda>_. True)"
  by (simp add: quiet_def wp_modify)

lemma quiet_asks: "quiet J (asks f) (\<lambda>_. True)"
  by (simp add: quiet_def wp_asks)

lemma untouched_tmp [simp]:
  "tx_untouched own orig (s\<lparr>p_fs := (p_fs s)(own_tmp own := c)\<rparr>) = tx_untouched own orig s"
  by (simp add: tx_untouched_def tx_lock_def)

lemma quiet_encode: "quiet (tx_untouched own orig) (encode tls own cmd c) (\<lambda>_. True)"
  unfolding encode_def Let_def
  by (intro quiet_andthen [OF quiet_asks] quiet_andthen [OF quiet_modify] quiet_andthen [OF untouched.quiet_await] quiet_finish)
    (simp_all add: tx_untouched_def tx_lock_def)

lemma quiet_transcode:
  "quiet (tx_untouched own orig) (transcode_step tls own a backend st crf orig streams)
     (\<lambda>plan. \<exists>d. plan = plan_streams streams (pa_codec a) d \<and> (\<forall>s \<in> set streams. st_index s \<in> set (accounted_indexes plan)))"
  (is "quiet ?J _ ?P")
  unfolding transcode_step_def
proof (rule quiet_andthen [OF untouched.quiet_await], rule quiet_andthen [OF untouched.quiet_command_any])
  fix drop_subs :: "int list"
  let ?plan = "plan_streams streams (pa_codec a) drop_subs"
  let ?check = "check_plan_covers_source streams ?plan (stream_diagnosis backend crf)"
  let ?cmd = "build_encode_command (pa_codec a) backend (path_text (own_source own)) (path_text (own_tmp own))
                    (ss_quality st) (pa_content a) (pa_target_height a) (Some ?plan)"
  let ?run = "\<lambda>cmd. andthen (encode tls own cmd orig) (\<lambda>result.
                 if \<not> er_success result then raise_error (Pipeline_error ''TRANSCODE'') else finish ?plan)"
  have run: "quiet ?J (?run cmd) ?P" if "?check = None" for cmd
  proof (rule quiet_andthen [OF quiet_encode])
    fix result
    have "?P ?plan" using check_plan_accounts [OF that] by blast
    then show "quiet ?J (if \<not> er_success result then raise_error (Pipeline_error ''TRANSCODE'') else finish ?plan) ?P"
      by (auto intro!: quiet_raise quiet_finish)
  qed
  have "quiet ?J (case ?check of Some e \<Rightarrow> raise_error e
      | None \<Rightarrow> (case ?cmd of None \<Rightarrow> raise_error Value_error | Some cmd \<Rightarrow> ?run cmd)) ?P"
    using run by (cases ?check; cases ?cmd) (simp_all add: quiet_raise)
  then show "quiet ?J (let plan = ?plan in case check_plan_covers_source streams plan (stream_diagnosis backend crf) of
      Some e \<Rightarrow> raise_error e
    | None \<Rightarrow> (case build_encode_command (pa_codec a) backend (path_text (own_source own)) (path_text (own_tmp own))
                    (ss_quality st) (pa_content a) (pa_target_height a) (Some plan) of
               None \<Rightarrow> raise_error Value_error
             | Some cmd \<Rightarrow> andthen (encode tls own cmd orig) (\<lambda>result.
                 if \<not> er_success result then raise_error (Pipeline_error ''TRANSCODE'') else finish plan))) ?P"
    unfolding Let_def .
qed

text \<open>Any failure before the swap leaves the source untouched, any failure after it a mutation to roll back.\<close>

lemma left_untouched: "tx_untouched own orig s \<Longrightarrow> \<forall>x. r \<noteq> Done x \<Longrightarrow> tx_left own orig good ft r s"
  by (cases r) (auto simp: tx_left_def)

lemma left_mutated: "tx_mutated own orig s \<Longrightarrow> \<forall>x. r \<noteq> Done x \<Longrightarrow> tx_left own orig good ft r s"
  by (cases r) (auto simp: tx_left_def)

lemma wp_swap_confirm:
  fixes a :: pipeline_args
  assumes "tx_untouched own orig s" and "p_fs s (own_tmp own) = Some e" and "good e" and "ft res e"
  shows "wp (andthen (own_swap own) (\<lambda>_.
       andthen (confirming (verify_output tls (await_point own) (own_source own) (pa_duration a) (pa_codec a) (pa_target_height a))) (\<lambda>_.
       andthen (own_confirm own) (\<lambda>_. finish res)))) (tx_left own orig good ft) s"
proof (rule wp_andthen, rule wp_swap [OF assms(1,2)])
  fix s1 assume m: "tx_mutated own orig s1" "p_fs s1 (own_source own) = Some e" "p_fs s1 (own_bak own) = Some orig"
  let ?J = "\<lambda>s. tx_mutated own orig s \<and> p_fs s (own_source own) = Some e \<and> p_fs s (own_bak own) = Some orig"
  have "wp (andthen (confirming (verify_output tls (await_point own) (own_source own) (pa_duration a) (pa_codec a) (pa_target_height a))) (\<lambda>_.
       andthen (own_confirm own) (\<lambda>_. finish res))) (tx_left own orig good ft) s1"
  proof (rule wp_quiet_then [where J = ?J and P = "\<lambda>_. True"])
    have "quiet ?J (verify_output tls (await_point own) (own_source own) (pa_duration a) (pa_codec a) (pa_target_height a))
        (\<lambda>_. \<exists>x. Some e = Some x \<and> verified tls a x)"
      by (rule swapped.quiet_verify) simp
    then show "quiet ?J (confirming (verify_output tls (await_point own) (own_source own) (pa_duration a) (pa_codec a) (pa_target_height a))) (\<lambda>_. True)"
      by (rule quiet_confirming [OF quiet_mono]) simp
    show "?J s1" using m by simp
  next
    fix s2 assume J: "?J s2"
    show "wp (andthen (own_confirm own) (\<lambda>_. finish res)) (tx_left own orig good ft) s2"
    proof (rule wp_andthen, rule wp_confirm [where orig = orig and e = e and good = "\<lambda>x. good x \<and> ft res x"])
      fix s3 r assume c: "tx_confirmed own orig (\<lambda>x. good x \<and> ft res x) s3" "r \<in> {Done (), Raised Cancelled_error, Crashed}"
      then have "tx_confirmed own orig good s3" by (auto simp: tx_confirmed_def)
      with c show "case r of Done a \<Rightarrow> wp (finish res) (tx_left own orig good ft) s3 | OSError \<Rightarrow> tx_left own orig good ft OSError s3
          | Raised x \<Rightarrow> tx_left own orig good ft (Raised x) s3 | Crashed \<Rightarrow> tx_left own orig good ft Crashed s3"
        by (auto intro!: wp_finish simp: tx_left_def)
    qed (use J assms(3,4) in \<open>auto simp: left_mutated\<close>)
  qed (auto intro: left_mutated)
  then show "case Done () of Done _ \<Rightarrow> wp (andthen (confirming (verify_output tls (await_point own) (own_source own) (pa_duration a)
       (pa_codec a) (pa_target_height a))) (\<lambda>_. andthen (own_confirm own) (\<lambda>_. finish res))) (tx_left own orig good ft) s1
     | OSError \<Rightarrow> tx_left own orig good ft OSError s1 | Raised x \<Rightarrow> tx_left own orig good ft (Raised x) s1
     | Crashed \<Rightarrow> tx_left own orig good ft Crashed s1" by simp
qed (auto intro: left_mutated)

text \<open>From the finished encode on: every gate that lets the work go on adds its part of \<open>acceptable\<close>.\<close>

lemma wp_after_encode:
  assumes "tx_untouched own orig s" and "stream_inventory (tl_streams tls n orig) = Inr streams"
    and "pa_target_vmaf a \<noteq> None \<and> \<not> ss_available st \<longrightarrow> unmeasurable tls"
    and "plan = plan_streams streams (pa_codec a) d" and "\<forall>s \<in> set streams. st_index s \<in> set (accounted_indexes plan)"
    and "\<And>size vmaf. rp_source_size (res size vmaf) = tl_size tls orig \<and> rp_output_size (res size vmaf) = size
       \<and> rp_space_saved (res size vmaf) = tl_size tls orig - size"
  shows "wp (andthen (await_point own) (\<lambda>_.
         andthen (verify_output tls (await_point own) (own_tmp own) (pa_duration a) (pa_codec a) (pa_target_height a)) (\<lambda>_.
         andthen (compare_step tls own a (tl_size tls orig) backend h st crf orig plan) (\<lambda>(output_size, vmaf).
         andthen (await_point own) (\<lambda>_.
         andthen (own_swap own) (\<lambda>_.
         andthen (confirming (verify_output tls (await_point own) (own_source own) (pa_duration a) (pa_codec a) (pa_target_height a))) (\<lambda>_.
         andthen (own_confirm own) (\<lambda>_. finish (res output_size vmaf)))))))))
     (tx_left own orig (acceptable tls a orig) (fits tls orig)) s" (is "wp _ ?L s")
proof -
  define found where "found = p_fs s (own_tmp own)"
  let ?J = "\<lambda>s. tx_untouched own orig s \<and> p_fs s (own_tmp own) = found"
  have J: "?J s" using assms(1) by (simp add: found_def)
  have v: "quiet ?J (verify_output tls (await_point own) (own_tmp own) (pa_duration a) (pa_codec a) (pa_target_height a))
      (\<lambda>_. \<exists>e. found = Some e \<and> verified tls a e)"
    by (rule encoded.quiet_verify) simp
  have c: "quiet ?J (compare_step tls own a (tl_size tls orig) backend h st crf orig plan)
     (\<lambda>(size, _). \<exists>e n. found = Some e \<and> size = tl_size tls e \<and> size < tl_size tls orig \<and> quality_kept tls a orig e
        \<and> verify_stream_inventory (stream_inventory (tl_streams tls n e)) plan (stream_diagnosis backend crf) = None)"
    by (rule encoded.quiet_compare [OF _ assms(3)]) simp
  have fail: "?L r s'" if "?J s'" "\<forall>x. r \<noteq> Done x" for r s' using that by (simp add: left_untouched)
  show ?thesis
  proof (rule wp_quiet_then [OF encoded.quiet_await J _ fail], goal_cases)
    case (1 _ s1)
    show ?case
    proof (rule wp_quiet_then [OF v 1(1) _ fail], goal_cases)
      case (1 _ s2)
      then obtain e where e: "found = Some e" "verified tls a e" by blast
      show ?case
      proof (rule wp_quiet_then [OF c 1(1) _ fail], goal_cases)
        case (1 p s3)
        obtain size vmaf where p: "p = (size, vmaf)" by (rule prod.exhaust)
        from 1(2) p e obtain m where g: "size = tl_size tls e" "size < tl_size tls orig" "quality_kept tls a orig e"
          "verify_stream_inventory (stream_inventory (tl_streams tls m e)) plan (stream_diagnosis backend crf) = None" by auto
        from verify_inventory_covers [OF g(4) [unfolded assms(4)]] obtain produced where
          "stream_inventory (tl_streams tls m e) = Inr produced"
          "subseq (map planned_key (plan_kept plan)) (map stream_key produced)" unfolding assms(4) by blast
        with assms(2,4,5) have "streams_kept tls a orig e" unfolding streams_kept_def by blast
        with e g have ok: "acceptable tls a orig e" by (simp add: acceptable_def)
        have ft: "fits tls orig (res size vmaf) e" using assms(6) [of size vmaf] g(1) by (simp add: fits_def)
        show ?case unfolding p prod.case
          by (rule wp_quiet_then [OF encoded.quiet_await 1(1) _ fail],
              rule wp_swap_confirm [where good = "acceptable tls a orig" and ft = "fits tls orig" and e = e])
            (use e(1) ok ft in auto)
      qed auto
    qed auto
  qed auto
qed

lemma body_left:
  assumes "tx_untouched own orig s"
  shows "wp (pipeline_body tls own a (tl_size tls orig) backend h orig) (tx_left own orig (acceptable tls a orig) (fits tls orig)) s"
    (is "wp _ ?L s")
  unfolding pipeline_body_def
proof (rule wp_quiet_then [OF untouched.quiet_source_inventory assms _ left_untouched], goal_cases)
  case (1 streams s1)
  then obtain n where n: "stream_inventory (tl_streams tls n orig) = Inr streams" by blast
  show ?case
  proof (rule wp_quiet_then [OF untouched.quiet_search 1(1) _ left_untouched], goal_cases)
    case (1 st s2)
    show ?case
    proof (cases "map_quality (pa_codec a) backend (ss_quality st)")
      case None
      with 1 show ?thesis by (simp add: wp_raise left_untouched)
    next
      case (Some crf)
      show ?thesis unfolding Some option.case
      proof (rule wp_quiet_then [OF quiet_transcode 1(1) _ left_untouched], goal_cases)
        case (1 plan s3)
        then obtain d where "plan = plan_streams streams (pa_codec a) d"
          "\<forall>s \<in> set streams. st_index s \<in> set (accounted_indexes plan)" by blast
        with 1(1) n \<open>pa_target_vmaf a \<noteq> None \<and> \<not> ss_available st \<longrightarrow> unmeasurable tls\<close>
        show ?case by (intro wp_after_encode) simp_all
      qed auto
    qed
  qed auto
qed auto

interpretation pipeline: owned_work own orig "acceptable tls a orig" "fits tls orig"
    "pipeline_body tls own a (tl_size tls orig) backend h orig"
  for own orig tls a backend h
  by unfold_locales (rule body_left)
text \<open>Before the lock nothing is written.\<close>

lemma quiet_preflight:
  "quiet (\<lambda>s. p_fs s = f) (probe_source tls a orig) (\<lambda>_. True)"
  "quiet (\<lambda>s. p_fs s = f) (check_downscale a h) (\<lambda>_. True)"
proof -
  have "quiet (\<lambda>s. p_fs s = f) (command cancel_point ans) (\<lambda>_. True)" for ans :: "nat \<Rightarrow> probe_error + probe_result"
    unfolding command_def
    by (rule quiet_andthen [where P = "\<lambda>_. True"])
      (auto simp: quiet_def wp_def cancel_point_def split: list.splits fault.splits)
  then show "quiet (\<lambda>s. p_fs s = f) (probe_source tls a orig) (\<lambda>_. True)"
    unfolding probe_source_def by (auto intro!: quiet_andthen quiet_finish split: sum.splits)
  show "quiet (\<lambda>s. p_fs s = f) (check_downscale a h) (\<lambda>_. True)"
    by (auto simp: check_downscale_def intro!: quiet_finish quiet_raise split: option.splits)
qed

lemma wp_run_pipeline:
  assumes "p_fs s (pa_source a) = Some orig" "p_fs s (bak_of (pa_source a)) = None" "p_fs s (lock_of (pa_source a)) = None"
  shows "wp (run_pipeline tls a) (settled_as (own_of a) orig (acceptable tls a orig) (fits tls orig)) s"
proof -
  let ?S = "settled_as (own_of a) orig (acceptable tls a orig) (fits tls orig)"
  let ?J = "\<lambda>s'. p_fs s' = p_fs s"
  have src [simp]: "own_source (own_of a) = pa_source a" by (simp add: own_of_def)
  have fail: "?S r s'" if "?J s'" "\<forall>x. r \<noteq> Done x" for r s'
    using that assms by (auto simp: settled_as_def crash_safe_def lock_ours_def)
  have read: "quiet ?J (read_path (pa_source a)) (\<lambda>x. x = Some orig)" by (rule quiet_read) (simp add: assms)
  show ?thesis unfolding run_pipeline_def
  proof (rule wp_quiet_then [OF read _ _ fail], goal_cases)
    case (2 x s1)
    show ?case unfolding 2(2) option.case
    proof (rule wp_quiet_then [OF quiet_preflight(1) 2(1) _ fail], goal_cases)
      case (1 bh s2)
      obtain backend h where bh: "bh = (backend, h)" by (rule prod.exhaust)
      show ?case unfolding bh prod.case
        by (rule wp_quiet_then [OF quiet_preflight(2) 1(1) _ fail], rule pipeline.wp_owned) (use assms in auto)
    qed auto
  qed auto
qed

text \<open>
  C2. No fault loses the original. Let the pipeline start with the source in place and no lock or
  backup, and let any call that changes files fail, the process die, the task be cancelled or the heartbeat run
  at any point, whatever the external programs answer. Afterwards the original is at the source
  path or at the backup path, unless the source path holds an output that every gate accepted. An
  error result (other than a cancellation that arrives after the confirmation) leaves the original in
  place, or at the backup path with the lock kept as the hands-off signal.
\<close>

theorem pipeline_never_loses_original:
  assumes "p_fs s (pa_source a) = Some orig" and "p_fs s (bak_of (pa_source a)) = None" and "p_fs s (lock_of (pa_source a)) = None"
    and "run_pipeline tls a os s = (r, os', s')"
  shows "(p_fs s' (pa_source a) = Some orig \<or> p_fs s' (bak_of (pa_source a)) = Some orig
      \<or> (\<exists>e. p_fs s' (pa_source a) = Some e \<and> acceptable tls a orig e))
    \<and> ((\<forall>res. r \<noteq> Done res) \<and> r \<noteq> Crashed \<and> r \<noteq> Raised Cancelled_error \<longrightarrow>
         p_fs s' (pa_source a) = Some orig \<and> p_fs s' (bak_of (pa_source a)) = None
         \<or> p_fs s' (bak_of (pa_source a)) = Some orig \<and> p_fs s' (lock_of (pa_source a)) \<noteq> None)"
  using wp_result [OF wp_run_pipeline [OF assms(1-3)] assms(4)]
  by (auto simp: settled_as_def crash_safe_def own_of_def)

lemma demo_pipeline_facts:
  "p_fs demo_start (pa_source demo_args) = Some (Media ''film'')" "p_fs demo_start (bak_of (pa_source demo_args)) = None"
  "p_fs demo_start (lock_of (pa_source demo_args)) = None"
  by (simp_all add: demo_start_def demo_args_def demo_names)

theorem pipeline_never_loses_original_witness:
  "\<exists>r os' s'. run_pipeline demo_tools demo_args [Fine, Cancel, Fault, Crash] demo_start = (r, os', s')
     \<and> (p_fs s' (''/m'', ''a.mkv'') = Some (Media ''film'') \<or> p_fs s' (''/m'', ''a.tf_bak.mkv'') = Some (Media ''film'')
        \<or> (\<exists>e. p_fs s' (''/m'', ''a.mkv'') = Some e \<and> acceptable demo_tools demo_args (Media ''film'') e))"
proof -
  obtain r os' s' where t: "run_pipeline demo_tools demo_args [Fine, Cancel, Fault, Crash] demo_start = (r, os', s')"
    by (rule prod_cases3)
  have p: "pa_source demo_args = (''/m'', ''a.mkv'')" by (simp add: demo_args_def)
  from pipeline_never_loses_original [OF demo_pipeline_facts t, THEN conjunct1] t show ?thesis
    unfolding p demo_names by blast
qed

text \<open>
  C9. A reported success is a verified replacement: when the pipeline returns a result, the source
  path holds an output that passed every gate (codec, height, duration and decode samples; every
  source stream accounted for and every planned stream present in order; strictly smaller than the
  original; and measured above both quality floors whenever a quality goal was set and measurement
  was possible), and the reported sizes and saving are those of that file, the saving positive.
\<close>

theorem pipeline_success_passed_every_gate:
  assumes "p_fs s (pa_source a) = Some orig" and "p_fs s (bak_of (pa_source a)) = None" and "p_fs s (lock_of (pa_source a)) = None"
    and "run_pipeline tls a os s = (Done res, os', s')"
  shows "\<exists>e. p_fs s' (pa_source a) = Some e \<and> verified tls a e \<and> streams_kept tls a orig e \<and> quality_kept tls a orig e
     \<and> rp_source_size res = tl_size tls orig \<and> rp_output_size res = tl_size tls e
     \<and> rp_space_saved res = rp_source_size res - rp_output_size res \<and> 0 < rp_space_saved res"
proof -
  from wp_result [OF wp_run_pipeline [OF assms(1-3)] assms(4)] obtain e where
    "p_fs s' (pa_source a) = Some e" "acceptable tls a orig e" "fits tls orig res e"
    by (auto simp: settled_as_def own_of_def)
  then show ?thesis by (auto simp: acceptable_def fits_def)
qed

lemma demo_success:
  "fst (run_pipeline demo_tools demo_args [] demo_start) = Done \<lparr>rp_source_size = 9, rp_output_size = 5, rp_space_saved = 4,
      rp_backend = ''cpu'', rp_resolved_crf = 22, rp_vmaf_mean = Some 96, rp_vmaf_perc5 = Some 96,
      rp_predicted_mean = None, rp_predicted_perc5 = None\<rparr>"
  by code_simp

theorem pipeline_success_passed_every_gate_witness:
  "\<exists>res os' s' e. run_pipeline demo_tools demo_args [] demo_start = (Done res, os', s')
     \<and> p_fs s' (''/m'', ''a.mkv'') = Some e \<and> verified demo_tools demo_args e \<and> rp_space_saved res = 4"
proof -
  obtain r os' s' where t: "run_pipeline demo_tools demo_args [] demo_start = (r, os', s')" by (rule prod_cases3)
  with demo_success obtain res where r: "r = Done res" "rp_space_saved res = 4" by simp
  have p: "pa_source demo_args = (''/m'', ''a.mkv'')" by (simp add: demo_args_def)
  from pipeline_success_passed_every_gate [OF demo_pipeline_facts t [unfolded r(1)]] t r show ?thesis
    unfolding p by blast
qed

text \<open>
  C3. Recovery brings every ending back to a sound state. After the pipeline ended in any way, run the claim-time recovery
  without further faults, as the same worker or as any worker once the lock is stale. The source path
  then holds the original or an accepted output; and unless a finished transcode's backup was left
  for the operator, no backup, lock or temporary file remains, so the path can be claimed again.
\<close>

theorem recovery_heals_every_ending:
  assumes "p_fs s (pa_source a) = Some orig" and "p_fs s (bak_of (pa_source a)) = None" and "p_fs s (lock_of (pa_source a)) = None"
    and "run_pipeline tls a os s = (r, os', s')"
    and "w = pa_worker a \<or> stale \<le> later - p_now s'"
    and "recover_source_path (pa_source a) w stale [] (s'\<lparr>p_now := later\<rparr>) = (r2, os2, s2)"
  shows "(p_fs s2 (pa_source a) = Some orig \<or> (\<exists>e. acceptable tls a orig e \<and> p_fs s2 (pa_source a) = Some e))
    \<and> (r2 = Done (Some R_attention)
         \<and> (\<exists>e. acceptable tls a orig e \<and> p_fs s2 (pa_source a) = Some e) \<and> p_fs s2 (bak_of (pa_source a)) = Some orig
       \<or> r2 \<in> {Done (Some R_clean), Done (Some R_cleaned), Done (Some R_restored)}
         \<and> p_fs s2 (bak_of (pa_source a)) = None \<and> p_fs s2 (lock_of (pa_source a)) = None \<and> p_fs s2 (tmp_of (pa_source a)) = None)"
  using recovery_of_settled [OF wp_result [OF wp_run_pipeline [OF assms(1-3)] assms(4)], of w stale later r2 os2 s2] assms(5,6)
  by (simp add: own_of_def)

theorem recovery_heals_every_ending_witness:
  "\<exists>r os' s' r2 os2 s2. run_pipeline demo_tools demo_args [Fine, Fine, Crash] demo_start = (r, os', s')
     \<and> recover_source_path (''/m'', ''a.mkv'') ''w1'' 900 [] (s'\<lparr>p_now := 9\<rparr>) = (r2, os2, s2)
     \<and> (p_fs s2 (''/m'', ''a.mkv'') = Some (Media ''film'')
        \<or> (\<exists>e. acceptable demo_tools demo_args (Media ''film'') e \<and> p_fs s2 (''/m'', ''a.mkv'') = Some e))"
proof -
  obtain r os' s' where t: "run_pipeline demo_tools demo_args [Fine, Fine, Crash] demo_start = (r, os', s')" by (rule prod_cases3)
  obtain r2 os2 s2 where
    v: "recover_source_path (pa_source demo_args) ''w1'' 900 [] (s'\<lparr>p_now := 9\<rparr>) = (r2, os2, s2)" by (rule prod_cases3)
  have w: "''w1'' = pa_worker demo_args \<or> 900 \<le> 9 - p_now s'" by (simp add: demo_args_def)
  have p: "pa_source demo_args = (''/m'', ''a.mkv'')" by (simp add: demo_args_def)
  from recovery_heals_every_ending [OF demo_pipeline_facts t w v, THEN conjunct1] t v show ?thesis
    unfolding p by blast
qed

end
