(* ===== verification/Outbox.thy ===== *)
theory Outbox
  imports FileStore "HOL-Library.AList"
begin

text \<open>
  Delivery of a worker's reports: the retry policy (\<open>worker/reliability.py\<close>), the journal directory
  (\<open>worker/outbox.py\<close>) and the delivery pass over it (\<open>_drain_outbox\<close>, \<open>_deliver\<close> and
  \<open>_send_report\<close> of \<open>worker/http_agent.py\<close>).

  The journal is a directory: file names with contents. The world decides, by the number of the step,
  whether a system call works, fails or is where the process dies, what the clock says, and how the
  scheduler answers a request. A request may also be cut off by cancellation. \<open>ob_sent\<close> is the history
  of requests with their answers. Finite Python floats are rationals; a report is a job id, a kind and
  a payload.
\<close>

section \<open>Retry policy\<close>

text \<open>The exception of a failed request: an HTTP status that is not a success, or anything else.\<close>

datatype failure = Http_status int | Other_error

datatype error_class = RETRYABLE | AUTH | TERMINAL

fun classify_error :: "failure \<Rightarrow> error_class" where
  "classify_error (Http_status status) =
     (if status = 401 then AUTH else if 400 \<le> status \<and> status < 500 then TERMINAL else RETRYABLE)"
| "classify_error Other_error = RETRYABLE"

record backoff =
  bo_base :: num
  bo_cap :: num
  bo_attempt :: nat

text \<open>\<open>jitter\<close> is \<open>random.uniform(0, 1)\<close>; the delay is uniform up to the ceiling.\<close>

definition next_delay :: "num \<Rightarrow> backoff \<Rightarrow> num \<times> backoff" where
  "next_delay jitter b =
     (let ceiling = min (bo_cap b) (bo_base b * 2 ^ bo_attempt b)
      in (jitter * ceiling,
          if bo_base b * 2 ^ bo_attempt b < bo_cap b then b\<lparr>bo_attempt := bo_attempt b + 1\<rparr> else b))"

definition reset :: "backoff \<Rightarrow> backoff" where
  "reset b = b\<lparr>bo_attempt := 0\<rparr>"

section \<open>Python's \<open>int(text)\<close> and zero-padded numbers\<close>

text \<open>One underscore may stand between two digits.\<close>

fun read_digits :: "nat \<Rightarrow> string \<Rightarrow> nat option" where
  "read_digits acc [] = Some acc"
| "read_digits acc (c # cs) =
     (if is_digit c then read_digits (acc * 10 + (of_char c - 48)) cs
      else if c = CHR ''_'' \<and> cs \<noteq> [] \<and> is_digit (hd cs) then read_digits acc cs
      else None)"

definition read_unsigned :: "string \<Rightarrow> nat option" where
  "read_unsigned s = (if s \<noteq> [] \<and> is_digit (hd s) then read_digits 0 s else None)"

definition py_int :: "string \<Rightarrow> int option" where
  "py_int text =
     (case strip text of
        [] \<Rightarrow> None
      | c # cs \<Rightarrow>
          if c = CHR ''+'' then map_option int (read_unsigned cs)
          else if c = CHR ''-'' then map_option (\<lambda>n. - int n) (read_unsigned cs)
          else map_option int (read_unsigned (c # cs)))"

definition pad :: "nat \<Rightarrow> nat \<Rightarrow> string" where
  "pad width n = replicate (width - length (str_nat n)) (CHR ''0'') @ str_nat n"

section \<open>The journal\<close>

definition MILESTONE_KINDS :: "string list" where
  "MILESTONE_KINDS = [''register_derivative'', ''complete'', ''skipped'', ''failed'']"

type_synonym 'p report = "string \<times> string \<times> 'p"

text \<open>
  An entry's JSON. A file of the directory may also hold text that is no entry (broken JSON, a missing
  field or a field that is no number) or JSON that is no object, on which the subscript raises
  \<open>TypeError\<close>.
\<close>

record 'p body =
  bd_job :: string
  bd_kind :: string
  bd_payload :: 'p
  bd_attempts :: int
  bd_last_attempt_at :: "num option"

datatype 'p outbox_file = Body "'p body" | Garbage | No_object

record 'p outbox_entry =
  oe_seq :: int
  oe_job :: string
  oe_kind :: string
  oe_payload :: 'p
  oe_attempts :: int
  oe_path :: string
  oe_last_attempt_at :: num

datatype answer = Delivered | Failed_with failure | Interrupted

record 'p outbox =
  ob_files :: "(string \<times> 'p outbox_file) list"
  ob_step :: nat
  ob_sent :: "('p report \<times> answer) list"

datatype disk = Works | Fails | Dies

record 'p world =
  wd_disk :: "nat \<Rightarrow> disk"
  wd_time :: "nat \<Rightarrow> num"
  wd_answer :: "nat \<Rightarrow> 'p report \<Rightarrow> answer"

text \<open>How a computation ends: with a value, an exception, or never (death or cancellation).\<close>

datatype py_exn = OS_error | Bad_value | Bad_type

datatype 'a ended = Value 'a | Raises py_exn | Stopped

type_synonym ('p, 'a) jio = "'p outbox \<Rightarrow> 'a ended \<times> 'p outbox"

definition give :: "'a \<Rightarrow> ('p, 'a) jio" where
  "give x s = (Value x, s)"

definition throw :: "py_exn \<Rightarrow> ('p, 'a) jio" where
  "throw e s = (Raises e, s)"

definition followed :: "('p, 'a) jio \<Rightarrow> ('a \<Rightarrow> ('p, 'b) jio) \<Rightarrow> ('p, 'b) jio" where
  "followed m f s =
     (case m s of (Value x, s') \<Rightarrow> f x s' | (Raises e, s') \<Rightarrow> (Raises e, s') | (Stopped, s') \<Rightarrow> (Stopped, s'))"

text \<open>\<open>except\<close> for the exceptions in \<open>P\<close>.\<close>

definition catching :: "(py_exn \<Rightarrow> bool) \<Rightarrow> ('p, 'a) jio \<Rightarrow> ('p, 'a) jio \<Rightarrow> ('p, 'a) jio" where
  "catching P m h s =
     (case m s of (Raises e, s') \<Rightarrow> if P e then h s' else (Raises e, s') | (r, s') \<Rightarrow> (r, s'))"

definition access :: "'p world \<Rightarrow> (('p outbox_file) option \<Rightarrow> ('p, 'a) jio) \<Rightarrow> string \<Rightarrow> ('p, 'a) jio" where
  "access w act name s =
     (let s' = s\<lparr>ob_step := Suc (ob_step s)\<rparr>
      in case wd_disk w (ob_step s) of
           Works \<Rightarrow> act (map_of (ob_files s) name) s'
         | Fails \<Rightarrow> (Raises OS_error, s')
         | Dies \<Rightarrow> (Stopped, s'))"

definition clock :: "'p world \<Rightarrow> ('p, num) jio" where
  "clock w s = (Value (wd_time w (ob_step s)), s\<lparr>ob_step := Suc (ob_step s)\<rparr>)"

definition set_file :: "string \<Rightarrow> 'p outbox_file \<Rightarrow> ('p, unit) jio" where
  "set_file name c s = (Value (), s\<lparr>ob_files := AList.update name c (ob_files s)\<rparr>)"

text \<open>\<open>write_text\<close> truncates, then writes.\<close>

definition write_text :: "'p world \<Rightarrow> string \<Rightarrow> 'p outbox_file \<Rightarrow> ('p, unit) jio" where
  "write_text w name c =
     followed (access w (\<lambda>_. set_file name Garbage) name) (\<lambda>_. access w (\<lambda>_. set_file name c) name)"

definition os_replace :: "'p world \<Rightarrow> string \<Rightarrow> string \<Rightarrow> ('p, unit) jio" where
  "os_replace w src dst =
     access w (\<lambda>found. case found of
         None \<Rightarrow> throw OS_error
       | Some c \<Rightarrow> (\<lambda>s. (Value (), s\<lparr>ob_files := AList.update dst c (AList.delete src (ob_files s))\<rparr>))) src"

definition with_suffix :: "string \<Rightarrow> string \<Rightarrow> string" where
  "with_suffix name suf = path_stem name @ suf"

definition json_names :: "'p outbox \<Rightarrow> string list" where
  "json_names s = filter (suffix ''.json'') (map fst (ob_files s))"

definition seq_of :: "string \<Rightarrow> int option" where
  "seq_of name = py_int (hd (split_on (CHR ''-'') name))"

definition next_seq :: "'p outbox \<Rightarrow> int" where
  "next_seq s = fold (\<lambda>name top. case seq_of name of None \<Rightarrow> top | Some n \<Rightarrow> max top n) (json_names s) 0 + 1"

definition entry_name :: "nat \<Rightarrow> string \<Rightarrow> string \<Rightarrow> string" where
  "entry_name seq job kind = pad 10 seq @ ''-'' @ job @ ''-'' @ kind @ ''.json''"

definition body_of_entry :: "'p outbox_entry \<Rightarrow> int \<Rightarrow> num option \<Rightarrow> 'p body" where
  "body_of_entry e attempts last_attempt =
     \<lparr>bd_job = oe_job e, bd_kind = oe_kind e, bd_payload = oe_payload e, bd_attempts = attempts,
      bd_last_attempt_at = last_attempt\<rparr>"

definition entry_of_body :: "string \<Rightarrow> int \<Rightarrow> 'p body \<Rightarrow> 'p outbox_entry" where
  "entry_of_body name seq b =
     \<lparr>oe_seq = seq, oe_job = bd_job b, oe_kind = bd_kind b, oe_payload = bd_payload b, oe_attempts = bd_attempts b,
      oe_path = name, oe_last_attempt_at = (case bd_last_attempt_at b of None \<Rightarrow> 0 | Some t \<Rightarrow> t)\<rparr>"

definition write_entry :: "'p world \<Rightarrow> string \<Rightarrow> 'p body \<Rightarrow> ('p, unit) jio" where
  "write_entry w name b =
     followed (write_text w (with_suffix name ''.tmp'') (Body b)) (\<lambda>_. os_replace w (with_suffix name ''.tmp'') name)"

definition outbox_append :: "'p world \<Rightarrow> string \<Rightarrow> string \<Rightarrow> 'p \<Rightarrow> ('p, 'p outbox_entry) jio" where
  "outbox_append w job kind payload s =
     (if kind \<notin> set MILESTONE_KINDS then throw Bad_value s
      else let seq = next_seq s;
               name = entry_name (nat seq) job kind;
               b = \<lparr>bd_job = job, bd_kind = kind, bd_payload = payload, bd_attempts = 0, bd_last_attempt_at = None\<rparr>
           in followed (write_entry w name b) (\<lambda>_. give (entry_of_body name seq b)) s)"

definition read_entry :: "'p world \<Rightarrow> string \<Rightarrow> ('p, 'p outbox_entry option) jio" where
  "read_entry w name =
     (case seq_of name of
        None \<Rightarrow> give None
      | Some seq \<Rightarrow>
          catching (\<lambda>e. e = OS_error)
            (access w (\<lambda>found. case found of
                None \<Rightarrow> throw OS_error
              | Some Garbage \<Rightarrow> give None
              | Some No_object \<Rightarrow> throw Bad_type
              | Some (Body b) \<Rightarrow> give (Some (entry_of_body name seq b))) name)
            (give None))"

definition quarantine :: "'p world \<Rightarrow> string \<Rightarrow> ('p, unit) jio" where
  "quarantine w name = catching (\<lambda>e. e = OS_error) (os_replace w name (with_suffix name ''.corrupt'')) (give ())"

fun scan_names :: "'p world \<Rightarrow> string list \<Rightarrow> ('p, 'p outbox_entry list) jio" where
  "scan_names w [] = give []"
| "scan_names w (name # names) =
     followed (read_entry w name) (\<lambda>x.
       case x of
         Some e \<Rightarrow> followed (scan_names w names) (\<lambda>es. give (e # es))
       | None \<Rightarrow> followed (quarantine w name) (\<lambda>_. scan_names w names))"

definition outbox_entries :: "'p world \<Rightarrow> ('p, 'p outbox_entry list) jio" where
  "outbox_entries w s = scan_names w (sort (json_names s)) s"

text \<open>A file that is already gone counts as deleted.\<close>

definition outbox_delete :: "'p world \<Rightarrow> 'p outbox_entry \<Rightarrow> ('p, unit) jio" where
  "outbox_delete w e =
     access w (\<lambda>_ s. (Value (), s\<lparr>ob_files := AList.delete (oe_path e) (ob_files s)\<rparr>)) (oe_path e)"

definition bump_attempts :: "'p world \<Rightarrow> 'p outbox_entry \<Rightarrow> ('p, unit) jio" where
  "bump_attempts w e =
     followed (clock w) (\<lambda>t.
       catching (\<lambda>x. x = OS_error) (write_entry w (oe_path e) (body_of_entry e (oe_attempts e + 1) (Some t))) (give ()))"

definition pending_job_ids :: "'p world \<Rightarrow> ('p, string set) jio" where
  "pending_job_ids w = followed (outbox_entries w) (\<lambda>es. give (oe_job ` set es))"

definition oldest_pending_job_id :: "'p world \<Rightarrow> ('p, string option) jio" where
  "oldest_pending_job_id w =
     followed (outbox_entries w) (\<lambda>es. give (case es of [] \<Rightarrow> None | e # _ \<Rightarrow> Some (oe_job e)))"

section \<open>Delivery\<close>

datatype drain_result = EMPTY | BLOCKED | AUTH_BLOCKED

definition POISON_ATTEMPTS :: int where "POISON_ATTEMPTS = 25"
definition POISON_COOLDOWN_S :: num where "POISON_COOLDOWN_S = 600"

text \<open>One request; the client raises on every answer that is no success. An unknown kind raises before
  anything is sent.\<close>

definition send_report :: "'p world \<Rightarrow> string \<Rightarrow> string \<Rightarrow> 'p \<Rightarrow> ('p, failure option) jio" where
  "send_report w job kind payload s =
     (if kind \<notin> set MILESTONE_KINDS then (Value (Some Other_error), s)
      else let a = wd_answer w (ob_step s) (job, kind, payload);
               s' = s\<lparr>ob_step := Suc (ob_step s), ob_sent := ob_sent s @ [((job, kind, payload), a)]\<rparr>
           in case a of
                Delivered \<Rightarrow> (Value None, s')
              | Failed_with f \<Rightarrow> (Value (Some f), s')
              | Interrupted \<Rightarrow> (Stopped, s'))"

text \<open>Enough failed attempts, the last of them within the cooldown; the clock is read only if needed.\<close>

definition is_parked :: "'p world \<Rightarrow> 'p outbox_entry \<Rightarrow> ('p, bool) jio" where
  "is_parked w e =
     (if POISON_ATTEMPTS \<le> oe_attempts e
      then followed (clock w) (\<lambda>t. give (t - oe_last_attempt_at e < POISON_COOLDOWN_S))
      else give False)"

fun drain_entries :: "'p world \<Rightarrow> 'p outbox_entry list \<Rightarrow> string list \<Rightarrow> bool \<Rightarrow> ('p, bool) jio" where
  "drain_entries w [] blocked auth_blocked = give auth_blocked"
| "drain_entries w (e # es) blocked auth_blocked =
     (if oe_job e \<in> set blocked then drain_entries w es blocked auth_blocked
      else followed (is_parked w e) (\<lambda>parked.
        if parked then drain_entries w es (oe_job e # blocked) auth_blocked
        else followed (send_report w (oe_job e) (oe_kind e) (oe_payload e)) (\<lambda>r.
          case r of
            None \<Rightarrow> followed (outbox_delete w e) (\<lambda>_. drain_entries w es blocked auth_blocked)
          | Some f \<Rightarrow>
              (case classify_error f of
                 AUTH \<Rightarrow> followed (bump_attempts w e) (\<lambda>_. drain_entries w es (oe_job e # blocked) True)
               | TERMINAL \<Rightarrow> followed (outbox_delete w e) (\<lambda>_. drain_entries w es blocked auth_blocked)
               | RETRYABLE \<Rightarrow>
                   followed (bump_attempts w e) (\<lambda>_. drain_entries w es (oe_job e # blocked) auth_blocked)))))"

fun any_live :: "'p world \<Rightarrow> 'p outbox_entry list \<Rightarrow> ('p, bool) jio" where
  "any_live w [] = give False"
| "any_live w (e # es) = followed (is_parked w e) (\<lambda>parked. followed (any_live w es) (\<lambda>l. give (\<not> parked \<or> l)))"

text \<open>The verdict on what is left: parked entries alone do not hold up new work.\<close>

definition drain_verdict :: "'p world \<Rightarrow> bool \<Rightarrow> ('p, drain_result) jio" where
  "drain_verdict w auth_blocked =
     followed (outbox_entries w) (\<lambda>remaining.
       if remaining = [] then give EMPTY
       else if auth_blocked then give AUTH_BLOCKED
       else followed (any_live w remaining) (\<lambda>live. give (if live then BLOCKED else EMPTY)))"

definition drain_outbox :: "'p world \<Rightarrow> ('p, drain_result) jio" where
  "drain_outbox w =
     followed (outbox_entries w) (\<lambda>es. followed (drain_entries w es [] False) (drain_verdict w))"

text \<open>The claim token of the attempt is stamped into the payload on the way into the journal.\<close>

definition deliver ::
  "(string option \<times> 'b) world \<Rightarrow> string option \<Rightarrow> string \<Rightarrow> string \<Rightarrow> 'b \<Rightarrow> (string option \<times> 'b, unit) jio"
where
  "deliver w claim_token job kind payload s =
     (case outbox_append w job kind (claim_token, payload) s of
        (Value _, s') \<Rightarrow> catching (\<lambda>_. True) (followed (drain_outbox w) (\<lambda>_. give ())) (give ()) s'
      | (Raises OS_error, s') \<Rightarrow> followed (send_report w job kind (claim_token, payload)) (\<lambda>_. give ()) s'
      | (Raises e, s') \<Rightarrow> (Raises e, s')
      | (Stopped, s') \<Rightarrow> (Stopped, s'))"

section \<open>What is promised of a report\<close>

definition body_report :: "'p body \<Rightarrow> 'p report" where
  "body_report b = (bd_job b, bd_kind b, bd_payload b)"

definition entry_report :: "'p outbox_entry \<Rightarrow> 'p report" where
  "entry_report e = (oe_job e, oe_kind e, oe_payload e)"

definition holds_report :: "string \<Rightarrow> 'p report \<Rightarrow> 'p outbox \<Rightarrow> bool" where
  "holds_report name r s \<longleftrightarrow> (\<exists>b. map_of (ob_files s) name = Some (Body b) \<and> body_report b = r)"

text \<open>The scheduler took the report, or refused it for good.\<close>

definition settles :: "answer \<Rightarrow> bool" where
  "settles a \<longleftrightarrow> a = Delivered \<or> (\<exists>f. a = Failed_with f \<and> classify_error f = TERMINAL)"

definition sent_since :: "'p outbox \<Rightarrow> 'p outbox \<Rightarrow> ('p report \<times> answer) list" where
  "sent_since s0 s = drop (length (ob_sent s0)) (ob_sent s)"

definition journal_name :: "string \<Rightarrow> bool" where
  "journal_name name \<longleftrightarrow> suffix ''.json'' name \<and> seq_of name \<noteq> None"

text \<open>
  Where a report of the state \<open>s0\<close> may be in \<open>s\<close>: still in the journal, set aside because a read of it
  failed, or settled by the scheduler.
\<close>

definition accounted :: "'p world \<Rightarrow> string \<Rightarrow> 'p report \<Rightarrow> 'p outbox \<Rightarrow> 'p outbox \<Rightarrow> bool" where
  "accounted w name r s0 s \<longleftrightarrow>
     holds_report name r s
     \<or> holds_report (with_suffix name ''.corrupt'') r s \<and> (\<exists>k. ob_step s0 \<le> k \<and> k < ob_step s \<and> wd_disk w k = Fails)
     \<or> (\<exists>a. (r, a) \<in> set (sent_since s0 s) \<and> settles a)"

definition safe :: "'p world \<Rightarrow> string \<Rightarrow> 'p report \<Rightarrow> 'p outbox \<Rightarrow> 'p outbox \<Rightarrow> bool" where
  "safe w name r s0 s \<longleftrightarrow> ob_step s0 \<le> ob_step s \<and> prefix (ob_sent s0) (ob_sent s) \<and> accounted w name r s0 s
     \<and> (\<forall>c. map_of (ob_files s) name = Some c \<longrightarrow> (\<exists>b. c = Body b \<and> body_report b = r))"

definition keeps :: "('p outbox \<Rightarrow> bool) \<Rightarrow> ('p, 'a) jio \<Rightarrow> bool" where
  "keeps J m \<longleftrightarrow> (\<forall>s. J s \<longrightarrow> J (snd (m s)))"

text \<open>What the computation gives, when it gives a value from a state in \<open>J\<close>.\<close>

definition gives :: "('p outbox \<Rightarrow> bool) \<Rightarrow> ('p, 'a) jio \<Rightarrow> ('a \<Rightarrow> 'p outbox \<Rightarrow> bool) \<Rightarrow> bool" where
  "gives J m P \<longleftrightarrow> (\<forall>s x s'. J s \<longrightarrow> m s = (Value x, s') \<longrightarrow> P x s')"

text \<open>What a scan gives: entries of the files named, and of the report's file only the report.\<close>

definition faithful :: "string \<Rightarrow> 'p report \<Rightarrow> 'p outbox_entry list \<Rightarrow> bool" where
  "faithful n r es \<longleftrightarrow> (\<forall>e \<in> set es. suffix ''.json'' (oe_path e) \<and> (oe_path e = n \<longrightarrow> entry_report e = r))"

definition of_job :: "string \<Rightarrow> ('p report \<times> answer) list \<Rightarrow> ('p report \<times> answer) list" where
  "of_job j L = filter (\<lambda>x. fst (fst x) = j) L"

text \<open>
  A pass in order: of each job a first part of its entries is sent, in journal order, and each of them
  but the last was settled.
\<close>

definition in_chain_order :: "('p report \<times> answer) list \<Rightarrow> 'p outbox_entry list \<Rightarrow> bool" where
  "in_chain_order L es \<longleftrightarrow> subseq (map fst L) (map entry_report es) \<and>
     (\<forall>j. prefix (map fst (of_job j L)) (map entry_report (filter (\<lambda>e. oe_job e = j) es))
        \<and> (\<forall>x \<in> set (butlast (of_job j L)). settles (snd x)))"

text \<open>The history a pass adds, with the jobs it may no longer touch.\<close>

definition adds :: "string set \<Rightarrow> 'p outbox_entry list \<Rightarrow> 'p outbox \<Rightarrow> 'p outbox \<Rightarrow> bool" where
  "adds B es s s' \<longleftrightarrow> (\<exists>L. ob_sent s' = ob_sent s @ L \<and> in_chain_order L es \<and> (\<forall>j \<in> B. of_job j L = []))"

definition entry_at :: "'p outbox \<Rightarrow> string \<Rightarrow> 'p outbox_entry option" where
  "entry_at s name =
     (case (seq_of name, map_of (ob_files s) name) of
        (Some q, Some (Body b)) \<Rightarrow> Some (entry_of_body name q b)
      | _ \<Rightarrow> None)"

text \<open>The undelivered reports in the order of their file names, and a directory without foreign files.\<close>

definition pending :: "'p outbox \<Rightarrow> 'p outbox_entry list" where
  "pending s = List.map_filter (entry_at s) (sort (json_names s))"

definition journal_ok :: "'p outbox \<Rightarrow> bool" where
  "journal_ok s \<longleftrightarrow> distinct (map fst (ob_files s))
     \<and> (\<forall>(name, c) \<in> set (ob_files s). suffix ''.json'' name \<longrightarrow> seq_of name \<noteq> None \<and> (\<exists>b. c = Body b))"

definition digit :: "nat \<Rightarrow> char" where
  "digit d = char_of (48 + d)"

fun fixed :: "nat \<Rightarrow> nat \<Rightarrow> string" where
  "fixed 0 n = []"
| "fixed (Suc k) n = fixed k (n div 10) @ [digit (n mod 10)]"

text \<open>File names as the outbox writes them, with sequence numbers to spare.\<close>

definition room :: "nat \<Rightarrow> 'p outbox \<Rightarrow> bool" where
  "room k s \<longleftrightarrow> journal_ok s \<and> next_seq s + int k \<le> 10 ^ 10
     \<and> (\<forall>m \<in> set (json_names s). \<exists>q job kind. m = entry_name q job kind)"

definition queue :: "'p outbox \<Rightarrow> ('p report \<times> int) list" where
  "queue s = map (\<lambda>e. (entry_report e, oe_attempts e)) (pending s)"

definition push :: "'p world \<Rightarrow> 'p report \<Rightarrow> 'p outbox \<Rightarrow> bool \<times> 'p outbox" where
  "push w r s =
     (case r of (job, kind, payload) \<Rightarrow>
        (case outbox_append w job kind payload s of
           (Value _, s') \<Rightarrow> (True, s') | (Raises _, s') \<Rightarrow> (False, s') | (Stopped, s') \<Rightarrow> (False, s')))"

text \<open>A small journal: one report, and a world that answers every request the same.\<close>

definition demo_world :: "answer \<Rightarrow> nat world" where
  "demo_world a = \<lparr>wd_disk = (\<lambda>_. Works), wd_time = (\<lambda>_. 100), wd_answer = (\<lambda>_ _. a)\<rparr>"

definition demo_box :: "int \<Rightarrow> nat outbox" where
  "demo_box attempts = \<lparr>ob_files = [(''0000000001-j1-complete.json'', Body \<lparr>bd_job = ''j1'', bd_kind = ''complete'', bd_payload = 7,
      bd_attempts = attempts, bd_last_attempt_at = Some 50\<rparr>)], ob_step = 0, ob_sent = []\<rparr>"

definition empty_box :: "nat outbox" where
  "empty_box = \<lparr>ob_files = [], ob_step = 0, ob_sent = []\<rparr>"

section \<open>Computations on the journal\<close>

lemma keeps_give: "keeps J (give x)"
  by (simp add: keeps_def give_def)

lemma keeps_throw: "keeps J (throw e)"
  by (simp add: keeps_def throw_def)

lemma keeps_followed:
  assumes "keeps J m" and "gives J m P" and "\<And>x s'. J s' \<Longrightarrow> P x s' \<Longrightarrow> J (snd (f x s'))"
  shows "keeps J (followed m f)"
  unfolding keeps_def
proof (intro allI impI)
  fix s assume J: "J s"
  obtain r s' where m: "m s = (r, s')" by (rule prod.exhaust)
  with J assms(1) have "J s'" by (auto simp: keeps_def dest!: spec [of _ s])
  with m J assms(2,3) show "J (snd (followed m f s))"
    by (cases r) (auto simp: followed_def gives_def)
qed

lemma keeps_followed_any:
  assumes "keeps J m" and "\<And>x. keeps J (f x)"
  shows "keeps J (followed m f)"
  by (rule keeps_followed [OF assms(1), where P = "\<lambda>_ _. True"]) (use assms(2) in \<open>auto simp: gives_def keeps_def\<close>)

lemma keeps_catching:
  assumes "keeps J m" and "keeps J h"
  shows "keeps J (catching P m h)"
  unfolding keeps_def
proof (intro allI impI)
  fix s assume "J s"
  obtain r s' where m: "m s = (r, s')" by (rule prod.exhaust)
  with \<open>J s\<close> assms(1) have "J s'" by (auto simp: keeps_def dest!: spec [of _ s])
  with m assms(2) show "J (snd (catching P m h s))"
    by (cases r) (auto simp: catching_def keeps_def)
qed

section \<open>File names of the journal\<close>

lemma takeWhile_rev_json: "takeWhile (\<lambda>c. c \<noteq> CHR ''.'') (rev (y @ ''.json'')) = rev ''json''"
  by simp

lemma with_suffix_json: "y \<noteq> [] \<Longrightarrow> with_suffix (y @ ''.json'') t = y @ t"
  by (cases y) (simp_all add: with_suffix_def path_stem_def path_suffix_def Let_def)

lemma with_suffix_dot: "with_suffix ''.json'' t = ''.json'' @ t"
  by (simp add: with_suffix_def path_stem_def path_suffix_def Let_def)

lemma with_suffix_not_json:
  assumes "suffix ''.json'' m" and "suffix ''.json'' n" and "t \<in> {''.tmp'', ''.corrupt''}"
  shows "with_suffix m t \<noteq> n"
proof
  assume eq: "with_suffix m t = n"
  have "suffix t (with_suffix m t)" by (simp add: with_suffix_def suffix_def)
  with eq assms(2,3) show False by (auto simp: suffix_def append_eq_append_conv2 Cons_eq_append_conv)
qed

lemma tmp_not_corrupt: "with_suffix m ''.tmp'' \<noteq> with_suffix n ''.corrupt''"
proof
  assume "with_suffix m ''.tmp'' = with_suffix n ''.corrupt''"
  then have "last (with_suffix m ''.tmp'') = last (with_suffix n ''.corrupt'')" by simp
  then show False by (simp add: with_suffix_def)
qed

lemma hd_split_on: "c \<noteq> d \<Longrightarrow> hd (split_on d (c # s)) = c # hd (split_on d s)"
  by (cases "split_on d s") simp_all

lemma seq_of_dot: "seq_of (''.json'' @ t) = None"
proof -
  obtain r where r: "hd (split_on (CHR ''-'') (''.json'' @ t)) = CHR ''.'' # r"
    by (simp add: hd_split_on del: split_on.simps)
  have "\<not> is_space (CHR ''.'')" by (simp add: is_space_def)
  then have "\<exists>u. strip (CHR ''.'' # r) = CHR ''.'' # u"
    by (auto simp: strip_def dropWhile_append intro: exI [of _ "rev (dropWhile is_space (rev r))"])
  then obtain u where "strip (CHR ''.'' # r) = CHR ''.'' # u" by blast
  then have "py_int (CHR ''.'' # r) = None" by (simp add: py_int_def read_unsigned_def is_digit_def)
  with r show ?thesis unfolding seq_of_def by simp
qed

lemma journal_nameE:
  assumes "journal_name n"
  obtains y where "n = y @ ''.json''" "y \<noteq> []"
proof -
  from assms obtain y where y: "n = y @ ''.json''" by (auto simp: journal_name_def suffix_def)
  with assms seq_of_dot [of "[]"] have "y \<noteq> []" by (auto simp: journal_name_def)
  with y that show ?thesis by blast
qed

lemma corrupt_inj:
  assumes "journal_name n" and "suffix ''.json'' m" and "with_suffix m ''.corrupt'' = with_suffix n ''.corrupt''"
  shows "m = n"
proof -
  obtain y where y: "n = y @ ''.json''" "y \<noteq> []" using assms(1) by (rule journal_nameE)
  obtain x where x: "m = x @ ''.json''" using assms(2) by (auto simp: suffix_def)
  show ?thesis
  proof (cases "x = []")
    case True
    with assms(3) x y have "y = ''.json''" using with_suffix_json [OF y(2)] with_suffix_dot by simp
    with y(1) seq_of_dot [of "''.json''"] assms(1) show ?thesis by (simp add: journal_name_def)
  next
    case False
    with assms(3) x y show ?thesis using with_suffix_json [OF y(2)] with_suffix_json [OF False] by simp
  qed
qed

section \<open>No report is lost\<close>

text \<open>A change of the state that reads and writes of other files may make.\<close>

lemma safe_step:
  assumes "safe w n r s0 s" and "ob_step s \<le> ob_step s'" and "prefix (ob_sent s) (ob_sent s')"
    and "map_of (ob_files s') n = map_of (ob_files s) n
       \<or> (\<exists>b. map_of (ob_files s') n = Some (Body b) \<and> body_report b = r)"
    and "map_of (ob_files s') (with_suffix n ''.corrupt'') = map_of (ob_files s) (with_suffix n ''.corrupt'')"
  shows "safe w n r s0 s'"
proof -
  have p: "prefix (ob_sent s0) (ob_sent s')" using assms(1,3) by (auto simp: safe_def)
  have sent: "set (sent_since s0 s) \<subseteq> set (sent_since s0 s')"
    using assms(1,3) by (auto simp: safe_def sent_since_def elim!: prefixE)
  from assms(1) have "accounted w n r s0 s" by (simp add: safe_def)
  then consider "holds_report n r s"
    | "holds_report (with_suffix n ''.corrupt'') r s" "\<exists>k. ob_step s0 \<le> k \<and> k < ob_step s \<and> wd_disk w k = Fails"
    | "\<exists>a. (r, a) \<in> set (sent_since s0 s) \<and> settles a"
    unfolding accounted_def by blast
  then have "accounted w n r s0 s'"
  proof cases
    case 1
    with assms(4) show ?thesis by (auto simp: accounted_def holds_report_def)
  next
    case 2
    then have "\<exists>k. ob_step s0 \<le> k \<and> k < ob_step s' \<and> wd_disk w k = Fails"
      using assms(2) by (meson order_less_le_trans)
    with 2(1) assms(5) show ?thesis by (simp add: accounted_def holds_report_def)
  next
    case 3
    with sent show ?thesis unfolding accounted_def by blast
  qed
  with p assms(1,2,4) show ?thesis by (auto simp: safe_def)
qed

lemma safe_tick: "safe w n r s0 s \<Longrightarrow> safe w n r s0 (s\<lparr>ob_step := Suc (ob_step s)\<rparr>)"
  by (rule safe_step) simp_all

lemma keeps_access:
  assumes "\<And>s. J s \<Longrightarrow> J (s\<lparr>ob_step := Suc (ob_step s)\<rparr>)"
    and "\<And>s found. J s \<Longrightarrow> found = map_of (ob_files s) name \<Longrightarrow> J (snd (act found s))"
  shows "keeps J (access w act name)"
  using assms(1) assms(2) [where s = "s\<lparr>ob_step := Suc (ob_step s)\<rparr>" for s]
  by (auto simp: keeps_def access_def Let_def split: disk.splits)

lemma keeps_clock: "keeps (safe w n r s0) (clock w)"
  by (simp add: keeps_def clock_def safe_tick)

lemma safe_set_file:
  assumes "safe w n r s0 s" and "m \<noteq> n" and "m \<noteq> with_suffix n ''.corrupt''"
  shows "safe w n r s0 (snd (set_file m c s))"
  using assms(1) by (rule safe_step) (use assms(2,3) in \<open>simp_all add: set_file_def AList.update_conv'\<close>)

text \<open>A temporary file never stands for a report, and holds what was written when the write worked.\<close>

lemma keeps_write_text:
  assumes "m \<noteq> n" and "m \<noteq> with_suffix n ''.corrupt''"
  shows "keeps (safe w n r s0) (write_text w m c)"
  unfolding write_text_def
  by (intro keeps_followed_any keeps_access) (auto intro: safe_tick safe_set_file [OF _ assms])

lemma gives_write_text: "gives J (write_text w m c) (\<lambda>_ s'. map_of (ob_files s') m = Some c)"
  by (auto simp: gives_def write_text_def followed_def access_def set_file_def Let_def AList.update_conv'
      split: disk.splits prod.splits ended.splits)

lemma safe_replace:
  assumes "safe w n r s0 s" and "map_of (ob_files s) src = Some c" and "src \<noteq> n" and "src \<noteq> with_suffix n ''.corrupt''"
    and "dst \<noteq> with_suffix n ''.corrupt''" and "dst = n \<Longrightarrow> \<exists>b. c = Body b \<and> body_report b = r"
  shows "safe w n r s0 (snd (os_replace w src dst s))"
proof -
  have "safe w n r s0 (s\<lparr>ob_step := Suc (ob_step s), ob_files := AList.update dst c (AList.delete src (ob_files s))\<rparr>)"
    using assms(1) by (rule safe_step) (use assms(3-6) in \<open>auto simp: AList.update_conv' AList.delete_conv'\<close>)
  with assms(2) safe_tick [OF assms(1)] show ?thesis
    by (auto simp: os_replace_def access_def Let_def throw_def split: disk.splits)
qed

lemma keeps_write_entry:
  assumes n: "journal_name n" and m: "suffix ''.json'' m" and b: "m = n \<Longrightarrow> body_report b = r"
  shows "keeps (safe w n r s0) (write_entry w m b)"
  unfolding write_entry_def
proof (rule keeps_followed [OF _ gives_write_text])
  have nn: "suffix ''.json'' n" using n by (simp add: journal_name_def)
  have tmp: "with_suffix m ''.tmp'' \<noteq> n" "with_suffix m ''.tmp'' \<noteq> with_suffix n ''.corrupt''"
    using with_suffix_not_json [OF m nn] tmp_not_corrupt by auto
  then show "keeps (safe w n r s0) (write_text w (with_suffix m ''.tmp'') (Body b))" by (rule keeps_write_text)
  have "m \<noteq> with_suffix n ''.corrupt''" using with_suffix_not_json [OF nn m] by auto
  then show "safe w n r s0 (snd (os_replace w (with_suffix m ''.tmp'') m s'))"
    if "safe w n r s0 s'" "map_of (ob_files s') (with_suffix m ''.tmp'') = Some (Body b)" for s'
    using safe_replace [OF that tmp] b by blast
qed

lemma keeps_bump:
  assumes "journal_name n" and "suffix ''.json'' (oe_path e)" and "oe_path e = n \<Longrightarrow> entry_report e = r"
  shows "keeps (safe w n r s0) (bump_attempts w e)"
  unfolding bump_attempts_def
proof (intro keeps_followed_any keeps_clock keeps_catching keeps_give keeps_write_entry [OF assms(1,2)])
  fix t assume "oe_path e = n"
  then show "body_report (body_of_entry e (oe_attempts e + 1) (Some t)) = r"
    using assms(3) by (simp add: body_report_def body_of_entry_def entry_report_def)
qed

lemma keeps_read: "keeps (safe w n r s0) (read_entry w m)"
  unfolding read_entry_def
  by (auto split: option.splits intro!: keeps_catching keeps_access keeps_give safe_tick)
    (auto simp: give_def throw_def split: outbox_file.splits)

text \<open>Reading a report back gives that report; it is given up only when the read failed.\<close>

lemma read_report:
  assumes "read_entry w m s = (Value x, s')" and "safe w n r s0 s"
  shows "(\<forall>e. x = Some e \<longrightarrow> oe_path e = m \<and> (m = n \<longrightarrow> entry_report e = r))
    \<and> (x = None \<longrightarrow> m = n \<longrightarrow> journal_name n \<longrightarrow> holds_report n r s' \<longrightarrow>
         (\<exists>k. ob_step s0 \<le> k \<and> k < ob_step s' \<and> wd_disk w k = Fails))"
  using assms
  by (auto simp: read_entry_def give_def throw_def catching_def access_def Let_def entry_of_body_def entry_report_def
      body_report_def safe_def journal_name_def holds_report_def
      split: option.splits disk.splits outbox_file.splits prod.splits ended.splits if_splits intro!: exI [of _ "ob_step s"])

lemma safe_quarantine:
  assumes n: "journal_name n" and m: "suffix ''.json'' m" and s: "safe w n r s0 s"
    and fail: "m = n \<Longrightarrow> holds_report n r s \<Longrightarrow> \<exists>k. ob_step s0 \<le> k \<and> k < ob_step s \<and> wd_disk w k = Fails"
  shows "safe w n r s0 (snd (quarantine w m s))"
proof -
  let ?f = "\<lambda>c. s\<lparr>ob_step := Suc (ob_step s), ob_files := AList.update (with_suffix m ''.corrupt'') c (AList.delete m (ob_files s))\<rparr>"
  have nn: "suffix ''.json'' n" using n by (simp add: journal_name_def)
  have ne: "with_suffix m ''.corrupt'' \<noteq> n" "m \<noteq> with_suffix n ''.corrupt''"
    using with_suffix_not_json [OF m nn] with_suffix_not_json [OF nn m] by auto
  have moved: "safe w n r s0 (?f c)" if c: "map_of (ob_files s) m = Some c" for c
  proof (cases "m = n")
    case False
    then have "with_suffix m ''.corrupt'' \<noteq> with_suffix n ''.corrupt''" using corrupt_inj [OF n m] by blast
    then show ?thesis using s by (intro safe_step [OF s]) (use ne False in \<open>simp_all add: AList.update_conv' AList.delete_conv'\<close>)
  next
    case True
    with c s obtain b where b: "c = Body b" "body_report b = r" by (auto simp: safe_def)
    with c True have h: "holds_report n r s" by (simp add: holds_report_def)
    from b True have "holds_report (with_suffix n ''.corrupt'') r (?f c)"
      by (simp add: holds_report_def AList.update_conv')
    moreover obtain k where "ob_step s0 \<le> k" "k < ob_step s" "wd_disk w k = Fails" using fail [OF True h] by blast
    ultimately have "accounted w n r s0 (?f c)" by (auto simp: accounted_def intro!: exI [of _ k])
    then show ?thesis using s True ne by (auto simp: safe_def AList.update_conv' AList.delete_conv')
  qed
  then show ?thesis using safe_tick [OF s]
    by (auto simp: quarantine_def catching_def os_replace_def access_def Let_def throw_def give_def split: disk.splits option.splits)
qed

lemma scan_safe:
  assumes n: "journal_name n" and names: "\<forall>m \<in> set names. suffix ''.json'' m" and s: "safe w n r s0 s"
  shows "safe w n r s0 (snd (scan_names w names s))
    \<and> (\<forall>es s'. scan_names w names s = (Value es, s') \<longrightarrow> faithful n r es)"
  using names s
proof (induction names arbitrary: s)
  case Nil
  then show ?case by (simp add: give_def faithful_def)
next
  case (Cons m names)
  then have m: "suffix ''.json'' m" and names: "\<forall>m \<in> set names. suffix ''.json'' m" by simp_all
  obtain x s1 where r1: "read_entry w m s = (x, s1)" by (rule prod.exhaust)
  have s1: "safe w n r s0 s1" using keeps_read Cons.prems(2) r1 unfolding keeps_def by (metis snd_conv)
  show ?case
  proof (cases x)
    case (Value y)
    note rd = read_report [OF r1 [unfolded Value] Cons.prems(2)]
    show ?thesis
    proof (cases y)
      case None
      obtain z s2 where q: "quarantine w m s1 = (z, s2)" by (rule prod.exhaust)
      have "safe w n r s0 (snd (quarantine w m s1))"
        by (rule safe_quarantine [OF n m s1]) (use rd None n in blast)
      with q have "safe w n r s0 s2" by simp
      with Cons.IH [OF names this] r1 Value None q show ?thesis by (cases z) (auto simp: followed_def)
    next
      case (Some e)
      obtain z s2 where q: "scan_names w names s1 = (z, s2)" by (rule prod.exhaust)
      with Cons.IH [OF names s1] r1 Value Some rd m show ?thesis
        by (cases z) (auto simp: followed_def give_def faithful_def)
    qed
  qed (use r1 s1 in \<open>simp_all add: followed_def\<close>)
qed

lemma entries_safe:
  assumes "journal_name n" and "safe w n r s0 s"
  shows "safe w n r s0 (snd (outbox_entries w s))
    \<and> (\<forall>es s'. outbox_entries w s = (Value es, s') \<longrightarrow> faithful n r es)"
  unfolding outbox_entries_def by (rule scan_safe [OF assms(1) _ assms(2)]) (simp add: json_names_def)

lemma keeps_entries: "journal_name n \<Longrightarrow> keeps (safe w n r s0) (outbox_entries w)"
  using entries_safe unfolding keeps_def by blast

lemma keeps_parked: "keeps (safe w n r s0) (is_parked w e)"
  by (auto simp: is_parked_def intro!: keeps_followed_any keeps_clock keeps_give)

lemma keeps_live: "keeps (safe w n r s0) (any_live w es)"
  by (induction es) (auto intro!: keeps_followed_any keeps_parked keeps_give)

text \<open>An answer that settles a report is in the history, and then its file may go.\<close>

lemma send_safe:
  assumes "safe w n r s0 s"
  shows "safe w n r s0 (snd (send_report w j k p s))"
  using assms by (rule safe_step) (auto simp: send_report_def Let_def split: answer.splits)

lemma send_settled:
  assumes "safe w n r s0 s" and "send_report w j k p s = (Value x, s')"
    and "x = None \<or> (\<exists>f. x = Some f \<and> classify_error f = TERMINAL)"
  shows "\<exists>a. ((j, k, p), a) \<in> set (sent_since s0 s') \<and> settles a"
  using assms
  by (auto simp: send_report_def Let_def safe_def sent_since_def settles_def split: if_splits answer.splits elim!: prefixE)

lemma delete_safe:
  assumes "safe w n r s0 s" and "suffix ''.json'' (oe_path e)" and "journal_name n"
    and "oe_path e = n \<Longrightarrow> \<exists>a. (r, a) \<in> set (sent_since s0 s) \<and> settles a"
  shows "safe w n r s0 (snd (outbox_delete w e s))"
proof -
  let ?s = "s\<lparr>ob_step := Suc (ob_step s), ob_files := AList.delete (oe_path e) (ob_files s)\<rparr>"
  have ne: "oe_path e \<noteq> with_suffix n ''.corrupt''"
    using with_suffix_not_json [of n "oe_path e" "''.corrupt''"] assms(2,3) by (auto simp: journal_name_def)
  have "safe w n r s0 ?s"
  proof (cases "oe_path e = n")
    case True
    with assms(1,4) show ?thesis by (auto simp: safe_def accounted_def sent_since_def AList.delete_conv')
  next
    case False
    with ne assms(1) show ?thesis by (intro safe_step [OF assms(1)]) (simp_all add: AList.delete_conv')
  qed
  with safe_tick [OF assms(1)] show ?thesis
    by (auto simp: outbox_delete_def access_def Let_def split: disk.splits)
qed

text \<open>One round of the pass: what happens to the entry at the head, then the rest of the list.\<close>

lemma followed_snd:
  assumes "J (snd (m s))" and "\<And>x s'. m s = (Value x, s') \<Longrightarrow> J (snd (f x s'))"
  shows "J (snd (followed m f s))"
  using assms by (auto simp: followed_def split: prod.splits ended.splits)

lemma drain_entries_safe:
  assumes "journal_name n" and "faithful n r es" and "safe w n r s0 s"
  shows "safe w n r s0 (snd (drain_entries w es blocked auth s))"
  using assms(2,3)
proof (induction es arbitrary: s blocked auth)
  case Nil
  then show ?case by (simp add: give_def)
next
  case (Cons e es)
  then have e: "suffix ''.json'' (oe_path e)" "oe_path e = n \<Longrightarrow> entry_report e = r" and es: "faithful n r es"
    by (simp_all add: faithful_def)
  note rest = Cons.IH [OF es]
  have bump: "safe w n r s0 (snd (followed (bump_attempts w e) (\<lambda>_. drain_entries w es b a) t))"
    if "safe w n r s0 t" for t b a
    using keeps_bump [OF assms(1) e] rest that unfolding keeps_def
    by (intro followed_snd [where J = "safe w n r s0"]) (metis snd_conv)+
  have del: "safe w n r s0 (snd (followed (outbox_delete w e) (\<lambda>_. drain_entries w es b a) t'))"
    if "safe w n r s0 t" "send_report w (oe_job e) (oe_kind e) (oe_payload e) t = (Value x, t')"
      "x = None \<or> (\<exists>f. x = Some f \<and> classify_error f = TERMINAL)" for t t' x b a
  proof (rule followed_snd)
    have t': "safe w n r s0 t'" using send_safe [OF that(1)] that(2) by (metis snd_conv)
    show "safe w n r s0 (snd (outbox_delete w e t'))"
      using send_settled [OF that] e by (intro delete_safe [OF t' e(1) assms(1)]) (auto simp: entry_report_def)
    then show "safe w n r s0 (snd (drain_entries w es b a t2))" if "outbox_delete w e t' = (Value u, t2)" for u t2
      using rest that by simp
  qed
  let ?tail = "\<lambda>x. case x of
            None \<Rightarrow> followed (outbox_delete w e) (\<lambda>_. drain_entries w es blocked auth)
          | Some f \<Rightarrow>
              (case classify_error f of
                 AUTH \<Rightarrow> followed (bump_attempts w e) (\<lambda>_. drain_entries w es (oe_job e # blocked) True)
               | TERMINAL \<Rightarrow> followed (outbox_delete w e) (\<lambda>_. drain_entries w es blocked auth)
               | RETRYABLE \<Rightarrow> followed (bump_attempts w e) (\<lambda>_. drain_entries w es (oe_job e # blocked) auth))"
  have send: "safe w n r s0 (snd (followed (send_report w (oe_job e) (oe_kind e) (oe_payload e)) ?tail t))"
    if t: "safe w n r s0 t" for t
  proof (rule followed_snd [where J = "safe w n r s0"], rule send_safe [OF t])
    fix x t' assume x: "send_report w (oe_job e) (oe_kind e) (oe_payload e) t = (Value x, t')"
    then have t': "safe w n r s0 t'" using send_safe [OF t] by (metis snd_conv)
    with bump del [OF t x] show "safe w n r s0 (snd (?tail x t'))"
      by (auto split: option.splits error_class.splits)
  qed
  have pk: "safe w n r s0 (snd (is_parked w e s))" using keeps_parked Cons.prems(2) unfolding keeps_def by blast
  have "safe w n r s0 (snd (followed (is_parked w e) (\<lambda>parked.
        if parked then drain_entries w es (oe_job e # blocked) auth
        else followed (send_report w (oe_job e) (oe_kind e) (oe_payload e)) ?tail) s))"
  proof (rule followed_snd, rule pk)
    fix x s' assume "is_parked w e s = (Value x, s')"
    with pk have "safe w n r s0 s'" by simp
    with rest send show "safe w n r s0 (snd ((if x then drain_entries w es (oe_job e # blocked) auth
        else followed (send_report w (oe_job e) (oe_kind e) (oe_payload e)) ?tail) s'))" by simp
  qed
  with rest [OF Cons.prems(2)] show ?case by (simp only: drain_entries.simps split: if_split) blast
qed

lemma keeps_verdict: "journal_name n \<Longrightarrow> keeps (safe w n r s0) (drain_verdict w auth)"
  unfolding drain_verdict_def by (auto intro!: keeps_followed_any keeps_entries keeps_live keeps_give)

lemma drain_safe:
  assumes "journal_name n" and "safe w n r s0 s"
  shows "safe w n r s0 (snd (drain_outbox w s))"
  unfolding drain_outbox_def
proof (rule followed_snd)
  show "safe w n r s0 (snd (outbox_entries w s))" using entries_safe [OF assms] by blast
next
  fix es s1 assume "outbox_entries w s = (Value es, s1)"
  with entries_safe [OF assms] have s1: "safe w n r s0 s1" "faithful n r es" by auto
  note safe = drain_entries_safe [OF assms(1) s1(2,1), of "[]" False]
  show "safe w n r s0 (snd (followed (drain_entries w es [] False) (drain_verdict w) s1))"
    by (rule followed_snd, rule safe) (use keeps_verdict [OF assms(1), where r = r] safe in \<open>auto simp: keeps_def\<close>)
qed

lemma safe_start: "holds_report n r s \<Longrightarrow> safe w n r s s"
  by (auto simp: safe_def accounted_def holds_report_def)

lemma demo_ok: "journal_ok (demo_box n)" "journal_name ''0000000001-j1-complete.json''"
  "holds_report ''0000000001-j1-complete.json'' (''j1'', ''complete'', 7) (demo_box n)"
proof -
  have s: "seq_of ''0000000001-j1-complete.json'' \<noteq> None" by code_simp
  have j: "suffix ''.json'' ''0000000001-j1-complete.json''" by code_simp
  from s show "journal_ok (demo_box n)" by (simp add: journal_ok_def demo_box_def)
  from s j show "journal_name ''0000000001-j1-complete.json''" by (simp add: journal_name_def)
  show "holds_report ''0000000001-j1-complete.json'' (''j1'', ''complete'', 7) (demo_box n)"
    by (simp add: holds_report_def demo_box_def body_report_def)
qed

lemma demo_parked: "fst (drain_outbox (demo_world Delivered) (demo_box 30)) = Value EMPTY"
  by code_simp

lemma demo_parked_stays:
  "map oe_attempts (pending (snd (drain_outbox (demo_world Delivered) (demo_box 30)))) = [30]"
  by code_simp

lemma pending_empty: "pending empty_box = []"
  by (simp add: empty_box_def pending_def json_names_def List.map_filter_def)

lemma demo_room: "room (Suc (Suc 0)) empty_box"
  by (simp add: room_def journal_ok_def empty_box_def next_seq_def json_names_def)

text \<open>
  C4. A delivery pass loses no report. Whatever the disk, the scheduler and the clock do, and wherever
  the process dies or is cancelled, a journaled report is afterwards in the journal unchanged, or set
  aside under the name \<open>.corrupt\<close> because a read failed during the pass, or the scheduler answered it
  during the pass with success or a final refusal.
\<close>

theorem drain_loses_nothing:
  assumes "journal_name name" and "holds_report name r s" and "drain_outbox w s = (res, s')"
  shows "holds_report name r s'
    \<or> holds_report (with_suffix name ''.corrupt'') r s' \<and> (\<exists>k. ob_step s \<le> k \<and> k < ob_step s' \<and> wd_disk w k = Fails)
    \<or> (\<exists>a. (r, a) \<in> set (sent_since s s') \<and> settles a)"
  using drain_safe [OF assms(1) safe_start [OF assms(2)], of w] assms(3) by (simp add: safe_def accounted_def)

theorem drain_loses_nothing_witness:
  "let s = demo_box 3; w = demo_world (Failed_with (Http_status 500)); s' = snd (drain_outbox w s);
       name = ''0000000001-j1-complete.json''; r = (''j1'', ''complete'', 7)
   in holds_report name r s'
    \<or> holds_report (with_suffix name ''.corrupt'') r s' \<and> (\<exists>k. ob_step s \<le> k \<and> k < ob_step s' \<and> wd_disk w k = Fails)
    \<or> (\<exists>a. (r, a) \<in> set (sent_since s s') \<and> settles a)"
  unfolding Let_def using drain_loses_nothing [OF demo_ok(2,3) prod.collapse [symmetric]] .

section \<open>The order of a job's reports\<close>

lemma sent_access:
  "(\<And>found s. ob_sent (snd (act found s)) = ob_sent s) \<Longrightarrow> ob_sent (snd (access w act m s)) = ob_sent s"
  by (simp add: access_def Let_def split: disk.splits)

lemma sent_followed:
  "(\<And>s. ob_sent (snd (m s)) = ob_sent s) \<Longrightarrow> (\<And>x s. ob_sent (snd (f x s)) = ob_sent s)
     \<Longrightarrow> ob_sent (snd (followed m f s)) = ob_sent s"
  by (simp add: followed_def split: prod.splits ended.splits) (metis snd_conv)

lemma sent_catching:
  "(\<And>s. ob_sent (snd (m s)) = ob_sent s) \<Longrightarrow> (\<And>s. ob_sent (snd (h s)) = ob_sent s)
     \<Longrightarrow> ob_sent (snd (catching P m h s)) = ob_sent s"
  by (simp add: catching_def split: prod.splits ended.splits) (metis snd_conv)

lemma sent_give [simp]: "ob_sent (snd (give x s)) = ob_sent s"
  by (simp add: give_def)

lemma sent_throw [simp]: "ob_sent (snd (throw x s)) = ob_sent s"
  by (simp add: throw_def)

lemma sent_clock [simp]: "ob_sent (snd (clock w s)) = ob_sent s"
  by (simp add: clock_def)

lemma sent_set_file [simp]: "ob_sent (snd (set_file m c s)) = ob_sent s"
  by (simp add: set_file_def)

lemma sent_replace [simp]: "ob_sent (snd (os_replace w m m' s)) = ob_sent s"
  unfolding os_replace_def by (rule sent_access) (simp split: option.splits)

lemma sent_bump [simp]: "ob_sent (snd (bump_attempts w e s)) = ob_sent s"
  unfolding bump_attempts_def write_entry_def write_text_def
  by (intro sent_followed sent_catching sent_access) simp_all

lemma sent_delete [simp]: "ob_sent (snd (outbox_delete w e s)) = ob_sent s"
  unfolding outbox_delete_def by (rule sent_access) simp

lemma sent_parked [simp]: "ob_sent (snd (is_parked w e s)) = ob_sent s"
  by (simp add: is_parked_def sent_followed)

lemma sent_read [simp]: "ob_sent (snd (read_entry w m s)) = ob_sent s"
  unfolding read_entry_def
  by (auto split: option.splits intro!: sent_catching sent_access) (auto split: outbox_file.splits)

lemma sent_scan [simp]: "ob_sent (snd (scan_names w names s)) = ob_sent s"
  by (induction names arbitrary: s)
    (auto intro!: sent_followed sent_catching simp: quarantine_def split: option.splits)

lemma sent_entries [simp]: "ob_sent (snd (outbox_entries w s)) = ob_sent s"
  by (simp add: outbox_entries_def)

lemma sent_live [simp]: "ob_sent (snd (any_live w es s)) = ob_sent s"
  by (induction es arbitrary: s) (auto intro!: sent_followed)

lemma sent_verdict [simp]: "ob_sent (snd (drain_verdict w auth s)) = ob_sent s"
  unfolding drain_verdict_def by (rule sent_followed) (auto intro!: sent_followed)

lemma adds_none: "ob_sent s' = ob_sent s \<Longrightarrow> adds B es s s'"
  by (auto simp: adds_def in_chain_order_def of_job_def)

lemma adds_skip:
  assumes "adds (insert (oe_job e) B) es t s'" and "ob_sent t = ob_sent s"
  shows "adds B (e # es) s s'"
proof -
  from assms obtain L where L: "ob_sent s' = ob_sent s @ L" "in_chain_order L es" "\<forall>j \<in> insert (oe_job e) B. of_job j L = []"
    by (auto simp: adds_def)
  then have "in_chain_order L (e # es)" by (auto simp: in_chain_order_def)
  with L show ?thesis by (auto simp: adds_def)
qed

lemma in_chain_order_Cons:
  assumes "in_chain_order L es" and "settles a \<or> of_job (oe_job e) L = []"
  shows "in_chain_order ((entry_report e, a) # L) (e # es)"
  using assms by (auto simp: in_chain_order_def of_job_def entry_report_def)

lemma adds_send:
  assumes "adds B' es t s'" and "ob_sent t = ob_sent s @ [(entry_report e, a)]" and "oe_job e \<notin> B"
    and "B' = B \<and> settles a \<or> B' = insert (oe_job e) B"
  shows "adds B (e # es) s s'"
proof -
  from assms(1) obtain L where L: "ob_sent s' = ob_sent t @ L" "in_chain_order L es" "\<forall>j \<in> B'. of_job j L = []"
    by (auto simp: adds_def)
  have "in_chain_order ((entry_report e, a) # L) (e # es)"
    using L(2,3) assms(4) by (intro in_chain_order_Cons) auto
  moreover have "\<forall>j \<in> B. of_job j ((entry_report e, a) # L) = []"
    using L(3) assms(3,4) by (auto simp: of_job_def entry_report_def)
  ultimately show ?thesis using L(1) assms(2) by (auto simp: adds_def intro!: exI [of _ "(entry_report e, a) # L"])
qed

lemma adds_silent:
  assumes "\<And>t. ob_sent (snd (m t)) = ob_sent t" and "\<And>x t. adds B es t (snd (f x t))"
  shows "adds B es t (snd (followed m f t))"
proof (rule followed_snd)
  show "adds B es t (snd (m t))" using assms(1) by (rule adds_none)
  show "adds B es t (snd (f x t'))" if "m t = (Value x, t')" for x t'
    using assms(1) [of t] assms(2) [of t' x] that by (simp add: adds_def)
qed

lemma send_cases:
  obtains (unknown) "send_report w (oe_job e) (oe_kind e) (oe_payload e) s = (Value (Some Other_error), s)"
  | (sent) a s' where "send_report w (oe_job e) (oe_kind e) (oe_payload e) s =
        (case a of Delivered \<Rightarrow> Value None | Failed_with f \<Rightarrow> Value (Some f) | Interrupted \<Rightarrow> Stopped, s')"
      "ob_sent s' = ob_sent s @ [(entry_report e, a)]"
proof (cases "oe_kind e \<in> set MILESTONE_KINDS")
  case False
  then show ?thesis by (intro unknown) (simp add: send_report_def)
next
  case True
  let ?a = "wd_answer w (ob_step s) (entry_report e)"
  show ?thesis
    by (rule sent [of ?a "s\<lparr>ob_step := Suc (ob_step s), ob_sent := ob_sent s @ [(entry_report e, ?a)]\<rparr>"])
      (use True in \<open>simp_all add: send_report_def Let_def entry_report_def split: answer.split\<close>)
qed

lemma drain_entries_adds: "adds (set blocked) es s (snd (drain_entries w es blocked auth s))"
proof (induction es arbitrary: s blocked auth)
  case Nil
  then show ?case by (simp add: adds_none)
next
  case (Cons e es)
  let ?rest = "\<lambda>B a. drain_entries w es B a"
  have bump: "adds (insert (oe_job e) (set blocked)) es t (snd (followed (bump_attempts w e) (\<lambda>_. ?rest (oe_job e # blocked) a) t))" for a t
    by (rule adds_silent [OF sent_bump]) (use Cons.IH [of "oe_job e # blocked"] in simp)
  have del: "adds (set blocked) es t (snd (followed (outbox_delete w e) (\<lambda>_. ?rest blocked a) t))" for a t
    by (rule adds_silent [OF sent_delete Cons.IH])
  let ?tail = "\<lambda>x. case x of
            None \<Rightarrow> followed (outbox_delete w e) (\<lambda>_. ?rest blocked auth)
          | Some f \<Rightarrow>
              (case classify_error f of
                 AUTH \<Rightarrow> followed (bump_attempts w e) (\<lambda>_. ?rest (oe_job e # blocked) True)
               | TERMINAL \<Rightarrow> followed (outbox_delete w e) (\<lambda>_. ?rest blocked auth)
               | RETRYABLE \<Rightarrow> followed (bump_attempts w e) (\<lambda>_. ?rest (oe_job e # blocked) auth))"
  have send: "adds (set blocked) (e # es) t (snd (followed (send_report w (oe_job e) (oe_kind e) (oe_payload e)) ?tail t))"
    if nb: "oe_job e \<notin> set blocked" for t
  proof (cases rule: send_cases [of w e t])
    case unknown
    with adds_skip [OF bump refl] show ?thesis by (simp add: followed_def)
  next
    case (sent a t')
    note bumped = adds_send [OF bump sent(2) nb] and deleted = adds_send [OF del sent(2) nb]
    from sent adds_send [OF adds_none [OF refl] sent(2) nb, of "insert (oe_job e) (set blocked)"] bumped deleted show ?thesis
      by (cases a) (auto simp: followed_def settles_def split: error_class.splits)
  qed
  have "adds (set blocked) (e # es) s (snd (followed (is_parked w e) (\<lambda>parked.
        if parked then ?rest (oe_job e # blocked) auth
        else followed (send_report w (oe_job e) (oe_kind e) (oe_payload e)) ?tail) s))" if nb: "oe_job e \<notin> set blocked"
  proof (rule adds_silent [OF sent_parked])
    have "adds (set blocked) (e # es) t (snd (?rest (oe_job e # blocked) auth t))" for t
      using adds_skip [OF _ refl] Cons.IH [of "oe_job e # blocked" t auth] by simp
    with send [OF nb] show "adds (set blocked) (e # es) t (snd ((if x then ?rest (oe_job e # blocked) auth
        else followed (send_report w (oe_job e) (oe_kind e) (oe_payload e)) ?tail) t))" for x t
      by (cases x) (simp_all only: if_True if_False)
  qed
  moreover have "adds (set blocked) (e # es) s (snd (?rest blocked auth s))" if "oe_job e \<in> set blocked"
    using adds_skip [of e "set blocked" es s _ s] Cons.IH [of blocked s auth] that by (simp add: insert_absorb)
  ultimately show ?case by (simp only: drain_entries.simps split: if_split) blast
qed

section \<open>The journal as a queue\<close>

lemma journal_entry:
  assumes "journal_ok s" and "m \<in> set (json_names s)"
  shows "\<exists>q b. seq_of m = Some q \<and> map_of (ob_files s) m = Some (Body b) \<and> entry_at s m = Some (entry_of_body m q b)"
proof -
  from assms(2) obtain c where c: "(m, c) \<in> set (ob_files s)" "suffix ''.json'' m" by (auto simp: json_names_def)
  with assms(1) obtain q b where "seq_of m = Some q" "c = Body b" by (auto simp: journal_ok_def)
  with c assms(1) show ?thesis by (auto simp: journal_ok_def entry_at_def)
qed

lemma map_filter_total: "(\<And>x. x \<in> set xs \<Longrightarrow> f x \<noteq> None) \<Longrightarrow> List.map_filter f xs = map (\<lambda>x. the (f x)) xs"
  by (induction xs) (auto simp: List.map_filter_def)

lemma pending_map:
  assumes "journal_ok s"
  shows "pending s = map (\<lambda>m. the (entry_at s m)) (sort (json_names s))"
  unfolding pending_def by (rule map_filter_total) (use journal_entry [OF assms] in fastforce)

lemma pending_paths:
  assumes "journal_ok s"
  shows "map oe_path (pending s) = sort (json_names s)"
  unfolding pending_map [OF assms] map_map comp_def
  by (rule map_idI) (use journal_entry [OF assms] in \<open>fastforce simp: entry_of_body_def\<close>)

lemma pending_entry:
  assumes "journal_ok s" and "e \<in> set (pending s)"
  shows "suffix ''.json'' (oe_path e) \<and> entry_at s (oe_path e) = Some e"
proof -
  from assms obtain m where m: "m \<in> set (json_names s)" "e = the (entry_at s m)"
    using pending_map [OF assms(1)] by auto
  with journal_entry [OF assms(1) m(1)] show ?thesis by (auto simp: json_names_def entry_of_body_def)
qed

text \<open>On a working disk a read of the directory gives exactly the pending entries.\<close>

lemma access_works: "wd_disk w k = Works \<Longrightarrow> k = ob_step s \<Longrightarrow>
    access w act m s = act (map_of (ob_files s) m) (s\<lparr>ob_step := Suc (ob_step s)\<rparr>)"
  by (simp add: access_def Let_def)

lemma scan_works:
  assumes "\<And>k. wd_disk w k = Works"
    and "\<forall>m \<in> set names. \<exists>q b. seq_of m = Some q \<and> map_of (ob_files s) m = Some (Body b)"
  shows "\<exists>k. scan_names w names s = (Value (map (\<lambda>m. the (entry_at s m)) names), s\<lparr>ob_step := k\<rparr>)"
  using assms(2)
proof (induction names arbitrary: s)
  case Nil
  then show ?case by (auto simp: give_def intro!: exI [of _ "ob_step s"])
next
  case (Cons m names)
  then obtain q b where m: "seq_of m = Some q" "map_of (ob_files s) m = Some (Body b)" by auto
  let ?s = "s\<lparr>ob_step := Suc (ob_step s)\<rparr>"
  from Cons.IH [of ?s] Cons.prems obtain k where k:
    "scan_names w names ?s = (Value (map (\<lambda>m. the (entry_at ?s m)) names), ?s\<lparr>ob_step := k\<rparr>)" by auto
  have "read_entry w m s = (Value (Some (entry_of_body m q b)), ?s)"
    using m assms(1) by (simp add: read_entry_def access_def catching_def give_def)
  then have "scan_names w (m # names) s = (Value (the (entry_at s m) # map (\<lambda>m. the (entry_at s m)) names), s\<lparr>ob_step := k\<rparr>)"
    using k m by (simp add: followed_def give_def entry_at_def)
  then show ?case by auto
qed

lemma entries_works:
  assumes "\<And>k. wd_disk w k = Works" and "journal_ok s"
  shows "\<exists>k. outbox_entries w s = (Value (pending s), s\<lparr>ob_step := k\<rparr>)"
  unfolding outbox_entries_def pending_map [OF assms(2)]
  by (rule scan_works [OF assms(1)]) (use journal_entry [OF assms(2)] in \<open>simp, blast\<close>)

text \<open>
  C16. The order of a job's reports is kept. In one pass the requests of each job are a first part of
  its journaled reports in journal order, each at most once, and a later one is sent only after every
  earlier one was accepted or finally refused: a job's \<open>complete\<close> never overtakes its
  \<open>register_derivative\<close>, whatever the scheduler answers and the disk does.
\<close>

theorem drain_keeps_job_order:
  assumes "outbox_entries w s = (Value es, s1)" and "drain_outbox w s = (res, s')"
  shows "in_chain_order (sent_since s s') es"
proof -
  have s1: "ob_sent s1 = ob_sent s" using sent_entries [of w s] assms(1) by simp
  obtain x s2 where x: "drain_entries w es [] False s1 = (x, s2)" by (rule prod.exhaust)
  have "adds {} es s1 s2" using drain_entries_adds [of "[]" es s1 w False] x by simp
  moreover have "ob_sent s' = ob_sent s2"
    using assms x by (cases x) (auto simp: drain_outbox_def followed_def dest: arg_cong [of _ _ "\<lambda>p. ob_sent (snd p)"])
  ultimately show ?thesis using s1 by (auto simp: adds_def sent_since_def)
qed

theorem drain_keeps_job_order_witness:
  "let s = demo_box 3; w = demo_world (Failed_with (Http_status 500))
   in \<exists>es s1. outbox_entries w s = (Value es, s1) \<and> in_chain_order (sent_since s (snd (drain_outbox w s))) es"
proof -
  let ?w = "demo_world (Failed_with (Http_status 500))"
  have "wd_disk ?w k = Works" for k by (simp add: demo_world_def)
  from entries_works [OF this demo_ok(1)] obtain es s1 where "outbox_entries ?w (demo_box 3) = (Value es, s1)" by blast
  with drain_keeps_job_order [OF this prod.collapse [symmetric]] show ?thesis unfolding Let_def by blast
qed

lemma pending_files:
  assumes "ob_files s = ob_files s'"
  shows "pending s = pending s'"
proof -
  have "entry_at s = entry_at s'" by (rule ext) (simp add: entry_at_def assms)
  then show ?thesis by (simp add: pending_def json_names_def assms)
qed

lemma pending_step [simp]: "pending (s\<lparr>ob_step := k\<rparr>) = pending s"
  by (rule pending_files) simp

lemma journal_ok_step [simp]: "journal_ok (s\<lparr>ob_step := k\<rparr>) = journal_ok s"
  by (simp add: journal_ok_def)

text \<open>Every operation of the pass keeps the directory free of foreign files.\<close>

lemma journal_ok_files:
  "journal_ok s \<longleftrightarrow> distinct (map fst (ob_files s))
     \<and> (\<forall>m c. map_of (ob_files s) m = Some c \<longrightarrow> suffix ''.json'' m \<longrightarrow> seq_of m \<noteq> None \<and> (\<exists>b. c = Body b))"
  unfolding journal_ok_def
  by (rule conj_cong [OF refl]) (auto simp: map_of_eq_Some_iff)

lemma journal_ok_update:
  assumes "journal_ok s" and "suffix ''.json'' m \<Longrightarrow> seq_of m \<noteq> None \<and> (\<exists>b. c = Body b)"
    and "ob_files s' = AList.update m c (ob_files s)"
  shows "journal_ok s'"
  using assms unfolding journal_ok_files by (auto simp: AList.update_conv' distinct_update split: if_splits)

lemma journal_ok_delete:
  assumes "journal_ok s" and "ob_files s' = AList.delete m (ob_files s)"
  shows "journal_ok s'"
  using assms unfolding journal_ok_files by (auto simp: AList.delete_conv' distinct_delete split: if_splits)

lemma suffix_tmp: "suffix ''.json'' m \<Longrightarrow> \<not> suffix ''.json'' (with_suffix m ''.tmp'')"
  using with_suffix_not_json by blast

lemma keeps_ok_write_entry:
  assumes "journal_name m"
  shows "keeps journal_ok (write_entry w m b)"
  unfolding write_entry_def
proof (rule keeps_followed [OF _ gives_write_text])
  have m: "suffix ''.json'' m" using assms by (simp add: journal_name_def)
  note tmp = suffix_tmp [OF m]
  have set: "journal_ok (snd (set_file (with_suffix m ''.tmp'') c s))" if "journal_ok s" for s c
    using that by (rule journal_ok_update [where c = c]) (use tmp in \<open>simp_all add: set_file_def\<close>)
  show "keeps journal_ok (write_text w (with_suffix m ''.tmp'') (Body b))"
    unfolding write_text_def by (intro keeps_followed_any keeps_access) (simp_all add: set)
  fix s assume s: "journal_ok s" "map_of (ob_files s) (with_suffix m ''.tmp'') = Some (Body b)"
  let ?d = "s\<lparr>ob_step := Suc (ob_step s), ob_files := AList.delete (with_suffix m ''.tmp'') (ob_files s)\<rparr>"
  have d: "journal_ok ?d" by (rule journal_ok_delete [OF s(1)]) simp
  have "journal_ok (?d\<lparr>ob_files := AList.update m (Body b) (ob_files ?d)\<rparr>)"
    by (rule journal_ok_update [OF d, where c = "Body b"]) (use assms in \<open>simp_all add: journal_name_def\<close>)
  with s show "journal_ok (snd (os_replace w (with_suffix m ''.tmp'') m s))"
    by (simp add: os_replace_def access_def Let_def split: disk.splits)
qed

lemma keeps_ok_delete: "keeps journal_ok (outbox_delete w e)"
  unfolding outbox_delete_def by (rule keeps_access) (auto intro: journal_ok_delete)

lemma keeps_ok_bump: "journal_name (oe_path e) \<Longrightarrow> keeps journal_ok (bump_attempts w e)"
  unfolding bump_attempts_def
  by (intro keeps_followed_any keeps_catching keeps_give keeps_ok_write_entry) (simp_all add: keeps_def clock_def)

lemma keeps_ok_parked: "keeps journal_ok (is_parked w e)"
  by (auto simp: is_parked_def keeps_def followed_def clock_def give_def)

lemma keeps_ok_send: "keeps journal_ok (send_report w j k p)"
  by (auto simp: keeps_def send_report_def Let_def journal_ok_def split: answer.splits)

lemma keeps_ok_drain:
  "\<forall>e \<in> set es. journal_name (oe_path e) \<Longrightarrow> keeps journal_ok (drain_entries w es blocked auth)"
proof (induction es arbitrary: blocked auth)
  case Nil
  then show ?case by (simp add: keeps_give)
next
  case (Cons e es)
  then have e: "journal_name (oe_path e)" and rest: "keeps journal_ok (drain_entries w es b a)" for b a by simp_all
  show ?case unfolding drain_entries.simps
    by (auto split: option.split error_class.split
        intro!: keeps_followed_any keeps_ok_parked keeps_ok_send keeps_ok_delete keeps_ok_bump [OF e] rest)
qed

text \<open>A list with no live entry holds parked ones only, as of some reading of the clock.\<close>

lemma not_live_parked:
  assumes "any_live w es s = (Value False, s')" and "e \<in> set es"
  shows "POISON_ATTEMPTS \<le> oe_attempts e \<and> (\<exists>k. wd_time w k - oe_last_attempt_at e < POISON_COOLDOWN_S)"
  using assms
proof (induction es arbitrary: s)
  case (Cons a es)
  then show ?case
    by (auto simp: followed_def is_parked_def clock_def give_def split: if_splits prod.splits ended.splits)
qed simp

lemma files_parked: "ob_files (snd (is_parked w e s)) = ob_files s"
  by (simp add: is_parked_def followed_def clock_def give_def)

lemma files_live: "ob_files (snd (any_live w es s)) = ob_files s"
proof (induction es arbitrary: s)
  case (Cons a es)
  show ?case using Cons.IH files_parked [of w a s]
    by (auto simp: followed_def give_def split: prod.splits ended.splits) (metis snd_conv)+
qed (simp add: give_def)

text \<open>
  The claim fence. On a working disk, a pass over a journal of well-formed entries reports
  \<open>EMPTY\<close>, and so lets the worker claim again, only when every report still in the journal is parked:
  it has failed at least 25 times and the last attempt was within the cooldown.
\<close>

lemma drain_empty_only_parked:
  assumes "\<And>k. wd_disk w k = Works" and "journal_ok s" and "drain_outbox w s = (Value EMPTY, s')" and "e \<in> set (pending s')"
  shows "POISON_ATTEMPTS \<le> oe_attempts e \<and> (\<exists>k. wd_time w k - oe_last_attempt_at e < POISON_COOLDOWN_S)"
proof -
  obtain k where es: "outbox_entries w s = (Value (pending s), s\<lparr>ob_step := k\<rparr>)"
    using entries_works [OF assms(1,2)] by blast
  obtain x s2 where d: "drain_entries w (pending s) [] False (s\<lparr>ob_step := k\<rparr>) = (x, s2)" by (rule prod.exhaust)
  with assms(3) es obtain auth where x: "x = Value auth" and v: "drain_verdict w auth s2 = (Value EMPTY, s')"
    by (cases x) (auto simp: drain_outbox_def followed_def)
  have "\<forall>e \<in> set (pending s). journal_name (oe_path e)"
    using pending_entry [OF assms(2)] by (fastforce simp: journal_name_def entry_at_def split: option.splits)
  then have ok: "journal_ok s2"
    using keeps_ok_drain [of "pending s" w "[]" False] d assms(2) unfolding keeps_def by (metis journal_ok_step snd_conv)
  obtain k' where r: "outbox_entries w s2 = (Value (pending s2), s2\<lparr>ob_step := k'\<rparr>)"
    using entries_works [OF assms(1) ok] by blast
  obtain y s3 where l: "any_live w (pending s2) (s2\<lparr>ob_step := k'\<rparr>) = (y, s3)" by (rule prod.exhaust)
  have "ob_files s3 = ob_files s2" using files_live [of w "pending s2" "s2\<lparr>ob_step := k'\<rparr>"] l by simp
  then have p: "pending s3 = pending s2" by (rule pending_files)
  show ?thesis
  proof (cases "pending s2 = []")
    case True
    with v r assms(4) show ?thesis by (auto simp: drain_verdict_def followed_def give_def)
  next
    case False
    with v r l assms(4) p have "y = Value False" "e \<in> set (pending s2)"
      by (cases y; auto simp: drain_verdict_def followed_def give_def split: if_splits)+
    with l not_live_parked show ?thesis by blast
  qed
qed

section \<open>Delivery when the scheduler answers\<close>

lemma keys_delete: "fst ` set (AList.delete k al) = fst ` set al - {k}"
  using arg_cong [OF AList.delete_keys, of set k al] by simp

lemma keys_fold_delete:
  "set (map fst (fold (\<lambda>e. AList.delete (oe_path e)) es fs)) = set (map fst fs) - oe_path ` set es"
  by (induction es arbitrary: fs) (auto simp: keys_delete)

lemma drain_entries_settling:
  assumes "\<And>k. wd_disk w k = Works" and "\<And>k r. settles (wd_answer w k r)"
    and "\<forall>e \<in> set es. oe_kind e \<in> set MILESTONE_KINDS \<and> oe_attempts e < POISON_ATTEMPTS"
  shows "\<exists>L s'. drain_entries w es [] auth s = (Value auth, s') \<and> ob_sent s' = ob_sent s @ L
    \<and> map fst L = map entry_report es \<and> ob_files s' = fold (\<lambda>e. AList.delete (oe_path e)) es (ob_files s)"
  using assms(3)
proof (induction es arbitrary: s)
  case Nil
  then show ?case by (simp add: give_def)
next
  case (Cons e es)
  let ?a = "wd_answer w (ob_step s) (entry_report e)"
  let ?s = "s\<lparr>ob_sent := ob_sent s @ [(entry_report e, ?a)], ob_step := Suc (Suc (ob_step s)),
      ob_files := AList.delete (oe_path e) (ob_files s)\<rparr>"
  from Cons.IH [of ?s] Cons.prems obtain L s' where IH: "drain_entries w es [] auth ?s = (Value auth, s')"
    "ob_sent s' = ob_sent ?s @ L" "map fst L = map entry_report es"
    "ob_files s' = fold (\<lambda>e. AList.delete (oe_path e)) es (ob_files ?s)" by auto
  have "settles ?a" by (rule assms(2))
  then have "drain_entries w (e # es) [] auth s = drain_entries w es [] auth ?s"
    using Cons.prems assms(1)
    by (cases ?a) (auto simp: settles_def is_parked_def followed_def give_def send_report_def Let_def entry_report_def
        outbox_delete_def access_def)
  with IH show ?case by (auto intro!: exI [of _ "(entry_report e, ?a) # L"])
qed

text \<open>
  On a working disk, when every request is accepted or
  finally refused and no entry is over the attempt limit, one pass sends every pending report exactly
  once in journal order, leaves no entry behind and reports \<open>EMPTY\<close>.
\<close>

lemma drain_delivers_all:
  assumes "\<And>k. wd_disk w k = Works" and "\<And>k r. settles (wd_answer w k r)" and "journal_ok s"
    and "\<forall>e \<in> set (pending s). oe_kind e \<in> set MILESTONE_KINDS \<and> oe_attempts e < POISON_ATTEMPTS"
  shows "\<exists>s'. drain_outbox w s = (Value EMPTY, s') \<and> pending s' = []
    \<and> map fst (sent_since s s') = map entry_report (pending s)"
proof -
  obtain k where es: "outbox_entries w s = (Value (pending s), s\<lparr>ob_step := k\<rparr>)"
    using entries_works [OF assms(1,3)] by blast
  obtain L s2 where d: "drain_entries w (pending s) [] False (s\<lparr>ob_step := k\<rparr>) = (Value False, s2)"
    "ob_sent s2 = ob_sent s @ L" "map fst L = map entry_report (pending s)"
    "ob_files s2 = fold (\<lambda>e. AList.delete (oe_path e)) (pending s) (ob_files s)"
    using drain_entries_settling [OF assms(1,2,4), of False "s\<lparr>ob_step := k\<rparr>"] by auto
  have "oe_path ` set (pending s) = set (json_names s)"
    using arg_cong [OF pending_paths [OF assms(3)], of set] by simp
  then have "set (map fst (ob_files s2)) = set (map fst (ob_files s)) - set (json_names s)"
    unfolding d(4) keys_fold_delete by simp
  then have "set (json_names s2) = {}" by (auto simp: json_names_def)
  then have j: "json_names s2 = []" by simp
  then have "drain_verdict w False s2 = (Value EMPTY, s2)"
    by (simp add: drain_verdict_def outbox_entries_def followed_def give_def)
  moreover have "pending s2 = []" using j by (simp add: pending_def List.map_filter_def)
  ultimately show ?thesis using es d(1-3) by (auto simp: drain_outbox_def followed_def sent_since_def)
qed

section \<open>Sequence numbers\<close>

lemma of_char_digit: "d < 10 \<Longrightarrow> of_char (digit d) = 48 + d"
  by (simp add: digit_def of_char_of)

lemma is_digit_digit: "d < 10 \<Longrightarrow> is_digit (digit d)"
  by (simp add: is_digit_def of_char_digit)

lemma str_nat_Cons: "10 \<le> n \<Longrightarrow> str_nat n = str_nat (n div 10) @ [digit (n mod 10)]"
  by (subst str_nat.simps) (simp add: digit_def)

lemma str_nat_small: "n < 10 \<Longrightarrow> str_nat n = [digit n]"
  by (subst str_nat.simps) (simp add: digit_def)

lemma length_fixed [simp]: "length (fixed k n) = k"
  by (induction k arbitrary: n) simp_all

lemma fixed_zero: "fixed k 0 = replicate k (digit 0)"
  by (induction k) (simp_all add: replicate_append_same)

lemma digit_zero: "digit 0 = CHR ''0''"
  by code_simp

text \<open>Padding to a width that is enough gives the digits at that width.\<close>

lemma pad_fixed: "n < 10 ^ Suc k \<Longrightarrow> pad (Suc k) n = fixed (Suc k) n"
proof (induction k arbitrary: n)
  case 0
  then show ?case by (simp add: pad_def str_nat_small)
next
  case (Suc k)
  show ?case
  proof (cases "n < 10")
    case True
    then show ?thesis
      using fixed_zero [of "Suc k"] digit_zero by (simp add: pad_def str_nat_small del: fixed.simps(2)) (simp add: fixed.simps(2))
  next
    case False
    then have "pad (Suc (Suc k)) n = pad (Suc k) (n div 10) @ [digit (n mod 10)]"
      by (simp add: pad_def str_nat_Cons)
    with Suc.IH [of "n div 10"] Suc.prems show ?thesis by simp
  qed
qed

lemma fixed_less: "m < n \<Longrightarrow> n < 10 ^ k \<Longrightarrow> fixed k m < fixed k n"
proof (induction k arbitrary: m n)
  case (Suc k)
  show ?case
  proof (cases "m div 10 < n div 10")
    case True
    have "n div 10 < 10 ^ k" by (rule less_mult_imp_div_less) (use Suc.prems(2) in simp)
    from Suc.IH [OF True this] show ?thesis by (simp add: list_less_def lexord_sufI)
  next
    case False
    with div_le_mono [of m n 10] Suc.prems(1) have e: "m div 10 = n div 10" by simp
    with Suc.prems(1) div_mult_mod_eq [of m 10] div_mult_mod_eq [of n 10] have "m mod 10 < n mod 10" by linarith
    with e show ?thesis
      by (simp add: list_less_def lexord_append_leftI less_char_def of_char_digit)
  qed
qed simp

lemma entry_name_less:
  assumes "q < q'" and "q' < 10 ^ 10"
  shows "entry_name q j k < entry_name q' j' k'"
proof -
  have "pad 10 q = fixed 10 q" "pad 10 q' = fixed 10 q'"
    using pad_fixed [of q 9] pad_fixed [of q' 9] assms by simp_all
  moreover have "fixed 10 q < fixed 10 q'" using assms by (rule fixed_less)
  ultimately show ?thesis by (simp add: entry_name_def list_less_def lexord_sufI)
qed

lemma digits_str_nat: "c \<in> set (str_nat n) \<Longrightarrow> is_digit c"
  unfolding is_digit_def by (rule str_nat_digits)

lemma read_digits_all:
  "\<forall>c \<in> set cs. is_digit c \<Longrightarrow> read_digits acc cs = Some (foldl (\<lambda>a c. a * 10 + (of_char c - 48)) acc cs)"
  by (induction cs arbitrary: acc) simp_all

lemma fold_str_nat: "foldl (\<lambda>a c. a * 10 + (of_char c - 48)) 0 (str_nat n) = n"
proof (induction n rule: str_nat.induct)
  case (1 n)
  then show ?case by (cases "n < 10") (simp_all add: str_nat_small str_nat_Cons of_char_digit)
qed

lemma digits_pad: "c \<in> set (pad k n) \<Longrightarrow> is_digit c"
  by (auto simp: pad_def digits_str_nat is_digit_digit [of 0, simplified digit_zero])

lemma read_pad: "read_digits 0 (pad k n) = Some n"
proof -
  have "foldl (\<lambda>a c. a * 10 + (of_char c - 48)) 0 (replicate i (CHR ''0'')) = (0 :: nat)" for i
    by (induction i) simp_all
  then show ?thesis
    by (subst read_digits_all) (auto simp: digits_pad, simp add: pad_def fold_str_nat)
qed

lemma digit_not_space: "is_digit c \<Longrightarrow> \<not> is_space c"
  by (auto simp: is_digit_def is_space_def)

lemma strip_pad: "strip (pad k n) = pad k n"
proof -
  have "dropWhile is_space xs = xs" if "\<forall>c \<in> set xs. is_digit c" for xs
    using that by (cases xs) (auto simp: digit_not_space)
  then show ?thesis by (simp add: strip_def digits_pad)
qed

lemma py_int_pad: "py_int (pad k n) = Some (int n)"
proof -
  obtain c cs where c: "pad k n = c # cs" by (cases "pad k n") (auto simp: pad_def)
  then have d: "is_digit c" using digits_pad [of c k n] by simp
  then have "c \<noteq> CHR ''+''" "c \<noteq> CHR ''-''" by (auto simp: is_digit_def)
  with c d read_pad [of k n] strip_pad [of k n] show ?thesis
    by (simp add: py_int_def read_unsigned_def)
qed

lemma hd_split_on_sep: "d \<notin> set xs \<Longrightarrow> hd (split_on d (xs @ d # ys)) = xs"
proof (induction xs)
  case (Cons c xs)
  then show ?case using hd_split_on [of c d "xs @ d # ys"] by (auto simp del: split_on.simps)
qed simp

lemma seq_of_entry_name: "seq_of (entry_name q j k) = Some (int q)"
proof -
  have "CHR ''-'' \<notin> set (pad 10 q)" using digits_pad by (fastforce simp: is_digit_def)
  then have "hd (split_on (CHR ''-'') (pad 10 q @ CHR ''-'' # (j @ ''-'' @ k @ ''.json''))) = pad 10 q"
    by (rule hd_split_on_sep)
  then show ?thesis by (simp add: seq_of_def entry_name_def py_int_pad)
qed

section \<open>Appending\<close>

text \<open>
  A queue that others append to: an append either adds its item at the end or changes nothing of the
  queue, and uses up one unit of room. Then appends in a row leave the successful ones in their order.
\<close>

locale report_queue =
  fixes room :: "nat \<Rightarrow> 's \<Rightarrow> bool" and queue :: "'s \<Rightarrow> 'q list"
    and item :: "'r \<Rightarrow> 'q" and push :: "'r \<Rightarrow> 's \<Rightarrow> bool \<times> 's"
  assumes push_room: "room (Suc k) s \<Longrightarrow> room k (snd (push r s))"
    and push_queue: "room (Suc k) s \<Longrightarrow> queue (snd (push r s)) = queue s @ (if fst (push r s) then [item r] else [])"
begin

lemma pushes_room: "room (length rs + k) s \<Longrightarrow> room k (fold (\<lambda>r s. snd (push r s)) rs s)"
  by (induction rs arbitrary: s) (auto intro: push_room)

lemma pushes_in_order:
  assumes "room (length rs) s"
  shows "\<exists>kept. subseq kept rs \<and> queue (fold (\<lambda>r s. snd (push r s)) rs s) = queue s @ map item kept
    \<and> ((\<forall>r \<in> set rs. \<forall>s. fst (push r s)) \<longrightarrow> kept = rs)"
  using assms
proof (induction rs arbitrary: s)
  case Nil
  then show ?case by auto
next
  case (Cons r rs)
  then have s: "room (Suc (length rs)) s" by simp
  obtain kept where kept: "subseq kept rs"
    "queue (fold (\<lambda>r s. snd (push r s)) rs (snd (push r s))) = queue (snd (push r s)) @ map item kept"
    "(\<forall>r \<in> set rs. \<forall>s. fst (push r s)) \<longrightarrow> kept = rs"
    using Cons.IH [OF push_room [OF s]] by blast
  show ?case
  proof (cases "fst (push r s)")
    case True
    with kept push_queue [OF s, of r] show ?thesis by (intro exI [of _ "r # kept"]) auto
  next
    case False
    with kept push_queue [OF s, of r] show ?thesis by (intro exI [of _ kept]) auto
  qed
qed

end

lemma set_json_names: "set (json_names s) = {m. suffix ''.json'' m \<and> map_of (ob_files s) m \<noteq> None}"
  by (auto simp: json_names_def map_of_eq_None_iff)

lemma distinct_json_names: "journal_ok s \<Longrightarrow> distinct (json_names s)"
  by (simp add: json_names_def journal_ok_def)

lemma fold_max_ge:
  fixes top :: int
  shows "top \<le> fold (\<lambda>m top. case f m of None \<Rightarrow> top | Some n \<Rightarrow> max top n) ms top"
    and "m \<in> set ms \<Longrightarrow> f m = Some n \<Longrightarrow> n \<le> fold (\<lambda>m top. case f m of None \<Rightarrow> top | Some n \<Rightarrow> max top n) ms top"
proof -
  show 1: "top \<le> fold (\<lambda>m top. case f m of None \<Rightarrow> top | Some n \<Rightarrow> max top n) ms top" for top :: int and ms
  proof (induction ms arbitrary: top)
    case (Cons a ms)
    show ?case using Cons [of top] Cons [of "max top n" for n] by (auto split: option.splits intro: order_trans [OF max.cobounded1])
  qed simp
  show "m \<in> set ms \<Longrightarrow> f m = Some n \<Longrightarrow> n \<le> fold (\<lambda>m top. case f m of None \<Rightarrow> top | Some n \<Rightarrow> max top n) ms top"
  proof (induction ms arbitrary: top)
    case (Cons a ms)
    then show ?case using 1 [of "max top n" ms] by (auto split: option.splits)
  qed simp
qed

lemma fold_max_le:
  fixes top :: int
  assumes "top \<le> b" and "\<And>m n. m \<in> set ms \<Longrightarrow> f m = Some n \<Longrightarrow> n \<le> b"
  shows "fold (\<lambda>m top. case f m of None \<Rightarrow> top | Some n \<Rightarrow> max top n) ms top \<le> b"
  using assms
proof (induction ms arbitrary: top)
  case (Cons a ms)
  show ?case
  proof (cases "f a")
    case (Some n)
    with Cons.prems(1) Cons.prems(2) [of a n] have "max top n \<le> b" by simp
    then have "fold (\<lambda>m top. case f m of None \<Rightarrow> top | Some n \<Rightarrow> max top n) ms (max top n) \<le> b"
      by (rule Cons.IH) (use Cons.prems(2) in auto)
    with Some show ?thesis by simp
  next
    case None
    have "fold (\<lambda>m top. case f m of None \<Rightarrow> top | Some n \<Rightarrow> max top n) ms top \<le> b"
      by (rule Cons.IH) (use Cons.prems in auto)
    with None show ?thesis by simp
  qed
qed simp

lemma next_seq_pos: "1 \<le> next_seq s"
  unfolding next_seq_def using fold_max_ge(1) [of 0 seq_of "json_names s"] by simp

lemma next_seq_above: "m \<in> set (json_names s) \<Longrightarrow> seq_of m = Some q \<Longrightarrow> q < next_seq s"
  unfolding next_seq_def using fold_max_ge(2) [of m "json_names s" seq_of q 0] by simp

lemma next_seq_le: "(\<And>m q. m \<in> set (json_names s) \<Longrightarrow> seq_of m = Some q \<Longrightarrow> q < b) \<Longrightarrow> 1 \<le> b \<Longrightarrow> next_seq s \<le> b"
  unfolding next_seq_def using fold_max_le [of 0 "b - 1" "json_names s" seq_of] by fastforce

text \<open>Writing an entry replaces that entry or, when it does not get through, no entry.\<close>

lemma write_entry_effect:
  assumes "write_entry w m b s = (r, s')" and "suffix ''.json'' m" and "suffix ''.json'' x"
  shows "map_of (ob_files s') x = (if x = m \<and> r = Value () then Some (Body b) else map_of (ob_files s) x)"
proof -
  have "with_suffix m ''.tmp'' \<noteq> x" using with_suffix_not_json [OF assms(2,3)] by blast
  then show ?thesis using assms(1)
    by (auto simp: write_entry_def write_text_def os_replace_def followed_def access_def set_file_def throw_def Let_def
        AList.update_conv' AList.delete_conv' split: disk.splits)
qed

lemma pending_same:
  assumes "journal_ok s" and "journal_ok s'" and "\<And>m. suffix ''.json'' m \<Longrightarrow> map_of (ob_files s') m = map_of (ob_files s) m"
  shows "pending s' = pending s" and "set (json_names s') = set (json_names s)"
proof -
  show names: "set (json_names s') = set (json_names s)" using assms(3) by (auto simp: set_json_names)
  then have "sort (json_names s') = sort (json_names s)"
    using assms(1,2) by (intro sorted_distinct_set_unique) (simp_all add: distinct_json_names)
  moreover have "entry_at s' m = entry_at s m" if "m \<in> set (json_names s)" for m
    using that assms(3) [of m] by (simp add: entry_at_def json_names_def)
  ultimately show "pending s' = pending s"
    unfolding pending_map [OF assms(1)] pending_map [OF assms(2)] by simp
qed

lemma next_seq_same: "set (json_names s') = set (json_names s) \<Longrightarrow> next_seq s' = next_seq s"
  by (intro antisym next_seq_le next_seq_pos) (auto dest: next_seq_above)

text \<open>A new entry under the next sequence number goes to the end.\<close>

lemma pending_snoc:
  assumes room: "room (Suc k) s" and ok: "journal_ok s'" and m: "m = entry_name (nat (next_seq s)) job kind"
    and f: "\<And>x. suffix ''.json'' x \<Longrightarrow> map_of (ob_files s') x = (if x = m then Some (Body b) else map_of (ob_files s) x)"
  shows "pending s' = pending s @ [entry_of_body m (next_seq s) b]" and "room k s'"
proof -
  have ok0: "journal_ok s" and le: "next_seq s + int (Suc k) \<le> 10 ^ 10"
    and names: "\<forall>x \<in> set (json_names s). \<exists>q j kd. x = entry_name q j kd"
    using room by (simp_all add: room_def)
  have json: "suffix ''.json'' m" by (simp add: m entry_name_def suffix_def)
  have seq: "seq_of m = Some (next_seq s)" using next_seq_pos [of s] by (simp add: m seq_of_entry_name)
  have new: "m \<notin> set (json_names s)" using next_seq_above [of m s, OF _ seq] by blast
  have set: "set (json_names s') = insert m (set (json_names s))"
    using f json by (auto simp: set_json_names)
  have less: "x < m" if "x \<in> set (json_names s)" for x
  proof -
    from names that obtain q j kd where x: "x = entry_name q j kd" by blast
    with next_seq_above [OF that] have "q < nat (next_seq s)" by (simp add: seq_of_entry_name)
    moreover have "nat (next_seq s) < 10 ^ 10" using le next_seq_pos [of s] by simp
    ultimately show ?thesis unfolding x m by (rule entry_name_less)
  qed
  have "sort (json_names s') = sort (json_names s) @ [m]"
  proof (rule sorted_distinct_set_unique)
    show "sorted (sort (json_names s) @ [m])" using less by (auto simp: sorted_append intro: less_imp_le)
  qed (use ok ok0 new set in \<open>simp_all add: distinct_json_names\<close>)
  moreover have "entry_at s' x = entry_at s x" if "x \<in> set (json_names s)" for x
    using that f [of x] new by (auto simp: entry_at_def json_names_def)
  moreover have "entry_at s' m = Some (entry_of_body m (next_seq s) b)" using f [OF json] seq by (simp add: entry_at_def)
  ultimately show "pending s' = pending s @ [entry_of_body m (next_seq s) b]"
    unfolding pending_map [OF ok] pending_map [OF ok0] by simp
  have "next_seq s' \<le> next_seq s + 1"
  proof (rule next_seq_le)
    fix x q assume "x \<in> set (json_names s')" "seq_of x = Some q"
    with set seq next_seq_above [of x s q] show "q < next_seq s + 1" by fastforce
  qed (use next_seq_pos [of s] in simp)
  with le have "next_seq s' + int k \<le> 10 ^ 10" by simp
  moreover have "\<forall>x \<in> set (json_names s'). \<exists>q j kd. x = entry_name q j kd" using names set m by auto
  ultimately show "room k s'" using ok by (simp add: room_def)
qed

text \<open>
  As long as ten-digit sequence numbers are left, journaling a report adds it behind every pending
  report with no attempts on it; when the kind is unknown, the disk refuses or the process dies
  half-way, the journal holds exactly the pending reports it held before.
\<close>

lemma append_effect:
  assumes "room (Suc k) s" and "outbox_append w job kind payload s = (r, s')"
  shows "room k s' \<and> queue s' = queue s @ (case r of Value _ \<Rightarrow> [((job, kind, payload), 0)] | _ \<Rightarrow> [])"
proof (cases "kind \<in> set MILESTONE_KINDS")
  case False
  with assms show ?thesis by (auto simp: outbox_append_def throw_def room_def)
next
  case True
  let ?m = "entry_name (nat (next_seq s)) job kind"
  let ?b = "\<lparr>bd_job = job, bd_kind = kind, bd_payload = payload, bd_attempts = 0, bd_last_attempt_at = None\<rparr>"
  have ok0: "journal_ok s" using assms(1) by (simp add: room_def)
  have json: "suffix ''.json'' ?m" by (simp add: entry_name_def suffix_def)
  then have jn: "journal_name ?m" by (simp add: journal_name_def seq_of_entry_name)
  obtain u t where u: "write_entry w ?m ?b s = (u, t)" by (rule prod.exhaust)
  with True assms(2) have s': "s' = t" and r: "(\<exists>e. r = Value e) \<longleftrightarrow> u = Value ()"
    by (cases u; auto simp: outbox_append_def Let_def followed_def give_def)+
  have ok: "journal_ok s'" using keeps_ok_write_entry [OF jn] ok0 u s' unfolding keeps_def by (metis snd_conv)
  note eff = write_entry_effect [OF u json, folded s']
  show ?thesis
  proof (cases "u = Value ()")
    case True
    with eff have f: "\<And>x. suffix ''.json'' x \<Longrightarrow>
        map_of (ob_files s') x = (if x = ?m then Some (Body ?b) else map_of (ob_files s) x)" by simp
    from r True obtain e where "r = Value e" by blast
    with pending_snoc [OF assms(1) ok refl f] show ?thesis
      by (simp add: queue_def entry_of_body_def entry_report_def)
  next
    case False
    with eff have f: "\<And>x. suffix ''.json'' x \<Longrightarrow> map_of (ob_files s') x = map_of (ob_files s) x" by simp
    note same = pending_same [OF ok0 ok f]
    with next_seq_same have "next_seq s' = next_seq s" by blast
    with same ok assms(1) have "room k s'" by (simp add: room_def)
    with same(1) False r show ?thesis by (cases r) (auto simp: queue_def)
  qed
qed

interpretation journal: report_queue room queue "\<lambda>r. (r, 0)" "push w" for w
proof
  fix k and s :: "'a outbox" and r :: "'a report"
  assume s: "room (Suc k) s"
  obtain job kind p where r: "r = (job, kind, p)" by (rule prod_cases3)
  obtain x s' where x: "outbox_append w job kind p s = (x, s')" by (rule prod.exhaust)
  from append_effect [OF s x] x r show "room k (snd (push w r s))"
    "queue (snd (push w r s)) = queue s @ (if fst (push w r s) then [(r, 0)] else [])"
    by (cases x; simp add: push_def)+
qed

lemma append_works:
  assumes "\<And>k. wd_disk w k = Works" and "kind \<in> set MILESTONE_KINDS"
  shows "\<exists>e s'. outbox_append w job kind payload s = (Value e, s') \<and> journal_name (oe_path e)
    \<and> holds_report (oe_path e) (job, kind, payload) s' \<and> ob_sent s' = ob_sent s"
proof -
  let ?m = "entry_name (nat (next_seq s)) job kind"
  have "suffix ''.json'' ?m" by (simp add: entry_name_def suffix_def)
  then have "journal_name ?m" by (simp add: journal_name_def seq_of_entry_name)
  with assms show ?thesis
    by (auto simp: outbox_append_def Let_def write_entry_def write_text_def os_replace_def followed_def
      access_def set_file_def AList.update_conv' give_def entry_of_body_def holds_report_def body_report_def)
qed

lemma push_works:
  assumes "\<And>k. wd_disk w k = Works" and "fst (snd r) \<in> set MILESTONE_KINDS"
  shows "fst (push w r s)"
  using assms
  by (cases r) (simp add: push_def outbox_append_def Let_def write_entry_def write_text_def os_replace_def followed_def
      access_def set_file_def AList.update_conv' give_def)

text \<open>
  C18. Reports reach a scheduler that answers, in the order they were journaled. On a working disk,
  starting from an empty journal with sequence numbers to spare, any list of reports of known kinds that
  is journaled while nothing can be sent is delivered by the first pass in which the scheduler accepts
  or finally refuses every request: each report is sent exactly once, in the order of journaling, no
  entry is left behind and the pass reports \<open>EMPTY\<close>.
\<close>

theorem journaled_reports_are_delivered_in_order:
  assumes "\<And>k. wd_disk w k = Works" and "\<And>k r. settles (wd_answer w k r)" and "room (length rs) s" and "pending s = []"
    and "\<forall>r \<in> set rs. fst (snd r) \<in> set MILESTONE_KINDS"
    and "s1 = fold (\<lambda>(job, kind, payload) s. snd (outbox_append w job kind payload s)) rs s"
  shows "\<exists>s'. drain_outbox w s1 = (Value EMPTY, s') \<and> pending s' = [] \<and> map fst (sent_since s1 s') = rs"
proof -
  have "(\<lambda>(job, kind, payload) s. snd (outbox_append w job kind payload s)) = (\<lambda>r s. snd (push w r s))"
    by (intro ext) (simp add: push_def split: prod.splits ended.splits)
  then have s1: "s1 = fold (\<lambda>r s. snd (push w r s)) rs s" unfolding assms(6) by simp
  have all: "\<forall>r \<in> set rs. \<forall>s. fst (push w r s)" using push_works [OF assms(1)] assms(5) by blast
  with journal.pushes_in_order [OF assms(3), of w] have "queue s1 = queue s @ map (\<lambda>r. (r, 0)) rs"
    unfolding s1 by blast
  then have q: "queue s1 = map (\<lambda>r. (r, 0)) rs" using assms(4) by (simp add: queue_def)
  have "room 0 s1" unfolding s1 by (rule journal.pushes_room) (use assms(3) in simp)
  then have ok: "journal_ok s1" by (simp add: room_def)
  have reports: "map entry_report (pending s1) = rs"
    using arg_cong [OF q, of "map fst"] by (simp add: queue_def comp_def)
  have "oe_kind e \<in> set MILESTONE_KINDS \<and> oe_attempts e < POISON_ATTEMPTS" if "e \<in> set (pending s1)" for e
  proof -
    from that have "(entry_report e, oe_attempts e) \<in> set (queue s1)" by (auto simp: queue_def)
    with q assms(5) show ?thesis by (auto simp: entry_report_def POISON_ATTEMPTS_def)
  qed
  with drain_delivers_all [OF assms(1,2) ok] reports show ?thesis by auto
qed

theorem journaled_reports_are_delivered_in_order_witness:
  "let w = demo_world Delivered; rs = [(''j1'', ''register_derivative'', 1), (''j1'', ''complete'', 2)];
       s1 = fold (\<lambda>(job, kind, payload) s. snd (outbox_append w job kind payload s)) rs empty_box
   in \<exists>s'. drain_outbox w s1 = (Value EMPTY, s') \<and> pending s' = [] \<and> map fst (sent_since s1 s') = rs"
  unfolding Let_def
  by (rule journaled_reports_are_delivered_in_order [OF _ _ _ _ _ refl, where s = empty_box])
    (use demo_room in \<open>simp_all add: demo_world_def settles_def MILESTONE_KINDS_def pending_empty\<close>)

section \<open>Behind a parked report\<close>

text \<open>What a pass does not touch: the file of an entry whose job is blocked or whose report is parked.\<close>

lemma keeps_file_delete: "oe_path e \<noteq> n \<Longrightarrow> keeps (\<lambda>s. map_of (ob_files s) n = Some c) (outbox_delete w e)"
  unfolding outbox_delete_def by (rule keeps_access) (simp_all add: AList.delete_conv')

lemma keeps_file_bump:
  assumes "oe_path e \<noteq> n" and "suffix ''.json'' (oe_path e)" and "suffix ''.json'' n"
  shows "keeps (\<lambda>s. map_of (ob_files s) n = Some c) (bump_attempts w e)"
proof -
  have "keeps (\<lambda>s. map_of (ob_files s) n = Some c) (write_entry w (oe_path e) b)" for b
    unfolding keeps_def using write_entry_effect [OF _ assms(2,3)] assms(1) by (metis prod.collapse)
  then show ?thesis unfolding bump_attempts_def
    by (intro keeps_followed_any keeps_catching keeps_give) (simp_all add: keeps_def clock_def)
qed

lemma keeps_file_parked: "keeps (\<lambda>s. map_of (ob_files s) n = Some c) (is_parked w e)"
  by (simp add: keeps_def files_parked)

lemma keeps_file_send: "keeps (\<lambda>s. map_of (ob_files s) n = Some c) (send_report w j k p)"
  by (auto simp: keeps_def send_report_def Let_def split: answer.splits)

lemmas keeps_file = keeps_followed_any keeps_file_parked keeps_file_send keeps_file_delete keeps_file_bump

lemma drain_entries_skips:
  assumes "suffix ''.json'' n"
  shows "\<forall>e \<in> set es. suffix ''.json'' (oe_path e) \<and> (oe_path e = n \<longrightarrow> oe_job e \<in> set blocked)
    \<Longrightarrow> keeps (\<lambda>s. map_of (ob_files s) n = Some c) (drain_entries w es blocked auth)"
proof (induction es arbitrary: blocked auth)
  case Nil
  then show ?case by (simp add: keeps_give)
next
  case (Cons e es)
  have rest: "keeps (\<lambda>s. map_of (ob_files s) n = Some c) (drain_entries w es b a)" if "set blocked \<subseteq> set b" for b a
    by (rule Cons.IH) (use Cons.prems that in auto)
  show ?case
  proof (cases "oe_job e \<in> set blocked")
    case True
    with rest show ?thesis by simp
  next
    case False
    with Cons.prems have e: "oe_path e \<noteq> n" "suffix ''.json'' (oe_path e)" by auto
    from False show ?thesis unfolding drain_entries.simps
      by (auto split: option.split error_class.split intro!: keeps_file e assms rest)
  qed
qed

lemma drain_entries_skips_chain:
  assumes "suffix ''.json'' n" and "POISON_ATTEMPTS \<le> oe_attempts e" and "\<And>k. wd_time w k - oe_last_attempt_at e < POISON_COOLDOWN_S"
    and "\<forall>x \<in> set (e # rest). suffix ''.json'' (oe_path x) \<and> (oe_path x = n \<longrightarrow> oe_job x = oe_job e)"
  shows "\<forall>x \<in> set before. suffix ''.json'' (oe_path x) \<and> oe_path x \<noteq> n
    \<Longrightarrow> keeps (\<lambda>s. map_of (ob_files s) n = Some c) (drain_entries w (before @ e # rest) blocked auth)"
proof (induction before arbitrary: blocked auth)
  case Nil
  have rest: "keeps (\<lambda>s. map_of (ob_files s) n = Some c) (drain_entries w rest b a)" if "oe_job e \<in> set b" for b a
    by (rule drain_entries_skips [OF assms(1)]) (use assms(4) that in auto)
  have "is_parked w e s = (Value True, s\<lparr>ob_step := Suc (ob_step s)\<rparr>)" for s
    using assms(2,3) by (simp add: is_parked_def followed_def clock_def give_def)
  then have "drain_entries w (e # rest) blocked auth s = (if oe_job e \<in> set blocked then drain_entries w rest blocked auth s
      else drain_entries w rest (oe_job e # blocked) auth (s\<lparr>ob_step := Suc (ob_step s)\<rparr>))" for s
    by (simp add: followed_def)
  then show ?case using rest [of blocked auth] rest [of "oe_job e # blocked" auth] by (simp add: keeps_def)
next
  case (Cons x before)
  then have x: "oe_path x \<noteq> n" "suffix ''.json'' (oe_path x)"
    and rest: "keeps (\<lambda>s. map_of (ob_files s) n = Some c) (drain_entries w (before @ e # rest) b a)" for b a by simp_all
  show ?case unfolding append_Cons drain_entries.simps
    by (auto split: option.split error_class.split intro!: keeps_file x assms(1) rest)
qed

lemma pending_holds:
  assumes "journal_ok s" and "suffix ''.json'' (oe_path e)" and "entry_at s (oe_path e) = Some e"
  shows "e \<in> set (pending s)"
proof -
  have "oe_path e \<in> set (json_names s)" using assms(2,3) by (auto simp: set_json_names entry_at_def split: option.splits)
  then show ?thesis unfolding pending_map [OF assms(1)] using assms(3) by (force simp: image_iff)
qed

text \<open>The pass ends in the state its second reading of the directory finds, the step counter apart.\<close>

lemma drain_keeps:
  assumes "\<And>k. wd_disk w k = Works" and "journal_ok s" and "keeps F (drain_entries w (pending s) [] False)"
    and "\<And>t k. F (t\<lparr>ob_step := k\<rparr>) = F t" and "\<And>t t'. ob_files t = ob_files t' \<Longrightarrow> F t = F t'" and "F s"
  shows "F (snd (drain_outbox w s)) \<and> journal_ok (snd (drain_outbox w s))"
proof -
  obtain k where es: "outbox_entries w s = (Value (pending s), s\<lparr>ob_step := k\<rparr>)"
    using entries_works [OF assms(1,2)] by blast
  obtain x s2 where d: "drain_entries w (pending s) [] False (s\<lparr>ob_step := k\<rparr>) = (x, s2)" by (rule prod.exhaust)
  have "\<forall>e \<in> set (pending s). journal_name (oe_path e)"
    using pending_entry [OF assms(2)] by (fastforce simp: journal_name_def entry_at_def split: option.splits)
  then have ok: "journal_ok s2"
    using keeps_ok_drain [of "pending s" w "[]" False] d assms(2) unfolding keeps_def by (metis journal_ok_step snd_conv)
  have F: "F s2" using assms(3,4,6) d unfolding keeps_def by (metis snd_conv)
  obtain k' where r: "outbox_entries w s2 = (Value (pending s2), s2\<lparr>ob_step := k'\<rparr>)"
    using entries_works [OF assms(1) ok] by blast
  have "ob_files (snd (drain_verdict w auth s2)) = ob_files s2" for auth
    using r files_live [of w "pending s2" "s2\<lparr>ob_step := k'\<rparr>"]
    by (auto simp: drain_verdict_def followed_def give_def split: prod.split ended.split)
  then have "ob_files (snd (drain_outbox w s)) = ob_files s2"
    using es d by (cases x) (simp_all add: drain_outbox_def followed_def)
  with ok F assms(5) show ?thesis unfolding journal_ok_files by metis
qed

text \<open>
  A parked report holds up the reports of its job behind it. On a working disk both are in the journal
  after the pass as they were before it, and while the later one has not reached the limit itself the
  pass does not end \<open>EMPTY\<close>.
\<close>

lemma parked_chain_stays:
  assumes "\<And>k. wd_disk w k = Works" and "journal_ok s" and "pending s = before @ e # mid @ e' # after" and "oe_job e' = oe_job e"
    and "POISON_ATTEMPTS \<le> oe_attempts e" and "\<And>k. wd_time w k - oe_last_attempt_at e < POISON_COOLDOWN_S"
  shows "e \<in> set (pending (snd (drain_outbox w s))) \<and> e' \<in> set (pending (snd (drain_outbox w s)))"
proof -
  have paths: "distinct (map oe_path (pending s))"
    unfolding pending_paths [OF assms(2)] using distinct_json_names [OF assms(2)] by simp
  have stays: "x \<in> set (pending (snd (drain_outbox w s)))" if x: "x \<in> {e, e'}" for x
  proof -
    have "x \<in> set (pending s)" using x assms(3) by auto
    note at = pending_entry [OF assms(2) this]
    then obtain c where c: "map_of (ob_files s) (oe_path x) = Some c" by (auto simp: entry_at_def split: option.splits)
    have json: "suffix ''.json'' (oe_path y)" if "y \<in> set (pending s)" for y using pending_entry [OF assms(2) that] by simp
    have same: "y = x" if "y \<in> set (pending s)" "oe_path y = oe_path x" for y
      using inj_onD [OF conjunct2 [OF paths [unfolded distinct_map]] that(2) that(1) \<open>x \<in> set (pending s)\<close>] .
    have "keeps (\<lambda>s. map_of (ob_files s) (oe_path x) = Some c) (drain_entries w (pending s) [] False)"
      unfolding assms(3)
    proof (rule drain_entries_skips_chain)
      show "\<forall>y \<in> set (e # mid @ e' # after). suffix ''.json'' (oe_path y) \<and> (oe_path y = oe_path x \<longrightarrow> oe_job y = oe_job e)"
      proof
        fix y assume "y \<in> set (e # mid @ e' # after)"
        then have y: "y \<in> set (pending s)" unfolding assms(3) by auto
        have "oe_job y = oe_job e" if "oe_path y = oe_path x" using same [OF y that] x assms(4) by auto
        with json [OF y] show "suffix ''.json'' (oe_path y) \<and> (oe_path y = oe_path x \<longrightarrow> oe_job y = oe_job e)" by blast
      qed
      have "oe_path x \<notin> oe_path ` set before" using x paths unfolding assms(3) by auto
      then have "oe_path y \<noteq> oe_path x" if "y \<in> set before" for y using that by (metis imageI)
      then show "\<forall>y \<in> set before. suffix ''.json'' (oe_path y) \<and> oe_path y \<noteq> oe_path x"
        using json [unfolded assms(3)] by simp
    qed (rule conjunct1 [OF at] assms(5,6))+
    then have kept: "map_of (ob_files (snd (drain_outbox w s))) (oe_path x) = Some c \<and> journal_ok (snd (drain_outbox w s))"
      using c by (intro drain_keeps [OF assms(1,2)]) simp_all
    with c have "entry_at (snd (drain_outbox w s)) (oe_path x) = entry_at s (oe_path x)" by (simp add: entry_at_def)
    with kept at show ?thesis by (intro pending_holds) simp_all
  qed
  then show ?thesis by simp
qed

end
