(* ===== verification/Hardware.thy ===== *)
theory Hardware
  imports Encoder "HOL-Library.Product_Lexorder"
begin

text \<open>
  Detection of the encoders of a node (\<open>worker/hardware.py\<close>): which pairs of codec and backend are
  advertised to the scheduler and which backend a job gets. Running a command is the parameter
  \<open>exec\<close>: its exit code with the combined output, a timeout, or a missing binary.
\<close>

section \<open>Capabilities\<close>

definition ENCODER_NAMES :: "((string \<times> string) \<times> string) list" where
  "ENCODER_NAMES =
     [((''hevc'', ''cpu''), ''libx265''),
      ((''av1'', ''cpu''), ''libsvtav1''),
      ((''hevc'', ''qsv''), ''hevc_qsv''),
      ((''av1'', ''qsv''), ''av1_qsv''),
      ((''hevc'', ''nvenc''), ''hevc_nvenc''),
      ((''av1'', ''nvenc''), ''av1_nvenc''),
      ((''hevc'', ''quadra''), ''h265_ni_quadra_enc''),
      ((''av1'', ''quadra''), ''av1_ni_quadra_enc'')]"

definition BACKEND_PRIORITY :: "string list" where
  "BACKEND_PRIORITY = [''qsv'', ''nvenc'', ''cpu'']"

record hardware_capabilities =
  hc_encoders :: "string list"
  hc_pairs :: "(string \<times> string) list"
  hc_ffmpeg_version :: string

definition supported_codecs :: "hardware_capabilities \<Rightarrow> string list" where
  "supported_codecs caps = filter (\<lambda>codec. list_ex (\<lambda>(c, _). c = codec) (hc_pairs caps)) [''hevc'', ''av1'']"

definition best_backend_for :: "hardware_capabilities \<Rightarrow> string \<Rightarrow> string \<Rightarrow> string option" where
  "best_backend_for caps codec preferred =
     (let available = map snd (filter (\<lambda>(c, _). c = codec) (hc_pairs caps))
      in if preferred \<noteq> ''auto'' \<and> preferred \<in> set available then Some preferred
         else find (\<lambda>backend. backend \<in> set available) BACKEND_PRIORITY)"

section \<open>Probes\<close>

definition run_probe :: "(string list \<Rightarrow> string child) \<Rightarrow> string list \<Rightarrow> int \<times> string" where
  "run_probe exec cmd =
     (case exec cmd of
        Exited rc out \<Rightarrow> (rc, out)
      | Timed_out \<Rightarrow> (1, ''timeout'')
      | No_binary \<Rightarrow> (1, ''binary not found''))"

definition detect_ffmpeg_version :: "(string list \<Rightarrow> string child) \<Rightarrow> string" where
  "detect_ffmpeg_version exec =
     (case run_probe exec [''ffmpeg'', ''-version''] of
        (code, out) \<Rightarrow> if code \<noteq> 0 then ''unknown'' else strip (hd (split_on (CHR ''\<newline>'') out)))"

definition list_encoders :: "(string list \<Rightarrow> string child) \<Rightarrow> string" where
  "list_encoders exec =
     (case run_probe exec [''ffmpeg'', ''-hide_banner'', ''-encoders''] of (code, out) \<Rightarrow> if code = 0 then out else [])"

definition test_encode_cmd :: "string list \<Rightarrow> string \<Rightarrow> string list" where
  "test_encode_cmd init_args encoder =
     [''ffmpeg'', ''-hide_banner''] @ init_args @
     [''-f'', ''lavfi'', ''-i'', ''nullsrc=s=256x256:d=0.1'', ''-vf'', ''format=p010le'', ''-c:v'', encoder,
      ''-frames:v'', ''1'', ''-f'', ''null'', ''-'']"

definition test_encode_works :: "(string list \<Rightarrow> string child) \<Rightarrow> string list \<Rightarrow> string \<Rightarrow> bool" where
  "test_encode_works exec init_args encoder \<longleftrightarrow> fst (run_probe exec (test_encode_cmd init_args encoder)) = 0"

definition QSV_INIT_ARGS :: "string list list" where
  "QSV_INIT_ARGS =
     [[''-hwaccel'', ''qsv'', ''-hwaccel_device'', ''/dev/dri/renderD128''],
      [''-init_hw_device'', ''vaapi=va:/dev/dri/renderD128'', ''-init_hw_device'', ''qsv=qs@va''],
      [''-init_hw_device'', ''qsv=hw'']]"

text \<open>The callers may pass the encoder list they already have; \<open>encoder in listed\<close> is the substring test.\<close>

definition detect_qsv :: "(string list \<Rightarrow> string child) \<Rightarrow> string \<Rightarrow> string option \<Rightarrow> bool" where
  "detect_qsv exec encoder encoder_list =
     (let listed = (case encoder_list of Some l \<Rightarrow> l | None \<Rightarrow> list_encoders exec)
      in sublist encoder listed \<and> list_ex (\<lambda>init_args. test_encode_works exec init_args encoder) QSV_INIT_ARGS)"

text \<open>Without a list the code does not insist on the encoder being listed.\<close>

definition detect_nvenc :: "(string list \<Rightarrow> string child) \<Rightarrow> string \<Rightarrow> string option \<Rightarrow> bool" where
  "detect_nvenc exec encoder encoder_list =
     ((case encoder_list of Some listed \<Rightarrow> sublist encoder listed | None \<Rightarrow> True) \<and> test_encode_works exec [] encoder)"

definition detect_quadra :: "(string list \<Rightarrow> string child) \<Rightarrow> string \<Rightarrow> string option \<Rightarrow> bool" where
  "detect_quadra exec encoder encoder_list =
     (let listed = (case encoder_list of Some l \<Rightarrow> l | None \<Rightarrow> list_encoders exec)
      in sublist encoder listed \<and> test_encode_works exec [] encoder)"

definition insert_at :: "nat \<Rightarrow> 'a \<Rightarrow> 'a list \<Rightarrow> 'a list" where
  "insert_at i x xs = take i xs @ x # drop i xs"

definition backends_of :: "(string \<times> string) list \<Rightarrow> string list" where
  "backends_of pairs =
     (let b0 = [''cpu''];
          b1 = (if list_ex (\<lambda>(_, b). b = ''qsv'') pairs then insert_at 0 ''qsv'' b0 else b0);
          b2 = (if list_ex (\<lambda>(_, b). b = ''nvenc'') pairs
                then insert_at (if ''qsv'' \<notin> set b1 then 0 else 1) ''nvenc'' b1 else b1)
      in if list_ex (\<lambda>(_, b). b = ''quadra'') pairs
         then insert_at (length (takeWhile (\<lambda>b. b \<noteq> ''cpu'') b2)) ''quadra'' b2 else b2)"

definition software_pairs :: "string \<Rightarrow> (string \<times> string) list" where
  "software_pairs encoder_list =
     map fst (filter (\<lambda>((_, backend), name). backend = ''cpu'' \<and> sublist name encoder_list) ENCODER_NAMES)"

definition hw_probes :: "(string list \<Rightarrow> string child) \<Rightarrow> string \<Rightarrow> ((string \<times> string) \<times> bool) list" where
  "hw_probes exec encoder_list =
     [((''hevc'', ''qsv''), detect_qsv exec ''hevc_qsv'' (Some encoder_list)),
      ((''av1'', ''qsv''), detect_qsv exec ''av1_qsv'' (Some encoder_list)),
      ((''hevc'', ''nvenc''), detect_nvenc exec ''hevc_nvenc'' (Some encoder_list)),
      ((''av1'', ''nvenc''), detect_nvenc exec ''av1_nvenc'' (Some encoder_list)),
      ((''hevc'', ''quadra''), detect_quadra exec ''h265_ni_quadra_enc'' (Some encoder_list)),
      ((''av1'', ''quadra''), detect_quadra exec ''av1_ni_quadra_enc'' (Some encoder_list))]"

definition detect_capabilities :: "(string list \<Rightarrow> string child) \<Rightarrow> hardware_capabilities" where
  "detect_capabilities exec =
     (let encoder_list = list_encoders exec;
          found = software_pairs encoder_list @ map fst (filter snd (hw_probes exec encoder_list));
          pairs = (if (''hevc'', ''cpu'') \<in> set found then found else (''hevc'', ''cpu'') # found)
      in \<lparr>hc_encoders = backends_of pairs, hc_pairs = sort pairs, hc_ffmpeg_version = detect_ffmpeg_version exec\<rparr>)"

text \<open>A node with Intel graphics that can encode \<open>hevc\<close> only.\<close>

definition demo_exec :: "string list \<Rightarrow> string child" where
  "demo_exec cmd =
     (if cmd = [''ffmpeg'', ''-hide_banner'', ''-encoders''] then Exited 0 ''libx265 hevc_qsv av1_qsv''
      else if cmd = test_encode_cmd [''-init_hw_device'', ''qsv=hw''] ''hevc_qsv'' then Exited 0 []
      else Exited 1 [])"

section \<open>What is advertised can be encoded\<close>

lemma hw_probe_tested:
  assumes "(p, True) \<in> set (hw_probes exec listed)"
  shows "\<exists>encoder init_args. map_of ENCODER_NAMES p = Some encoder \<and> sublist encoder listed \<and> test_encode_works exec init_args encoder"
proof -
  have qsv: "\<exists>init_args. sublist e listed \<and> test_encode_works exec init_args e" if "detect_qsv exec e (Some listed)" for e
    using that by (auto simp: detect_qsv_def list_ex_iff)
  have nv: "\<exists>init_args. sublist e listed \<and> test_encode_works exec init_args e" if "detect_nvenc exec e (Some listed)" for e
    using that by (auto simp: detect_nvenc_def)
  have qd: "\<exists>init_args. sublist e listed \<and> test_encode_works exec init_args e" if "detect_quadra exec e (Some listed)" for e
    using that by (auto simp: detect_quadra_def)
  have names: "map_of ENCODER_NAMES (''hevc'', ''qsv'') = Some ''hevc_qsv''" "map_of ENCODER_NAMES (''av1'', ''qsv'') = Some ''av1_qsv''"
    "map_of ENCODER_NAMES (''hevc'', ''nvenc'') = Some ''hevc_nvenc''" "map_of ENCODER_NAMES (''av1'', ''nvenc'') = Some ''av1_nvenc''"
    "map_of ENCODER_NAMES (''hevc'', ''quadra'') = Some ''h265_ni_quadra_enc''"
    "map_of ENCODER_NAMES (''av1'', ''quadra'') = Some ''av1_ni_quadra_enc''"
    by code_simp+
  let ?P = "\<lambda>x. snd x \<longrightarrow> (\<exists>encoder init_args. map_of ENCODER_NAMES (fst x) = Some encoder \<and> sublist encoder listed
      \<and> test_encode_works exec init_args encoder)"
  have tested: "?P (p, ok)"
    if "map_of ENCODER_NAMES p = Some e" "ok \<Longrightarrow> \<exists>init_args. sublist e listed \<and> test_encode_works exec init_args e" for p ok e
    using that by (simp only: fst_conv snd_conv) blast
  have "list_all ?P (hw_probes exec listed)"
    unfolding hw_probes_def list.pred_inject(2)
    by (intro conjI list.pred_inject(1) tested [OF names(1) qsv] tested [OF names(2) qsv] tested [OF names(3) nv] tested [OF names(4) nv]
        tested [OF names(5) qd] tested [OF names(6) qd])
  with assms have "?P (p, True)" unfolding list_all_iff by (rule bspec [rotated])
  then show ?thesis by (simp only: fst_conv snd_conv simp_thms)
qed

lemma software_pairs_names: "p \<in> set (software_pairs listed) \<Longrightarrow> p \<in> fst ` set ENCODER_NAMES \<and> snd p = ''cpu''"
  by (force simp: software_pairs_def)

lemma capability_pair:
  assumes "p \<in> set (hc_pairs (detect_capabilities exec))"
  shows "p = (''hevc'', ''cpu'') \<or> p \<in> set (software_pairs (list_encoders exec)) \<or> (p, True) \<in> set (hw_probes exec (list_encoders exec))"
  using assms unfolding detect_capabilities_def Let_def by (auto split: if_splits)

lemma hevc_cpu_pair: "(''hevc'', ''cpu'') \<in> set (hc_pairs (detect_capabilities exec))"
  unfolding detect_capabilities_def Let_def by simp

lemma capability_pairs: "p \<in> set (hc_pairs (detect_capabilities exec)) \<Longrightarrow> map_of ENCODER_NAMES p \<noteq> None"
proof (drule capability_pair, elim disjE)
  show "p = (''hevc'', ''cpu'') \<Longrightarrow> map_of ENCODER_NAMES p \<noteq> None" by (simp add: ENCODER_NAMES_def)
next
  assume "p \<in> set (software_pairs (list_encoders exec))"
  then show "map_of ENCODER_NAMES p \<noteq> None" by (simp add: map_of_eq_None_iff software_pairs_names)
next
  assume "(p, True) \<in> set (hw_probes exec (list_encoders exec))"
  then show "map_of ENCODER_NAMES p \<noteq> None" by (blast dest: hw_probe_tested)
qed

text \<open>A hardware pair is advertised only after a test encode of its encoder worked.\<close>

lemma hardware_pair_tested:
  assumes "(codec, backend) \<in> set (hc_pairs (detect_capabilities exec))" and "backend \<noteq> ''cpu''"
  shows "\<exists>encoder init_args. map_of ENCODER_NAMES (codec, backend) = Some encoder \<and> test_encode_works exec init_args encoder"
  using capability_pair [OF assms(1)] assms(2) hw_probe_tested software_pairs_names by fastforce

lemma best_backend_SomeD:
  assumes "best_backend_for caps codec preferred = Some b"
  shows "(codec, b) \<in> set (hc_pairs caps)"
    and "preferred \<noteq> ''auto'' \<Longrightarrow> (codec, preferred) \<in> set (hc_pairs caps) \<Longrightarrow> b = preferred"
proof -
  let ?available = "map snd (filter (\<lambda>(c, _). c = codec) (hc_pairs caps))"
  have av: "set ?available = {b. (codec, b) \<in> set (hc_pairs caps)}" by force
  have "b = preferred \<and> b \<in> set ?available \<or> \<not> (preferred \<noteq> ''auto'' \<and> preferred \<in> set ?available) \<and> b \<in> set ?available"
  proof (cases "preferred \<noteq> ''auto'' \<and> preferred \<in> set ?available")
    case True
    with assms show ?thesis by (simp only: best_backend_for_def Let_def if_True simp_thms option.inject)
  next
    case False
    with assms have "find (\<lambda>backend. backend \<in> set ?available) BACKEND_PRIORITY = Some b"
      by (simp only: best_backend_for_def Let_def if_False)
    then have "b \<in> set ?available" unfolding find_Some_iff by blast
    with False show ?thesis by blast
  qed
  with av show "(codec, b) \<in> set (hc_pairs caps)"
    "preferred \<noteq> ''auto'' \<Longrightarrow> (codec, preferred) \<in> set (hc_pairs caps) \<Longrightarrow> b = preferred" by blast+
qed

lemma best_backend_exists:
  assumes "(codec, ''cpu'') \<in> set (hc_pairs caps)"
  shows "best_backend_for caps codec preferred \<noteq> None"
proof -
  have "''cpu'' \<in> set (map snd (filter (\<lambda>(c, _). c = codec) (hc_pairs caps)))" using assms by force
  moreover have "''cpu'' \<in> set BACKEND_PRIORITY" by code_simp
  ultimately have "find (\<lambda>backend. backend \<in> set (map snd (filter (\<lambda>(c, _). c = codec) (hc_pairs caps)))) BACKEND_PRIORITY \<noteq> None"
    unfolding find_None_iff by blast
  then show ?thesis unfolding best_backend_for_def Let_def by (simp only: split: if_split) blast
qed

lemma builders_for_names:
  assumes "map_of ENCODER_NAMES p \<noteq> None"
  shows "map_of ENCODER_BUILDERS p \<noteq> None"
proof -
  have "list_all (\<lambda>p. map_of ENCODER_BUILDERS p \<noteq> None) (map fst ENCODER_NAMES)" by code_simp
  then have "\<forall>p \<in> set (map fst ENCODER_NAMES). map_of ENCODER_BUILDERS p \<noteq> None" unfolding list_all_iff .
  moreover have "p \<in> set (map fst ENCODER_NAMES)" using assms by (simp add: map_of_eq_None_iff)
  ultimately show ?thesis by blast
qed

text \<open>
  A worker can encode what it accepts. On every node, whatever its commands answer, the backend
  chosen for a codec has a quality scale and a command builder; it is the preferred one whenever that
  one works; a hardware backend has passed a test encode; and a backend for \<open>hevc\<close> is always found
  unless the preference says otherwise, so the claim filter's codecs never lead to a job without one.
\<close>

lemma resolved_backend_can_encode:
  assumes "caps = detect_capabilities exec"
  shows "(\<forall>b. best_backend_for caps codec preferred = Some b \<longrightarrow>
      map_quality codec b q \<noteq> None
      \<and> build_encode_command codec b inp outp q content height plan \<noteq> None
      \<and> (preferred \<noteq> ''auto'' \<and> (codec, preferred) \<in> set (hc_pairs caps) \<longrightarrow> b = preferred)
      \<and> (b \<noteq> ''cpu'' \<longrightarrow> (\<exists>encoder init_args. map_of ENCODER_NAMES (codec, b) = Some encoder \<and> test_encode_works exec init_args encoder)))
    \<and> (codec = ''hevc'' \<longrightarrow> best_backend_for caps codec preferred \<noteq> None)"
proof (intro conjI allI impI)
  fix b assume b: "best_backend_for caps codec preferred = Some b"
  note pair = best_backend_SomeD(1) [OF b, unfolded assms]
  then obtain bd where bd: "map_of ENCODER_BUILDERS (codec, b) = Some bd"
    using builders_for_names capability_pairs by blast
  with builder_options [OF bd] obtain opts where
    "map_quality codec b q \<noteq> None" "bd inp outp q content height = Some (opts @ COMMON_TAIL @ [outp])"
    unfolding builder_ok_def by blast
  with bd show "map_quality codec b q \<noteq> None" "build_encode_command codec b inp outp q content height plan \<noteq> None"
    by (simp_all add: build_encode_command_def)
  show "b = preferred" if "preferred \<noteq> ''auto'' \<and> (codec, preferred) \<in> set (hc_pairs caps)"
    using best_backend_SomeD(2) [OF b] that by blast
  show "\<exists>encoder init_args. map_of ENCODER_NAMES (codec, b) = Some encoder \<and> test_encode_works exec init_args encoder"
    if "b \<noteq> ''cpu''"
    using hardware_pair_tested [OF pair that] by blast
next
  assume "codec = ''hevc''"
  with hevc_cpu_pair [of exec] have "(codec, ''cpu'') \<in> set (hc_pairs caps)" by (simp only: assms)
  then show "best_backend_for caps codec preferred \<noteq> None"
    by (rule best_backend_exists)
qed

end
