(* ===== verification/Agent.thy ===== *)
theory Agent
  imports Models Pipeline Outbox Hardware
begin

text \<open>
  The worker's agent (\<open>worker/http_agent.py\<close>): shutdown signals and aborts, the heartbeat loop with the
  partition fence, registration, the claim-time recovery that waits on a foreign lock, and the
  processing of one claimed job from the choice of a backend to the report in the journal.

  The agent runs two loops in one process. What the other loop and the signal handler do to the agent's
  fields between two steps of a loop is a parameter of each round. A loop that waits for the outside
  world recurses over the rounds the outside world gives it; a list that ends before the loop does
  leaves the loop waiting. Jobs of a filesystem library are modelled here, the S3 branches in
  \<open>S3Store\<close>. An error message is represented by its cause.
\<close>

section \<open>Constants and settings\<close>

definition LOCK_WAIT_POLL_SECONDS :: num where "LOCK_WAIT_POLL_SECONDS = 30"
definition LOCK_WAIT_MAX_SECONDS :: num where "LOCK_WAIT_MAX_SECONDS = 2 * of_int RECOVERY_STALE_LOCK_SECONDS"
definition SHUTDOWN_ABORT_MESSAGE :: string where "SHUTDOWN_ABORT_MESSAGE = ''Aborted by worker shutdown''"
definition FENCE_MARGIN_SECONDS :: num where "FENCE_MARGIN_SECONDS = 120"
definition HEARTBEAT_REQUEST_TIMEOUT_SECONDS :: num where "HEARTBEAT_REQUEST_TIMEOUT_SECONDS = 30"
definition DEFAULT_ORPHAN_GRACE_SECONDS :: num where "DEFAULT_ORPHAN_GRACE_SECONDS = 600"

text \<open>The argument is the grace the registration answer holds, if it holds one.\<close>

definition fence_after_seconds :: "num option \<Rightarrow> num" where
  "fence_after_seconds orphan_grace_seconds =
     max 0 ((case orphan_grace_seconds of None \<Rightarrow> DEFAULT_ORPHAN_GRACE_SECONDS | Some g \<Rightarrow> g) - FENCE_MARGIN_SECONDS)"

record worker_settings =
  ws_preferred_backend :: string
  ws_path_map :: "(string \<times> string) list"
  ws_vmaf_safety_mean :: num
  ws_vmaf_safety_perc5 :: num
  ws_crf_search_enabled :: bool

section \<open>Signals and aborts\<close>

text \<open>\<open>ag_task\<close>: a pipeline task is there and not done; \<open>ag_cancelled\<close>: its cancellation was requested.\<close>

record agent =
  ag_shutting_down :: bool
  ag_abort_requested :: bool
  ag_abort_message :: string
  ag_current_job :: "string option"
  ag_task :: bool
  ag_cancelled :: bool

definition abort_current_job :: "string \<Rightarrow> agent \<Rightarrow> agent" where
  "abort_current_job message a =
     a\<lparr>ag_abort_requested := True, ag_abort_message := message, ag_cancelled := ag_cancelled a \<or> ag_task a\<rparr>"

text \<open>\<open>None\<close> is the forced exit.\<close>

definition handle_shutdown :: "agent \<Rightarrow> agent option" where
  "handle_shutdown a =
     (if ag_shutting_down a \<and> ag_abort_requested a then None
      else if ag_shutting_down a then Some (abort_current_job SHUTDOWN_ABORT_MESSAGE a)
      else Some (a\<lparr>ag_shutting_down := True\<rparr>))"

definition clear_consumed_abort :: "agent \<Rightarrow> agent" where
  "clear_consumed_abort a =
     (if ag_shutting_down a then a
      else a\<lparr>ag_abort_requested := False, ag_abort_message := SHUTDOWN_ABORT_MESSAGE\<rparr>)"

section \<open>Heartbeats and the partition fence\<close>

text \<open>
  One round of the loop: what happened to the agent before it, what the journal's oldest entry is (or
  that reading it raised), what happened while the request was under way, whether it was answered with
  success, and the monotonic time after it.
\<close>

record beat_round =
  br_before :: "agent \<Rightarrow> agent"
  br_oldest :: "string option option"
  br_during :: "agent \<Rightarrow> agent"
  br_answered :: bool
  br_time :: num

record heartbeats =
  hb_agent :: agent
  hb_last_contact :: num
  hb_fenced :: bool
  hb_sent :: "(string \<times> string option) list"

definition fence_message :: "num \<Rightarrow> string" where
  "fence_message lost_for = ''Aborted: lost contact with the scheduler for '' @ str_int \<lfloor>lost_for\<rfloor> @ '' s''"

definition beat_failed :: "num \<Rightarrow> num \<Rightarrow> heartbeats \<Rightarrow> heartbeats" where
  "beat_failed fence_after now h =
     (let lost_for = now - hb_last_contact h
      in if \<not> hb_fenced h \<and> fence_after \<le> lost_for \<and> ag_current_job (hb_agent h) \<noteq> None
         then h\<lparr>hb_fenced := True, hb_agent := abort_current_job (fence_message lost_for) (hb_agent h)\<rparr>
         else h)"

text \<open>The journal is read only when no job is current; the loop ends on shutdown with no job.\<close>

fun heartbeat_loop :: "num \<Rightarrow> beat_round list \<Rightarrow> heartbeats \<Rightarrow> heartbeats" where
  "heartbeat_loop fence_after [] h = h"
| "heartbeat_loop fence_after (r # rs) h =
     (let a = br_before r (hb_agent h)
      in if ag_shutting_down a \<and> ag_current_job a = None then h\<lparr>hb_agent := a\<rparr>
         else case (case ag_current_job a of Some j \<Rightarrow> Some (Some j) | None \<Rightarrow> br_oldest r) of
           None \<Rightarrow> heartbeat_loop fence_after rs (h\<lparr>hb_agent := a\<rparr>)
         | Some named_job \<Rightarrow>
             let status = (if ag_current_job a \<noteq> None then ''busy'' else ''online'');
                 h' = h\<lparr>hb_agent := br_during r a, hb_sent := hb_sent h @ [(status, named_job)]\<rparr>
             in heartbeat_loop fence_after rs
                  (if br_answered r then h'\<lparr>hb_last_contact := br_time r, hb_fenced := False\<rparr>
                   else beat_failed fence_after (br_time r) h'))"

section \<open>Registration\<close>

datatype 'r registration = Registered 'r | Rejected failure | Registering

text \<open>The answers to the successive attempts, with the jitter drawn after a failure.\<close>

fun register_with_retry :: "backoff \<Rightarrow> ((failure + 'r) \<times> num) list \<Rightarrow> 'r registration \<times> num list" where
  "register_with_retry b [] = (Registering, [])"
| "register_with_retry b ((Inr reg, _) # _) = (Registered reg, [])"
| "register_with_retry b ((Inl f, jitter) # rest) =
     (if classify_error f \<noteq> RETRYABLE then (Rejected f, [])
      else case next_delay jitter b of
             (delay, b') \<Rightarrow> (case register_with_retry b' rest of (r, delays) \<Rightarrow> (r, delay # delays)))"

text \<open>Before registering: passes over the journal until it settles, or the credential is refused. Each
  round has its own world and the shutdown flag as the loop reads it.\<close>

fun drain_before_register :: "(bool \<times> 'p world) list \<Rightarrow> 'p outbox \<Rightarrow> bool \<times> 'p outbox" where
  "drain_before_register [] s = (False, s)"
| "drain_before_register ((shutting_down, w) # rounds) s =
     (if shutting_down then (True, s)
      else case drain_outbox w s of
             (Value EMPTY, s') \<Rightarrow> (True, s')
           | (Value AUTH_BLOCKED, s') \<Rightarrow> (True, s')
           | (Value BLOCKED, s') \<Rightarrow> drain_before_register rounds s'
           | (Raises _, s') \<Rightarrow> drain_before_register rounds s'
           | (Stopped, s') \<Rightarrow> (False, s'))"

section \<open>Waiting for a foreign lock\<close>

text \<open>
  One poll: the abort flags and message after the recovery, the seconds waited by then, and what others
  do to the files and the clock while the claimer sleeps.
\<close>

record wait_round =
  wr_aborting :: bool
  wr_message :: string
  wr_waited :: num
  wr_meanwhile :: "process \<Rightarrow> process"

datatype wait_end =
    Recovered recovery
  | Wait_aborted string
  | Wait_expired string int
  | Wait_raised
  | Still_waiting

fun recover_source_path_waiting :: "path \<Rightarrow> string \<Rightarrow> wait_round list \<Rightarrow> wait_end act" where
  "recover_source_path_waiting source worker_id [] = finish Still_waiting"
| "recover_source_path_waiting source worker_id (r # rounds) =
     andthen (recover_source_path source worker_id (RECOVERY_STALE_LOCK_SECONDS * 1000000)) (\<lambda>recovery.
     case recovery of
       None \<Rightarrow> finish Wait_raised
     | Some outcome \<Rightarrow>
         if outcome \<noteq> R_active then finish (Recovered outcome)
         else if wr_aborting r then finish (Wait_aborted (wr_message r))
         else andthen (asks (\<lambda>s. lock_holder source (p_now s) (p_fs s))) (\<lambda>holder.
           case holder of
             None \<Rightarrow> finish Wait_raised
           | Some h \<Rightarrow>
               let (owner, age) = (case h of None \<Rightarrow> (''unknown'', 0) | Some x \<Rightarrow> x)
               in if LOCK_WAIT_MAX_SECONDS \<le> wr_waited r then finish (Wait_expired owner age)
                  else andthen (modify (wr_meanwhile r)) (\<lambda>_. recover_source_path_waiting source worker_id rounds)))"

section \<open>One job\<close>

definition translate_path :: "(string \<times> string) list \<Rightarrow> string \<Rightarrow> string" where
  "translate_path path_map path =
     (case find (\<lambda>(linux_prefix, _). prefix linux_prefix path) path_map of
        None \<Rightarrow> path
      | Some (linux_prefix, local_prefix) \<Rightarrow> replace_first linux_prefix local_prefix path)"

text \<open>\<open>Path(text)\<close> of a normalised absolute path: directory and name.\<close>

definition path_of_text :: "string \<Rightarrow> path" where
  "path_of_text text =
     (let name = rev (takeWhile (\<lambda>c. c \<noteq> CHR ''/'') (rev text))
      in (take (length text - length name - 1) text, name))"

record claim_answer =
  ca_job :: job
  ca_claim_token :: "string option"
  ca_media_type :: string
  ca_vmaf_safety_mean :: "num option"
  ca_vmaf_safety_perc5 :: "num option"

datatype cause =
    No_backend string
  | Declined wait_end
  | Fetch_failed
  | Aborted string
  | Pipeline_failed string
  | Unexpected

record complete_report =
  cr_output_size :: int
  cr_space_saved :: int
  cr_source_size :: int
  cr_achieved_vmaf :: "num option"
  cr_achieved_vmaf_perc5 :: "num option"
  cr_predicted_vmaf_mean :: "num option"
  cr_predicted_vmaf_perc5 :: "num option"
  cr_resolved_crf :: int
  cr_backend_used :: string

record skipped_report =
  sr_reason :: string
  sr_achieved_vmaf :: "num option"
  sr_achieved_vmaf_perc5 :: "num option"
  sr_predicted_vmaf_mean :: "num option"
  sr_predicted_vmaf_perc5 :: "num option"
  sr_resolved_crf :: "int option"
  sr_backend_used :: "string option"

datatype report_body = Complete_body complete_report | Skipped_body skipped_report | Failed_body cause int

text \<open>How the processing of a job ends: with a report, with an exception that leaves it, or not yet.\<close>

datatype job_end = Report string report_body | Escapes | Waiting

definition failed_report :: "cause \<Rightarrow> int \<Rightarrow> job_end" where
  "failed_report c retry_count = Report ''failed'' (Failed_body c retry_count)"

definition skipped_report_of :: "string \<Rightarrow> (num \<times> num) option \<Rightarrow> diagnostics \<Rightarrow> job_end" where
  "skipped_report_of reason vmaf diag =
     Report ''skipped'' (Skipped_body \<lparr>sr_reason = reason, sr_achieved_vmaf = map_option fst vmaf,
       sr_achieved_vmaf_perc5 = map_option snd vmaf, sr_predicted_vmaf_mean = dg_mean diag,
       sr_predicted_vmaf_perc5 = dg_perc5 diag, sr_resolved_crf = dg_crf diag, sr_backend_used = dg_backend diag\<rparr>)"

text \<open>The \<open>except\<close> clauses, in their order. \<open>abort\<close> is the abort message when an abort was requested.\<close>

fun exception_report :: "job \<Rightarrow> string option \<Rightarrow> exn \<Rightarrow> job_end" where
  "exception_report job abort Cancelled_error =
     (case abort of None \<Rightarrow> Escapes | Some message \<Rightarrow> failed_report (Aborted message) (j_retry_count job))"
| "exception_report job abort (Vmaf_gate mean perc5 floor_mean floor_perc5 diag) =
     skipped_report_of ''below_vmaf_floor'' (Some (mean, perc5)) diag"
| "exception_report job abort (Size_regression source_size output_size diag) =
     skipped_report_of ''size_regression'' None diag"
| "exception_report job abort (Stream_loss step lost diag) =
     skipped_report_of ''stream_loss'' None (diag\<lparr>dg_mean := None, dg_perc5 := None\<rparr>)"
| "exception_report job abort (Pipeline_error step) = failed_report (Pipeline_failed step) (j_retry_count job + 1)"
| "exception_report job abort Value_error = failed_report Unexpected (j_retry_count job + 1)"

definition conclude :: "job \<Rightarrow> string option \<Rightarrow> complete_report act \<Rightarrow> job_end act" where
  "conclude job abort m os s =
     (case m os s of
        (Done c, os', s') \<Rightarrow> (Done (Report ''complete'' (Complete_body c)), os', s')
      | (Raised e, os', s') \<Rightarrow> (Done (exception_report job abort e), os', s')
      | (OSError, os', s') \<Rightarrow> (Done (failed_report Unexpected (j_retry_count job + 1)), os', s')
      | (Crashed, os', s') \<Rightarrow> (Crashed, os', s'))"

definition job_codec :: "job \<Rightarrow> string" where
  "job_codec job = (if j_target_codec job = [] then ''hevc'' else j_target_codec job)"

definition job_args :: "worker_settings \<Rightarrow> string \<Rightarrow> claim_answer \<Rightarrow> string \<Rightarrow> pipeline_args" where
  "job_args st worker_id cl backend =
     (let job = ca_job cl
      in \<lparr>pa_source = path_of_text (translate_path (ws_path_map st) (j_source_path job)), pa_codec = job_codec job,
          pa_backend = backend, pa_quality = j_quality_value job,
          pa_duration = (case j_source_duration job of None \<Rightarrow> 0 | Some d \<Rightarrow> d), pa_job = j_id job, pa_worker = worker_id,
          pa_target_vmaf = j_target_vmaf job,
          pa_safety_mean = (case ca_vmaf_safety_mean cl of None \<Rightarrow> ws_vmaf_safety_mean st | Some m \<Rightarrow> m),
          pa_safety_perc5 = (case ca_vmaf_safety_perc5 cl of None \<Rightarrow> ws_vmaf_safety_perc5 st | Some m \<Rightarrow> m),
          pa_crf_search = ws_crf_search_enabled st,
          pa_content = (if ca_media_type cl = ''anime'' then Some ''anime'' else None),
          pa_target_height = j_target_height job\<rparr>)"

text \<open>
  The commit of the filesystem backend: it asks for the size of what is in place, in a thread the task
  waits for, so a cancellation may arrive there and the call may fail. \<open>space_saved\<close> is handed through.
\<close>

definition commit_size :: "path \<Rightarrow> content act" where
  "commit_size p =
     andthen cancel_point (\<lambda>_.
     andthen (syscall (\<lambda>f. if f p = None then None else Some f)) (\<lambda>_.
     andthen (read_path p) (\<lambda>file. case file of None \<Rightarrow> raise_oserror | Some e \<Rightarrow> finish e)))"

text \<open>The pipeline and the commit.\<close>

definition encode_and_commit :: "tools \<Rightarrow> pipeline_args \<Rightarrow> complete_report act" where
  "encode_and_commit tls a =
     andthen (run_pipeline tls a) (\<lambda>res.
     andthen (commit_size (pa_source a)) (\<lambda>e.
         finish \<lparr>cr_output_size = tl_size tls e, cr_space_saved = rp_space_saved res, cr_source_size = rp_source_size res,
           cr_achieved_vmaf = rp_vmaf_mean res, cr_achieved_vmaf_perc5 = rp_vmaf_perc5 res,
           cr_predicted_vmaf_mean = rp_predicted_mean res, cr_predicted_vmaf_perc5 = rp_predicted_perc5 res,
           cr_resolved_crf = rp_resolved_crf res, cr_backend_used = rp_backend res\<rparr>))"

text \<open>
  The abort flag as the agent reads it: before the pipeline starts (\<open>abort_before\<close>) and when the
  cancellation arrives (\<open>abort_after\<close>).
\<close>

definition decide_job ::
  "tools \<Rightarrow> hardware_capabilities \<Rightarrow> worker_settings \<Rightarrow> string \<Rightarrow> claim_answer \<Rightarrow> wait_round list
   \<Rightarrow> string option \<Rightarrow> string option \<Rightarrow> job_end act"
where
  "decide_job tls caps st worker_id cl rounds abort_before abort_after =
     (let job = ca_job cl
      in case best_backend_for caps (job_codec job) (ws_preferred_backend st) of
        None \<Rightarrow> finish (failed_report (No_backend (job_codec job)) (j_retry_count job + 1))
      | Some backend \<Rightarrow>
          let a = job_args st worker_id cl backend
          in andthen (recover_source_path_waiting (pa_source a) worker_id rounds) (\<lambda>r.
             case r of
               Wait_raised \<Rightarrow> finish Escapes
             | Still_waiting \<Rightarrow> finish Waiting
             | Wait_aborted message \<Rightarrow> finish (failed_report (Declined r) (j_retry_count job))
             | Wait_expired owner age \<Rightarrow> finish (failed_report (Declined r) (j_retry_count job))
             | Recovered outcome \<Rightarrow>
                 if outcome \<in> {R_attention, R_restore_failed} then finish (failed_report (Declined r) (j_retry_count job))
                 else andthen (path_exists (pa_source a)) (\<lambda>there.
                   if \<not> there then finish (failed_report Fetch_failed (j_retry_count job + 1))
                   else if abort_before \<noteq> None then conclude job abort_before (raise_error Cancelled_error)
                   else conclude job abort_after (encode_and_commit tls a))))"

type_synonym payload = "string option \<times> report_body"

definition process_job ::
  "tools \<Rightarrow> hardware_capabilities \<Rightarrow> worker_settings \<Rightarrow> string \<Rightarrow> claim_answer \<Rightarrow> wait_round list
   \<Rightarrow> string option \<Rightarrow> string option \<Rightarrow> payload world \<Rightarrow> fault list \<Rightarrow> process \<Rightarrow> payload outbox
   \<Rightarrow> job_end result \<times> fault list \<times> process \<times> payload outbox"
where
  "process_job tls caps st worker_id cl rounds abort_before abort_after w os s box =
     (case decide_job tls caps st worker_id cl rounds abort_before abort_after os s of
        (Done (Report kind body), os', s') \<Rightarrow>
          (Done (Report kind body), os', s', snd (deliver w (ca_claim_token cl) (j_id (ca_job cl)) kind body box))
      | (r, os', s') \<Rightarrow> (r, os', s', box))"

text \<open>One iteration of the job loop: undelivered reports go first, and while any holds up the journal no
  job is claimed. \<open>answer\<close> is the scheduler's answer to the claim; the flag says whether it was asked.\<close>

definition job_loop_round ::
  "tools \<Rightarrow> hardware_capabilities \<Rightarrow> worker_settings \<Rightarrow> string \<Rightarrow> claim_answer option \<Rightarrow> wait_round list
   \<Rightarrow> string option \<Rightarrow> string option \<Rightarrow> payload world \<Rightarrow> fault list \<Rightarrow> process \<Rightarrow> payload outbox
   \<Rightarrow> bool \<times> fault list \<times> process \<times> payload outbox"
where
  "job_loop_round tls caps st worker_id answer rounds abort_before abort_after w os s box =
     (case drain_outbox w box of
        (Value EMPTY, box') \<Rightarrow>
          (case answer of
             None \<Rightarrow> (True, os, s, box')
           | Some cl \<Rightarrow>
               (True, snd (process_job tls caps st worker_id cl rounds abort_before abort_after w os s box')))
      | (_, box') \<Rightarrow> (False, os, s, box'))"

section \<open>Specification\<close>

text \<open>The source path before a job: the original in place, no backup and no lock.\<close>

definition fresh_source :: "path \<Rightarrow> content \<Rightarrow> process \<Rightarrow> bool" where
  "fresh_source p orig s \<longleftrightarrow> p_fs s p = Some orig \<and> p_fs s (bak_of p) = None \<and> p_fs s (lock_of p) = None"

definition original_kept :: "path \<Rightarrow> content \<Rightarrow> process \<Rightarrow> bool" where
  "original_kept p orig s \<longleftrightarrow> p_fs s p = Some orig \<and> p_fs s (bak_of p) = None
     \<or> p_fs s (bak_of p) = Some orig \<and> p_fs s (lock_of p) \<noteq> None"

definition committed :: "tools \<Rightarrow> content \<Rightarrow> complete_report \<Rightarrow> content \<Rightarrow> bool" where
  "committed tls orig c e \<longleftrightarrow> cr_source_size c = tl_size tls orig \<and> cr_output_size c = tl_size tls e
     \<and> cr_space_saved c = tl_size tls orig - tl_size tls e"

text \<open>
  A report that tells the truth about the files: \<open>complete\<close> with an accepted output of the reported
  sizes in place, \<open>skipped\<close> with the original kept, \<open>failed\<close> with the original kept, unless the job was
  aborted, or the commit failed to look at the output, after the output had been accepted.
\<close>

definition truthful :: "tools \<Rightarrow> (content \<Rightarrow> bool) \<Rightarrow> job \<Rightarrow> path \<Rightarrow> content \<Rightarrow> job_end \<Rightarrow> process \<Rightarrow> bool" where
  "truthful tls good job p orig d s \<longleftrightarrow>
     (case d of
        Report kind (Complete_body c) \<Rightarrow> kind = ''complete'' \<and> (\<exists>e. p_fs s p = Some e \<and> good e \<and> committed tls orig c e)
      | Report kind (Skipped_body k) \<Rightarrow> kind = ''skipped'' \<and> original_kept p orig s
      | Report kind (Failed_body c n) \<Rightarrow>
          kind = ''failed'' \<and> n = (case c of Aborted m \<Rightarrow> j_retry_count job | Declined x \<Rightarrow> j_retry_count job
                                    | _ \<Rightarrow> j_retry_count job + 1)
          \<and> (original_kept p orig s
             \<or> ((\<exists>m. c = Aborted m) \<or> c = Unexpected) \<and> (\<exists>e. p_fs s p = Some e \<and> good e))
      | _ \<Rightarrow> True)"

text \<open>How the pipeline with its commit leaves the files.\<close>

definition committed_as ::
  "path \<Rightarrow> content \<Rightarrow> (content \<Rightarrow> bool) \<Rightarrow> (complete_report \<Rightarrow> content \<Rightarrow> bool) \<Rightarrow> complete_report result \<Rightarrow> process \<Rightarrow> bool"
where
  "committed_as p orig good ft r s \<longleftrightarrow>
     (case r of
        Done c \<Rightarrow> \<exists>e. p_fs s p = Some e \<and> good e \<and> ft c e
      | Raised e \<Rightarrow> original_kept p orig s \<or> e = Cancelled_error \<and> (\<exists>x. p_fs s p = Some x \<and> good x)
      | OSError \<Rightarrow> original_kept p orig s \<or> (\<exists>x. p_fs s p = Some x \<and> good x)
      | Crashed \<Rightarrow> True)"

text \<open>Successive rounds at most \<open>m\<close> seconds apart, the first one \<open>m\<close> seconds after \<open>t\<close> at most.\<close>

fun spaced :: "num \<Rightarrow> num \<Rightarrow> beat_round list \<Rightarrow> bool" where
  "spaced m t [] \<longleftrightarrow> True"
| "spaced m t (r # rs) \<longleftrightarrow> br_time r \<le> t + m \<and> spaced m (br_time r) rs"

text \<open>A round in which a job that is in flight stays in flight, whatever else happens to the agent.\<close>

definition keeps_job :: "beat_round \<Rightarrow> bool" where
  "keeps_job r \<longleftrightarrow> (\<forall>a. ag_current_job a \<noteq> None \<longrightarrow>
     ag_current_job (br_before r a) \<noteq> None \<and> ag_current_job (br_during r a) \<noteq> None)"

text \<open>A small instance: a claimed \<open>h264\<close> job on a node with a software encoder, and a silent scheduler.\<close>

definition demo_claim :: claim_answer where
  "demo_claim = \<lparr>ca_job = (new_job ''j1'' ''/media/a.mkv'' ''films'' ''h264'' 22 0)\<lparr>j_source_duration := Some 60, j_target_vmaf := Some 95\<rparr>,
     ca_claim_token = Some ''t1'', ca_media_type = [], ca_vmaf_safety_mean = None, ca_vmaf_safety_perc5 = None\<rparr>"

definition demo_settings :: worker_settings where
  "demo_settings = \<lparr>ws_preferred_backend = ''auto'', ws_path_map = [(''/media'', ''/m'')], ws_vmaf_safety_mean = 91,
     ws_vmaf_safety_perc5 = 86, ws_crf_search_enabled = False\<rparr>"

definition demo_caps :: hardware_capabilities where
  "demo_caps = \<lparr>hc_encoders = [''cpu''], hc_pairs = [(''hevc'', ''cpu'')], hc_ffmpeg_version = []\<rparr>"

definition demo_poll :: "num \<Rightarrow> wait_round" where
  "demo_poll t = \<lparr>wr_aborting = False, wr_message = [], wr_waited = t, wr_meanwhile = (\<lambda>s. s)\<rparr>"

definition idle_world :: "payload world" where
  "idle_world = \<lparr>wd_disk = (\<lambda>_. Works), wd_time = (\<lambda>_. 0), wd_answer = (\<lambda>_ _. Failed_with Other_error)\<rparr>"

definition idle_box :: "payload outbox" where
  "idle_box = \<lparr>ob_files = [], ob_step = 0, ob_sent = []\<rparr>"

text \<open>A journal of two reports of one job, the first parked, and a report of another job.\<close>

definition chain_box :: "payload outbox" where
  "chain_box = \<lparr>ob_files =
     [(''0000000001-j0-failed.json'', Body \<lparr>bd_job = ''j0'', bd_kind = ''failed'', bd_payload = (None, Failed_body Unexpected 1),
         bd_attempts = 0, bd_last_attempt_at = None\<rparr>),
      (''0000000002-j1-register_derivative.json'', Body \<lparr>bd_job = ''j1'', bd_kind = ''register_derivative'',
         bd_payload = (None, Failed_body Unexpected 1), bd_attempts = 30, bd_last_attempt_at = Some 50\<rparr>),
      (''0000000003-j1-complete.json'', Body \<lparr>bd_job = ''j1'', bd_kind = ''complete'', bd_payload = (None, Failed_body Unexpected 1),
         bd_attempts = 0, bd_last_attempt_at = None\<rparr>)], ob_step = 0, ob_sent = []\<rparr>"

definition demo_beat :: "num \<Rightarrow> beat_round" where
  "demo_beat t = \<lparr>br_before = (\<lambda>a. a), br_oldest = Some None, br_during = (\<lambda>a. a), br_answered = False, br_time = t\<rparr>"

definition demo_hearts :: heartbeats where
  "demo_hearts = \<lparr>hb_agent = \<lparr>ag_shutting_down = False, ag_abort_requested = False, ag_abort_message = [], ag_current_job = Some ''j1'',
     ag_task = True, ag_cancelled = False\<rparr>, hb_last_contact = 0, hb_fenced = False, hb_sent = []\<rparr>"

section \<open>The lock wait\<close>

lemma expired_bound:
  assumes "i \<le> 60" and "61 \<le> i + length rounds"
    and "\<forall>j < length rounds. LOCK_WAIT_POLL_SECONDS * of_nat (i + j) \<le> wr_waited (rounds ! j)"
  shows "fst (recover_source_path_waiting p w rounds os s) \<noteq> Done Still_waiting"
  using assms
proof (induction rounds arbitrary: i os s)
  case Nil
  then show ?case by simp
next
  case (Cons r rounds)
  have first: "LOCK_WAIT_POLL_SECONDS * of_nat i \<le> wr_waited r" using Cons.prems(3) [rule_format, of 0] by simp
  have later: "\<forall>j < length rounds. LOCK_WAIT_POLL_SECONDS * of_nat (Suc i + j) \<le> wr_waited (rounds ! j)"
    using Cons.prems(3) by (intro allI impI, drule_tac x = "Suc j" in spec) simp
  have on: "fst (recover_source_path_waiting p w rounds os' s') \<noteq> Done Still_waiting"
    if "\<not> LOCK_WAIT_MAX_SECONDS \<le> wr_waited r" for os' s'
  proof (rule Cons.IH [OF _ _ later])
    from that first have "(30 :: num) * of_nat i < 30 * of_nat 60"
      by (simp add: LOCK_WAIT_POLL_SECONDS_def LOCK_WAIT_MAX_SECONDS_def RECOVERY_STALE_LOCK_SECONDS_def LOCK_TOUCH_INTERVAL_def)
    then have "(of_nat i :: num) < of_nat 60" by simp
    then show "Suc i \<le> 60" by (simp only: of_nat_less_iff)
    show "61 \<le> Suc i + length rounds" using Cons.prems(2) by simp
  qed
  obtain x os1 s1 where x: "recover_source_path p w (RECOVERY_STALE_LOCK_SECONDS * 1000000) os s = (x, os1, s1)"
    by (rule prod_cases3)
  show ?case
    using x on by (auto simp: andthen_def finish_def asks_def modify_def Let_def split: result.split option.split)
qed

text \<open>
  The wait for a foreign lock ends. When each poll comes at least the poll interval after the one
  before, the claimer stops waiting by the 61st poll, whatever other workers do to the files: the path
  was recovered, the wait was aborted, it raised, or the half hour was over.
\<close>

lemma lock_wait_ends:
  assumes "61 \<le> length rounds" and "\<forall>j < length rounds. LOCK_WAIT_POLL_SECONDS * of_nat j \<le> wr_waited (rounds ! j)"
  shows "fst (recover_source_path_waiting p w rounds os s) \<noteq> Done Still_waiting"
  using expired_bound [of 0 rounds] assms by simp

section \<open>The report of a job\<close>

lemma fresh_tmp: "fresh_source p orig s \<Longrightarrow> fresh_source p orig (s\<lparr>p_fs := (p_fs s)(tmp_of p := x)\<rparr>)"
  by (simp add: fresh_source_def)

lemma wp_recover_fresh:
  assumes "fresh_source p orig s"
  shows "wp (recover_source_path p w stale) (\<lambda>r s'. fresh_source p orig s'
     \<and> (\<forall>x. r = Done x \<longrightarrow> x = Some R_clean \<or> x = Some R_cleaned) \<and> r \<noteq> OSError \<and> (\<forall>e. r \<noteq> Raised e)) s"
proof -
  have f: "p_fs s p = Some orig" "p_fs s (bak_of p) = None" "p_fs s (lock_of p) = None"
    using assms by (simp_all add: fresh_source_def)
  let ?Q = "\<lambda>(r :: recovery option result) s'. fresh_source p orig s'
     \<and> (\<forall>x. r = Done x \<longrightarrow> x = Some R_clean \<or> x = Some R_cleaned) \<and> r \<noteq> OSError \<and> (\<forall>e. r \<noteq> Raised e)"
  have "wp (andthen (safe_delete (tmp_of p)) (\<lambda>_. finish (Some R_cleaned))) ?Q s"
    by (rule wp_andthen, rule wp_safe_delete) (auto intro!: wp_finish fresh_tmp assms)
  moreover have "andthen (safe_delete (lock_of p)) k os s = k () os s" for k :: "unit \<Rightarrow> recovery option act" and os
    using f by (simp add: safe_delete_def path_exists_def andthen_def asks_def finish_def)
  ultimately have "wp (andthen (safe_delete (lock_of p)) (\<lambda>_. andthen (safe_delete (tmp_of p)) (\<lambda>_. finish (Some R_cleaned)))) ?Q s"
    by (simp add: wp_def)
  moreover have "wp (finish (Some R_clean)) ?Q s" using assms by (intro wp_finish) simp
  ultimately show ?thesis unfolding recover_source_path_def Let_def
    by (intro wp_andthen wp_asks) (simp add: f)
qed

lemma wp_wait_fresh:
  assumes "fresh_source p orig s"
  shows "wp (recover_source_path_waiting p w rounds) (\<lambda>r s'. fresh_source p orig s' \<and> r \<noteq> OSError \<and> (\<forall>e. r \<noteq> Raised e)
     \<and> (\<forall>x. r = Done x \<longrightarrow> x \<in> {Still_waiting, Recovered R_clean, Recovered R_cleaned})) s"
proof (cases rounds)
  case Nil
  with assms show ?thesis by (auto intro!: wp_finish)
next
  case (Cons r rs)
  show ?thesis unfolding Cons recover_source_path_waiting.simps
    by (rule wp_andthen, rule wp_mono [OF wp_recover_fresh [OF assms]])
      (auto split: result.splits intro!: wp_finish)
qed

lemma settled_committed:
  assumes "settled_as (own_of a) orig good ft r s" and "\<nexists>x. r = Done x"
  shows "case r of Done x \<Rightarrow> R x | OSError \<Rightarrow> committed_as (pa_source a) orig good ft2 OSError s
     | Raised e \<Rightarrow> committed_as (pa_source a) orig good ft2 (Raised e) s
     | Crashed \<Rightarrow> committed_as (pa_source a) orig good ft2 Crashed s"
  using assms by (cases r) (auto simp: settled_as_def committed_as_def crash_safe_def original_kept_def own_of_def)

lemma wp_commit_size:
  assumes "p_fs s p = Some e" and "Q (Done e) s" and "Q OSError s" and "Q Crashed s" and "Q (Raised Cancelled_error) s"
  shows "wp (commit_size p) Q s"
  unfolding commit_size_def read_path_def
  by (intro wp_andthen wp_cancel_point) (use assms in \<open>auto intro!: wp_andthen wp_syscall wp_asks wp_finish split: if_splits\<close>)

lemma wp_encode_and_commit:
  assumes "fresh_source (pa_source a) orig s"
  shows "wp (encode_and_commit tls a) (committed_as (pa_source a) orig (acceptable tls a orig) (committed tls orig)) s"
  unfolding encode_and_commit_def
proof (rule wp_andthen, rule wp_mono [OF wp_run_pipeline])
  fix r :: "pipeline_result result" and s'
  let ?S = "committed_as (pa_source a) orig (acceptable tls a orig) (committed tls orig)"
  let ?k = "\<lambda>res. andthen (commit_size (pa_source a)) (\<lambda>e.
         finish \<lparr>cr_output_size = tl_size tls e, cr_space_saved = rp_space_saved res, cr_source_size = rp_source_size res,
           cr_achieved_vmaf = rp_vmaf_mean res, cr_achieved_vmaf_perc5 = rp_vmaf_perc5 res,
           cr_predicted_vmaf_mean = rp_predicted_mean res, cr_predicted_vmaf_perc5 = rp_predicted_perc5 res,
           cr_resolved_crf = rp_resolved_crf res, cr_backend_used = rp_backend res\<rparr>)"
  assume st: "settled_as (own_of a) orig (acceptable tls a orig) (fits tls orig) r s'"
  show "case r of Done res \<Rightarrow> wp (?k res) ?S s' | OSError \<Rightarrow> ?S OSError s' | Raised e \<Rightarrow> ?S (Raised e) s' | Crashed \<Rightarrow> ?S Crashed s'"
  proof (cases "\<exists>res. r = Done res")
    case True
    then obtain res where r: "r = Done res" ..
    with st obtain e where e: "p_fs s' (pa_source a) = Some e" "acceptable tls a orig e" "fits tls orig res e"
      by (auto simp: settled_as_def own_of_def)
    have "wp (?k res) ?S s'"
      by (rule wp_andthen, rule wp_commit_size [OF e(1)])
        (use e in \<open>auto simp: committed_as_def committed_def fits_def intro!: wp_finish\<close>)
    with r show ?thesis by simp
  next
    case False
    with st show ?thesis by (rule settled_committed)
  qed
qed (use assms in \<open>simp_all add: fresh_source_def\<close>)

text \<open>The \<open>except\<close> clauses report what the files hold.\<close>

lemma exception_truthful:
  assumes "e \<noteq> Cancelled_error \<Longrightarrow> original_kept p orig s"
    and "original_kept p orig s \<or> (\<exists>x. p_fs s p = Some x \<and> good x)"
  shows "truthful tls good job p orig (exception_report job abort e) s"
  using assms
  by (cases e) (auto simp: truthful_def failed_report_def skipped_report_of_def split: option.splits)

lemma conclude_truthful:
  assumes "wp m (committed_as p orig good (committed tls orig)) s" and "conclude job abort m os s = (Done d, os', s')"
  shows "truthful tls good job p orig d s'"
proof -
  obtain r os1 s1 where m: "m os s = (r, os1, s1)" by (rule prod_cases3)
  note st = wp_result [OF assms(1) m, unfolded committed_as_def]
  show ?thesis
  proof (cases r)
    case (Done c)
    with st assms(2) m show ?thesis by (auto simp: conclude_def truthful_def)
  next
    case OSError
    with st assms(2) m show ?thesis by (auto simp: conclude_def truthful_def failed_report_def)
  next
    case (Raised e)
    with st have "truthful tls good job p orig (exception_report job abort e) s1"
      by (intro exception_truthful) auto
    with Raised assms(2) m show ?thesis by (auto simp: conclude_def)
  qed (use assms(2) m in \<open>simp add: conclude_def\<close>)
qed

lemma andthen_Done:
  assumes "andthen m f os s = (Done d, os', s')"
  obtains x os1 s1 where "m os s = (Done x, os1, s1)" "f x os1 s1 = (Done d, os', s')"
  using assms by (auto simp: andthen_def split: result.splits prod.splits)

lemma fresh_kept: "fresh_source p orig s \<Longrightarrow> original_kept p orig s"
  by (simp add: fresh_source_def original_kept_def)

lemma demo_source:
  "path_of_text (translate_path (ws_path_map demo_settings) (j_source_path (ca_job demo_claim))) = (''/m'', ''a.mkv'')"
  by code_simp

lemma demo_fresh: "fresh_source (''/m'', ''a.mkv'') (Media ''film'') demo_start"
  using demo_pipeline_facts by (simp add: fresh_source_def demo_args_def)

lemma demo_decision:
  "(case fst (decide_job demo_tools demo_caps demo_settings ''w1'' demo_claim [demo_poll 0] None None [] demo_start) of
      Done (Report kind (Complete_body c)) \<Rightarrow> kind = ''complete'' \<and> cr_space_saved c = 4 | _ \<Rightarrow> False)"
  by code_simp

lemma demo_decided:
  "\<exists>c os' s'. decide_job demo_tools demo_caps demo_settings ''w1'' demo_claim [demo_poll 0] None None [] demo_start
     = (Done (Report ''complete'' (Complete_body c)), os', s') \<and> cr_space_saved c = 4"
proof -
  obtain r os' s' where r: "decide_job demo_tools demo_caps demo_settings ''w1'' demo_claim [demo_poll 0] None None [] demo_start
     = (r, os', s')" by (rule prod_cases3)
  with demo_decision show ?thesis by (auto split: result.splits job_end.splits report_body.splits)
qed

text \<open>
  The second case of a \<open>failed\<close> report with the output in place happens: the one call that fails is the
  commit's look, after the swap was confirmed and the backup deleted.
\<close>

lemma failed_look_reports_failed:
  "(case decide_job demo_tools demo_caps demo_settings ''w1'' demo_claim [demo_poll 0] None None (replicate 30 Fine @ [Fault]) demo_start of
      (Done (Report kind (Failed_body Unexpected n)), os', s') \<Rightarrow>
        n = 1 \<and> p_fs s' (''/m'', ''a.mkv'') \<notin> {None, Some (Media ''film'')} \<and> p_fs s' (bak_of (''/m'', ''a.mkv'')) = None
    | _ \<Rightarrow> False)"
  by code_simp

text \<open>
  C5. What a worker reports agrees with the files. A worker claims a job whose source path holds the
  original without a backup or a lock; any call that changes files, and the commit's look at the output,
  may fail (the other reads are taken not to), any tool answer anything, and an abort or cancellation
  arrive at any point. If it reports \<open>complete\<close>, an output that passed every gate is in place and the
  reported sizes and saving are its own; if it reports \<open>skipped\<close>, the original is kept. If it reports
  \<open>failed\<close>, the original is kept in all cases but two, in which an output that passed every gate is in
  place instead: the job was aborted after the acceptance, or the error is the unexpected one, the
  commit's look at the accepted output having failed. A declined or aborted job does not use up a retry,
  every other failure uses one.
\<close>

theorem job_report_is_truthful:
  assumes "fresh_source (path_of_text (translate_path (ws_path_map st) (j_source_path (ca_job cl)))) orig s"
    and "decide_job tls caps st worker_id cl rounds abort_before abort_after os s = (Done d, os', s')"
  shows "\<exists>backend. truthful tls (acceptable tls (job_args st worker_id cl backend) orig) (ca_job cl)
     (path_of_text (translate_path (ws_path_map st) (j_source_path (ca_job cl)))) orig d s'"
proof (cases "best_backend_for caps (job_codec (ca_job cl)) (ws_preferred_backend st)")
  case None
  with assms fresh_kept [OF assms(1)] show ?thesis
    by (auto simp: decide_job_def Let_def finish_def truthful_def failed_report_def)
next
  case (Some backend)
  let ?job = "ca_job cl" and ?a = "job_args st worker_id cl backend"
  have src: "path_of_text (translate_path (ws_path_map st) (j_source_path ?job)) = pa_source ?a"
    by (simp add: job_args_def Let_def)
  note fresh = assms(1) [unfolded src]
  from assms(2) obtain r os1 s1 where r: "recover_source_path_waiting (pa_source ?a) worker_id rounds os s = (Done r, os1, s1)"
    and d: "(case r of
               Wait_raised \<Rightarrow> finish Escapes
             | Still_waiting \<Rightarrow> finish Waiting
             | Wait_aborted message \<Rightarrow> finish (failed_report (Declined r) (j_retry_count ?job))
             | Wait_expired owner age \<Rightarrow> finish (failed_report (Declined r) (j_retry_count ?job))
             | Recovered outcome \<Rightarrow>
                 if outcome \<in> {R_attention, R_restore_failed} then finish (failed_report (Declined r) (j_retry_count ?job))
                 else andthen (path_exists (pa_source ?a)) (\<lambda>there.
                   if \<not> there then finish (failed_report Fetch_failed (j_retry_count ?job + 1))
                   else if abort_before \<noteq> None then conclude ?job abort_before (raise_error Cancelled_error)
                   else conclude ?job abort_after (encode_and_commit tls ?a))) os1 s1 = (Done d, os', s')"
    unfolding decide_job_def Let_def Some option.case by (rule andthen_Done)
  from wp_result [OF wp_wait_fresh [OF fresh] r] have s1: "fresh_source (pa_source ?a) orig s1"
    and rr: "r \<in> {Still_waiting, Recovered R_clean, Recovered R_cleaned}" by auto
  then have there: "p_fs s1 (pa_source ?a) \<noteq> None" by (simp add: fresh_source_def)
  have abort: "wp (raise_error Cancelled_error) (committed_as (pa_source ?a) orig (acceptable tls ?a orig) (committed tls orig)) s1"
    using fresh_kept [OF s1] by (intro wp_raise) (simp add: committed_as_def)
  show ?thesis unfolding src
  proof (cases "r = Still_waiting")
    case True
    with d show "\<exists>backend. truthful tls (acceptable tls (job_args st worker_id cl backend) orig) ?job (pa_source ?a) orig d s'"
      by (auto simp: finish_def truthful_def)
  next
    case False
    with rr d there have "(if abort_before \<noteq> None then conclude ?job abort_before (raise_error Cancelled_error)
          else conclude ?job abort_after (encode_and_commit tls ?a)) os1 s1 = (Done d, os', s')"
      by (auto simp: andthen_def path_exists_def asks_def)
    then have "truthful tls (acceptable tls ?a orig) ?job (pa_source ?a) orig d s'"
      using conclude_truthful [OF abort] conclude_truthful [OF wp_encode_and_commit [OF s1]] by (auto split: if_splits)
    then show "\<exists>backend. truthful tls (acceptable tls (job_args st worker_id cl backend) orig) ?job (pa_source ?a) orig d s'"
      by blast
  qed
qed

theorem job_report_is_truthful_witness:
  "\<exists>c os' s' backend. decide_job demo_tools demo_caps demo_settings ''w1'' demo_claim [demo_poll 0] None None [] demo_start
       = (Done (Report ''complete'' (Complete_body c)), os', s') \<and> cr_space_saved c = 4
     \<and> truthful demo_tools (acceptable demo_tools (job_args demo_settings ''w1'' demo_claim backend) (Media ''film'')) (ca_job demo_claim)
         (''/m'', ''a.mkv'') (Media ''film'') (Report ''complete'' (Complete_body c)) s'"
proof -
  obtain c os' s' where d: "decide_job demo_tools demo_caps demo_settings ''w1'' demo_claim [demo_poll 0] None None [] demo_start
     = (Done (Report ''complete'' (Complete_body c)), os', s')" "cr_space_saved c = 4" using demo_decided by blast
  with job_report_is_truthful [OF demo_fresh [folded demo_source] d(1)] show ?thesis unfolding demo_source by blast
qed

section \<open>The report in the journal\<close>

text \<open>
  C19. A decided outcome is never lost. On a working disk the report a processed job ended with is afterwards in the journal, stamped with the claim token of its attempt,
  or the scheduler answered it with success or a final refusal; a cancelled or unanswered request, a
  refused credential and a scheduler that is down only leave it in the journal.
\<close>

theorem job_report_is_durable:
  assumes "\<And>k. wd_disk w k = Works" and "kind \<in> set MILESTONE_KINDS"
    and "process_job tls caps st worker_id cl rounds abort_before abort_after w os s box = (Done (Report kind body), os', s', box')"
    and "report = (j_id (ca_job cl), kind, (ca_claim_token cl, body))"
  shows "(\<exists>name. holds_report name report box') \<or> (\<exists>a. (report, a) \<in> set (sent_since box box') \<and> settles a)"
proof -
  let ?append = "outbox_append w (j_id (ca_job cl)) kind (ca_claim_token cl, body) box"
  from assms(3) have box': "box' = snd (deliver w (ca_claim_token cl) (j_id (ca_job cl)) kind body box)"
    by (auto simp: process_job_def split: prod.splits result.splits job_end.splits)
  obtain e box1 where e: "?append = (Value e, box1)" "journal_name (oe_path e)" "holds_report (oe_path e) report box1"
    "ob_sent box1 = ob_sent box"
    using append_works [OF assms(1,2)] assms(4) by blast
  have "safe w (oe_path e) report box1 (snd (drain_outbox w box1))"
    by (rule drain_safe [OF e(2) safe_start [OF e(3)]])
  moreover have "box' = snd (drain_outbox w box1)"
    unfolding box' deliver_def e(1)
    by (auto simp: catching_def followed_def give_def split: prod.splits ended.splits)
  ultimately have "accounted w (oe_path e) report box1 box'" by (simp add: safe_def)
  moreover have "sent_since box1 box' = sent_since box box'" by (simp add: sent_since_def e(4))
  ultimately show ?thesis using assms(1) by (auto simp: accounted_def)
qed

theorem job_report_is_durable_witness:
  "\<exists>c os' s' box'. process_job demo_tools demo_caps demo_settings ''w1'' demo_claim [demo_poll 0] None None idle_world [] demo_start idle_box
       = (Done (Report ''complete'' (Complete_body c)), os', s', box')
     \<and> ((\<exists>name. holds_report name (''j1'', ''complete'', (Some ''t1'', Complete_body c)) box')
        \<or> (\<exists>a. ((''j1'', ''complete'', (Some ''t1'', Complete_body c)), a) \<in> set (sent_since idle_box box') \<and> settles a))"
proof -
  obtain c os' s' where d: "decide_job demo_tools demo_caps demo_settings ''w1'' demo_claim [demo_poll 0] None None [] demo_start
     = (Done (Report ''complete'' (Complete_body c)), os', s')" using demo_decided by blast
  define box' where "box' = snd (deliver idle_world (ca_claim_token demo_claim) (j_id (ca_job demo_claim)) ''complete'' (Complete_body c) idle_box)"
  have p: "process_job demo_tools demo_caps demo_settings ''w1'' demo_claim [demo_poll 0] None None idle_world [] demo_start idle_box
       = (Done (Report ''complete'' (Complete_body c)), os', s', box')"
    unfolding process_job_def d box'_def by simp
  have w: "wd_disk idle_world k = Works" for k by (simp add: idle_world_def)
  have k: "''complete'' \<in> set MILESTONE_KINDS" by (simp add: MILESTONE_KINDS_def)
  have r: "(''j1'', ''complete'', (Some ''t1'', Complete_body c))
      = (j_id (ca_job demo_claim), ''complete'', (ca_claim_token demo_claim, Complete_body c))"
    by (simp add: demo_claim_def new_job_def)
  from job_report_is_durable [OF w k p r] p show ?thesis by blast
qed

lemma chain_ok: "journal_ok chain_box"
proof -
  have "seq_of ''0000000001-j0-failed.json'' \<noteq> None" "seq_of ''0000000002-j1-register_derivative.json'' \<noteq> None"
    "seq_of ''0000000003-j1-complete.json'' \<noteq> None" by code_simp+
  then show ?thesis by (simp add: journal_ok_def chain_box_def)
qed

lemma chain_pending:
  "map (\<lambda>e. (oe_job e, oe_attempts e, oe_last_attempt_at e)) (pending chain_box) = [(''j0'', 0, 0), (''j1'', 30, 50), (''j1'', 0, 0)]"
  by code_simp

text \<open>
  C31. A parked report with a later report of its job behind it keeps the worker from claiming. On a
  working disk, whatever else the journal holds and the scheduler answers, while the report is parked and
  the later one has not reached the attempt limit the round asks for no job, and both reports are in the
  journal after it as they were before it. So does the next round: the later report is not attempted, so
  it never comes to be parked itself. (Alone, a parked report does not stop claims.)
\<close>

theorem parked_chain_blocks_claims:
  assumes "\<And>k. wd_disk w k = Works" and "journal_ok box" and "pending box = before @ e # mid @ e' # after" and "oe_job e' = oe_job e"
    and "POISON_ATTEMPTS \<le> oe_attempts e" and "\<And>k. wd_time w k - oe_last_attempt_at e < POISON_COOLDOWN_S"
    and "oe_attempts e' < POISON_ATTEMPTS"
  shows "\<exists>box'. job_loop_round tls caps st worker_id answer rounds abort_before abort_after w os s box = (False, os, s, box')
     \<and> e \<in> set (pending box') \<and> e' \<in> set (pending box')"
proof -
  obtain r box' where d: "drain_outbox w box = (r, box')" by (rule prod.exhaust)
  with parked_chain_stays [OF assms(1-6)] have stay: "e \<in> set (pending box')" "e' \<in> set (pending box')" by simp_all
  have "r \<noteq> Value EMPTY" using drain_empty_only_parked [OF assms(1,2) _ stay(2)] d assms(7) by fastforce
  with d have "job_loop_round tls caps st worker_id answer rounds abort_before abort_after w os s box = (False, os, s, box')"
    by (auto simp: job_loop_round_def split: ended.split drain_result.split)
  with stay show ?thesis by blast
qed

theorem parked_chain_blocks_claims_witness:
  "\<exists>box'. job_loop_round demo_tools demo_caps demo_settings ''w1'' (Some demo_claim) [] None None idle_world [] demo_start chain_box
       = (False, [], demo_start, box')
     \<and> map oe_job (filter (\<lambda>e. oe_attempts e = 30) (pending chain_box)) = [''j1'']
     \<and> (\<exists>e \<in> set (pending box'). oe_job e = ''j1'' \<and> oe_attempts e = 30)"
proof -
  have w: "wd_disk idle_world k = Works" for k by (simp add: idle_world_def)
  from chain_pending obtain e0 e e' where p: "pending chain_box = [e0] @ e # [] @ e' # []" by (auto simp: map_eq_Cons_conv)
  with chain_pending have e: "oe_job e' = oe_job e" "POISON_ATTEMPTS \<le> oe_attempts e" "oe_attempts e' < POISON_ATTEMPTS"
    "oe_last_attempt_at e = 50" "oe_job e = ''j1''" "oe_attempts e = 30" by (simp_all add: POISON_ATTEMPTS_def)
  have t: "wd_time idle_world k - oe_last_attempt_at e < POISON_COOLDOWN_S" for k
    by (simp add: idle_world_def e POISON_COOLDOWN_S_def)
  from parked_chain_blocks_claims [OF w chain_ok p e(1,2) t e(3)] obtain box' where
    "job_loop_round demo_tools demo_caps demo_settings ''w1'' (Some demo_claim) [] None None idle_world [] demo_start chain_box
       = (False, [], demo_start, box')" "e \<in> set (pending box')" by blast
  moreover have "map oe_job (filter (\<lambda>e. oe_attempts e = 30) (pending chain_box)) = [''j1'']" by code_simp
  ultimately show ?thesis using e(5,6) by (intro exI [of _ box'] conjI bexI [of _ e])
qed

section \<open>The partition fence\<close>

text \<open>While the fence threshold is not reached, failed heartbeats leave the loop's state alone.\<close>

lemma silent_rounds:
  assumes "\<forall>r \<in> set rs. keeps_job r \<and> \<not> br_answered r \<and> br_time r < hb_last_contact h + fence"
    and "ag_current_job (hb_agent h) \<noteq> None" and "\<not> hb_fenced h"
  shows "let h' = heartbeat_loop fence rs h
    in hb_last_contact h' = hb_last_contact h \<and> \<not> hb_fenced h' \<and> ag_current_job (hb_agent h') \<noteq> None"
  using assms
proof (induction rs arbitrary: h)
  case Nil
  then show ?case by (simp add: Let_def)
next
  case (Cons r rs)
  let ?a = "br_before r (hb_agent h)"
  from Cons.prems have r: "keeps_job r" "\<not> br_answered r" "br_time r < hb_last_contact h + fence" by auto
  with Cons.prems(2) obtain j where j: "ag_current_job ?a = Some j" "ag_current_job (br_during r ?a) \<noteq> None"
    unfolding keeps_job_def by (metis option.exhaust)
  let ?h = "h\<lparr>hb_agent := br_during r ?a, hb_sent := hb_sent h @ [(''busy'', Some j)]\<rparr>"
  have "heartbeat_loop fence (r # rs) h = heartbeat_loop fence rs ?h"
    using r j by (simp add: Let_def beat_failed_def)
  moreover have "let h' = heartbeat_loop fence rs ?h
    in hb_last_contact h' = hb_last_contact ?h \<and> \<not> hb_fenced h' \<and> ag_current_job (hb_agent h') \<noteq> None"
    by (rule Cons.IH) (use Cons.prems j in auto)
  ultimately show ?case by (simp add: Let_def)
qed

lemma heartbeat_append:
  assumes "\<forall>r \<in> set rs. keeps_job r" and "ag_current_job (hb_agent h) \<noteq> None"
  shows "heartbeat_loop fence (rs @ rs') h = heartbeat_loop fence rs' (heartbeat_loop fence rs h)"
  using assms
proof (induction rs arbitrary: h)
  case (Cons r rs)
  let ?a = "br_before r (hb_agent h)"
  from Cons.prems obtain j where j: "ag_current_job ?a = Some j" "ag_current_job (br_during r ?a) \<noteq> None"
    unfolding keeps_job_def by (metis list.set_intros(1) option.exhaust)
  let ?h = "h\<lparr>hb_agent := br_during r ?a, hb_sent := hb_sent h @ [(''busy'', Some j)]\<rparr>"
  let ?h' = "if br_answered r then ?h\<lparr>hb_last_contact := br_time r, hb_fenced := False\<rparr> else beat_failed fence (br_time r) ?h"
  have step: "heartbeat_loop fence (r # xs) h = heartbeat_loop fence xs ?h'" for xs using j by (simp add: Let_def)
  have "ag_current_job (hb_agent ?h') \<noteq> None" using j by (simp add: beat_failed_def Let_def abort_current_job_def)
  with Cons step show ?case by (simp del: heartbeat_loop.simps(2))
qed simp

lemma spaced_bound: "spaced m t (rs @ r # rs') \<Longrightarrow> \<forall>x \<in> set rs. br_time x < b \<Longrightarrow> t \<le> b \<Longrightarrow> br_time r \<le> b + m"
proof (induction rs arbitrary: t)
  case Nil
  then show ?case by (auto intro: order_trans)
next
  case (Cons x rs)
  then show ?case using Cons.IH [of "br_time x"] by simp
qed

text \<open>
  C17. The fence fires before the scheduler requeues the job. Let a job be in flight and every heartbeat
  fail from the last contact on, with successive attempts at most the fence margin apart (the interval
  plus the request timeout), and let the outage reach the threshold. Then the loop has requested the
  abort of the job, and the cancellation of a running pipeline, at a time at most the advertised grace
  after the last contact, and not before the grace less the margin.
\<close>

theorem fence_precedes_requeue:
  assumes "FENCE_MARGIN_SECONDS \<le> grace" and "fence = fence_after_seconds (Some grace)"
    and "\<forall>r \<in> set rounds. keeps_job r \<and> \<not> br_answered r" and "spaced FENCE_MARGIN_SECONDS (hb_last_contact h) rounds"
    and "ag_current_job (hb_agent h) \<noteq> None" and "\<not> hb_fenced h"
    and "\<exists>r \<in> set rounds. hb_last_contact h + fence \<le> br_time r"
  shows "\<exists>before r after. rounds = before @ r # after
    \<and> hb_last_contact h + fence \<le> br_time r \<and> br_time r \<le> hb_last_contact h + grace
    \<and> (let a = hb_agent (heartbeat_loop fence (before @ [r]) h)
       in ag_abort_requested a \<and> (ag_task a \<longrightarrow> ag_cancelled a))"
proof -
  let ?t = "hb_last_contact h"
  obtain before r after where split: "rounds = before @ r # after" "?t + fence \<le> br_time r"
    "\<forall>x \<in> set before. \<not> ?t + fence \<le> br_time x"
    using split_list_first_prop [OF assms(7)] by blast
  have fence: "fence = grace - FENCE_MARGIN_SECONDS" "0 \<le> fence" using assms(1,2) by (simp_all add: fence_after_seconds_def)
  have early: "\<forall>x \<in> set before. br_time x < ?t + fence" using split(3) by (simp add: not_le)
  have "br_time r \<le> ?t + fence + FENCE_MARGIN_SECONDS"
    by (rule spaced_bound [OF assms(4) [unfolded split(1)] early]) (use fence in simp)
  then have late: "br_time r \<le> ?t + grace" using fence by simp
  let ?h = "heartbeat_loop fence before h"
  have h: "hb_last_contact ?h = ?t" "\<not> hb_fenced ?h" "ag_current_job (hb_agent ?h) \<noteq> None"
    using silent_rounds [of before h fence] assms(3,5,6) early split(1) by (auto simp: Let_def)
  have kj: "keeps_job r" "\<not> br_answered r" "\<forall>x \<in> set before. keeps_job x" using assms(3) split(1) by auto
  let ?a = "br_before r (hb_agent ?h)"
  from kj(1) h(3) obtain j where j: "ag_current_job ?a = Some j" "ag_current_job (br_during r ?a) \<noteq> None"
    unfolding keeps_job_def by (metis option.exhaust)
  have "heartbeat_loop fence (before @ [r]) h = heartbeat_loop fence [r] ?h"
    by (rule heartbeat_append) (use kj(3) assms(5) in auto)
  then have "let a = hb_agent (heartbeat_loop fence (before @ [r]) h) in ag_abort_requested a \<and> (ag_task a \<longrightarrow> ag_cancelled a)"
    using h j kj(2) split(2) by (simp add: Let_def beat_failed_def abort_current_job_def le_diff_eq add.commute)
  with split(1,2) late show ?thesis by blast
qed

theorem fence_precedes_requeue_witness:
  "\<exists>before r after. map demo_beat [100, 200, 300, 400, 500] = before @ r # after \<and> br_time r \<le> 600
    \<and> ag_abort_requested (hb_agent (heartbeat_loop 480 (before @ [r]) demo_hearts))"
proof -
  have f: "(480 :: num) = fence_after_seconds (Some 600)" by (simp add: fence_after_seconds_def FENCE_MARGIN_SECONDS_def)
  have m: "FENCE_MARGIN_SECONDS \<le> 600" by (simp add: FENCE_MARGIN_SECONDS_def)
  have k: "\<forall>r \<in> set (map demo_beat [100, 200, 300, 400, 500]). keeps_job r \<and> \<not> br_answered r"
    by (simp add: demo_beat_def keeps_job_def)
  have s: "spaced FENCE_MARGIN_SECONDS (hb_last_contact demo_hearts) (map demo_beat [100, 200, 300, 400, 500])"
    by (simp add: demo_beat_def demo_hearts_def FENCE_MARGIN_SECONDS_def)
  have h: "ag_current_job (hb_agent demo_hearts) \<noteq> None" "\<not> hb_fenced demo_hearts" "hb_last_contact demo_hearts = 0"
    by (simp_all add: demo_hearts_def)
  have e: "\<exists>r \<in> set (map demo_beat [100, 200, 300, 400, 500]). hb_last_contact demo_hearts + 480 \<le> br_time r"
    by (simp add: h demo_beat_def)
  from fence_precedes_requeue [OF m f k s h(1,2) e] show ?thesis unfolding h(3) Let_def by auto
qed

end
