(* ===== verification/Scratch.thy ===== *)
theory Scratch
  imports FileStore
begin

text \<open>
  The scratch space of the S3 backend (\<open>worker/storage/scratch.py\<close>): directories named after a job and
  a random suffix, reserved under a free-space guard and released by a \<open>glob\<close> over the names.

  The scratch root is its listing; the files inside the directories are files of the process. Removing
  a tree may fail half way: \<open>rmtree\<close> says, per directory, what is left. A file system call that reports
  the directory as gone already, or whose \<open>stat\<close> fails, shows as the removal that it amounts to. The
  library's \<open>glob\<close> of one path component is modelled with \<open>*\<close>, \<open>?\<close> and character classes; a name holds
  no slash.
\<close>

section \<open>File name patterns\<close>

datatype glob_part = Any_run | Any_one | One_of bool "(char \<times> char) list" | Literal char

text \<open>The members of a character class: single characters and ranges, read from the left.\<close>

fun class_ranges :: "string \<Rightarrow> (char \<times> char) list" where
  "class_ranges (c # d # e # r) = (if d = CHR ''-'' then (c, e) # class_ranges r else (c, c) # class_ranges (d # e # r))"
| "class_ranges (c # r) = (c, c) # class_ranges r"
| "class_ranges [] = []"

text \<open>The class after an opening bracket and the rest of the pattern; an unclosed bracket opens none.\<close>

definition split_class :: "string \<Rightarrow> (string \<times> string) option" where
  "split_class r =
     (let negation = (if take 1 r = ''!'' then 1 else 0);
          start = (if take 1 (drop negation r) = '']'' then Suc negation else negation)
      in if CHR '']'' \<in> set (drop start r)
         then Some (take start r @ takeWhile (\<lambda>c. c \<noteq> CHR '']'') (drop start r),
                    drop 1 (dropWhile (\<lambda>c. c \<noteq> CHR '']'') (drop start r)))
         else None)"

lemma split_class_shorter: "split_class r = Some (stuff, rest) \<Longrightarrow> length rest < Suc (length r)"
  by (auto simp: split_class_def Let_def split: if_splits)
    (metis diff_le_self le_imp_less_Suc le_trans length_dropWhile_le length_drop)+

definition class_part :: "string \<Rightarrow> glob_part" where
  "class_part stuff = (if take 1 stuff = ''!'' then One_of False (class_ranges (drop 1 stuff)) else One_of True (class_ranges stuff))"

function parse_glob :: "string \<Rightarrow> glob_part list" where
  "parse_glob [] = []"
| "parse_glob (c # r) =
     (if c = CHR ''*'' then Any_run # parse_glob r
      else if c = CHR ''?'' then Any_one # parse_glob r
      else if c = CHR ''['' then
        (case split_class r of None \<Rightarrow> Literal c # parse_glob r | Some (stuff, rest) \<Rightarrow> class_part stuff # parse_glob rest)
      else Literal c # parse_glob r)"
  by pat_completeness auto
termination by (relation "measure length") (auto dest: split_class_shorter)

fun accepts :: "glob_part \<Rightarrow> char \<Rightarrow> bool" where
  "accepts (Literal d) c \<longleftrightarrow> c = d"
| "accepts (One_of wanted ranges) c \<longleftrightarrow>
     list_ex (\<lambda>(a, b). (of_char a :: nat) \<le> of_char c \<and> (of_char c :: nat) \<le> of_char b) ranges = wanted"
| "accepts Any_one c \<longleftrightarrow> True"
| "accepts Any_run c \<longleftrightarrow> True"

primrec parts_match :: "glob_part list \<Rightarrow> string \<Rightarrow> bool" where
  "parts_match [] name \<longleftrightarrow> name = []"
| "parts_match (p # ps) name \<longleftrightarrow>
     (if p = Any_run then list_ex (\<lambda>k. parts_match ps (drop k name)) [0..<Suc (length name)]
      else case name of [] \<Rightarrow> False | c # rest \<Rightarrow> accepts p c \<and> parts_match ps rest)"

definition glob_match :: "string \<Rightarrow> string \<Rightarrow> bool" where
  "glob_match pattern name \<longleftrightarrow> parts_match (parse_glob pattern) name"

section \<open>The scratch space\<close>

definition DISK_MARGIN_BYTES :: int where "DISK_MARGIN_BYTES = 100 * 1024 * 1024"
definition RESERVED_DIRS :: "string list" where "RESERVED_DIRS = [''state'']"

record scratch_entry =
  se_is_dir :: bool
  se_mtime :: time

record scratch =
  sc_entries :: "(string \<times> scratch_entry) list"
  sc_files :: files

datatype rmtree = Removed | Left_over "string \<Rightarrow> bool"

text \<open>\<open>base\<close> is the scratch root as text. A name that is no directory makes \<open>rmtree\<close> fail.\<close>

definition remove_tree :: "string \<Rightarrow> (string \<Rightarrow> rmtree) \<Rightarrow> string \<Rightarrow> scratch \<Rightarrow> scratch" where
  "remove_tree base rm name s =
     (case map_of (sc_entries s) name of
        None \<Rightarrow> s
      | Some e \<Rightarrow>
          if \<not> se_is_dir e then s
          else let dir = base @ ''/'' @ name
            in case rm name of
              Removed \<Rightarrow> \<lparr>sc_entries = filter (\<lambda>(k, _). k \<noteq> name) (sc_entries s),
                 sc_files = (\<lambda>(d, f). if d = dir then None else sc_files s (d, f))\<rparr>
            | Left_over kept \<Rightarrow> s\<lparr>sc_files := (\<lambda>(d, f). if d = dir \<and> \<not> kept f then None else sc_files s (d, f))\<rparr>)"

definition get_free_space :: "int option \<Rightarrow> int" where
  "get_free_space disk_usage = (case disk_usage of Some free \<Rightarrow> free | None \<Rightarrow> 10 * 1024 ^ 3)"

text \<open>\<open>None\<close>: an \<open>OSError\<close>, for want of space or because the directory cannot be made.\<close>

definition reserve ::
  "int option \<Rightarrow> string \<Rightarrow> bool \<Rightarrow> time \<Rightarrow> string \<Rightarrow> int \<Rightarrow> scratch \<Rightarrow> (string \<times> scratch) option"
where
  "reserve disk_usage uuid mkdir_works now job_id size_bytes s =
     (if get_free_space disk_usage < size_bytes + DISK_MARGIN_BYTES then None
      else let name = job_id @ ''_'' @ take 8 uuid
        in case map_of (sc_entries s) name of
          Some e \<Rightarrow> if se_is_dir e then Some (name, s) else None
        | None \<Rightarrow>
            if mkdir_works then Some (name, s\<lparr>sc_entries := (name, \<lparr>se_is_dir = True, se_mtime = now\<rparr>) # sc_entries s\<rparr>)
            else None)"

text \<open>A job id holds no slash (the scheduler makes them), so the pattern is one of names in the root.\<close>

definition release :: "string \<Rightarrow> (string \<Rightarrow> rmtree) \<Rightarrow> string \<Rightarrow> scratch \<Rightarrow> scratch" where
  "release base rm job_id s =
     fold (remove_tree base rm) (filter (glob_match (job_id @ ''_*'')) (map fst (sc_entries s))) s"

definition removable :: "(scratch_entry \<Rightarrow> bool) \<Rightarrow> string \<times> scratch_entry \<Rightarrow> bool" where
  "removable due entry \<longleftrightarrow>
     glob_match ''*_*'' (fst entry) \<and> se_is_dir (snd entry) \<and> fst entry \<notin> set RESERVED_DIRS \<and> due (snd entry)"

definition cleanup_orphans :: "string \<Rightarrow> (string \<Rightarrow> rmtree) \<Rightarrow> time \<Rightarrow> int \<Rightarrow> scratch \<Rightarrow> scratch" where
  "cleanup_orphans base rm now max_age_hours s =
     (let cutoff = now - max_age_hours * 3600 * 1000000
      in fold (remove_tree base rm) (map fst (filter (removable (\<lambda>e. se_mtime e < cutoff)) (sc_entries s))) s)"

definition cleanup_on_shutdown :: "string \<Rightarrow> (string \<Rightarrow> rmtree) \<Rightarrow> scratch \<Rightarrow> scratch" where
  "cleanup_on_shutdown base rm s =
     fold (remove_tree base rm) (map fst (filter (removable (\<lambda>_. True)) (sc_entries s))) s"

section \<open>What a client of the space relies on\<close>

text \<open>
  Reservations and releases under an owner's name. \<open>proper\<close> are the names a release reads literally.
  A client that releases what it reserved under the same name leaves the space as it was; one that
  releases under a name of other directories leaves its reservation.
\<close>

locale workspace =
  fixes dirs_held :: "'s \<Rightarrow> 'n set"
    and of_owner :: "'i \<Rightarrow> 'n set"
    and proper :: "'i \<Rightarrow> bool"
    and reserved :: "'i \<Rightarrow> 's \<Rightarrow> 's \<Rightarrow> bool"
    and released :: "'i \<Rightarrow> 's \<Rightarrow> 's"
  assumes reserved_held: "reserved i s s' \<Longrightarrow> \<exists>n \<in> of_owner i. dirs_held s' = insert n (dirs_held s)"
    and released_held: "proper i \<Longrightarrow> dirs_held (released i s) = dirs_held s - of_owner i"
begin

lemma give_back:
  assumes "proper i" and "dirs_held s \<inter> of_owner i = {}" and "reserved i s s'"
  shows "dirs_held (released i s') = dirs_held s"
  using reserved_held [OF assms(3)] released_held [OF assms(1)] assms(2) by auto

lemma wrong_name_keeps:
  assumes "proper j" and "of_owner i \<inter> of_owner j = {}" and "reserved i s s'"
  shows "\<exists>n \<in> of_owner i. n \<in> dirs_held (released j s')"
  using reserved_held [OF assms(3)] released_held [OF assms(1)] assms(2) by auto

end

section \<open>Which names a pattern takes\<close>

definition literal_name :: "string \<Rightarrow> bool" where
  "literal_name i \<longleftrightarrow> set i \<inter> {CHR ''*'', CHR ''?'', CHR ''[''} = {}"

lemma parse_literal: "literal_name i \<Longrightarrow> parse_glob (i @ r) = map Literal i @ parse_glob r"
  by (induction i) (auto simp: literal_name_def)

lemma parts_literal: "parts_match (map Literal i @ ps) name \<longleftrightarrow> (\<exists>r. name = i @ r \<and> parts_match ps r)"
  by (induction i arbitrary: name) (auto split: list.splits)

lemma parts_any [simp]: "parts_match [Any_run] name"
  by (auto simp: list_ex_iff intro!: bexI [of _ "length name"])

lemma glob_literal_prefix:
  assumes "literal_name i"
  shows "glob_match (i @ ''_*'') name \<longleftrightarrow> (\<exists>u. name = i @ ''_'' @ u)"
proof -
  have "parse_glob (i @ ''_*'') = map Literal (i @ ''_'') @ [Any_run]" using parse_literal [OF assms, of "''_*''"] by simp
  then show ?thesis unfolding glob_match_def by (simp only: parts_literal parts_any simp_thms append_assoc)
qed

lemma parts_need:
  assumes "parts_match ps name" and "Literal c \<in> set ps"
  shows "c \<in> set name"
  using assms
proof (induction ps arbitrary: name)
  case (Cons p ps)
  show ?case
  proof (cases "p = Any_run")
    case True
    with Cons.prems obtain k where k: "parts_match ps (drop k name)" "Literal c \<in> set ps" by (auto simp: list_ex_iff simp del: upt_Suc)
    from Cons.IH [OF k] show ?thesis by (rule in_set_dropD)
  next
    case False
    with Cons.prems obtain d rest where "name = d # rest" "accepts p d" "parts_match ps rest" by (auto split: list.splits)
    with Cons show ?thesis by auto
  qed
qed simp

lemma split_class_cases:
  assumes "split_class r = Some (stuff, rest)"
    and "n = (if take 1 r = ''!'' then 1 else 0)" and "k = (if take 1 (drop n r) = '']'' then Suc n else n)"
  shows "CHR '']'' \<in> set (drop k r)" and "rest = drop 1 (dropWhile (\<lambda>c. c \<noteq> CHR '']'') (drop k r))"
  using assms(1) unfolding split_class_def Let_def assms(2) [symmetric] assms(3) [symmetric]
  by (simp_all split: if_splits)

lemma after_first:
  assumes "c \<in> set xs"
  shows "\<exists>r'. drop 1 (dropWhile (\<lambda>d. d \<noteq> c) (xs @ t)) = r' @ t \<and> length r' < length xs"
  using assms by (induction xs) (auto intro: less_SucI)

lemma split_class_append:
  assumes "split_class (r @ ''_*'') = Some (stuff, rest)"
  shows "\<exists>r'. rest = r' @ ''_*'' \<and> length r' < Suc (length r)"
proof -
  define t where "t = ''_*''"
  define n :: nat where "n = (if take 1 (r @ t) = ''!'' then 1 else 0)"
  define k where "k = (if take 1 (drop n (r @ t)) = '']'' then Suc n else n)"
  note facts = split_class_cases [OF assms [folded t_def] n_def k_def]
  have "k \<le> length r" by (cases r; cases "tl r") (auto simp: k_def n_def t_def take_Cons')
  then have d: "drop k (r @ t) = drop k r @ t" by simp
  have "CHR '']'' \<in> set (drop k r)" using facts(1) unfolding d by (simp add: t_def)
  from after_first [OF this, of t] obtain r' where "rest = r' @ t" "length r' < length (drop k r)"
    using facts(2) unfolding d by auto
  then show ?thesis unfolding t_def by auto
qed

lemma parse_underscore: "Literal (CHR ''_'') \<in> set (parse_glob (i @ ''_*''))"
proof (induction "length i" arbitrary: i rule: less_induct)
  case less
  show ?case
  proof (cases i)
    case (Cons c r)
    have r: "Literal (CHR ''_'') \<in> set (parse_glob (r @ ''_*''))" by (rule less) (simp add: Cons)
    show ?thesis
    proof (cases "split_class (r @ ''_*'')")
      case None
      with r show ?thesis by (simp add: Cons)
    next
      case (Some p)
      then obtain stuff rest where p: "split_class (r @ ''_*'') = Some (stuff, rest)" by (cases p) simp
      from split_class_append [OF p] obtain r' where r': "rest = r' @ ''_*''" "length r' < Suc (length r)" by blast
      have "Literal (CHR ''_'') \<in> set (parse_glob rest)" unfolding r'(1) by (rule less) (simp add: Cons r')
      with r p show ?thesis by (simp add: Cons)
    qed
  qed simp
qed

lemma released_names_marked: "glob_match (i @ ''_*'') name \<Longrightarrow> CHR ''_'' \<in> set name"
  unfolding glob_match_def by (rule parts_need [OF _ parse_underscore])

lemma marked_names: "glob_match ''*_*'' name \<longleftrightarrow> CHR ''_'' \<in> set name"
proof -
  have "parts_match [Literal (CHR ''_''), Any_run] n \<longleftrightarrow> take 1 n = ''_''" for n by (cases n) (auto simp: list_ex_iff)
  moreover have "parse_glob ''*_*'' = [Any_run, Literal (CHR ''_''), Any_run]" by code_simp
  moreover have "(\<exists>k < Suc (length name). take 1 (drop k name) = ''_'') \<longleftrightarrow> CHR ''_'' \<in> set name"
    by (auto simp: in_set_conv_nth take_Suc_conv_app_nth less_Suc_eq)
  ultimately show ?thesis 
    by (simp add: glob_match_def list_ex_iff atLeast0LessThan lessThan_iff Bex_def del: upt_Suc)
qed

section \<open>What the operations leave\<close>

definition dirs_held :: "scratch \<Rightarrow> string set" where
  "dirs_held s = {n. \<exists>e. map_of (sc_entries s) n = Some e \<and> se_is_dir e}"

definition owned_by :: "string \<Rightarrow> string set" where
  "owned_by i = {i @ ''_'' @ u | u. True}"

text \<open>A reservation, and whatever files its owner has put there since.\<close>

definition reserved :: "string \<Rightarrow> scratch \<Rightarrow> scratch \<Rightarrow> bool" where
  "reserved i s s' \<longleftrightarrow> (\<exists>disk_usage uuid works now size_bytes name sc.
     reserve disk_usage uuid works now i size_bytes s = Some (name, sc) \<and> sc_entries s' = sc_entries sc)"

text \<open>The entry of a name and the files in its directory are as they were.\<close>

definition untouched :: "string \<Rightarrow> string \<Rightarrow> scratch \<Rightarrow> scratch \<Rightarrow> bool" where
  "untouched base name s s' \<longleftrightarrow> map_of (sc_entries s') name = map_of (sc_entries s) name
     \<and> (\<forall>f. sc_files s' (base @ ''/'' @ name, f) = sc_files s (base @ ''/'' @ name, f))"

lemma untouched_refl [simp]: "untouched base name s s"
  by (simp add: untouched_def)

lemma map_of_without [simp]: "map_of (filter (\<lambda>(k, _). k \<noteq> name) xs) m = (if m = name then None else map_of xs m)"
  by (induction xs) auto

lemma remove_tree_other: "m \<noteq> name \<Longrightarrow> untouched base m s (remove_tree base rm name s)"
  by (auto simp: untouched_def remove_tree_def Let_def split: option.splits rmtree.splits)

lemma removals_other: "m \<notin> set ns \<Longrightarrow> untouched base m s (fold (remove_tree base rm) ns s)"
proof (induction ns arbitrary: s)
  case (Cons n ns)
  from Cons.prems have "untouched base m s (remove_tree base rm n s)"
    "untouched base m (remove_tree base rm n s) (fold (remove_tree base rm) ns (remove_tree base rm n s))"
    by (auto intro: remove_tree_other Cons.IH)
  then show ?case by (simp add: untouched_def)
qed simp

lemma remove_tree_held: "rm name = Removed \<Longrightarrow> dirs_held (remove_tree base rm name s) = dirs_held s - {name}"
  by (auto simp: dirs_held_def remove_tree_def Let_def split: option.splits)

lemma removals_held: "\<forall>n \<in> set ns. rm n = Removed \<Longrightarrow> dirs_held (fold (remove_tree base rm) ns s) = dirs_held s - set ns"
  by (induction ns arbitrary: s) (auto simp: remove_tree_held)

lemma held_entries: "n \<in> dirs_held s \<Longrightarrow> \<exists>e. (n, e) \<in> set (sc_entries s) \<and> se_is_dir e"
  by (auto simp: dirs_held_def dest: map_of_SomeD)

lemma release_held:
  "dirs_held (release base (\<lambda>_. Removed) i s) = dirs_held s - {n. glob_match (i @ ''_*'') n}"
proof -
  have "n \<in> fst ` set (sc_entries s)" if "n \<in> dirs_held s" for n using held_entries [OF that] by force
  then show ?thesis unfolding release_def by (subst removals_held) auto
qed

lemma reserve_shape:
  assumes "reserve disk_usage uuid works now i size_bytes s = Some (name, s')"
  shows "name = i @ ''_'' @ take 8 uuid" "dirs_held s' = insert name (dirs_held s)" "sc_files s' = sc_files s"
    "m \<noteq> name \<Longrightarrow> map_of (sc_entries s') m = map_of (sc_entries s) m"
  using assms by (auto simp: reserve_def Let_def dirs_held_def split: if_splits option.splits)

interpretation space: workspace dirs_held owned_by literal_name reserved "release base (\<lambda>_. Removed)" for base
proof unfold_locales
  show "reserved i s s' \<Longrightarrow> \<exists>n \<in> owned_by i. dirs_held s' = insert n (dirs_held s)" for i s s'
    unfolding reserved_def owned_by_def dirs_held_def [of s'] using reserve_shape(1,2) by (fastforce simp: dirs_held_def)
  show "literal_name i \<Longrightarrow> dirs_held (release base (\<lambda>_. Removed) i s) = dirs_held s - owned_by i" for i s
    by (auto simp: release_held glob_literal_prefix owned_by_def)
qed

text \<open>Shutdown, when every removal works: the directories of jobs are gone, the others are there.\<close>

lemma shutdown_held: "dirs_held (cleanup_on_shutdown base (\<lambda>_. Removed) s) = {n \<in> dirs_held s. CHR ''_'' \<notin> set n}"
proof -
  have "n \<in> set (map fst (filter (removable (\<lambda>_. True)) (sc_entries s))) \<longleftrightarrow> CHR ''_'' \<in> set n" if "n \<in> dirs_held s" for n
    using held_entries [OF that] by (force simp: removable_def marked_names RESERVED_DIRS_def)
  then show ?thesis unfolding cleanup_on_shutdown_def by (subst removals_held) auto
qed

text \<open>
  C33. The journal's directory outlives the scratch space. Whatever job ids (without a slash) are reserved and
  released, with pattern characters in them or not, and whatever of the removals fails: neither a reservation, nor
  a release, nor the removal of orphans, nor the cleanup at shutdown changes the entry \<open>state\<close> of the
  scratch root or a file in it.
\<close>

theorem outbox_directory_survives:
  "untouched base ''state'' s (release base rm i s)
   \<and> untouched base ''state'' s (cleanup_orphans base rm now max_age_hours s)
   \<and> untouched base ''state'' s (cleanup_on_shutdown base rm s)
   \<and> (case reserve disk_usage uuid works now i size_bytes s of None \<Rightarrow> True | Some (name, s') \<Rightarrow> untouched base ''state'' s s')"
proof -
  have m: "CHR ''_'' \<notin> set ''state''" by simp
  have "untouched base ''state'' s s'" if "reserve disk_usage uuid works now i size_bytes s = Some (name, s')" for name s'
  proof -
    have "CHR ''_'' \<in> set name" unfolding reserve_shape(1) [OF that] by simp
    with m have "''state'' \<noteq> name" by blast
    from reserve_shape(3,4) [OF that] this show ?thesis by (simp add: untouched_def)
  qed
  moreover have "untouched base ''state'' s (release base rm i s)"
    unfolding release_def by (rule removals_other) (use m released_names_marked [of i "''state''"] in auto)
  moreover have "untouched base ''state'' s (cleanup_orphans base rm now max_age_hours s)"
    unfolding cleanup_orphans_def Let_def
    by (rule removals_other) (auto simp: removable_def RESERVED_DIRS_def)
  moreover have "untouched base ''state'' s (cleanup_on_shutdown base rm s)"
    unfolding cleanup_on_shutdown_def
    by (rule removals_other) (auto simp: removable_def RESERVED_DIRS_def)
  ultimately show ?thesis by (auto split: option.split)
qed

end
