(* ===== verification/S3Store.thy ===== *)
theory S3Store
  imports Agent Scratch
begin

text \<open>
  Jobs of an S3 library: the backend (\<open>worker/storage/s3.py\<close>) and the S3 branches of the agent
  (\<open>worker/http_agent.py\<close>): the derivative key, the dedup check, the fetch of the master into scratch
  space, the pipeline on the local copy, the upload, and the two reports.

  A node is the worker process with its files, the entries of the scratch root and the bucket, as one
  worker sees them during one job. The store, the scheduler's dedup answer and the scratch file system
  are parameters (\<open>answers\<close>). A failed upload may or may not have stored the object. A report is what
  is given to the journal; \<open>Outbox\<close> says how it is delivered. The modification time of a
  directory is the time it was made.
\<close>

section \<open>Keys\<close>

text \<open>\<open>Path(name).suffix.lstrip(".")\<close>.\<close>

definition key_extension :: "path \<Rightarrow> string" where
  "key_extension p = dropWhile (\<lambda>c. c = CHR ''.'') (path_suffix (snd p))"

text \<open>
  The key the agent asks for and registers. A job row has no audio codecs: the source's counts as empty
  and the target's as \<open>copy\<close>.
\<close>

definition derivative_key_for :: "(string \<Rightarrow> string) \<Rightarrow> (num \<Rightarrow> string) \<Rightarrow> job \<Rightarrow> path \<Rightarrow> string" where
  "derivative_key_for blake2b fmt_g job local_output =
     compute_derivative_key blake2b fmt_g (j_source_path job)
       (Some (case j_source_resolution job of None \<Rightarrow> [] | Some r \<Rightarrow> r)) (Some [])
       (target_resolution_for (j_target_height job) (j_source_resolution job)) ''copy'' (job_codec job)
       (j_target_vmaf job) None None None (key_extension local_output)"

text \<open>
  The key \<open>commit\<close> uploads under. \<open>_get_field\<close> takes a falsy value for a missing one, and a job row has
  no \<open>target_resolution\<close>, which falls back to the source's.
\<close>

definition upload_key :: "(string \<Rightarrow> string) \<Rightarrow> (num \<Rightarrow> string) \<Rightarrow> job \<Rightarrow> path \<Rightarrow> string" where
  "upload_key blake2b fmt_g job local_output =
     (let source_resolution = (case j_source_resolution job of None \<Rightarrow> [] | Some r \<Rightarrow> r);
          target_vmaf = (if j_target_vmaf job = Some 0 then None else j_target_vmaf job)
      in compute_derivative_key blake2b fmt_g (j_source_path job) (Some source_resolution) (Some [])
           source_resolution ''copy'' (job_codec job) target_vmaf None None None (key_extension local_output))"

section \<open>The node and what answers it\<close>

record node =
  nd_process :: process
  nd_entries :: "(string \<times> scratch_entry) list"
  nd_bucket :: "string \<Rightarrow> content option"

definition scratch_of :: "node \<Rightarrow> scratch" where
  "scratch_of n = \<lparr>sc_entries = nd_entries n, sc_files = p_fs (nd_process n)\<rparr>"

definition with_scratch :: "scratch \<Rightarrow> node \<Rightarrow> node" where
  "with_scratch sc n = n\<lparr>nd_entries := sc_entries sc, nd_process := (nd_process n)\<lparr>p_fs := sc_files sc\<rparr>\<rparr>"

definition put_local :: "path \<Rightarrow> content option \<Rightarrow> node \<Rightarrow> node" where
  "put_local p c n = n\<lparr>nd_process := (nd_process n)\<lparr>p_fs := (p_fs (nd_process n))(p := c)\<rparr>\<rparr>"

text \<open>\<open>Client_failure\<close> is a \<open>ClientError\<close> or \<open>BotoCoreError\<close>; any other exception is an \<open>Other_failure\<close>.\<close>

datatype s3_failure = Client_failure | Other_failure

text \<open>The dedup answer to a key: a derivative with its size, none, no answer, or an exception that is neither an
  HTTP nor an OS error.\<close>

datatype dedup_answer = Reuse int | No_reuse | Dedup_unanswered | Dedup_raises

datatype upload = Uploaded | Upload_failed bool

record answers =
  an_dedup :: "string \<Rightarrow> dedup_answer"
  an_head :: "s3_failure + int option"
  an_free :: "int option"
  an_uuid :: string
  an_mkdir :: bool
  an_now :: time
  an_download :: "s3_failure option"
  an_partial :: "content option"
  an_upload :: upload
  an_rmtree :: "string \<Rightarrow> rmtree"

section \<open>The backend\<close>

definition fetch_job_id :: "string \<Rightarrow> string" where
  "fetch_job_id source = ''s3-fetch-'' @ map (\<lambda>c. if c = CHR ''/'' then CHR ''-'' else c) source"

text \<open>\<open>None\<close>: an exception leaves \<open>fetch\<close>. The scratch space is given back when the store refuses.\<close>

definition fetch :: "string \<Rightarrow> answers \<Rightarrow> string \<Rightarrow> node \<Rightarrow> path option \<times> node" where
  "fetch base an source n =
     (case an_head an of
        Inl _ \<Rightarrow> (None, n)
      | Inr content_length \<Rightarrow>
          let object_size = (case content_length of None \<Rightarrow> 100 * 1024 ^ 3 | Some b \<Rightarrow> b)
          in case reserve (an_free an) (an_uuid an) (an_mkdir an) (an_now an) (fetch_job_id source) object_size (scratch_of n) of
            None \<Rightarrow> (None, n)
          | Some (name, sc) \<Rightarrow>
              let local_path = (base @ ''/'' @ name, snd (path_of_text source));
                  n1 = with_scratch sc n;
                  given_back = (\<lambda>m. with_scratch (release base (an_rmtree an) (fetch_job_id source) (scratch_of m)) m)
              in case an_download an of
                Some Other_failure \<Rightarrow> (None, put_local local_path (an_partial an) n1)
              | Some Client_failure \<Rightarrow> (None, given_back (put_local local_path (an_partial an) n1))
              | None \<Rightarrow>
                  (case nd_bucket n source of
                     None \<Rightarrow> (None, given_back (put_local local_path (an_partial an) n1))
                   | Some master \<Rightarrow> (Some local_path, put_local local_path (Some master) n1)))"

definition cleanup :: "string \<Rightarrow> answers \<Rightarrow> job \<Rightarrow> node \<Rightarrow> node" where
  "cleanup base an job n = with_scratch (release base (an_rmtree an) (j_id job) (scratch_of n)) n"

text \<open>The size of the output, or \<open>None\<close> when the upload raised.\<close>

definition commit_output ::
  "(string \<Rightarrow> string) \<Rightarrow> (num \<Rightarrow> string) \<Rightarrow> tools \<Rightarrow> string \<Rightarrow> answers \<Rightarrow> job \<Rightarrow> path \<Rightarrow> node \<Rightarrow> int option \<times> node"
where
  "commit_output blake2b fmt_g tls base an job local_output n =
     (case p_fs (nd_process n) local_output of
        None \<Rightarrow> (None, n)
      | Some e \<Rightarrow>
          let stored = n\<lparr>nd_bucket := (nd_bucket n)(upload_key blake2b fmt_g job local_output \<mapsto> e)\<rparr>
          in case an_upload an of
            Upload_failed there \<Rightarrow> (None, if there then stored else n)
          | Uploaded \<Rightarrow> (Some (tl_size tls e),
              with_scratch (release base (an_rmtree an) (j_id job) (scratch_of stored)) stored))"

section \<open>The agent's S3 branches\<close>

datatype s3_body =
    Register_body string int "num option" int string
  | Dedup_body int int
  | Outcome report_body

datatype s3_ending = Returns | Leaves | Dies

definition outcome_of :: "job_end \<Rightarrow> (string \<times> s3_body) list \<times> s3_ending" where
  "outcome_of e = (case e of Report kind body \<Rightarrow> ([(kind, Outcome body)], Returns) | _ \<Rightarrow> ([], Leaves))"

definition s3_args :: "worker_settings \<Rightarrow> string \<Rightarrow> claim_answer \<Rightarrow> string \<Rightarrow> path \<Rightarrow> pipeline_args" where
  "s3_args st worker_id cl backend local_path = (job_args st worker_id cl backend)\<lparr>pa_source := local_path\<rparr>"

text \<open>The report pair of a success: the registration first.\<close>

definition success_reports ::
  "(string \<Rightarrow> string) \<Rightarrow> (num \<Rightarrow> string) \<Rightarrow> job \<Rightarrow> path \<Rightarrow> pipeline_result \<Rightarrow> int \<Rightarrow> (string \<times> s3_body) list"
where
  "success_reports blake2b fmt_g job local_path res output_size =
     [(''register_derivative'', Register_body (derivative_key_for blake2b fmt_g job local_path) output_size
        (rp_vmaf_mean res) (rp_resolved_crf res) (rp_backend res)),
      (''complete'', Outcome (Complete_body \<lparr>cr_output_size = output_size, cr_space_saved = 0,
        cr_source_size = rp_source_size res, cr_achieved_vmaf = rp_vmaf_mean res, cr_achieved_vmaf_perc5 = rp_vmaf_perc5 res,
        cr_predicted_vmaf_mean = rp_predicted_mean res, cr_predicted_vmaf_perc5 = rp_predicted_perc5 res,
        cr_resolved_crf = rp_resolved_crf res, cr_backend_used = rp_backend res\<rparr>))]"

definition encode_and_upload ::
  "(string \<Rightarrow> string) \<Rightarrow> (num \<Rightarrow> string) \<Rightarrow> tools \<Rightarrow> string \<Rightarrow> answers \<Rightarrow> job \<Rightarrow> string option \<Rightarrow> pipeline_args
   \<Rightarrow> fault list \<Rightarrow> node \<Rightarrow> ((string \<times> s3_body) list \<times> s3_ending) \<times> node"
where
  "encode_and_upload blake2b fmt_g tls base an job abort a os n =
     (case run_pipeline tls a os (nd_process n) of
        (Crashed, _, p) \<Rightarrow> (([], Dies), n\<lparr>nd_process := p\<rparr>)
      | (Raised e, _, p) \<Rightarrow> (outcome_of (exception_report job abort e), cleanup base an job (n\<lparr>nd_process := p\<rparr>))
      | (OSError, _, p) \<Rightarrow>
          (outcome_of (failed_report Unexpected (j_retry_count job + 1)), cleanup base an job (n\<lparr>nd_process := p\<rparr>))
      | (Done res, _, p) \<Rightarrow>
          (case commit_output blake2b fmt_g tls base an job (pa_source a) (n\<lparr>nd_process := p\<rparr>) of
             (None, n1) \<Rightarrow> (outcome_of (failed_report Unexpected (j_retry_count job + 1)), cleanup base an job n1)
           | (Some output_size, n1) \<Rightarrow>
               ((success_reports blake2b fmt_g job (pa_source a) res output_size, Returns), cleanup base an job n1)))"

definition decide_s3_job ::
  "(string \<Rightarrow> string) \<Rightarrow> (num \<Rightarrow> string) \<Rightarrow> tools \<Rightarrow> hardware_capabilities \<Rightarrow> worker_settings \<Rightarrow> string \<Rightarrow> string
   \<Rightarrow> answers \<Rightarrow> claim_answer \<Rightarrow> string \<Rightarrow> string option \<Rightarrow> string option \<Rightarrow> fault list \<Rightarrow> node
   \<Rightarrow> ((string \<times> s3_body) list \<times> s3_ending) \<times> node"
where
  "decide_s3_job blake2b fmt_g tls caps st worker_id base an cl s3_bucket abort_before abort_after os n =
     (let job = ca_job cl
      in case best_backend_for caps (job_codec job) (ws_preferred_backend st) of
        None \<Rightarrow> (outcome_of (failed_report (No_backend (job_codec job)) (j_retry_count job + 1)), n)
      | Some backend \<Rightarrow>
          if s3_bucket = [] then (([], Leaves), n)
          else case an_dedup an (derivative_key_for blake2b fmt_g job (path_of_text (j_source_path job))) of
            Dedup_raises \<Rightarrow> (([], Leaves), n)
          | Reuse output_size \<Rightarrow>
              (([(''complete'', Dedup_body output_size (case j_source_size job of None \<Rightarrow> 0 | Some b \<Rightarrow> b))], Returns),
               cleanup base an job n)
          | _ \<Rightarrow>
              (case fetch base an (j_source_path job) n of
                 (None, n1) \<Rightarrow> (outcome_of (failed_report Fetch_failed (j_retry_count job + 1)), n1)
               | (Some local_path, n1) \<Rightarrow>
                   if abort_before \<noteq> None
                   then (outcome_of (exception_report job abort_before Cancelled_error), cleanup base an job n1)
                   else encode_and_upload blake2b fmt_g tls base an job abort_after
                          (s3_args st worker_id cl backend local_path) os n1))"

definition fetch_dir :: "string \<Rightarrow> answers \<Rightarrow> string \<Rightarrow> string" where
  "fetch_dir base an source = base @ ''/'' @ fetch_job_id source @ ''_'' @ take 8 (an_uuid an)"

text \<open>A small instance: a full-resolution job and a bucket that works.\<close>

definition demo_s3_claim :: claim_answer where
  "demo_s3_claim = demo_claim\<lparr>ca_job := (ca_job demo_claim)\<lparr>j_source_path := ''masters/a.mkv'', j_source_resolution := Some ''1080p''\<rparr>\<rparr>"

definition demo_answers :: answers where
  "demo_answers = \<lparr>an_dedup = (\<lambda>_. No_reuse), an_head = Inr (Some 9), an_free = Some 1000000000, an_uuid = ''0a1b2c3d-4e5f'',
     an_mkdir = True, an_now = 0, an_download = None, an_partial = None, an_upload = Uploaded, an_rmtree = (\<lambda>_. Removed)\<rparr>"

definition demo_node :: node where
  "demo_node = \<lparr>nd_process = demo_start\<lparr>p_fs := (\<lambda>_. None)\<rparr>, nd_entries = [(''state'', \<lparr>se_is_dir = True, se_mtime = 0\<rparr>)],
     nd_bucket = [''masters/a.mkv'' \<mapsto> Media ''film'']\<rparr>"

definition demo_s3_job :: "((string \<times> s3_body) list \<times> s3_ending) \<times> node" where
  "demo_s3_job = decide_s3_job (\<lambda>h. h) (\<lambda>_. ''95'') demo_tools demo_caps demo_settings ''w1'' ''/scratch'' demo_answers
     demo_s3_claim ''films'' None None [] demo_node"

definition demo_downscale :: job where
  "demo_downscale = (ca_job demo_s3_claim)\<lparr>j_target_height := Some 720\<rparr>"

section \<open>The keys\<close>

text \<open>
  C28. The key an object is uploaded under is the key that is registered for it, whatever the digest
  does, exactly for the jobs that keep the height of the source or ask for the very height its
  resolution names. A downscale job registers a key its object is not stored under, and stores the
  object under the key of the full-resolution derivative.
\<close>

theorem upload_key_is_registered_key_unless_downscaled:
  assumes "j_target_vmaf job \<noteq> Some 0"
  shows "(\<forall>blake2b. upload_key blake2b fmt_g job p = derivative_key_for blake2b fmt_g job p)
     \<longleftrightarrow> target_resolution_for (j_target_height job) (j_source_resolution job)
         = (case j_source_resolution job of None \<Rightarrow> [] | Some r \<Rightarrow> r)" (is "?same \<longleftrightarrow> ?t = ?r")
proof
  assume ?same
  then have "upload_key (\<lambda>h. h) fmt_g job p = derivative_key_for (\<lambda>h. h) fmt_g job p" by blast
  with assms show "?t = ?r"
    by (simp add: upload_key_def derivative_key_for_def compute_derivative_key_def derivative_hash_input_def Let_def)
next
  assume "?t = ?r"
  with assms show ?same by (simp add: upload_key_def derivative_key_for_def Let_def)
qed

theorem upload_key_is_registered_key_unless_downscaled_witness:
  "\<exists>blake2b. upload_key blake2b (\<lambda>_. ''95'') demo_downscale (''/s'', ''a.mkv'')
     \<noteq> derivative_key_for blake2b (\<lambda>_. ''95'') demo_downscale (''/s'', ''a.mkv'')"
proof -
  have v: "j_target_vmaf demo_downscale \<noteq> Some 0"
    by (simp add: demo_downscale_def demo_s3_claim_def demo_claim_def new_job_def)
  have "\<not> target_resolution_for (j_target_height demo_downscale) (j_source_resolution demo_downscale)
      = (case j_source_resolution demo_downscale of None \<Rightarrow> [] | Some r \<Rightarrow> r)" by code_simp
  with upload_key_is_registered_key_unless_downscaled [OF v, of "\<lambda>_. ''95''" "(''/s'', ''a.mkv'')"] show ?thesis by blast
qed

section \<open>The fetch\<close>

lemma node_of_scratch [simp]: "scratch_of (with_scratch sc n) = sc" "nd_bucket (with_scratch sc n) = nd_bucket n"
  "with_scratch (scratch_of n) n = n"
  by (simp_all add: scratch_of_def with_scratch_def)

lemma scratch_held [simp]: "dirs_held (scratch_of (put_local p c n)) = dirs_held (scratch_of n)"
  "dirs_held (scratch_of (n\<lparr>nd_process := q\<rparr>)) = dirs_held (scratch_of n)" "dirs_held (scratch_of (n\<lparr>nd_bucket := b\<rparr>)) = dirs_held (scratch_of n)"
  by (simp_all add: scratch_of_def put_local_def dirs_held_def)

lemma put_bucket [simp]: "nd_bucket (put_local p c n) = nd_bucket n"
  by (simp add: put_local_def)

text \<open>What a successful fetch has done.\<close>

lemma fetch_done:
  assumes "fetch base an source n = (Some p, n1)"
  obtains name sc master where
    "reserve (an_free an) (an_uuid an) (an_mkdir an) (an_now an) (fetch_job_id source)
       (case projr (an_head an) of None \<Rightarrow> 100 * 1024 ^ 3 | Some b \<Rightarrow> b) (scratch_of n) = Some (name, sc)"
    "p = (base @ ''/'' @ name, snd (path_of_text source))" "nd_bucket n source = Some master"
    "n1 = put_local p (Some master) (with_scratch sc n)"
  using assms
  by (auto simp: fetch_def Let_def split: sum.splits option.splits prod.splits s3_failure.splits)

lemma fetch_bucket: "nd_bucket (snd (fetch base an source n)) = nd_bucket n"
  by (auto simp: fetch_def Let_def split: sum.splits option.splits prod.splits s3_failure.splits)

lemma fetch_id_literal: "literal_name source \<Longrightarrow> literal_name (fetch_job_id source)"
  by (auto simp: literal_name_def fetch_job_id_def split: if_splits)

text \<open>
  A fetch that the store refuses gives its space back, when the key holds no pattern character: the
  job fails, and the scratch root holds the directories it held before. (For a key such as
  \<open>film [1080p].mkv\<close> the release reads the brackets as a character class and finds nothing.)
\<close>

lemma refused_fetch_gives_space_back:
  assumes "literal_name source" and "an_rmtree an = (\<lambda>_. Removed)" and "an_download an \<noteq> Some Other_failure"
    and "dirs_held (scratch_of n) \<inter> owned_by (fetch_job_id source) = {}"
    and "fetch base an source n = (None, n1)"
  shows "dirs_held (scratch_of n1) = dirs_held (scratch_of n) \<and> nd_bucket n1 = nd_bucket n"
proof -
  have undone: "dirs_held (release base (\<lambda>_. Removed) (fetch_job_id source) (scratch_of (put_local p c (with_scratch sc n)))) = dirs_held (scratch_of n)"
    if "reserve (an_free an) (an_uuid an) (an_mkdir an) (an_now an) (fetch_job_id source) b (scratch_of n) = Some (name, sc)"
    for p c sc b name
  proof (rule space.give_back [OF fetch_id_literal [OF assms(1)] assms(4)])
    show "reserved (fetch_job_id source) (scratch_of n) (scratch_of (put_local p c (with_scratch sc n)))"
      unfolding reserved_def using that by (intro exI conjI) (auto simp: scratch_of_def put_local_def with_scratch_def)
  qed
  show ?thesis
    using assms(2,3,5) undone
    by (auto simp: fetch_def Let_def split: sum.splits option.splits prod.splits s3_failure.splits)
qed

text \<open>A key with brackets: the directory its fetch reserved is none the release finds.\<close>

lemma bracketed_key_is_not_released:
  "\<not> glob_match (fetch_job_id ''film [1080p].mkv'' @ ''_*'') (fetch_job_id ''film [1080p].mkv'' @ ''_0a1b2c3d'')"
  by code_simp

section \<open>The scratch space after a job\<close>

lemma cleanup_bucket [simp]: "nd_bucket (cleanup base an job n) = nd_bucket n"
  by (simp add: cleanup_def)

lemma other_owner_stays:
  assumes "literal_name i" and "\<not> prefix (i @ ''_'') name" and "name \<in> dirs_held s"
  shows "name \<in> dirs_held (release base rm i s)"
proof -
  have "name \<notin> set (filter (glob_match (i @ ''_*'')) (map fst (sc_entries s)))"
    using assms(2) by (auto simp: glob_literal_prefix [OF assms(1)] prefix_def)
  from removals_other [OF this] assms(3) show ?thesis by (simp add: untouched_def dirs_held_def release_def)
qed

lemma release_scratch: "scratch_of (cleanup base an job n) = release base (an_rmtree an) (j_id job) (scratch_of n)"
  by (simp add: cleanup_def)

lemma commit_held:
  assumes "literal_name (j_id job)" and "\<not> prefix (j_id job @ ''_'') name" and "name \<in> dirs_held (scratch_of n)"
  shows "name \<in> dirs_held (scratch_of (snd (commit_output blake2b fmt_g tls base an job p n)))"
  using assms other_owner_stays [OF assms(1,2), of "scratch_of (n\<lparr>nd_bucket := b\<rparr>)" base "an_rmtree an" for b]
  by (auto simp: commit_output_def Let_def split: option.splits upload.splits)

lemma encode_held:
  assumes "literal_name (j_id job)" and "\<not> prefix (j_id job @ ''_'') name" and "name \<in> dirs_held (scratch_of n)"
  shows "name \<in> dirs_held (scratch_of (snd (encode_and_upload blake2b fmt_g tls base an job abort a os n)))"
proof -
  note stays = other_owner_stays [OF assms(1,2)]
  have "name \<in> dirs_held (scratch_of (cleanup base an job m))" if "name \<in> dirs_held (scratch_of m)" for m
    using stays that by (simp add: release_scratch)
  moreover have "name \<in> dirs_held (scratch_of m)" if "commit_output blake2b fmt_g tls base an job p (n\<lparr>nd_process := q\<rparr>) = (x, m)" for p q x m
    using commit_held [OF assms(1,2), of "n\<lparr>nd_process := q\<rparr>" blake2b fmt_g tls base an p] assms(3) that by simp
  ultimately show ?thesis using assms(3)
    by (auto simp: encode_and_upload_def split: result.splits prod.splits option.splits)
qed

text \<open>
  C29. The scratch space of a downloaded master is not released. Once the fetch of a job has succeeded,
  the directory it reserved is there after the job, whatever the pipeline and the upload do and even when
  every removal works: \<open>commit\<close> and \<open>cleanup\<close> release the directories of the job's id, and the fetch
  reserved one under the id \<open>s3-fetch-...\<close>. Only the cleanup at shutdown (or of orphans a day later)
  removes it.
\<close>

theorem fetched_master_is_not_released:
  assumes "literal_name (j_id (ca_job cl))" and "take 1 (j_id (ca_job cl)) \<notin> {[], ''s''}"
    and "fetch base an (j_source_path (ca_job cl)) n = (Some p, n1)"
    and "\<And>key. an_dedup an key = No_reuse" and "s3_bucket \<noteq> []"
    and "best_backend_for caps (job_codec (ca_job cl)) (ws_preferred_backend st) = Some backend"
    and "decide_s3_job blake2b fmt_g tls caps st worker_id base an cl s3_bucket abort_before abort_after os n = (x, n')"
  shows "\<exists>name \<in> owned_by (fetch_job_id (j_source_path (ca_job cl))).
     name \<in> dirs_held (scratch_of n') \<and> name \<notin> dirs_held (cleanup_on_shutdown base (\<lambda>_. Removed) (scratch_of n'))"
proof -
  let ?job = "ca_job cl"
  obtain name sc master where f: "name = fetch_job_id (j_source_path ?job) @ ''_'' @ take 8 (an_uuid an)"
    "dirs_held sc = insert name (dirs_held (scratch_of n))" "n1 = put_local p (Some master) (with_scratch sc n)"
    by (rule fetch_done [OF assms(3)]) (metis reserve_shape(1,2))
  then have here: "name \<in> dirs_held (scratch_of n1)" by simp
  have "take 1 name = ''s''" unfolding f(1) by (simp add: fetch_job_id_def)
  with assms(2) have other: "\<not> prefix (j_id ?job @ ''_'') name"
    by (cases "j_id ?job"; cases name) auto
  have "name \<in> dirs_held (scratch_of n')"
    using assms(4-7) encode_held [OF assms(1) other here] other_owner_stays [OF assms(1) other here]
    by (auto simp: decide_s3_job_def Let_def assms(3) release_scratch split: if_splits dest!: arg_cong [where f = snd])
  then show ?thesis using f(1) by (intro bexI [of _ name]) (auto simp: shutdown_held owned_by_def)
qed

section \<open>A reported success\<close>

lemma commit_bucket:
  "k \<noteq> upload_key blake2b fmt_g job p \<Longrightarrow> nd_bucket (snd (commit_output blake2b fmt_g tls base an job p n)) k = nd_bucket n k"
  by (auto simp: commit_output_def Let_def split: option.splits upload.splits)

lemma commit_done:
  assumes "commit_output blake2b fmt_g tls base an job p n = (Some b, n1)"
  obtains e where "p_fs (nd_process n) p = Some e" "b = tl_size tls e"
    "nd_bucket n1 = (nd_bucket n)(upload_key blake2b fmt_g job p \<mapsto> e)"
  using assms by (auto simp: commit_output_def Let_def split: option.splits upload.splits)

text \<open>A job writes to the bucket under its upload key only; the master is read.\<close>

lemma other_objects_stay:
  assumes "\<And>p. k \<noteq> upload_key blake2b fmt_g (ca_job cl) p"
  shows "nd_bucket (snd (decide_s3_job blake2b fmt_g tls caps st worker_id base an cl s3_bucket abort_before abort_after os n)) k
     = nd_bucket n k"
proof -
  have "nd_bucket m k = nd_bucket n1 k" if "commit_output blake2b fmt_g tls base an (ca_job cl) p (n1\<lparr>nd_process := q\<rparr>) = (x, m)" for p n1 q x m
    using commit_bucket [OF assms, of tls base an p "n1\<lparr>nd_process := q\<rparr>"] that by simp
  then have "nd_bucket (snd (encode_and_upload blake2b fmt_g tls base an (ca_job cl) abort a os n1)) k = nd_bucket n1 k" for abort a n1
    by (auto simp: encode_and_upload_def split: result.splits prod.splits option.splits)
  moreover have "nd_bucket n1 = nd_bucket n" if "fetch base an source n = (r, n1)" for source r n1
    using fetch_bucket [of base an source n] that by simp
  ultimately show ?thesis
    by (auto simp: decide_s3_job_def Let_def split: option.splits dedup_answer.splits prod.splits)
qed

lemma encode_done:
  assumes "encode_and_upload blake2b fmt_g tls base an job abort a os n = ((reports, ending), n')"
    and "(''complete'', Outcome (Complete_body c)) \<in> set reports"
  obtains res os' p e where "run_pipeline tls a os (nd_process n) = (Done res, os', p)"
    "p_fs p (pa_source a) = Some e" "reports = success_reports blake2b fmt_g job (pa_source a) res (tl_size tls e)"
    "nd_bucket n' = (nd_bucket n)(upload_key blake2b fmt_g job (pa_source a) \<mapsto> e)" "ending = Returns"
proof -
  have no: "(''complete'', Outcome (Complete_body c)) \<notin> set (fst (outcome_of (failed_report x y)))"
    "(''complete'', Outcome (Complete_body c)) \<notin> set (fst (outcome_of (exception_report job abort ex)))" for x y ex
    by (cases ex; simp add: outcome_of_def failed_report_def skipped_report_of_def split: option.split)+
  obtain r os' p where r: "run_pipeline tls a os (nd_process n) = (r, os', p)" by (rule prod_cases3)
  show thesis
  proof (cases r)
    case (Done res)
    obtain x n1 where c: "commit_output blake2b fmt_g tls base an job (pa_source a) (n\<lparr>nd_process := p\<rparr>) = (x, n1)"
      by (rule prod.exhaust)
    show thesis
    proof (cases x)
      case None
      with assms r Done c no(1) show thesis by (simp add: encode_and_upload_def) (metis fst_conv)
    next
      case (Some b)
      from commit_done [OF c [unfolded Some]] obtain e where
        "p_fs p (pa_source a) = Some e" "b = tl_size tls e" "nd_bucket n1 = (nd_bucket n)(upload_key blake2b fmt_g job (pa_source a) \<mapsto> e)"
        by auto
      with assms r Done c Some that show thesis by (auto simp: encode_and_upload_def)
    qed
  qed (use assms r no in \<open>simp_all add: encode_and_upload_def\<close>, (metis fst_conv)+)
qed

text \<open>
  C27. A completed S3 job has its object. When a job is reported complete after an encode, then the
  registration was reported just before it; the bucket holds an output that passed every gate against
  the master under the upload key; no other object of the bucket has changed; and the reported sizes are
  those of that object and of the master. The scratch directory of the fetch is new, and any call that
  changes files, tool, upload, reservation or removal may fail.
\<close>

theorem s3_completion_is_backed:
  assumes "\<And>f. p_fs (nd_process n) (fetch_dir base an (j_source_path (ca_job cl)), f) = None"
    and "decide_s3_job blake2b fmt_g tls caps st worker_id base an cl s3_bucket abort_before abort_after os n = ((reports, ending), n')"
    and "(''complete'', Outcome (Complete_body c)) \<in> set reports"
  shows "\<exists>orig e backend p. nd_bucket n (j_source_path (ca_job cl)) = Some orig
     \<and> acceptable tls (s3_args st worker_id cl backend p) orig e
     \<and> nd_bucket n' = (nd_bucket n)(upload_key blake2b fmt_g (ca_job cl) p \<mapsto> e)
     \<and> map fst reports = [''register_derivative'', ''complete'']
     \<and> cr_output_size c = tl_size tls e \<and> cr_source_size c = tl_size tls orig \<and> cr_space_saved c = 0"
proof -
  let ?job = "ca_job cl"
  from assms(2,3) obtain backend p n1 where fe: "fetch base an (j_source_path ?job) n = (Some p, n1)"
    and en: "encode_and_upload blake2b fmt_g tls base an ?job abort_after (s3_args st worker_id cl backend p) os n1 = ((reports, ending), n')"
    by (auto simp: decide_s3_job_def Let_def outcome_of_def failed_report_def
        split: option.splits if_splits dedup_answer.splits prod.splits)
  let ?a = "s3_args st worker_id cl backend p"
  have src [simp]: "pa_source ?a = p" by (simp add: s3_args_def)
  from fe obtain name sc master where f: "p = (base @ ''/'' @ name, snd (path_of_text (j_source_path ?job)))"
    "nd_bucket n (j_source_path ?job) = Some master" "n1 = put_local p (Some master) (with_scratch sc n)"
    "name = fetch_job_id (j_source_path ?job) @ ''_'' @ take 8 (an_uuid an)" "sc_files sc = p_fs (nd_process n)"
    by (rule fetch_done) (metis reserve_shape(1,3) scratch.select_convs(2) scratch_of_def)
  have empty: "p_fs (nd_process n) (fst p, g) = None" for g using assms(1) by (simp add: f(1,4) fetch_dir_def)
  have fs: "p_fs (nd_process n1) = (p_fs (nd_process n))(p \<mapsto> master)"
    by (simp add: f(3,5) put_local_def with_scratch_def)
  have "fst (bak_of p) = fst p" "fst (lock_of p) = fst p" by (simp_all add: artifact_names)
  then have "p_fs (nd_process n) (bak_of p) = None" "p_fs (nd_process n) (lock_of p) = None"
    using empty by (metis prod.collapse)+
  then have start: "p_fs (nd_process n1) (pa_source ?a) = Some master" "p_fs (nd_process n1) (bak_of (pa_source ?a)) = None"
    "p_fs (nd_process n1) (lock_of (pa_source ?a)) = None"
    by (simp_all add: fs)
  from encode_done [OF en assms(3)] obtain res os' q e where d: "run_pipeline tls ?a os (nd_process n1) = (Done res, os', q)"
    "p_fs q p = Some e" "reports = success_reports blake2b fmt_g ?job p res (tl_size tls e)"
    "nd_bucket n' = (nd_bucket n1)(upload_key blake2b fmt_g ?job p \<mapsto> e)"
    by (metis src)
  from wp_result [OF wp_run_pipeline [OF start] d(1)] d(2) have "acceptable tls ?a master e" "fits tls master res e"
    by (auto simp: settled_as_def own_of_def)
  moreover have "nd_bucket n1 = nd_bucket n" by (simp add: f(3))
  ultimately show ?thesis using d(3,4) assms(3) f(2)
    by (intro exI [of _ master] exI [of _ e] exI [of _ backend] exI [of _ p]) (auto simp: success_reports_def fits_def)
qed

lemma demo_completed:
  "(case demo_s3_job of ((reports, ending), n') \<Rightarrow> ending = Returns
     \<and> list_ex (\<lambda>(kind, body). case body of Outcome (Complete_body c) \<Rightarrow> kind = ''complete'' | _ \<Rightarrow> False) reports)"
  by code_simp

theorem s3_completion_is_backed_witness:
  "\<exists>reports n' e c p. demo_s3_job = ((reports, Returns), n') \<and> (''complete'', Outcome (Complete_body c)) \<in> set reports
     \<and> nd_bucket n' = (nd_bucket demo_node)(upload_key (\<lambda>h. h) (\<lambda>_. ''95'') (ca_job demo_s3_claim) p \<mapsto> e)
     \<and> cr_output_size c = tl_size demo_tools e"
proof -
  obtain reports ending n' where d: "demo_s3_job = ((reports, ending), n')" by (metis prod.exhaust)
  have "ending = Returns \<and> list_ex (\<lambda>(kind, body). case body of Outcome (Complete_body c) \<Rightarrow> kind = ''complete'' | _ \<Rightarrow> False) reports"
    using demo_completed unfolding d by simp
  then obtain c where c: "ending = Returns" "(''complete'', Outcome (Complete_body c)) \<in> set reports"
    by (auto simp: list_ex_iff split: s3_body.splits report_body.splits)
  have "p_fs (nd_process demo_node) (fetch_dir ''/scratch'' demo_answers (j_source_path (ca_job demo_s3_claim)), f) = None" for f
    by (simp add: demo_node_def)
  from s3_completion_is_backed [OF this d [unfolded demo_s3_job_def] c(2)] d c show ?thesis by blast
qed

theorem fetched_master_is_not_released_witness:
  "\<exists>x n' name. demo_s3_job = (x, n') \<and> name \<in> dirs_held (scratch_of n')
     \<and> name \<notin> dirs_held (cleanup_on_shutdown ''/scratch'' (\<lambda>_. Removed) (scratch_of n'))"
proof -
  obtain x n' where d: "demo_s3_job = (x, n')" by (rule prod.exhaust)
  have job: "literal_name (j_id (ca_job demo_s3_claim))" "take 1 (j_id (ca_job demo_s3_claim)) \<notin> {[], ''s''}"
    by code_simp+
  have "fst (fetch ''/scratch'' demo_answers (j_source_path (ca_job demo_s3_claim)) demo_node) \<noteq> None" by code_simp
  then obtain p n1 where f: "fetch ''/scratch'' demo_answers (j_source_path (ca_job demo_s3_claim)) demo_node = (Some p, n1)"
    by (metis not_None_eq prod.collapse)
  have none: "an_dedup demo_answers key = No_reuse" for key by (simp add: demo_answers_def)
  have best: "best_backend_for demo_caps (job_codec (ca_job demo_s3_claim)) (ws_preferred_backend demo_settings) = Some ''cpu''"
    by code_simp
  from fetched_master_is_not_released [OF job f none _ best d [unfolded demo_s3_job_def]] d show ?thesis by blast
qed

end
