(* ===== verification/OAuth.thy ===== *)
theory OAuth
  imports Coroutine
begin

text \<open>
  The grant store of the MCP endpoint (\<open>repos/oauth.py\<close>): clients, grants, tokens and authorization
  transactions, with the user table its consent page reads.

  Every function is a coroutine over these tables. A statement with its commit is one atomic step;
  other requests run between the steps. A scope text is the list of its words. The keyed hash of tokens
  (\<open>hmac\<close>), random tokens, fresh ids and consumption markers are arguments. An insert whose primary key
  is taken raises. Time stamps are microseconds. The loss of an uncommitted stamp to another request's
  rollback on a shared SQLite connection, which \<open>_consume\<close> reads its marker back to detect, does not
  occur among these steps.
\<close>

section \<open>Tables\<close>

record oauth_client =
  ocl_id :: string
  ocl_kind :: string
  ocl_name :: string
  ocl_redirect_uris :: "string list"
  ocl_metadata_url :: "string option"
  ocl_created_at :: time
  ocl_disabled_at :: "time option"
  ocl_metadata_fetched_at :: "time option"

record oauth_grant =
  og_id :: string
  og_client_id :: string
  og_user_id :: string
  og_scopes :: "string list"
  og_resource :: string
  og_label :: string
  og_created_at :: time
  og_expires_at :: time
  og_revoked_at :: "time option"
  og_last_used_at :: "time option"

record oauth_token =
  ot_token_hash :: string
  ot_grant_id :: string
  ot_kind :: string
  ot_created_at :: time
  ot_expires_at :: time
  ot_consumed_at :: "time option"
  ot_consumed_by :: "string option"

record oauth_transaction =
  ox_id :: string
  ox_client_id :: string
  ox_redirect_uri :: string
  ox_code_challenge :: string
  ox_scopes :: "string list"
  ox_resource :: string
  ox_state :: "string option"
  ox_nonce_hash :: "string option"
  ox_created_at :: time
  ox_expires_at :: time
  ox_approved_at :: "time option"
  ox_grant_id :: "string option"
  ox_code_hash :: "string option"
  ox_consumed_at :: "time option"
  ox_consumed_by :: "string option"

record oauth_user =
  us_id :: string
  us_username :: string

record oauth_db =
  od_clock :: time
  od_users :: "oauth_user list"
  od_clients :: "oauth_client list"
  od_grants :: "oauth_grant list"
  od_tokens :: "oauth_token list"
  od_transactions :: "oauth_transaction list"

datatype oauth_error = Replay_error | Scope_error | Bad_scopes | Unknown_grant | Integrity_error | Bad_url | Bad_document

type_synonym 'a oio = "(oauth_db, oauth_error, 'a) coroutine"

definition seconds :: "int \<Rightarrow> time" where
  "seconds n = n * 1000000"

definition days :: "int \<Rightarrow> time" where
  "days n = seconds (n * 86400)"

section \<open>Constants and helpers\<close>

definition SCOPES :: "string list" where
  "SCOPES = [''catalog:read'', ''jobs:read'', ''jobs:write'']"

definition INITIAL_SCOPES :: "string list" where
  "INITIAL_SCOPES = [''catalog:read'', ''jobs:read'']"

definition MANUAL_CLIENT_ID :: string where "MANUAL_CLIENT_ID = ''manual''"
definition ACCESS_TTL_SECONDS :: int where "ACCESS_TTL_SECONDS = 3600"
definition GRANT_TTL_DAYS :: int where "GRANT_TTL_DAYS = 30"
definition MANUAL_GRANT_TTL_DAYS :: int where "MANUAL_GRANT_TTL_DAYS = 90"
definition TRANSACTION_TTL_SECONDS :: int where "TRANSACTION_TTL_SECONDS = 600"
definition CODE_TTL_SECONDS :: int where "CODE_TTL_SECONDS = 600"

definition TOKEN_KINDS :: "string list" where
  "TOKEN_KINDS = [''access'', ''refresh'', ''code'', ''nonce'']"

text \<open>The digest; the functions below call it with the four kinds only.\<close>

definition hash_token :: "(string \<Rightarrow> string) \<Rightarrow> string \<Rightarrow> string \<Rightarrow> string" where
  "hash_token hmac kind token = hmac (''mcp-'' @ kind @ '':'' @ token)"

definition rstrip_slash :: "string \<Rightarrow> string" where
  "rstrip_slash s = rev (dropWhile (\<lambda>c. c = CHR ''/'') (rev s))"

definition canonical :: "string \<Rightarrow> string" where
  "canonical resource = rstrip_slash resource"

text \<open>A set of scopes as a list; the text stored is sorted and without repetitions.\<close>

definition validate_scopes :: "string list \<Rightarrow> string list option" where
  "validate_scopes scopes =
     (if \<exists>s \<in> set scopes. s \<notin> set SCOPES then None
      else if scopes = [] then None
      else Some (sort (remdups scopes)))"

text \<open>One \<open>INSERT\<close>: the row is built from the clock, the key must be free.\<close>

definition insert_into ::
  "('r \<Rightarrow> 'k) \<Rightarrow> (oauth_db \<Rightarrow> 'r list) \<Rightarrow> ('r list \<Rightarrow> oauth_db \<Rightarrow> oauth_db) \<Rightarrow> 'r \<Rightarrow> unit oio"
where
  "insert_into key get put r =
     bind (stmt (\<lambda>d. if key r \<in> key ` set (get d) then (False, d) else (True, put (get d @ [r]) d)))
       (\<lambda>ok. if ok then ret () else throw Integrity_error)"

abbreviation put_clients :: "oauth_client list \<Rightarrow> oauth_db \<Rightarrow> oauth_db" where
  "put_clients t d \<equiv> d\<lparr>od_clients := t\<rparr>"
abbreviation put_grants :: "oauth_grant list \<Rightarrow> oauth_db \<Rightarrow> oauth_db" where
  "put_grants t d \<equiv> d\<lparr>od_grants := t\<rparr>"
abbreviation put_tokens :: "oauth_token list \<Rightarrow> oauth_db \<Rightarrow> oauth_db" where
  "put_tokens t d \<equiv> d\<lparr>od_tokens := t\<rparr>"
abbreviation put_transactions :: "oauth_transaction list \<Rightarrow> oauth_db \<Rightarrow> oauth_db" where
  "put_transactions t d \<equiv> d\<lparr>od_transactions := t\<rparr>"

text \<open>One conditional \<open>UPDATE\<close>: the value is the row count.\<close>

definition update_in ::
  "(oauth_db \<Rightarrow> 'r list) \<Rightarrow> ('r list \<Rightarrow> oauth_db \<Rightarrow> oauth_db) \<Rightarrow> ('r \<Rightarrow> bool) \<Rightarrow> ('r \<Rightarrow> 'r) \<Rightarrow> nat oio"
where
  "update_in get put P f = stmt (\<lambda>d. (rowcount P (get d), put (update_where P f (get d)) d))"

section \<open>Users\<close>

definition ADMIN_USERNAME :: string where "ADMIN_USERNAME = ''admin''"

definition get_admin_id :: "string option oio" where
  "get_admin_id = query (\<lambda>d. map_option us_id (find_row us_username (od_users d) ADMIN_USERNAME))"

section \<open>Clients\<close>

definition ensure_client :: "string \<Rightarrow> string \<Rightarrow> string \<Rightarrow> string list \<Rightarrow> string option \<Rightarrow> unit oio" where
  "ensure_client client_id kind name redirect_uris metadata_url =
     bind (peek od_clock) (\<lambda>now.
     stmt (\<lambda>d. ((), if client_id \<in> ocl_id ` set (od_clients d) then d
       else put_clients (od_clients d @ [\<lparr>ocl_id = client_id, ocl_kind = kind, ocl_name = name,
              ocl_redirect_uris = redirect_uris, ocl_metadata_url = metadata_url, ocl_created_at = now,
              ocl_disabled_at = None, ocl_metadata_fetched_at = None\<rparr>]) d)))"

definition disable_client :: "string \<Rightarrow> bool oio" where
  "disable_client client_id =
     bind (peek od_clock) (\<lambda>now.
     bind (update_in od_clients put_clients (\<lambda>c. ocl_id c = client_id \<and> ocl_disabled_at c = None)
             (\<lambda>c. c\<lparr>ocl_disabled_at := Some now\<rparr>)) (\<lambda>n. ret (0 < n)))"

definition get_client :: "string \<Rightarrow> oauth_client option oio" where
  "get_client client_id = query (\<lambda>d. find_row ocl_id (od_clients d) client_id)"

definition list_clients :: "oauth_client list oio" where
  "list_clients =
     query (\<lambda>d. sort_key (\<lambda>c. - ocl_created_at c) (sort_key ocl_id
       (filter (\<lambda>c. ocl_id c \<noteq> MANUAL_CLIENT_ID) (od_clients d))))"

definition allow_cimd_client :: "string \<Rightarrow> string \<Rightarrow> unit oio" where
  "allow_cimd_client url name =
     bind (peek od_clock) (\<lambda>now.
     stmt (\<lambda>d. ((), if url \<in> ocl_id ` set (od_clients d)
       then put_clients (update_where (\<lambda>c. ocl_id c = url)
              (\<lambda>c. c\<lparr>ocl_disabled_at := None, ocl_metadata_fetched_at := None\<rparr>) (od_clients d)) d
       else put_clients (od_clients d @ [\<lparr>ocl_id = url, ocl_kind = ''cimd'', ocl_name = name,
              ocl_redirect_uris = [], ocl_metadata_url = Some url, ocl_created_at = now,
              ocl_disabled_at = None, ocl_metadata_fetched_at = None\<rparr>]) d)))"

definition create_admin_client :: "string \<Rightarrow> string \<Rightarrow> string list \<Rightarrow> string oio" where
  "create_admin_client uuid_hex name redirect_uris =
     (let client_id = ''tf-'' @ take 16 uuid_hex
      in bind (ensure_client client_id ''admin'' name redirect_uris None) (\<lambda>_. ret client_id))"

definition cache_client_document :: "string \<Rightarrow> string \<Rightarrow> string list \<Rightarrow> unit oio" where
  "cache_client_document client_id name redirect_uris =
     bind (peek od_clock) (\<lambda>now.
     bind (update_in od_clients put_clients (\<lambda>c. ocl_id c = client_id)
             (\<lambda>c. c\<lparr>ocl_name := name, ocl_redirect_uris := redirect_uris, ocl_metadata_fetched_at := Some now\<rparr>))
       (\<lambda>_. ret ()))"

definition document_is_fresh :: "time \<Rightarrow> oauth_client \<Rightarrow> int \<Rightarrow> bool" where
  "document_is_fresh now client max_age_seconds =
     (case ocl_metadata_fetched_at client of None \<Rightarrow> False | Some t \<Rightarrow> now - t < seconds max_age_seconds)"

section \<open>Grants\<close>

definition create_grant ::
  "string \<Rightarrow> string \<Rightarrow> string \<Rightarrow> string list \<Rightarrow> string \<Rightarrow> string \<Rightarrow> time option \<Rightarrow> string oio"
where
  "create_grant grant_id client_id user_id scopes resource label expires_at =
     (case validate_scopes scopes of
        None \<Rightarrow> throw Bad_scopes
      | Some scope_text \<Rightarrow>
          bind (peek od_clock) (\<lambda>now.
          bind (insert_into og_id od_grants put_grants
              \<lparr>og_id = grant_id, og_client_id = client_id, og_user_id = user_id, og_scopes = scope_text,
               og_resource = canonical resource, og_label = label, og_created_at = now,
               og_expires_at = (case expires_at of None \<Rightarrow> now + days GRANT_TTL_DAYS | Some t \<Rightarrow> t),
               og_revoked_at = None, og_last_used_at = None\<rparr>) (\<lambda>_. ret grant_id)))"

definition revoke_grant :: "string \<Rightarrow> bool oio" where
  "revoke_grant grant_id =
     bind (peek od_clock) (\<lambda>now.
     bind (update_in od_grants put_grants (\<lambda>g. og_id g = grant_id \<and> og_revoked_at g = None)
             (\<lambda>g. g\<lparr>og_revoked_at := Some now\<rparr>)) (\<lambda>n. ret (0 < n)))"

definition grant_status :: "time \<Rightarrow> oauth_grant \<Rightarrow> string" where
  "grant_status now g =
     (if og_revoked_at g \<noteq> None then ''revoked'' else if og_expires_at g \<le> now then ''expired'' else ''active'')"

definition list_grants :: "(oauth_grant \<times> string \<times> string) list oio" where
  "list_grants =
     bind (query (\<lambda>d. List.map_filter
         (\<lambda>g. map_option (\<lambda>c. (g, ocl_name c)) (find_row ocl_id (od_clients d) (og_client_id g)))
         (sort_key (\<lambda>g. - og_created_at g) (sort_key og_id (od_grants d))))) (\<lambda>rows.
     bind (peek od_clock) (\<lambda>now. ret (map (\<lambda>(g, name). (g, name, grant_status now g)) rows)))"

section \<open>Tokens\<close>

definition new_token :: "string \<Rightarrow> string \<Rightarrow> string \<Rightarrow> time \<Rightarrow> time \<Rightarrow> oauth_token" where
  "new_token token_hash grant_id kind now expires_at =
     \<lparr>ot_token_hash = token_hash, ot_grant_id = grant_id, ot_kind = kind, ot_created_at = now,
      ot_expires_at = expires_at, ot_consumed_at = None, ot_consumed_by = None\<rparr>"

definition issue_access_token :: "(string \<Rightarrow> string) \<Rightarrow> string \<Rightarrow> string \<Rightarrow> int \<Rightarrow> string oio" where
  "issue_access_token hmac token grant_id ttl_seconds =
     bind (peek od_clock) (\<lambda>now.
     bind (insert_into ot_token_hash od_tokens put_tokens
             (new_token (hash_token hmac ''access'' token) grant_id ''access'' now (now + seconds ttl_seconds)))
       (\<lambda>_. ret token))"

text \<open>\<open>int(total_seconds())\<close> truncates toward zero.\<close>

definition whole_seconds :: "time \<Rightarrow> int" where
  "whole_seconds t = (if t < 0 then - ((- t) div 1000000) else t div 1000000)"

definition create_manual_grant ::
  "(string \<Rightarrow> string) \<Rightarrow> string \<Rightarrow> string \<Rightarrow> string \<Rightarrow> string list \<Rightarrow> string \<Rightarrow> string \<Rightarrow> time option \<Rightarrow> (string \<times> string) oio"
where
  "create_manual_grant hmac grant_id token label scopes resource user_id expires_at =
     bind (ensure_client MANUAL_CLIENT_ID ''admin'' ''Manual bearer token'' [] None) (\<lambda>_.
     bind (peek od_clock) (\<lambda>now.
     let deadline = (case expires_at of None \<Rightarrow> now + days MANUAL_GRANT_TTL_DAYS | Some t \<Rightarrow> t)
     in bind (create_grant grant_id MANUAL_CLIENT_ID user_id scopes resource label (Some deadline)) (\<lambda>_.
        bind (peek od_clock) (\<lambda>now2.
        bind (issue_access_token hmac token grant_id (whole_seconds (deadline - now2))) (\<lambda>_.
        ret (grant_id, token))))))"

record principal =
  pr_grant_id :: string
  pr_client_id :: string
  pr_user_id :: string
  pr_scopes :: "string list"
  pr_resource :: string
  pr_expires_at :: int

text \<open>The join of a token with its grant and the grant's client.\<close>

definition token_row ::
  "string \<Rightarrow> (oauth_token \<Rightarrow> bool) \<Rightarrow> oauth_db \<Rightarrow> (oauth_token \<times> oauth_grant \<times> oauth_client) option"
where
  "token_row h P d =
     (case find_row ot_token_hash (od_tokens d) h of
        None \<Rightarrow> None
      | Some t \<Rightarrow>
          if \<not> P t then None
          else (case find_row og_id (od_grants d) (ot_grant_id t) of
                  None \<Rightarrow> None
                | Some g \<Rightarrow>
                    (case find_row ocl_id (od_clients d) (og_client_id g) of
                       None \<Rightarrow> None | Some c \<Rightarrow> Some (t, g, c))))"

definition verify_access_token :: "(string \<Rightarrow> string) \<Rightarrow> string \<Rightarrow> string \<Rightarrow> principal option oio" where
  "verify_access_token hmac token resource =
     (if token = [] then ret None
      else bind (query (token_row (hash_token hmac ''access'' token) (\<lambda>t. ot_kind t = ''access'' \<and> ot_consumed_at t = None)))
        (\<lambda>row. case row of
           None \<Rightarrow> ret None
         | Some (t, g, c) \<Rightarrow>
             bind (peek od_clock) (\<lambda>now.
             if ot_expires_at t \<le> now \<or> og_expires_at g \<le> now then ret None
             else if og_revoked_at g \<noteq> None \<or> ocl_disabled_at c \<noteq> None then ret None
             else if og_resource g \<noteq> canonical resource then ret None
             else bind (update_in od_grants put_grants (\<lambda>x. og_id x = og_id g) (\<lambda>x. x\<lparr>og_last_used_at := Some now\<rparr>)) (\<lambda>_.
                  ret (Some \<lparr>pr_grant_id = og_id g, pr_client_id = og_client_id g, pr_user_id = og_user_id g,
                    pr_scopes = og_scopes g, pr_resource = og_resource g, pr_expires_at = ot_expires_at t div 1000000\<rparr>)))))"

section \<open>Authorization transactions\<close>

definition create_transaction ::
  "string \<Rightarrow> string \<Rightarrow> string \<Rightarrow> string \<Rightarrow> string list \<Rightarrow> string \<Rightarrow> string option \<Rightarrow> string oio"
where
  "create_transaction txn_id client_id redirect_uri code_challenge scopes resource state =
     (case validate_scopes scopes of
        None \<Rightarrow> throw Bad_scopes
      | Some scope_text \<Rightarrow>
          bind (peek od_clock) (\<lambda>now.
          bind (insert_into ox_id od_transactions put_transactions
              \<lparr>ox_id = txn_id, ox_client_id = client_id, ox_redirect_uri = redirect_uri, ox_code_challenge = code_challenge,
               ox_scopes = scope_text, ox_resource = canonical resource, ox_state = state, ox_nonce_hash = None,
               ox_created_at = now, ox_expires_at = now + seconds TRANSACTION_TTL_SECONDS, ox_approved_at = None,
               ox_grant_id = None, ox_code_hash = None, ox_consumed_at = None, ox_consumed_by = None\<rparr>) (\<lambda>_. ret txn_id)))"

definition get_transaction :: "string \<Rightarrow> oauth_transaction option oio" where
  "get_transaction txn_id =
     bind (query (\<lambda>d. find_row ox_id (od_transactions d) txn_id)) (\<lambda>row.
     bind (peek od_clock) (\<lambda>now.
     case row of
       None \<Rightarrow> ret None
     | Some r \<Rightarrow> ret (if ox_consumed_at r \<noteq> None \<or> ox_expires_at r \<le> now then None else Some r)))"

definition arm_consent :: "(string \<Rightarrow> string) \<Rightarrow> string \<Rightarrow> string \<Rightarrow> string option oio" where
  "arm_consent hmac nonce txn_id =
     bind (update_in od_transactions put_transactions
             (\<lambda>x. ox_id x = txn_id \<and> ox_approved_at x = None \<and> ox_consumed_at x = None)
             (\<lambda>x. x\<lparr>ox_nonce_hash := Some (hash_token hmac ''nonce'' nonce)\<rparr>))
       (\<lambda>n. ret (if 0 < n then Some nonce else None))"

definition open_with_nonce :: "(string \<Rightarrow> string) \<Rightarrow> string \<Rightarrow> string \<Rightarrow> oauth_transaction \<Rightarrow> bool" where
  "open_with_nonce hmac txn_id nonce x \<longleftrightarrow>
     ox_id x = txn_id \<and> ox_nonce_hash x = Some (hash_token hmac ''nonce'' nonce)
     \<and> ox_approved_at x = None \<and> ox_consumed_at x = None"

text \<open>The column of code digests is unique.\<close>

definition record_code :: "string \<Rightarrow> string \<Rightarrow> string \<Rightarrow> time \<Rightarrow> unit oio" where
  "record_code txn_id grant_id code_hash expires_at =
     bind (stmt (\<lambda>d. if \<exists>x \<in> set (od_transactions d). ox_id x \<noteq> txn_id \<and> ox_code_hash x = Some code_hash then (False, d)
       else (True, put_transactions (update_where (\<lambda>y. ox_id y = txn_id)
              (\<lambda>y. y\<lparr>ox_grant_id := Some grant_id, ox_code_hash := Some code_hash, ox_expires_at := expires_at\<rparr>)
              (od_transactions d)) d)))
       (\<lambda>ok. if ok then ret () else throw Integrity_error)"

definition approve_transaction ::
  "(string \<Rightarrow> string) \<Rightarrow> string \<Rightarrow> string \<Rightarrow> string \<Rightarrow> string \<Rightarrow> string \<Rightarrow> string option oio"
where
  "approve_transaction hmac grant_id code txn_id nonce user_id =
     (if nonce = [] then ret None
      else bind (peek od_clock) (\<lambda>now.
           bind (update_in od_transactions put_transactions (open_with_nonce hmac txn_id nonce)
                   (\<lambda>x. x\<lparr>ox_approved_at := Some now\<rparr>)) (\<lambda>n.
           if n = 0 then ret None
           else bind (get_transaction txn_id) (\<lambda>txn.
                case txn of
                  None \<Rightarrow> ret None
                | Some x \<Rightarrow>
                    bind (create_grant grant_id (ox_client_id x) user_id (ox_scopes x) (ox_resource x) [] None) (\<lambda>gid.
                    bind (record_code txn_id gid (hash_token hmac ''code'' code) (now + seconds CODE_TTL_SECONDS)) (\<lambda>_.
                    ret (Some code)))))))"

definition deny_transaction :: "(string \<Rightarrow> string) \<Rightarrow> string \<Rightarrow> string \<Rightarrow> bool oio" where
  "deny_transaction hmac txn_id nonce =
     (if nonce = [] then ret False
      else bind (peek od_clock) (\<lambda>now.
           bind (update_in od_transactions put_transactions (open_with_nonce hmac txn_id nonce)
                   (\<lambda>x. x\<lparr>ox_consumed_at := Some now\<rparr>)) (\<lambda>n. ret (0 < n))))"

text \<open>Spending a credential: a conditional stamp with a marker of this call, then the marker read back.\<close>

definition consume_code :: "string \<Rightarrow> string \<Rightarrow> bool oio" where
  "consume_code marker code_hash =
     bind (peek od_clock) (\<lambda>now.
     bind (update_in od_transactions put_transactions (\<lambda>x. ox_code_hash x = Some code_hash \<and> ox_consumed_at x = None)
             (\<lambda>x. x\<lparr>ox_consumed_at := Some now, ox_consumed_by := Some marker\<rparr>)) (\<lambda>n.
     if n = 0 then ret False
     else bind (query (\<lambda>d. find (\<lambda>x. ox_code_hash x = Some code_hash) (od_transactions d))) (\<lambda>row.
          ret (case row of None \<Rightarrow> False | Some x \<Rightarrow> ox_consumed_by x = Some marker))))"

definition consume_refresh :: "string \<Rightarrow> string \<Rightarrow> bool oio" where
  "consume_refresh marker token_hash =
     bind (peek od_clock) (\<lambda>now.
     bind (update_in od_tokens put_tokens
             (\<lambda>t. ot_token_hash t = token_hash \<and> ot_consumed_at t = None \<and> ot_kind t = ''refresh'')
             (\<lambda>t. t\<lparr>ot_consumed_at := Some now, ot_consumed_by := Some marker\<rparr>)) (\<lambda>n.
     if n = 0 then ret False
     else bind (query (\<lambda>d. find_row ot_token_hash (od_tokens d) token_hash)) (\<lambda>row.
          ret (case row of None \<Rightarrow> False | Some t \<Rightarrow> ot_consumed_by t = Some marker))))"

definition redeem_code :: "(string \<Rightarrow> string) \<Rightarrow> string \<Rightarrow> string \<Rightarrow> oauth_transaction option oio" where
  "redeem_code hmac marker code =
     (let code_hash = hash_token hmac ''code'' code
      in bind (peek od_clock) (\<lambda>now.
         bind (consume_code marker code_hash) (\<lambda>spent.
         bind (query (\<lambda>d. find (\<lambda>x. ox_code_hash x = Some code_hash) (od_transactions d))) (\<lambda>row.
         case row of
           None \<Rightarrow> ret None
         | Some r \<Rightarrow>
             if \<not> spent then
               if ox_consumed_at r = None then ret None
               else bind (case ox_grant_id r of None \<Rightarrow> ret False | Some g \<Rightarrow> revoke_grant g) (\<lambda>_. throw Replay_error)
             else if ox_grant_id r = None \<or> ox_expires_at r \<le> now then ret None
             else ret (Some r)))))"

definition purge_expired_transactions :: "nat oio" where
  "purge_expired_transactions =
     bind (peek od_clock) (\<lambda>now.
     stmt (\<lambda>d. (rowcount (\<lambda>x. ox_expires_at x < now) (od_transactions d),
                put_transactions (delete_where (\<lambda>x. ox_expires_at x < now) (od_transactions d)) d)))"

section \<open>Token pairs and refresh\<close>

record issued_tokens =
  it_access_token :: string
  it_refresh_token :: string
  it_expires_in :: int
  it_scope :: "string list"

text \<open>The two inserts are committed together.\<close>

definition issue_tokens :: "(string \<Rightarrow> string) \<Rightarrow> string \<Rightarrow> string \<Rightarrow> string \<Rightarrow> issued_tokens oio" where
  "issue_tokens hmac access refresh grant_id =
     bind (query (\<lambda>d. find_row og_id (od_grants d) grant_id)) (\<lambda>row.
     case row of
       None \<Rightarrow> throw Unknown_grant
     | Some g \<Rightarrow>
         bind (peek od_clock) (\<lambda>now.
         let deadline = og_expires_at g;
             access_expiry = min (now + seconds ACCESS_TTL_SECONDS) deadline
         in bind (insert_into ot_token_hash od_tokens put_tokens
                (new_token (hash_token hmac ''access'' access) grant_id ''access'' now access_expiry)) (\<lambda>_.
            bind (insert_into ot_token_hash od_tokens put_tokens
                (new_token (hash_token hmac ''refresh'' refresh) grant_id ''refresh'' now deadline)) (\<lambda>_.
            ret \<lparr>it_access_token = access, it_refresh_token = refresh,
                 it_expires_in = max 0 (whole_seconds (access_expiry - now)), it_scope = og_scopes g\<rparr>))))"

definition redeem_refresh_token ::
  "(string \<Rightarrow> string) \<Rightarrow> string \<Rightarrow> string \<Rightarrow> string list option \<Rightarrow> oauth_grant option oio"
where
  "redeem_refresh_token hmac marker token requested_scopes =
     (let token_hash = hash_token hmac ''refresh'' token
      in bind (peek od_clock) (\<lambda>now.
         bind (query (token_row token_hash (\<lambda>t. ot_kind t = ''refresh''))) (\<lambda>row.
         case row of
           None \<Rightarrow> ret None
         | Some (t, g, c) \<Rightarrow>
             if ot_consumed_at t \<noteq> None then bind (revoke_grant (og_id g)) (\<lambda>_. throw Replay_error)
             else if ot_expires_at t \<le> now \<or> og_expires_at g \<le> now then ret None
             else if og_revoked_at g \<noteq> None \<or> ocl_disabled_at c \<noteq> None then ret None
             else if \<not> (case requested_scopes of None \<Rightarrow> True | Some req \<Rightarrow> set req \<subseteq> set (og_scopes g)) then throw Scope_error
             else bind (consume_refresh marker token_hash) (\<lambda>spent.
                  if spent then ret (Some g)
                  else bind (query (\<lambda>d. find_row ot_token_hash (od_tokens d) token_hash)) (\<lambda>after.
                       if (case after of None \<Rightarrow> False | Some t' \<Rightarrow> ot_consumed_at t' = None) then ret None
                       else bind (revoke_grant (og_id g)) (\<lambda>_. throw Replay_error))))))"

definition revoke_by_token :: "(string \<Rightarrow> string) \<Rightarrow> string \<Rightarrow> string \<Rightarrow> bool oio" where
  "revoke_by_token hmac token client_id =
     bind (query (\<lambda>d. case find (\<lambda>t. ot_token_hash t \<in> {hash_token hmac ''access'' token, hash_token hmac ''refresh'' token}
                                 \<and> find_row og_id (od_grants d) (ot_grant_id t) \<noteq> None) (od_tokens d) of
                       None \<Rightarrow> None
                     | Some t \<Rightarrow> find_row og_id (od_grants d) (ot_grant_id t))) (\<lambda>row.
     case row of
       None \<Rightarrow> ret False
     | Some g \<Rightarrow> if og_client_id g \<noteq> client_id then ret False else revoke_grant (og_id g))"

section \<open>What never changes back\<close>

definition same_grant :: "oauth_grant \<Rightarrow> oauth_grant \<Rightarrow> bool" where
  "same_grant g g' \<longleftrightarrow> og_id g' = og_id g \<and> og_client_id g' = og_client_id g \<and> og_user_id g' = og_user_id g
     \<and> og_scopes g' = og_scopes g \<and> og_resource g' = og_resource g \<and> og_expires_at g' = og_expires_at g
     \<and> (og_revoked_at g \<noteq> None \<longrightarrow> og_revoked_at g' = og_revoked_at g)"

definition same_token :: "oauth_token \<Rightarrow> oauth_token \<Rightarrow> bool" where
  "same_token t t' \<longleftrightarrow> ot_token_hash t' = ot_token_hash t \<and> ot_grant_id t' = ot_grant_id t \<and> ot_kind t' = ot_kind t
     \<and> ot_expires_at t' = ot_expires_at t
     \<and> (ot_consumed_at t \<noteq> None \<longrightarrow> ot_consumed_at t' = ot_consumed_at t \<and> ot_consumed_by t' = ot_consumed_by t)"

definition same_code :: "oauth_transaction \<Rightarrow> oauth_transaction \<Rightarrow> bool" where
  "same_code x x' \<longleftrightarrow> ox_grant_id x' = ox_grant_id x \<and> ox_client_id x' = ox_client_id x
     \<and> ox_redirect_uri x' = ox_redirect_uri x \<and> ox_code_challenge x' = ox_code_challenge x \<and> ox_expires_at x' = ox_expires_at x
     \<and> (ox_consumed_at x \<noteq> None \<longrightarrow> ox_consumed_at x' = ox_consumed_at x \<and> ox_consumed_by x' = ox_consumed_by x)"

definition code_rows :: "string \<Rightarrow> oauth_db \<Rightarrow> oauth_transaction list" where
  "code_rows h d = filter (\<lambda>x. ox_code_hash x = Some h) (od_transactions d)"

text \<open>
  \<open>later h d d'\<close>: what other requests may do to the store, as long as no new code with the digest \<open>h\<close> is
  minted. Clients, grants and tokens stay, grants and tokens keep their terms, revocations and
  consumptions are final, a transaction with the code \<open>h\<close> was one before with the same terms, and the
  clock does not go back.
\<close>

definition later :: "string \<Rightarrow> oauth_db \<Rightarrow> oauth_db \<Rightarrow> bool" where
  "later h d d' \<longleftrightarrow> od_clock d \<le> od_clock d'
     \<and> (\<forall>i. find_row ocl_id (od_clients d) i \<noteq> None \<longrightarrow> find_row ocl_id (od_clients d') i \<noteq> None)
     \<and> (\<forall>i g. find_row og_id (od_grants d) i = Some g \<longrightarrow> (\<exists>g'. find_row og_id (od_grants d') i = Some g' \<and> same_grant g g'))
     \<and> (\<forall>i t. find_row ot_token_hash (od_tokens d) i = Some t \<longrightarrow>
          (\<exists>t'. find_row ot_token_hash (od_tokens d') i = Some t' \<and> same_token t t'))
     \<and> (\<forall>x' \<in> set (code_rows h d'). \<exists>x \<in> set (code_rows h d). same_code x x')
     \<and> length (code_rows h d') \<le> length (code_rows h d)"

text \<open>The constraints of the schema for the code: the column is unique and the grant is a reference.\<close>

definition code_key :: "string \<Rightarrow> oauth_db \<Rightarrow> bool" where
  "code_key h d \<longleftrightarrow> length (code_rows h d) \<le> 1
     \<and> (\<forall>x \<in> set (code_rows h d). set_option (ox_grant_id x) \<subseteq> og_id ` set (od_grants d))"

definition unspent :: "string \<Rightarrow> oauth_db \<Rightarrow> bool" where
  "unspent h d \<longleftrightarrow> (\<exists>x \<in> set (code_rows h d). ox_consumed_at x = None)"

definition grant_revoked :: "string \<Rightarrow> oauth_db \<Rightarrow> bool" where
  "grant_revoked i d = (case find_row og_id (od_grants d) i of None \<Rightarrow> False | Some g \<Rightarrow> og_revoked_at g \<noteq> None)"

text \<open>A store with one approved transaction, its code unspent, and a token pair.\<close>

definition sample_client :: oauth_client where
  "sample_client = \<lparr>ocl_id = ''app'', ocl_kind = ''admin'', ocl_name = ''App'', ocl_redirect_uris = [''http://localhost/cb''],
     ocl_metadata_url = None, ocl_created_at = 0, ocl_disabled_at = None, ocl_metadata_fetched_at = None\<rparr>"

definition sample_grant :: oauth_grant where
  "sample_grant = \<lparr>og_id = ''g1'', og_client_id = ''app'', og_user_id = ''admin'', og_scopes = [''catalog:read'', ''jobs:read''],
     og_resource = ''https://tf/mcp'', og_label = [], og_created_at = 0, og_expires_at = days 30, og_revoked_at = None,
     og_last_used_at = None\<rparr>"

definition sample_transaction :: oauth_transaction where
  "sample_transaction = \<lparr>ox_id = ''t1'', ox_client_id = ''app'', ox_redirect_uri = ''http://localhost:90/cb'',
     ox_code_challenge = ''proof'', ox_scopes = [''catalog:read'', ''jobs:read''], ox_resource = ''https://tf/mcp'',
     ox_state = None, ox_nonce_hash = Some ''mcp-nonce:n'', ox_created_at = 0, ox_expires_at = seconds 600,
     ox_approved_at = Some 1, ox_grant_id = Some ''g1'', ox_code_hash = Some ''mcp-code:c'', ox_consumed_at = None,
     ox_consumed_by = None\<rparr>"

definition sample_store :: oauth_db where
  "sample_store = \<lparr>od_clock = seconds 5, od_users = [\<lparr>us_id = ''u1'', us_username = ''admin''\<rparr>], od_clients = [sample_client], od_grants = [sample_grant],
     od_tokens = [new_token ''mcp-access:a'' ''g1'' ''access'' 0 (days 1), new_token ''mcp-refresh:r'' ''g1'' ''refresh'' 0 (days 30)],
     od_transactions = [sample_transaction]\<rparr>"

section \<open>Facts\<close>

lemma same_grant_refl [simp]: "same_grant g g"
  by (simp add: same_grant_def)

lemma same_grant_trans: "same_grant g g' \<Longrightarrow> same_grant g' g'' \<Longrightarrow> same_grant g g''"
  by (auto simp: same_grant_def)

lemma same_token_refl [simp]: "same_token t t"
  by (simp add: same_token_def)

lemma same_token_trans: "same_token t t' \<Longrightarrow> same_token t' t'' \<Longrightarrow> same_token t t''"
  by (auto simp: same_token_def)

lemma same_code_refl [simp]: "same_code x x"
  by (simp add: same_code_def)

lemma same_code_trans: "same_code x x' \<Longrightarrow> same_code x' x'' \<Longrightarrow> same_code x x''"
  by (auto simp: same_code_def)

lemma later_refl [simp]: "later h d d"
  by (auto simp: later_def intro: same_code_refl)

lemma later_trans:
  assumes "later h d e" and "later h e f"
  shows "later h d f"
proof -
  have "\<exists>x \<in> set (code_rows h d). same_code x z" if "z \<in> set (code_rows h f)" for z
    using assms that same_code_trans unfolding later_def by meson
  moreover have "\<exists>g'. find_row og_id (od_grants f) i = Some g' \<and> same_grant g g'"
    if "find_row og_id (od_grants d) i = Some g" for i g
    using assms that same_grant_trans unfolding later_def by meson
  moreover have "\<exists>t'. find_row ot_token_hash (od_tokens f) i = Some t' \<and> same_token t t'"
    if "find_row ot_token_hash (od_tokens d) i = Some t" for i t
    using assms that same_token_trans unfolding later_def by meson
  moreover have "length (code_rows h f) \<le> length (code_rows h d)" using assms unfolding later_def by linarith
  ultimately show ?thesis using assms unfolding later_def by (meson order_trans)
qed

interpretation store: interleaving "later h" for h
  by unfold_locales (simp, rule later_trans)

lemma later_grants:
  assumes "\<And>g. P g \<Longrightarrow> same_grant g (f g)"
  shows "later h d (put_grants (update_where P f (od_grants d)) d)"
proof -
  have "og_id (f r) = og_id r" if "P r" for r using assms [OF that] by (simp add: same_grant_def)
  with assms show ?thesis by (auto simp: later_def find_row_update_where code_rows_def intro: same_code_refl)
qed

lemma later_tokens:
  assumes "\<And>t. P t \<Longrightarrow> same_token t (f t)"
  shows "later h d (put_tokens (update_where P f (od_tokens d)) d)"
proof -
  have "ot_token_hash (f r) = ot_token_hash r" if "P r" for r using assms [OF that] by (simp add: same_token_def)
  with assms show ?thesis by (auto simp: later_def find_row_update_where code_rows_def intro: same_code_refl)
qed

lemma later_insert_grant: "later h d (put_grants (od_grants d @ [g]) d)"
  by (auto simp: later_def code_rows_def intro: find_row_append_Some)

lemma later_insert_token: "later h d (put_tokens (od_tokens d @ [t]) d)"
  by (auto simp: later_def code_rows_def intro: find_row_append_Some)

lemma later_transactions:
  assumes "\<And>x'. x' \<in> set t \<Longrightarrow> ox_code_hash x' = Some h \<Longrightarrow> \<exists>x \<in> set (code_rows h d). same_code x x'"
    and "length (filter (\<lambda>x. ox_code_hash x = Some h) t) \<le> length (code_rows h d)"
  shows "later h d (put_transactions t d)"
  using assms by (auto simp: later_def code_rows_def)

lemma later_update_transactions:
  assumes "\<And>x. P x \<Longrightarrow> ox_code_hash (f x) = Some h \<Longrightarrow> ox_code_hash x = Some h \<and> same_code x (f x)"
  shows "later h d (put_transactions (update_where P f (od_transactions d)) d)"
proof (rule later_transactions)
  fix x' assume x': "x' \<in> set (update_where P f (od_transactions d))" "ox_code_hash x' = Some h"
  then obtain x where "x \<in> set (od_transactions d)" "x' = (if P x then f x else x)" by (auto simp: update_where_def)
  with assms [of x] x' show "\<exists>x \<in> set (code_rows h d). same_code x x'"
    by (cases "P x") (auto simp: code_rows_def intro: bexI [of _ x])
next
  have "length (filter (\<lambda>x. ox_code_hash x = Some h) (update_where P f t)) \<le> length (filter (\<lambda>x. ox_code_hash x = Some h) t)" for t
    using assms by (induction t) (auto simp: update_where_def)
  then show "length (filter (\<lambda>x. ox_code_hash x = Some h) (update_where P f (od_transactions d))) \<le> length (code_rows h d)"
    by (simp add: code_rows_def)
qed

lemma later_delete_transactions: "later h d (put_transactions (delete_where P (od_transactions d)) d)"
proof (rule later_transactions)
  have "length (filter (\<lambda>x. ox_code_hash x = Some h) (delete_where P t)) \<le> length (filter (\<lambda>x. ox_code_hash x = Some h) t)" for t
    by (induction t) (auto simp: delete_where_def)
  then show "length (filter (\<lambda>x. ox_code_hash x = Some h) (delete_where P (od_transactions d))) \<le> length (code_rows h d)"
    by (simp add: code_rows_def)
qed (auto simp: code_rows_def intro: same_code_refl)

lemma later_update_clients:
  assumes "\<And>c. P c \<Longrightarrow> ocl_id (f c) = ocl_id c"
  shows "later h d (put_clients (update_where P f (od_clients d)) d)"
  by (auto simp: later_def find_row_update_where assms code_rows_def intro: same_code_refl)

lemma later_insert_client: "later h d (put_clients (od_clients d @ [c]) d)"
proof -
  have "find_row ocl_id (od_clients d @ [c]) i \<noteq> None" if "find_row ocl_id (od_clients d) i \<noteq> None" for i
    using that find_row_append_Some [of ocl_id "od_clients d"] by blast
  then show ?thesis by (auto simp: later_def code_rows_def)
qed

text \<open>Every function of the store stays within \<open>later\<close>, approvals that mint the code itself excepted.\<close>

lemma follows_update:
  assumes "\<And>d. later h d (put (update_where P f (get d)) d)"
  shows "follows_as (later h) (update_in get put P f)"
  unfolding update_in_def by (rule store.follows_stmt) (simp add: assms)

lemma follows_insert:
  assumes "\<And>d. later h d (put (get d @ [r]) d)"
  shows "follows_as (later h) (insert_into key get put r)"
  unfolding insert_into_def by (intro store.io_rules store.follows_stmt) (simp add: assms)

lemma follows_insert_token: "follows_as (later h) (insert_into ot_token_hash od_tokens put_tokens t)"
  by (rule follows_insert) (rule later_insert_token)

lemma follows_clients:
  "follows_as (later h) (ensure_client i k n r m)" "follows_as (later h) (disable_client i)" "follows_as (later h) (get_client i)"
  "follows_as (later h) list_clients" "follows_as (later h) (allow_cimd_client u n)" "follows_as (later h) (create_admin_client x n r)"
  "follows_as (later h) (cache_client_document i n r)"
  unfolding ensure_client_def disable_client_def get_client_def list_clients_def allow_cimd_client_def create_admin_client_def
    cache_client_document_def
  by (intro store.io_rules store.follows_stmt follows_update later_update_clients;
      simp add: later_insert_client later_update_clients)+

lemma follows_revoke: "follows_as (later h) (revoke_grant i)"
  unfolding revoke_grant_def by (intro store.io_rules follows_update later_grants) (simp add: same_grant_def)

lemma follows_create_grant: "follows_as (later h) (create_grant i c u s r l e)"
  unfolding create_grant_def by (intro store.io_rules follows_insert later_insert_grant)

lemma follows_access: "follows_as (later h) (issue_access_token hm t g n)"
  unfolding issue_access_token_def by (intro store.io_rules follows_insert_token)

lemma follows_manual: "follows_as (later h) (create_manual_grant hm i t l s r u e)"
  unfolding create_manual_grant_def by (intro store.io_rules follows_clients follows_create_grant follows_access)

lemma follows_verify: "follows_as (later h) (verify_access_token hm t r)"
  unfolding verify_access_token_def
  by (intro store.io_rules follows_update later_grants) (simp add: same_grant_def)

lemma follows_get_transaction: "follows_as (later h) (get_transaction i)"
  unfolding get_transaction_def by (intro store.io_rules)

lemma follows_create_transaction: "follows_as (later h) (create_transaction i c u ch s r st)"
  unfolding create_transaction_def
  by (intro store.io_rules follows_insert later_transactions) (auto simp: code_rows_def)

lemma follows_arm: "follows_as (later h) (arm_consent hm n i)"
  unfolding arm_consent_def by (intro store.io_rules follows_update later_update_transactions) (simp_all add: same_code_def)

lemma follows_deny: "follows_as (later h) (deny_transaction hm i n)"
  unfolding deny_transaction_def open_with_nonce_def
  by (intro store.io_rules follows_update later_update_transactions) (simp_all add: same_code_def)

lemma follows_record_code: "c \<noteq> h \<Longrightarrow> follows_as (later h) (record_code i g c e)"
  unfolding record_code_def
  by (intro store.io_rules store.follows_stmt) (auto intro!: later_update_transactions simp: same_code_def)

lemma follows_approve:
  assumes "hash_token hm ''code'' code \<noteq> h"
  shows "follows_as (later h) (approve_transaction hm i code x n u)"
  unfolding approve_transaction_def open_with_nonce_def
  by (intro store.io_rules follows_update later_update_transactions follows_get_transaction follows_create_grant
      follows_record_code [OF assms]) (simp_all add: same_code_def)

lemma follows_consume: "follows_as (later h) (consume_code m c)" "follows_as (later h) (consume_refresh m c)"
  unfolding consume_code_def consume_refresh_def
  by (intro store.io_rules follows_update later_update_transactions later_tokens; simp add: same_code_def same_token_def)+

lemma follows_redeem_code: "follows_as (later h) (redeem_code hm m c)"
  unfolding redeem_code_def by (intro store.io_rules follows_consume follows_revoke)

lemma follows_purge: "follows_as (later h) purge_expired_transactions"
  unfolding purge_expired_transactions_def
  by (intro store.io_rules store.follows_stmt) (simp add: later_delete_transactions)

lemma follows_issue: "follows_as (later h) (issue_tokens hm a r g)"
  unfolding issue_tokens_def by (intro store.io_rules follows_insert_token)

lemma follows_redeem_refresh: "follows_as (later h) (redeem_refresh_token hm m t s)"
  unfolding redeem_refresh_token_def by (intro store.io_rules follows_consume follows_revoke)

lemma follows_revoke_by_token: "follows_as (later h) (revoke_by_token hm t c)"
  unfolding revoke_by_token_def by (intro store.io_rules follows_revoke)

section \<open>Spending a credential\<close>

lemma later_unspent: "later h d d' \<Longrightarrow> \<not> unspent h d \<Longrightarrow> \<not> unspent h d'"
  unfolding later_def unspent_def same_code_def by metis

lemma later_revoked: "later h d d' \<Longrightarrow> grant_revoked i d \<Longrightarrow> grant_revoked i d'"
  unfolding later_def grant_revoked_def same_grant_def by (fastforce split: option.splits)

lemma later_grant:
  "later h d d' \<Longrightarrow> find_row og_id (od_grants d) i = Some g \<Longrightarrow>
     \<exists>g'. find_row og_id (od_grants d') i = Some g' \<and> same_grant g g'"
  unfolding later_def by blast

lemma later_token:
  "later h d d' \<Longrightarrow> find_row ot_token_hash (od_tokens d) i = Some t \<Longrightarrow>
     \<exists>t'. find_row ot_token_hash (od_tokens d') i = Some t' \<and> same_token t t'"
  unfolding later_def by blast

lemma later_code: "later h d d' \<Longrightarrow> x' \<in> set (code_rows h d') \<Longrightarrow> \<exists>x \<in> set (code_rows h d). same_code x x'"
  unfolding later_def by blast

lemma find_code_row:
  "find (\<lambda>x. ox_code_hash x = Some h) (od_transactions d) = (case code_rows h d of [] \<Rightarrow> None | x # _ \<Rightarrow> Some x)"
  unfolding code_rows_def by (rule find_filter)

lemma revoke_grant_revokes:
  assumes "interferes_as (later h) es" and "find_row og_id (od_grants d) i \<noteq> None" and "revoke_grant i es d = (r, es', d')"
  shows "grant_revoked i d'" and "\<exists>b. r = Inr b"
proof -
  let ?d = "next_state es d"
  obtain g where g: "find_row og_id (od_grants ?d) i = Some g"
    using assms(2) later_grant [OF store.reach_next [OF assms(1), of d]] by blast
  from assms(3) have "d' = put_grants (update_where (\<lambda>g. og_id g = i \<and> og_revoked_at g = None)
      (\<lambda>g. g\<lparr>og_revoked_at := Some (od_clock d)\<rparr>) (od_grants ?d)) ?d" and "\<exists>b. r = Inr b"
    by (auto simp: revoke_grant_def update_in_def bind_simps ret_def)
  with g find_row_SomeD [OF g] show "grant_revoked i d'" "\<exists>b. r = Inr b"
    by (simp_all add: grant_revoked_def find_row_update_where)
qed

lemma consume_code_spends:
  assumes "interferes_as (later h) es" and "consume_code m h es d = (r, es', d')"
  shows "\<not> unspent h d'" and "\<exists>b. r = Inr b \<and> (b \<longrightarrow> unspent h (next_state es d))"
proof -
  let ?d = "next_state es d"
  let ?P = "\<lambda>x. ox_code_hash x = Some h \<and> ox_consumed_at x = None"
  let ?e = "put_transactions (update_where ?P (\<lambda>x. x\<lparr>ox_consumed_at := Some (od_clock d), ox_consumed_by := Some m\<rparr>)
      (od_transactions ?d)) ?d"
  have "\<not> unspent h ?e" by (auto simp: unspent_def code_rows_def set_update_where split: if_splits)
  moreover have "later h ?e (next_state (List.tl es) ?e)"
    by (rule store.reach_next [OF interferes_tl [OF assms(1)]])
  ultimately have "\<not> unspent h ?e" "\<not> unspent h (next_state (List.tl es) ?e)" using later_unspent by blast+
  moreover have "rowcount ?P (od_transactions ?d) \<noteq> 0 \<longleftrightarrow> unspent h ?d"
    by (auto simp: unspent_def code_rows_def rowcount_zero)
  ultimately show "\<not> unspent h d'" "\<exists>b. r = Inr b \<and> (b \<longrightarrow> unspent h ?d)"
    using assms(2) by (auto simp: consume_code_def update_in_def bind_simps ret_def split: if_splits)
qed

text \<open>The redemption of a code after its conditional update.\<close>

lemma redeem_code_cases:
  assumes es: "interferes_as (later h) es" and h: "h = hash_token hm ''code'' c"
    and r: "redeem_code hm m c es d = (r, es', d')"
  obtains (absent) "code_rows h d' = []" "r = Inr None" "\<not> unspent h d'"
    | (replay) x es2 d2 where "x \<in> set (code_rows h d2)" "interferes_as (later h) es2" "later h d d2" "ox_consumed_at x \<noteq> None"
        "bind (case ox_grant_id x of None \<Rightarrow> ret False | Some g \<Rightarrow> revoke_grant g) (\<lambda>_. throw Replay_error) es2 d2 = (r, es', d')"
    | (spent) x where "x \<in> set (code_rows h d')" "later h d d'" "unspent h (next_state es d)" "\<not> unspent h d'"
        "r = Inr (if ox_grant_id x = None \<or> ox_expires_at x \<le> od_clock d then None else Some x)"
proof -
  obtain s es1 d1 where c: "consume_code m h es d = (s, es1, d1)" by (rule prod_cases3)
  from consume_code_spends [OF es c] obtain b where b: "s = Inr b" "b \<longrightarrow> unspent h (next_state es d)" "\<not> unspent h d1"
    by blast
  have es1: "interferes_as (later h) es1" and d1: "later h d d1"
    by (rule store.follows_reach [OF follows_consume(1) es c])+
  let ?d = "next_state es1 d1"
  have d: "later h d ?d" "\<not> unspent h ?d"
    using later_trans [OF d1] store.reach_next [OF es1] later_unspent b(3) by blast+
  note step = redeem_code_def Let_def bind_simps bind_eq [where m = "consume_code m h", OF c [unfolded b(1)]] find_code_row h [symmetric]
  show thesis
  proof (cases "code_rows h ?d")
    case Nil
    with r d show thesis by (intro absent) (simp_all add: step ret_def)
  next
    case (Cons x xs)
    then have x: "x \<in> set (code_rows h ?d)" by simp
    then have *: "ox_consumed_at x \<noteq> None" using d(2) by (auto simp: unspent_def)
    show thesis
    proof (cases b)
      case True
      with r Cons have "r = Inr (if ox_grant_id x = None \<or> ox_expires_at x \<le> od_clock d then None else Some x)" "d' = ?d"
        by (auto simp: step ret_def split: if_splits)
      with True b d x show thesis by (intro spent) simp_all
    next
      case False
      with r Cons * have "bind (case ox_grant_id x of None \<Rightarrow> ret False | Some g \<Rightarrow> revoke_grant g) (\<lambda>_. throw Replay_error)
          (List.tl es1) ?d = (r, es', d')"
        by (simp add: step)
      with d x * interferes_tl [OF es1] show thesis by (intro replay)
    qed
  qed
qed

lemma consume_refresh_spends:
  assumes es: "interferes_as (later h) es" and r: "consume_refresh m k es d = (r, es', d')"
    and t: "find_row ot_token_hash (od_tokens d) k = Some t" "ot_kind t = ''refresh''"
  shows "\<exists>t'. find_row ot_token_hash (od_tokens d') k = Some t' \<and> same_token t t' \<and> ot_consumed_at t' \<noteq> None" and "\<exists>b. r = Inr b"
proof -
  let ?d = "next_state es d"
  let ?P = "\<lambda>t. ot_token_hash t = k \<and> ot_consumed_at t = None \<and> ot_kind t = ''refresh''"
  let ?f = "\<lambda>t. t\<lparr>ot_consumed_at := Some (od_clock d), ot_consumed_by := Some m\<rparr>"
  let ?e = "put_tokens (update_where ?P ?f (od_tokens ?d)) ?d"
  obtain t1 where t1: "find_row ot_token_hash (od_tokens ?d) k = Some t1" "same_token t t1"
    using later_token [OF store.reach_next [OF es, of d] t(1)] by blast
  let ?t = "if ?P t1 then ?f t1 else t1"
  have e: "find_row ot_token_hash (od_tokens ?e) k = Some ?t" using t1 by (simp add: find_row_update_where)
  have spent: "same_token t1 ?t" "ot_consumed_at ?t \<noteq> None"
    using t(2) t1 find_row_SomeD [OF t1(1)] by (auto simp: same_token_def)
  obtain t2 where t2: "find_row ot_token_hash (od_tokens (next_state (List.tl es) ?e)) k = Some t2" "same_token ?t t2"
    using later_token [OF store.reach_next [OF interferes_tl [OF es], of ?e] e] by blast
  have "d' = ?e \<or> d' = next_state (List.tl es) ?e" and v: "\<exists>b. r = Inr b"
    using r by (auto simp: consume_refresh_def update_in_def bind_simps ret_def split: if_splits)
  moreover have "same_token t ?t" using same_token_trans [OF t1(2) spent(1)] .
  moreover have "same_token t t2" "ot_consumed_at t2 \<noteq> None"
    using same_token_trans [OF \<open>same_token t ?t\<close> t2(2)] t2(2) spent(2) by (auto simp: same_token_def)
  ultimately show "\<exists>t'. find_row ot_token_hash (od_tokens d') k = Some t' \<and> same_token t t' \<and> ot_consumed_at t' \<noteq> None"
    using e t2(1) spent(2) by blast
  show "\<exists>b. r = Inr b" by (rule v)
qed

lemma token_row_SomeD:
  assumes "token_row k P d = Some (t, g, c)"
  shows "find_row ot_token_hash (od_tokens d) k = Some t" "P t"
    "find_row og_id (od_grants d) (ot_grant_id t) = Some g" "find_row ocl_id (od_clients d) (og_client_id g) = Some c" "og_id g = ot_grant_id t"
  using assms by (auto simp: token_row_def dest: find_row_SomeD split: option.splits if_splits)

lemma later_token_row:
  assumes "later h d d'" and "token_row k P d = Some (t, g, c)"
    and "\<And>t'. same_token t t' \<Longrightarrow> P t'"
  shows "\<exists>t' g' c'. token_row k P d' = Some (t', g', c') \<and> same_token t t' \<and> same_grant g g'"
proof -
  note row = token_row_SomeD [OF assms(2)]
  obtain t' where t': "find_row ot_token_hash (od_tokens d') k = Some t'" "same_token t t'"
    using later_token [OF assms(1) row(1)] by blast
  obtain g' where g': "find_row og_id (od_grants d') (ot_grant_id t) = Some g'" "same_grant g g'"
    using later_grant [OF assms(1) row(3)] by blast
  obtain c' where "find_row ocl_id (od_clients d') (og_client_id g) = Some c'"
    using assms(1) row(4) unfolding later_def by fastforce
  moreover have "ot_grant_id t' = ot_grant_id t" "og_client_id g' = og_client_id g"
    using t'(2) g'(2) by (auto simp: same_token_def same_grant_def)
  ultimately show ?thesis using assms(3) t' g' by (simp add: token_row_def)
qed

text \<open>A second presentation of a refresh token, and a successful one.\<close>

lemma spent_refresh_is_replay:
  assumes es: "interferes_as (later h) es" and r: "redeem_refresh_token hm m c req es d = (r, es', d')"
    and t: "token_row (hash_token hm ''refresh'' c) (\<lambda>t. ot_kind t = ''refresh'') d = Some (t, g, cl)" "ot_consumed_at t \<noteq> None"
  shows "r = Inl Replay_error" and "grant_revoked (og_id g) d'"
proof -
  obtain t' g' c' where row: "token_row (hash_token hm ''refresh'' c) (\<lambda>t. ot_kind t = ''refresh'') (next_state es d) = Some (t', g', c')"
      and same: "same_token t t'" "same_grant g g'"
    using later_token_row [OF store.reach_next [OF es, of d] t(1)] token_row_SomeD(2) [OF t(1)] by (auto simp: same_token_def)
  obtain v es1 d1 where v: "revoke_grant (og_id g) (List.tl es) (next_state es d) = (v, es1, d1)" by (rule prod_cases3)
  have ids: "og_id g' = og_id g" "ot_consumed_at t' \<noteq> None" using same t(2) by (auto simp: same_grant_def same_token_def)
  have "find_row og_id (od_grants (next_state es d)) (og_id g) \<noteq> None"
    using token_row_SomeD(3,5) [OF row] ids by simp
  from revoke_grant_revokes [OF interferes_tl [OF es] this v] obtain b where "v = Inr b" "grant_revoked (og_id g) d1" by blast
  with r row ids show "r = Inl Replay_error" "grant_revoked (og_id g) d'"
    by (simp_all add: redeem_refresh_token_def Let_def bind_simps bind_eq [where m = "revoke_grant (og_id g)", OF v [unfolded \<open>v = Inr b\<close>]]
        throw_def)
qed

lemma redeem_refresh_Some:
  assumes es: "interferes_as (later h) es" and r: "redeem_refresh_token hm m c req es d = (Inr (Some g), es', d')"
  obtains t cl where "token_row (hash_token hm ''refresh'' c) (\<lambda>t. ot_kind t = ''refresh'') (next_state es d) = Some (t, g, cl)"
    "ot_consumed_at t = None" "od_clock d < ot_expires_at t" "od_clock d < og_expires_at g" "og_revoked_at g = None"
    "ocl_disabled_at cl = None" "\<forall>q. req = Some q \<longrightarrow> set q \<subseteq> set (og_scopes g)"
    "consume_refresh m (hash_token hm ''refresh'' c) (List.tl es) (next_state es d) = (Inr True, es', d')"
proof -
  let ?k = "hash_token hm ''refresh'' c"
  let ?d = "next_state es d"
  note step = redeem_refresh_token_def Let_def bind_simps
  obtain t g' cl where row: "token_row ?k (\<lambda>t. ot_kind t = ''refresh'') ?d = Some (t, g', cl)"
    using r by (cases "token_row ?k (\<lambda>t. ot_kind t = ''refresh'') ?d") (auto simp: step ret_def)
  from r row have "ot_consumed_at t = None" "od_clock d < ot_expires_at t" "od_clock d < og_expires_at g'" "og_revoked_at g' = None"
      "ocl_disabled_at cl = None" "\<forall>q. req = Some q \<longrightarrow> set q \<subseteq> set (og_scopes g')"
      and c: "bind (consume_refresh m ?k) (\<lambda>spent. if spent then ret (Some g')
          else bind (query (\<lambda>d. find_row ot_token_hash (od_tokens d) ?k)) (\<lambda>after.
            if (case after of None \<Rightarrow> False | Some t' \<Rightarrow> ot_consumed_at t' = None) then ret None
            else bind (revoke_grant (og_id g')) (\<lambda>_. throw Replay_error))) (List.tl es) ?d = (Inr (Some g), es', d')"
    by (auto simp: step ret_def throw_never bind_throw_never split: if_splits option.splits)
  moreover from c have "g' = g" "consume_refresh m ?k (List.tl es) ?d = (Inr True, es', d')"
    by (auto elim!: bind_Inr simp: ret_def query_eq bind_throw_never split: if_splits)
  ultimately show thesis using that row by blast
qed

lemma later_code_key:
  assumes "later h d d'" and "code_key h d"
  shows "code_key h d'"
proof -
  have "length (code_rows h d') \<le> 1" using assms by (auto simp: later_def code_key_def)
  moreover have "i \<in> og_id ` set (od_grants d')" if x': "x' \<in> set (code_rows h d')" "ox_grant_id x' = Some i" for x' i
  proof -
    obtain x where "x \<in> set (code_rows h d)" "ox_grant_id x = Some i"
      using later_code [OF assms(1) x'(1)] x'(2) by (auto simp: same_code_def)
    with assms(2) have "i \<in> og_id ` set (od_grants d)" by (force simp: code_key_def)
    then obtain g where "find_row og_id (od_grants d) i = Some g" by (cases "find_row og_id (od_grants d) i") (auto simp: find_row_None_iff)
    from later_grant [OF assms(1) this] find_row_SomeD show ?thesis by (metis imageI)
  qed
  ultimately show ?thesis by (auto simp: code_key_def subset_iff)
qed

lemma code_key_unique: "code_key h d \<Longrightarrow> x \<in> set (code_rows h d) \<Longrightarrow> y \<in> set (code_rows h d) \<Longrightarrow> x = y"
  by (cases "code_rows h d") (auto simp: code_key_def)

text \<open>A spent code presented again.\<close>

lemma spent_code_is_replay:
  assumes h: "h = hash_token hm ''code'' code" and key: "code_key h d" and es: "interferes_as (later h) es"
    and spent: "\<not> unspent h d" and gid: "\<And>x. x \<in> set (code_rows h d) \<Longrightarrow> ox_grant_id x = Some i"
    and r: "redeem_code hm m code es d = (r, es', d')"
  shows "r = Inr None \<and> code_rows h d' = [] \<or> r = Inl Replay_error \<and> grant_revoked i d'"
  using es h r
proof (cases rule: redeem_code_cases)
  case absent
  then show ?thesis by simp
next
  case (replay x es2 d2)
  have i: "ox_grant_id x = Some i" using later_code [OF replay(3,1)] gid by (auto simp: same_code_def)
  from later_code_key [OF replay(3) key] replay(1) have "set_option (ox_grant_id x) \<subseteq> og_id ` set (od_grants d2)"
    by (simp add: code_key_def)
  with i have ref: "find_row og_id (od_grants d2) i \<noteq> None" by (simp add: find_row_None_iff)
  obtain v es3 d3 where v: "revoke_grant i es2 d2 = (v, es3, d3)" by (rule prod_cases3)
  from revoke_grant_revokes [OF replay(2) ref v] obtain b where "v = Inr b" "grant_revoked i d3" by blast
  with replay(5) i v show ?thesis by (simp add: bind_def throw_def)
next
  case (spent x)
  then show ?thesis using later_unspent [OF store.reach_next [OF es]] assms(4) by blast
qed

section \<open>Properties\<close>

text \<open>
  C8. A code buys one grant, once: a redemption that succeeds found the code unspent, unexpired and
  with its grant; whatever other requests do afterwards, presenting the code again never succeeds, and
  it ends the grant as long as the transaction is still stored.
\<close>

theorem code_is_single_use:
  assumes h: "h = hash_token hm ''code'' code" and key: "code_key h d" and es: "interferes_as (later h) es"
    and first: "redeem_code hm m code es d = (Inr (Some x), es', d')"
    and e: "later h d' e" and es2: "interferes_as (later h) es2" and second: "redeem_code hm m2 code es2 e = (r, es3, e')"
  shows "unspent h (next_state es d) \<and> \<not> unspent h d' \<and> od_clock d < ox_expires_at x \<and> ox_code_hash x = Some h
     \<and> (\<exists>i. ox_grant_id x = Some i
          \<and> (r = Inr None \<and> code_rows h e' = [] \<or> r = Inl Replay_error \<and> grant_revoked i e'))"
  using es h first
proof (cases rule: redeem_code_cases)
  case (spent y)
  then have y: "y = x" "ox_grant_id x \<noteq> None" "od_clock d < ox_expires_at x" by (auto split: if_splits)
  then obtain i where i: "ox_grant_id x = Some i" by blast
  have "later h d d'" by (rule store.follows_reach(1) [OF follows_redeem_code es first])
  note keys = later_code_key [OF this key] later_code_key [OF e later_code_key [OF this key]]
  have "ox_grant_id z = Some i" if "z \<in> set (code_rows h e)" for z
    using later_code [OF e that] code_key_unique [OF keys(1)] spent(1) y(1) i by (metis same_code_def)
  from spent_code_is_replay [OF h keys(2) es2 later_unspent [OF e spent(4)] this second] spent y i
  show ?thesis by (auto simp: code_rows_def)
next
  case (replay y es4 d4)
  then show ?thesis by (simp add: bind_throw_never)
qed simp

theorem code_is_single_use_witness:
  "case redeem_code (\<lambda>s. s) ''m1'' ''c'' [] sample_store of
     (r, _, d) \<Rightarrow> r = Inr (Some (sample_transaction\<lparr>ox_consumed_at := Some (seconds 5), ox_consumed_by := Some ''m1''\<rparr>))
       \<and> (case redeem_code (\<lambda>s. s) ''m2'' ''c'' [] d of (r, _, e) \<Rightarrow> r = Inl Replay_error \<and> grant_revoked ''g1'' e)"
proof -
  define x where "x = sample_transaction\<lparr>ox_consumed_at := Some (seconds 5), ox_consumed_by := Some ''m1''\<rparr>"
  obtain r1 es d where 1: "redeem_code (\<lambda>s. s) ''m1'' ''c'' [] sample_store = (r1, es, d)" by (rule prod_cases3)
  moreover have "fst (redeem_code (\<lambda>s. s) ''m1'' ''c'' [] sample_store) = Inr (Some x)" unfolding x_def by code_simp
  ultimately have first: "redeem_code (\<lambda>s. s) ''m1'' ''c'' [] sample_store = (Inr (Some x), es, d)" by simp
  obtain r es3 e where second: "redeem_code (\<lambda>s. s) ''m2'' ''c'' [] d = (r, es3, e)" by (rule prod_cases3)
  have h: "''mcp-code:c'' = hash_token (\<lambda>s. s) ''code'' ''c''" by code_simp
  have key: "code_key ''mcp-code:c'' sample_store" by code_simp
  have quiet: "interferes_as (later ''mcp-code:c'') []" by (simp add: interferes_as_def)
  have "fst (redeem_code (\<lambda>s. s) ''m2'' ''c'' [] (snd (snd (redeem_code (\<lambda>s. s) ''m1'' ''c'' [] sample_store)))) \<noteq> Inr None"
    by code_simp
  with 1 second have "r \<noteq> Inr None" by simp
  moreover have "ox_grant_id x = Some ''g1''" unfolding x_def by code_simp
  ultimately show ?thesis
    using code_is_single_use [OF h key quiet first later_refl quiet second] second by (auto simp: first x_def)
qed

text \<open>
  What overlapping requests do to the store: anything that follows \<open>later\<close>, and the spending step of
  another redemption, as the code performs it.
\<close>

definition overlaps :: "string \<Rightarrow> (oauth_db \<Rightarrow> oauth_db) \<Rightarrow> bool" where
  "overlaps h g \<longleftrightarrow> (\<forall>s. later h s (g s)) \<or> (\<exists>m k. g = (\<lambda>s. snd (snd (consume_refresh m k [] s))))"

lemma overlaps_later: "overlaps h g \<Longrightarrow> later h s (g s)"
proof (unfold overlaps_def, elim disjE exE)
  fix m k
  assume g: "g = (\<lambda>s. snd (snd (consume_refresh m k [] s)))"
  obtain r es' d' where c: "consume_refresh m k [] s = (r, es', d')" by (rule prod_cases3)
  have "interferes_as (later h) []" by (simp add: interferes_as_def)
  from store.follows_reach(1) [OF follows_consume(2) this c] show "later h s (g s)" by (simp add: g c)
qed simp

lemma overlaps_fold: "\<forall>g \<in> set steps. overlaps h g \<Longrightarrow> later h d (fold (\<lambda>g. g) steps d)"
  by (induction steps arbitrary: d) (auto intro: later_refl later_trans overlaps_later)

text \<open>A successful redemption ends right after it read its own marker back.\<close>

lemma redeemed_marker:
  assumes "redeem_refresh_token hm m token req es d = (Inr (Some g), es', d')"
  shows "\<exists>t. find_row ot_token_hash (od_tokens d') (hash_token hm ''refresh'' token) = Some t \<and> ot_consumed_by t = Some m"
proof -
  from assms obtain es1 d1 where "consume_refresh m (hash_token hm ''refresh'' token) es1 d1 = (Inr True, es', d')"
    by (auto simp: redeem_refresh_token_def Let_def bind_simps throw_never bind_throw_never ret_def query_eq
        split: option.splits if_splits elim!: bind_Inr)
  then show ?thesis
    by (auto simp: consume_refresh_def update_in_def bind_simps ret_def split: if_splits option.splits)
qed

text \<open>
  C20. A refresh token works once. A use that succeeds found it unspent, inside its deadline, its grant
  live and wide enough for the scopes asked, its client enabled. Whatever other requests do, a use that
  starts after it is answered as a replay and ends the grant. And of two uses that overlap in any way
  only one succeeds: let the other end at any later moment, with any statements of other requests and
  any spending steps of redemptions in between, and with its own run interleaved with everything from
  any state; if it succeeded too, it would carry the same marker, and every call draws a fresh one.
\<close>

theorem refresh_token_is_single_use:
  assumes es: "interferes_as (later h) es"
    and first: "redeem_refresh_token hm m token req es d = (Inr (Some g), es', d')"
  shows "(\<exists>t cl. token_row (hash_token hm ''refresh'' token) (\<lambda>t. ot_kind t = ''refresh'') (next_state es d) = Some (t, g, cl)
        \<and> ot_consumed_at t = None \<and> od_clock d < ot_expires_at t \<and> ocl_disabled_at cl = None)
     \<and> og_revoked_at g = None \<and> od_clock d < og_expires_at g \<and> (\<forall>q. req = Some q \<longrightarrow> set q \<subseteq> set (og_scopes g))
     \<and> (\<forall>m2 req2 e es2 r es3 e'. later h d' e \<longrightarrow> interferes_as (later h) es2
          \<longrightarrow> redeem_refresh_token hm m2 token req2 es2 e = (r, es3, e')
          \<longrightarrow> r = Inl Replay_error \<and> grant_revoked (og_id g) e')
     \<and> (\<forall>m2 req2 d2 es2 g2 es3 steps. (\<forall>g \<in> set steps. overlaps h g)
          \<longrightarrow> redeem_refresh_token hm m2 token req2 es2 d2 = (Inr (Some g2), es3, fold (\<lambda>g. g) steps d')
          \<longrightarrow> m2 = m)"
proof -
  let ?k = "hash_token hm ''refresh'' token"
  let ?P = "\<lambda>t. ot_kind t = ''refresh''"
  obtain t cl where row: "token_row ?k ?P (next_state es d) = Some (t, g, cl)" "ot_consumed_at t = None"
      "od_clock d < ot_expires_at t"
      and live: "od_clock d < og_expires_at g" "og_revoked_at g = None" "ocl_disabled_at cl = None"
        "\<forall>q. req = Some q \<longrightarrow> set q \<subseteq> set (og_scopes g)"
      and c: "consume_refresh m ?k (List.tl es) (next_state es d) = (Inr True, es', d')"
    by (rule redeem_refresh_Some [OF es first])
  note kind = token_row_SomeD(2) [OF row(1)]
  from later_token_row [OF store.follows_reach(1) [OF follows_consume(2) interferes_tl [OF es] c] row(1)] kind
  obtain t1 g1 c1 where row1: "token_row ?k ?P d' = Some (t1, g1, c1)" and same1: "same_grant g g1"
    by (auto simp: same_token_def)
  from consume_refresh_spends(1) [OF interferes_tl [OF es] c token_row_SomeD(1) [OF row(1)] kind] token_row_SomeD(1) [OF row1]
  have spent: "ot_consumed_at t1 \<noteq> None" by simp
  from redeemed_marker [OF first] token_row_SomeD(1) [OF row1] have marked: "ot_consumed_by t1 = Some m" by auto
  have replay: "r = Inl Replay_error \<and> grant_revoked (og_id g) e'"
    if e: "later h d' e" and es2: "interferes_as (later h) es2"
      and second: "redeem_refresh_token hm m2 token req2 es2 e = (r, es3, e')" for m2 req2 e es2 r es3 e'
  proof -
    from later_token_row [OF e row1] token_row_SomeD(2) [OF row1]
    obtain t2 g2 c2 where row2: "token_row ?k ?P e = Some (t2, g2, c2)" and same2: "same_token t1 t2" "same_grant g1 g2"
      by (auto simp: same_token_def)
    then have "ot_consumed_at t2 \<noteq> None" "og_id g2 = og_id g" using spent same1 by (auto simp: same_token_def same_grant_def)
    with spent_refresh_is_replay [OF es2 second row2] show ?thesis by simp
  qed
  have one: "m2 = m"
    if steps: "\<forall>g \<in> set steps. overlaps h g"
      and other: "redeem_refresh_token hm m2 token req2 es2 d2 = (Inr (Some g2), es3, fold (\<lambda>g. g) steps d')"
    for m2 req2 d2 es2 g2 es3 steps
  proof -
    obtain t2 where "find_row ot_token_hash (od_tokens (fold (\<lambda>g. g) steps d')) ?k = Some t2" "same_token t1 t2"
      using later_token [OF overlaps_fold [OF steps] token_row_SomeD(1) [OF row1]] by blast
    with redeemed_marker [OF other] spent marked show ?thesis by (auto simp: same_token_def)
  qed
  have found: "\<exists>t cl. token_row ?k ?P (next_state es d) = Some (t, g, cl)
      \<and> ot_consumed_at t = None \<and> od_clock d < ot_expires_at t \<and> ocl_disabled_at cl = None"
    using row live(3) by blast
  show ?thesis
    by (intro conjI found live(1,2,4)) ((intro allI impI, rule replay; assumption), (intro allI impI, rule one; assumption))
qed

theorem refresh_token_is_single_use_witness:
  "case redeem_refresh_token (\<lambda>s. s) ''m1'' ''r'' (Some [''jobs:read'']) [] sample_store of
     (r, _, d) \<Rightarrow> r = Inr (Some sample_grant)
       \<and> (case redeem_refresh_token (\<lambda>s. s) ''m2'' ''r'' None [] d of (r, _, e) \<Rightarrow> r = Inl Replay_error \<and> grant_revoked ''g1'' e)"
proof -
  obtain r1 es d where "redeem_refresh_token (\<lambda>s. s) ''m1'' ''r'' (Some [''jobs:read'']) [] sample_store = (r1, es, d)"
    by (rule prod_cases3)
  moreover have "fst (redeem_refresh_token (\<lambda>s. s) ''m1'' ''r'' (Some [''jobs:read'']) [] sample_store) = Inr (Some sample_grant)"
    by code_simp
  ultimately have first: "redeem_refresh_token (\<lambda>s. s) ''m1'' ''r'' (Some [''jobs:read'']) [] sample_store = (Inr (Some sample_grant), es, d)"
    by simp
  obtain r es3 e where second: "redeem_refresh_token (\<lambda>s. s) ''m2'' ''r'' None [] d = (r, es3, e)" by (rule prod_cases3)
  have quiet: "interferes_as (later ''other'') []" by (simp add: interferes_as_def)
  have "og_id sample_grant = ''g1''" by (simp add: sample_grant_def)
  with refresh_token_is_single_use [OF quiet first, THEN conjunct2, THEN conjunct2, THEN conjunct2, THEN conjunct2,
      THEN conjunct1, rule_format, OF later_refl quiet second] second show ?thesis by (simp add: first)
qed

text \<open>
  The grant bounds every access token under it: a token that verifies stands for exactly the client,
  user, scopes and resource its grant was created with, the resource is the one asked for, the clock is
  before the grant's deadline and the grant was not revoked in any earlier state.
\<close>

lemma grant_bounds_access_tokens:
  assumes g: "find_row og_id (od_grants d0) i = Some g" and d: "later h d0 d" and es: "interferes_as (later h) es"
    and v: "verify_access_token hm token resource es d = (Inr (Some p), es', d')" and p: "pr_grant_id p = i"
  shows "og_revoked_at g = None \<and> od_clock d < og_expires_at g \<and> pr_client_id p = og_client_id g
     \<and> pr_user_id p = og_user_id g \<and> pr_scopes p = og_scopes g \<and> pr_resource p = og_resource g
     \<and> og_resource g = canonical resource"
proof -
  let ?d = "next_state es d"
  let ?P = "\<lambda>t. ot_kind t = ''access'' \<and> ot_consumed_at t = None"
  obtain t g' c where row: "token_row (hash_token hm ''access'' token) ?P ?d = Some (t, g', c)"
    using v by (cases "token_row (hash_token hm ''access'' token) ?P ?d")
      (auto simp: verify_access_token_def bind_simps ret_def split: if_splits)
  with v have live: "og_revoked_at g' = None" "od_clock ?d < og_expires_at g'" "og_resource g' = canonical resource"
      and pr: "p = \<lparr>pr_grant_id = og_id g', pr_client_id = og_client_id g', pr_user_id = og_user_id g', pr_scopes = og_scopes g',
        pr_resource = og_resource g', pr_expires_at = ot_expires_at t div 1000000\<rparr>"
    by (auto simp: verify_access_token_def bind_simps update_in_def ret_def split: if_splits)
  have d': "later h d ?d" "later h d0 ?d" using store.reach_next [OF es] later_trans [OF d] by blast+
  from later_grant [OF d'(2) g] token_row_SomeD(3,5) [OF row] p pr have "same_grant g g'" by auto
  moreover have "od_clock d \<le> od_clock ?d" using d'(1) by (simp add: later_def)
  ultimately show ?thesis using live pr by (auto simp: same_grant_def)
qed

end
