(* ===== verification/Gate.thy ===== *)
theory Gate
  imports OAuth
begin

text \<open>
  The gate in front of the MCP transport (\<open>mcp/auth.py\<close>, \<open>mcp/registry.py\<close>): the request budget per
  key, the table of tools with the scopes each needs, and the checks a request passes before it reaches
  the transport.

  The clock of the budget (\<open>time.monotonic\<close>) is an argument; a window table is the list of its entries
  in insertion order. Header values are the lists of texts sent under a name. The header decoding and
  the supported protocol versions of the SDK are arguments. Audit records are what a request logs.
\<close>

section \<open>The request budget\<close>

record window =
  w_started :: num
  w_count :: int

type_synonym windows = "(string \<times> window) list"

definition RATE_WINDOW_SECONDS :: num where
  "RATE_WINDOW_SECONDS = 60"

definition dict_set :: "'k \<Rightarrow> 'v \<Rightarrow> ('k \<times> 'v) list \<Rightarrow> ('k \<times> 'v) list" where
  "dict_set k v t = (if k \<in> fst ` set t then map (\<lambda>(a, b). (a, if a = k then v else b)) t else t @ [(k, v)])"

definition prune :: "num \<Rightarrow> windows \<Rightarrow> windows" where
  "prune now ws =
     (if 1024 < length ws then filter (\<lambda>(_, w). \<not> RATE_WINDOW_SECONDS \<le> now - w_started w) ws else ws)"

text \<open>The seconds to wait, 0 when allowed.\<close>

definition allow :: "num \<Rightarrow> string \<Rightarrow> int \<Rightarrow> windows \<Rightarrow> int \<times> windows" where
  "allow now key limit ws =
     (let opened = (0, prune now (dict_set key \<lparr>w_started = now, w_count = 1\<rparr> ws))
      in case map_of ws key of
           None \<Rightarrow> opened
         | Some w \<Rightarrow>
             if RATE_WINDOW_SECONDS \<le> now - w_started w then opened
             else if limit \<le> w_count w
                  then (max 1 (\<lfloor>RATE_WINDOW_SECONDS - (now - w_started w)\<rfloor> + 1), ws)
                  else (0, dict_set key (w\<lparr>w_count := w_count w + 1\<rparr>) ws))"

text \<open>A run of calls \<open>(now, key)\<close>, and the times at which the calls of one key were admitted.\<close>

fun admitted :: "string \<Rightarrow> int \<Rightarrow> windows \<Rightarrow> (num \<times> string) list \<Rightarrow> num list" where
  "admitted k limit ws [] = []"
| "admitted k limit ws ((now, key) # calls) =
     (case allow now key limit ws of
        (wait, ws') \<Rightarrow> (if key = k \<and> wait = 0 then [now] else []) @ admitted k limit ws' calls)"

section \<open>Tools and their scopes\<close>

definition TOOL_SCOPES :: "(string \<times> string list) list" where
  "TOOL_SCOPES =
     [(''cancel_job'', [''jobs:write'']), (''get_job'', [''jobs:read'']), (''list_jobs'', [''jobs:read'']),
      (''list_libraries'', [''catalog:read'']), (''list_media'', [''catalog:read'']), (''queue_file'', [''jobs:write'']),
      (''queue_summary'', [''jobs:read'']), (''stats'', [''jobs:read''])]"

definition required_scopes :: "string \<Rightarrow> string list option" where
  "required_scopes name = map_of TOOL_SCOPES name"

text \<open>The check at build time, over the names of the registered tools; \<open>False\<close> is the error it raises.\<close>

definition check_policy :: "string list \<Rightarrow> bool" where
  "check_policy names \<longleftrightarrow> set names = fst ` set TOOL_SCOPES
     \<and> (\<forall>(name, scopes) \<in> set TOOL_SCOPES. scopes \<noteq> [] \<and> set scopes \<subseteq> set SCOPES)"

definition tool_names :: "string list" where
  "tool_names = [''cancel_job'', ''get_job'', ''list_jobs'', ''list_libraries'', ''list_media'', ''queue_file'',
     ''queue_summary'', ''stats'']"

section \<open>Token verification\<close>

record access_token =
  at_token :: string
  at_client_id :: string
  at_scopes :: "string list"
  at_expires_at :: int
  at_resource :: string
  at_subject :: string
  at_grant_id :: string

definition verify_token :: "(string \<Rightarrow> string) \<Rightarrow> string \<Rightarrow> string \<Rightarrow> access_token option oio" where
  "verify_token hmac resource token =
     bind (verify_access_token hmac token resource) (\<lambda>principal. ret (map_option (\<lambda>p.
       \<lparr>at_token = token, at_client_id = pr_client_id p, at_scopes = sort (remdups (pr_scopes p)),
        at_expires_at = pr_expires_at p, at_resource = pr_resource p, at_subject = pr_user_id p,
        at_grant_id = pr_grant_id p\<rparr>) principal))"

section \<open>The gate\<close>

record mcp_headers =
  mh_versions :: "string list"
  mh_methods :: "string list"
  mh_names :: "string list"

datatype gate_reply =
    Forwarded
  | Unsupported_version
  | Budget_spent int
  | Needs_one_name
  | Unknown_tool
  | Missing_scope "string list"

record audit =
  au_tool :: string
  au_decision :: string
  au_grant :: string
  au_client :: string

definition gate ::
  "string list \<Rightarrow> (string \<Rightarrow> string option) \<Rightarrow> int \<Rightarrow> num \<Rightarrow> access_token \<Rightarrow> mcp_headers \<Rightarrow> windows \<Rightarrow> gate_reply \<times> audit list \<times> windows"
where
  "gate supported decode limit now token hdrs ws =
     (case mh_versions hdrs of
        [v] \<Rightarrow>
          if v \<notin> set supported then (Unsupported_version, [], ws)
          else (case allow now (at_grant_id token) limit ws of
            (wait, ws') \<Rightarrow>
              if wait \<noteq> 0 then (Budget_spent wait, [], ws')
              else if mh_methods hdrs \<noteq> [''tools/call''] then (Forwarded, [], ws')
              else (case (case mh_names hdrs of [n] \<Rightarrow> decode n | _ \<Rightarrow> None) of
                 None \<Rightarrow> (Needs_one_name, [], ws')
               | Some name \<Rightarrow>
                   let record = (\<lambda>decision. \<lparr>au_tool = take 128 name, au_decision = decision, au_grant = at_grant_id token,
                                             au_client = at_client_id token\<rparr>)
                   in case required_scopes name of
                        None \<Rightarrow> (Unknown_tool, [record ''denied''], ws')
                      | Some needed \<Rightarrow>
                          let missing = filter (\<lambda>s. s \<notin> set (at_scopes token)) needed
                          in if missing \<noteq> [] then (Missing_scope (sort (remdups missing)), [record ''denied''], ws')
                             else (Forwarded, [record ''allowed''], ws')))
      | _ \<Rightarrow> (Unsupported_version, [], ws))"

section \<open>The budget bounds every interval\<close>

text \<open>
  \<open>budget_inv k limit A ws now\<close>: the calls of \<open>k\<close> admitted so far are \<open>A\<close>; the last window of \<open>k\<close> started
  at \<open>s\<close> and admitted \<open>c\<close> calls, and it is the table's entry unless it was pruned as stale.
\<close>

definition between :: "num \<Rightarrow> num \<Rightarrow> num list \<Rightarrow> nat" where
  "between t u A = length (filter (\<lambda>a. t \<le> a \<and> a < u) A)"

definition last_window :: "int \<Rightarrow> num list \<Rightarrow> num \<Rightarrow> num \<Rightarrow> int \<Rightarrow> bool" where
  "last_window limit A now s c \<longleftrightarrow> s \<le> now \<and> (\<forall>a \<in> set A. a \<le> now \<and> a < s + 60)
     \<and> int (between s (s + 60) A) = c \<and> c \<le> limit
     \<and> (\<forall>t. s - 60 < t \<longrightarrow> int (between t s A) \<le> limit)
     \<and> (\<forall>t. int (between t (t + 60) A) \<le> 2 * limit)"

definition budget_inv :: "string \<Rightarrow> int \<Rightarrow> num list \<Rightarrow> windows \<Rightarrow> num \<Rightarrow> bool" where
  "budget_inv k limit A ws now \<longleftrightarrow> distinct (map fst ws)
     \<and> (A = [] \<and> map_of ws k = None
        \<or> (\<exists>s c. (map_of ws k = Some \<lparr>w_started = s, w_count = c\<rparr> \<or> map_of ws k = None \<and> s + 60 \<le> now)
             \<and> last_window limit A now s c))"

lemma map_of_dict_set: "map_of (dict_set k v t) = (map_of t)(k \<mapsto> v)"
proof -
  have "map_of (map (\<lambda>(a, b). (a, if a = k then v else b)) t) x
      = (if x = k then map_option (\<lambda>_. v) (map_of t k) else map_of t x)" for x
    by (induction t) auto
  then show ?thesis
    by (cases "k \<in> fst ` set t")
      (auto simp: dict_set_def fun_eq_iff map_of_eq_None_iff map_add_upd_left dom_map_of_conv_image_fst
        intro: weak_map_of_SomeI split: option.split)
qed

lemma distinct_dict_set: "distinct (map fst t) \<Longrightarrow> distinct (map fst (dict_set k v t))"
  by (auto simp: dict_set_def comp_def case_prod_beta)

lemma map_of_filter_distinct:
  "distinct (map fst t) \<Longrightarrow> map_of (filter P t) k = (case map_of t k of None \<Rightarrow> None | Some v \<Rightarrow> if P (k, v) then Some v else None)"
proof (induction t)
  case (Cons a t)
  then show ?case
    by (cases a) (auto split: option.splits simp: map_of_eq_None_iff)
qed simp

lemma map_of_prune:
  "distinct (map fst ws) \<Longrightarrow> map_of (prune now ws) k = map_of ws k
     \<or> map_of (prune now ws) k = None \<and> (\<exists>w. map_of ws k = Some w \<and> w_started w + 60 \<le> now)"
  by (auto simp: prune_def map_of_filter_distinct RATE_WINDOW_SECONDS_def split: option.splits)

lemma map_of_prune_fresh:
  "distinct (map fst ws) \<Longrightarrow> map_of ws k = Some w \<Longrightarrow> w_started w = now \<Longrightarrow> map_of (prune now ws) k = Some w"
  by (simp add: prune_def map_of_filter_distinct RATE_WINDOW_SECONDS_def)

lemma distinct_prune: "distinct (map fst ws) \<Longrightarrow> distinct (map fst (prune now ws))"
  by (auto simp: prune_def distinct_map_filter)

lemma allow_cases:
  assumes "allow now key limit ws = (wait, ws')"
  obtains (opened) "map_of ws key = None \<or> (\<exists>w. map_of ws key = Some w \<and> w_started w + 60 \<le> now)" "wait = 0"
      "ws' = prune now (dict_set key \<lparr>w_started = now, w_count = 1\<rparr> ws)"
    | (refused) "wait \<noteq> 0" "ws' = ws"
    | (counted) w where "map_of ws key = Some w" "now < w_started w + 60" "w_count w < limit" "wait = 0"
        "ws' = dict_set key (w\<lparr>w_count := w_count w + 1\<rparr>) ws"
proof (cases "map_of ws key")
  case None
  with assms show thesis by (intro opened) (auto simp: allow_def)
next
  case (Some w)
  consider "w_started w + 60 \<le> now" | "now < w_started w + 60" "limit \<le> w_count w" | "now < w_started w + 60" "w_count w < limit"
    by linarith
  then show thesis
  proof cases
    case 1
    with Some assms show thesis by (intro opened) (auto simp: allow_def RATE_WINDOW_SECONDS_def)
  next
    case 2
    with Some assms have "wait = max 1 (\<lfloor>60 - (now - w_started w)\<rfloor> + 1)" "ws' = ws"
      by (auto simp: allow_def RATE_WINDOW_SECONDS_def)
    then show thesis by (intro refused) linarith+
  next
    case 3
    with Some assms show thesis by (intro counted [of w]) (auto simp: allow_def RATE_WINDOW_SECONDS_def)
  qed
qed

lemma between_append: "between t u (A @ B) = between t u A + between t u B"
  by (simp add: between_def)

lemma between_one: "between t u [a] = (if t \<le> a \<and> a < u then 1 else 0)"
  by (simp add: between_def)

lemma between_split: "t \<le> s \<Longrightarrow> s \<le> u \<Longrightarrow> between t u A = between t s A + between s u A"
  by (induction A) (auto simp: between_def)

lemma between_mono: "t' \<le> t \<Longrightarrow> u \<le> u' \<Longrightarrow> between t u A \<le> between t' u' A"
  by (induction A) (auto simp: between_def)

lemma between_none: "(\<And>a. a \<in> set A \<Longrightarrow> a < t) \<Longrightarrow> between t u A = 0"
  by (fastforce simp: between_def filter_empty_conv)

text \<open>A call that opens a window, and one that is counted in the open window.\<close>

lemma last_window_open:
  assumes w: "last_window limit A now s c" and "1 \<le> limit" "now \<le> now'" "s + 60 \<le> now'"
  shows "last_window limit (A @ [now']) now' now' 1"
proof -
  have A: "a < s + 60" "a \<le> now" if "a \<in> set A" for a using w that by (auto simp: last_window_def)
  have gap: "int (between t now' A) \<le> limit" if "now' - 60 < t" for t
  proof -
    have "between t now' A \<le> between s (s + 60) A"
      using that assms(4) A by (induction A) (force simp: between_def)+
    with w show ?thesis by (simp add: last_window_def)
  qed
  have "between now' (now' + 60) A = 0" by (rule between_none) (use A assms(4) in force)
  moreover have "int (between t (t + 60) (A @ [now'])) \<le> 2 * limit" for t
  proof (cases "t \<le> now' \<and> now' < t + 60")
    case True
    then have "between t (t + 60) A = between t now' A + between now' (t + 60) A" by (intro between_split) auto
    moreover have "between now' (t + 60) A = 0" by (rule between_none) (use A assms(4) in force)
    ultimately show ?thesis using gap [of t] True assms(2) by (simp add: between_append between_one)
  next
    case False
    with w show ?thesis by (auto simp: last_window_def between_append between_one)
  qed
  ultimately show ?thesis
    using gap A assms(2-4) by (force simp: last_window_def between_append between_one)
qed

lemma last_window_count:
  assumes w: "last_window limit A now s c" and "c < limit" "now \<le> now'" "now' < s + 60"
  shows "last_window limit (A @ [now']) now' s (c + 1)"
proof -
  have A: "a < s + 60" "a \<le> now" if "a \<in> set A" for a using w that by (auto simp: last_window_def)
  have s: "s \<le> now'" using w assms(3) by (auto simp: last_window_def)
  have c: "int (between s (s + 60) A) = c" using w by (simp add: last_window_def)
  have "int (between t (t + 60) (A @ [now'])) \<le> 2 * limit" for t
  proof (cases "t \<le> now' \<and> now' < t + 60")
    case True
    have tail: "between u (t + 60) A \<le> between s (s + 60) A" if "s \<le> u" for u
      using that A by (induction A) (force simp: between_def)+
    show ?thesis
    proof (cases "s \<le> t")
      case True
      with tail [of t] c assms(2) \<open>t \<le> now' \<and> now' < t + 60\<close> show ?thesis by (simp add: between_append between_one)
    next
      case False
      with True s have "between t (t + 60) A = between t s A + between s (t + 60) A" by (intro between_split) auto
      moreover have "int (between t s A) \<le> limit" using w True s False by (auto simp: last_window_def)
      ultimately show ?thesis using tail [of s] c assms(2) True by (simp add: between_append between_one)
    qed
  next
    case False
    with w show ?thesis by (auto simp: last_window_def between_append between_one)
  qed
  then show ?thesis
    using w A s c assms(2-4) by (force simp: last_window_def between_append between_one)
qed

lemma last_window_first:
  assumes "1 \<le> limit"
  shows "last_window limit [now] now now 1"
  using assms by (auto simp: last_window_def between_one)

lemma last_window_wait: "last_window limit A now s c \<Longrightarrow> now \<le> now' \<Longrightarrow> last_window limit A now' s c"
  by (force simp: last_window_def)

lemma budget_wait:
  assumes "budget_inv k limit A ws now" and "now \<le> now'" and "distinct (map fst ws')"
    and "map_of ws' k = map_of ws k \<or> map_of ws' k = None \<and> (\<exists>w. map_of ws k = Some w \<and> w_started w + 60 \<le> now')"
  shows "budget_inv k limit A ws' now'"
proof (cases "A = [] \<and> map_of ws k = None")
  case True
  with assms show ?thesis by (auto simp: budget_inv_def)
next
  case False
  with assms(1) obtain s c where w: "last_window limit A now s c"
      "map_of ws k = Some \<lparr>w_started = s, w_count = c\<rparr> \<or> map_of ws k = None \<and> s + 60 \<le> now"
    unfolding budget_inv_def by blast
  moreover have "last_window limit A now' s c" by (rule last_window_wait [OF w(1) assms(2)])
  moreover have "map_of ws' k = Some \<lparr>w_started = s, w_count = c\<rparr> \<or> map_of ws' k = None \<and> s + 60 \<le> now'"
    using w(2) assms(2,4) by auto
  ultimately show ?thesis using assms(3) unfolding budget_inv_def by blast
qed

lemma budget_step:
  assumes inv: "budget_inv k limit A ws now" and "now \<le> now'" "1 \<le> limit" and a: "allow now' key limit ws = (wait, ws')"
  shows "budget_inv k limit (A @ (if key = k \<and> wait = 0 then [now'] else [])) ws' now'"
proof -
  have dist: "distinct (map fst ws)" using inv by (simp add: budget_inv_def)
  have waits: "budget_inv k limit A ws'' now'" if "distinct (map fst ws'')" and
      "map_of ws'' k = map_of ws k \<or> map_of ws'' k = None \<and> (\<exists>w. map_of ws k = Some w \<and> w_started w + 60 \<le> now')" for ws''
    by (rule budget_wait [OF inv assms(2) that])
  from a show ?thesis
  proof (cases rule: allow_cases)
    case opened
    let ?ws = "dict_set key \<lparr>w_started = now', w_count = 1\<rparr> ws"
    have d: "distinct (map fst ?ws)" "distinct (map fst ws')"
      using dist opened(3) by (simp_all add: distinct_dict_set distinct_prune)
    show ?thesis
    proof (cases "key = k")
      case True
      then have "map_of ws' k = Some \<lparr>w_started = now', w_count = 1\<rparr>"
        using map_of_prune_fresh [OF d(1), of k] opened(3) by (simp add: map_of_dict_set)
      moreover have "last_window limit (A @ [now']) now' now' 1"
      proof (cases "A = [] \<and> map_of ws k = None")
        case False
        with inv obtain s c where w: "last_window limit A now s c"
            "map_of ws k = Some \<lparr>w_started = s, w_count = c\<rparr> \<or> map_of ws k = None \<and> s + 60 \<le> now"
          unfolding budget_inv_def by blast
        with opened(1) True assms(2) have "s + 60 \<le> now'" by auto
        with w(1) assms show ?thesis by (intro last_window_open)
      qed (use last_window_first [OF assms(3)] in simp)
      ultimately show ?thesis using True opened(2) d(2) by (simp add: budget_inv_def)
    next
      case False
      with map_of_prune [OF d(1), of now' k] opened(3) waits [OF d(2)] show ?thesis by (simp add: map_of_dict_set)
    qed
  next
    case refused
    with waits [of ws] dist show ?thesis by simp
  next
    case (counted w)
    have d: "distinct (map fst ws')" using dist counted(5) by (simp add: distinct_dict_set)
    show ?thesis
    proof (cases "key = k")
      case True
      with inv counted(1) obtain s c where w: "w = \<lparr>w_started = s, w_count = c\<rparr>" "last_window limit A now s c"
        unfolding budget_inv_def by auto
      with counted assms have "last_window limit (A @ [now']) now' s (c + 1)" by (intro last_window_count) auto
      with True counted w d show ?thesis by (simp add: budget_inv_def map_of_dict_set)
    next
      case False
      with counted(5) waits [OF d] show ?thesis by (simp add: map_of_dict_set)
    qed
  qed
qed

lemma budget_run:
  assumes "budget_inv k limit A ws now" and "1 \<le> limit" and "sorted (now # map fst calls)"
  shows "\<exists>ws' now'. budget_inv k limit (A @ admitted k limit ws calls) ws' now'"
  using assms
proof (induction calls arbitrary: A ws now)
  case (Cons call calls)
  obtain now' key where c: "call = (now', key)" by (cases call)
  obtain wait ws' where a: "allow now' key limit ws = (wait, ws')" by (cases "allow now' key limit ws")
  have "budget_inv k limit (A @ (if key = k \<and> wait = 0 then [now'] else [])) ws' now'"
    by (rule budget_step [OF Cons.prems(1) _ Cons.prems(2) a]) (use Cons.prems(3) c in simp)
  from Cons.IH [OF this Cons.prems(2)] Cons.prems(3) c a show ?case by simp
qed auto

section \<open>Properties\<close>

text \<open>
  C23. The budget holds over time: however the calls of all keys are ordered, and whatever windows were
  pruned, no key gets more than twice its limit through in any sixty seconds.
\<close>

theorem budget_bounds_every_minute:
  assumes "1 \<le> limit" and "sorted (map fst calls)"
  shows "int (length (filter (\<lambda>a. t \<le> a \<and> a < t + 60) (admitted k limit [] calls))) \<le> 2 * limit"
proof (cases calls)
  case Nil
  with assms show ?thesis by simp
next
  case (Cons c cs)
  have "budget_inv k limit [] [] (fst c)" by (simp add: budget_inv_def)
  from budget_run [OF this assms(1), of calls] assms(2) Cons
  obtain ws now where "budget_inv k limit (admitted k limit [] calls) ws now" by auto
  with assms(1) show ?thesis unfolding budget_inv_def last_window_def between_def by auto
qed

theorem budget_bounds_every_minute_witness:
  "length (admitted ''a'' 2 [] [(0, ''a''), (1, ''a''), (2, ''a''), (59, ''b''), (60, ''a''), (61, ''a''), (62, ''a'')]) = 4
   \<and> int (length (filter (\<lambda>x. 1 \<le> x \<and> x < 61) (admitted ''a'' 2 [] [(0, ''a''), (1, ''a''), (2, ''a''), (59, ''b''), (60, ''a''), (61, ''a''), (62, ''a'')]))) \<le> 4"
proof
  let ?calls = "[(0, ''a''), (1, ''a''), (2, ''a''), (59, ''b''), (60, ''a''), (61, ''a''), (62, ''a'')] :: (num \<times> string) list"
  show "length (admitted ''a'' 2 [] ?calls) = 4" by code_simp
  have "sorted (map fst ?calls)" by simp
  from budget_bounds_every_minute [OF _ this, of 2 1 "''a''"]
  show "int (length (filter (\<lambda>x. 1 \<le> x \<and> x < 61) (admitted ''a'' 2 [] ?calls))) \<le> 4" by simp
qed

text \<open>
  C21. A tool runs only under a live grant that covers it: when the verifier accepts a bearer token and the
  gate lets the token's tool call through, the tool is one of the registered ones, and every grant state
  the token's grant ever had was unrevoked, unexpired, for this resource, and held every scope the tool
  needs. The call is audited as allowed.
\<close>

theorem tool_call_needs_granted_scope:
  assumes g: "find_row og_id (od_grants d0) i = Some g" and d: "later h d0 d" and es: "interferes_as (later h) es"
    and v: "verify_token hm resource bearer es d = (Inr (Some token), es', d')" and i: "at_grant_id token = i"
    and gate: "gate supported decode limit now token hdrs ws = (Forwarded, records, ws')"
    and call: "mh_methods hdrs = [''tools/call'']"
  shows "\<exists>name needed. map decode (mh_names hdrs) = [Some name] \<and> required_scopes name = Some needed
     \<and> set needed \<subseteq> set (og_scopes g) \<and> og_revoked_at g = None \<and> od_clock d < og_expires_at g
     \<and> og_resource g = canonical resource \<and> map au_decision records = [''allowed''] \<and> map au_grant records = [i]"
proof -
  obtain p where p: "verify_access_token hm bearer resource es d = (Inr (Some p), es', d')"
      and token: "at_scopes token = sort (remdups (pr_scopes p))" "at_grant_id token = pr_grant_id p"
    using v by (auto simp: verify_token_def ret_def elim!: bind_Inr)
  from gate call obtain name needed where "mh_names hdrs \<noteq> []" "map decode (mh_names hdrs) = [Some name]"
      "required_scopes name = Some needed" "set needed \<subseteq> set (at_scopes token)"
      "records = [\<lparr>au_tool = take 128 name, au_decision = ''allowed'', au_grant = at_grant_id token, au_client = at_client_id token\<rparr>]"
    by (auto simp: gate_def Let_def filter_empty_conv split: list.splits if_splits prod.splits option.splits)
  with grant_bounds_access_tokens [OF g d es p] token i show ?thesis by auto
qed

theorem tool_call_needs_granted_scope_witness:
  "case verify_token (\<lambda>s. s) ''https://tf/mcp'' ''a'' [] sample_store of
     (Inr (Some token), _, _) \<Rightarrow>
       fst (gate [''v1''] Some 120 0 token \<lparr>mh_versions = [''v1''], mh_methods = [''tools/call''], mh_names = [''get_job'']\<rparr> []) = Forwarded
       \<and> (\<exists>needed. required_scopes ''get_job'' = Some needed \<and> set needed \<subseteq> set (og_scopes sample_grant))
   | _ \<Rightarrow> False"
proof -
  let ?hdrs = "\<lparr>mh_versions = [''v1''], mh_methods = [''tools/call''], mh_names = [''get_job'']\<rparr>"
  define token where "token = \<lparr>at_token = ''a'', at_client_id = ''app'', at_scopes = [''catalog:read'', ''jobs:read''],
    at_expires_at = 86400, at_resource = ''https://tf/mcp'', at_subject = ''admin'', at_grant_id = ''g1''\<rparr>"
  obtain r es d where "verify_token (\<lambda>s. s) ''https://tf/mcp'' ''a'' [] sample_store = (r, es, d)" by (rule prod_cases3)
  moreover have "fst (verify_token (\<lambda>s. s) ''https://tf/mcp'' ''a'' [] sample_store) = Inr (Some token)"
    unfolding token_def by code_simp
  ultimately have v: "verify_token (\<lambda>s. s) ''https://tf/mcp'' ''a'' [] sample_store = (Inr (Some token), es, d)" by simp
  obtain rp records ws where gt: "gate [''v1''] Some 120 0 token ?hdrs [] = (rp, records, ws)" by (rule prod_cases3)
  moreover have "fst (gate [''v1''] Some 120 0 token ?hdrs []) = Forwarded" unfolding token_def by code_simp
  ultimately have gt: "gate [''v1''] Some 120 0 token ?hdrs [] = (Forwarded, records, ws)" by simp
  have g: "find_row og_id (od_grants sample_store) ''g1'' = Some sample_grant" by code_simp
  have quiet: "interferes_as (later ''other'') []" by (simp add: interferes_as_def)
  have "at_grant_id token = ''g1''" by (simp add: token_def)
  from tool_call_needs_granted_scope [OF g later_refl quiet v this gt] gt v show ?thesis by auto
qed

end
