(* ===== verification/Url.thy ===== *)
theory Url
  imports Prelude
begin

text \<open>
  Splitting a URL (\<open>urllib.parse.urlsplit\<close> of the standard library on ASCII text) and what the
  authorization server reads from the parts: scheme, user information, host name, port, path, query
  and fragment. \<open>None\<close> is a \<open>ValueError\<close>. Whether a bracketed host is an IPv6 address
  (\<open>ipaddress.ip_address\<close>) is an argument.
\<close>

section \<open>Splitting\<close>

record split_url =
  su_scheme :: string
  su_netloc :: string
  su_path :: string
  su_query :: string
  su_fragment :: string

text \<open>\<open>s.partition(c)\<close> without the separator, and the last part of \<open>s.rpartition(c)\<close>.\<close>

definition before :: "char \<Rightarrow> string \<Rightarrow> string" where
  "before c s = takeWhile (\<lambda>x. x \<noteq> c) s"

definition after :: "char \<Rightarrow> string \<Rightarrow> string" where
  "after c s = drop 1 (dropWhile (\<lambda>x. x \<noteq> c) s)"

definition after_last :: "char \<Rightarrow> string \<Rightarrow> string" where
  "after_last c s = rev (takeWhile (\<lambda>x. x \<noteq> c) (rev s))"

definition is_alpha :: "char \<Rightarrow> bool" where
  "is_alpha c \<longleftrightarrow> (let n = of_char c :: nat in 65 \<le> n \<and> n \<le> 90 \<or> 97 \<le> n \<and> n \<le> 122)"

definition scheme_char :: "char \<Rightarrow> bool" where
  "scheme_char c \<longleftrightarrow> is_alpha c \<or> is_digit c \<or> c \<in> set ''+-.''"

text \<open>Leading control characters and spaces go; tabs and line breaks go everywhere.\<close>

definition clean_url :: "string \<Rightarrow> string" where
  "clean_url s = filter (\<lambda>c. of_char c \<notin> {9, 10, 13 :: nat}) (dropWhile (\<lambda>c. of_char c \<le> (32 :: nat)) s)"

definition is_hex :: "char \<Rightarrow> bool" where
  "is_hex c \<longleftrightarrow> is_digit c \<or> (let n = of_char c :: nat in 65 \<le> n \<and> n \<le> 70 \<or> 97 \<le> n \<and> n \<le> 102)"

definition bracketed_host :: "(string \<Rightarrow> bool) \<Rightarrow> string \<Rightarrow> bool" where
  "bracketed_host ipv6 host =
     (if take 1 host = ''v'' then
        (let r = drop 1 host; digits = takeWhile is_hex r; rest = dropWhile is_hex r
         in digits \<noteq> [] \<and> take 1 rest = ''.'' \<and> drop 1 rest \<noteq> [])
      else ipv6 host)"

definition netloc_ok :: "(string \<Rightarrow> bool) \<Rightarrow> string \<Rightarrow> bool" where
  "netloc_ok ipv6 netloc =
     (let opened = CHR ''['' \<in> set netloc; closed = CHR '']'' \<in> set netloc; hp = after_last CHR ''@'' netloc
      in if \<not> opened \<and> \<not> closed then True
         else if \<not> (opened \<and> closed) then False
         else if CHR ''['' \<in> set hp then
           before CHR ''['' hp = [] \<and>
           (let b = after CHR ''['' hp; port = after CHR '']'' b
            in (port = [] \<or> take 1 port = '':'') \<and> bracketed_host ipv6 (before CHR '']'' b))
         else bracketed_host ipv6 (before CHR '':'' hp))"

definition urlsplit :: "(string \<Rightarrow> bool) \<Rightarrow> string \<Rightarrow> split_url option" where
  "urlsplit ipv6 text =
     (let url = clean_url text;
          head = before CHR '':'' url;
          has_scheme = CHR '':'' \<in> set url \<and> head \<noteq> [] \<and> is_alpha (hd url) \<and> list_all scheme_char head;
          scheme = (if has_scheme then lower head else []);
          rest = (if has_scheme then after CHR '':'' url else url);
          has_netloc = take 2 rest = ''//'';
          netloc = (if has_netloc then takeWhile (\<lambda>c. c \<notin> set ''/?#'') (drop 2 rest) else []);
          tail = (if has_netloc then dropWhile (\<lambda>c. c \<notin> set ''/?#'') (drop 2 rest) else rest);
          body = before CHR ''#'' tail
      in if \<not> netloc_ok ipv6 netloc then None
         else Some \<lparr>su_scheme = scheme, su_netloc = netloc, su_path = before CHR ''?'' body,
                    su_query = after CHR ''?'' body, su_fragment = after CHR ''#'' tail\<rparr>)"

definition hostinfo :: "split_url \<Rightarrow> string \<times> string" where
  "hostinfo u =
     (let hp = after_last CHR ''@'' (su_netloc u)
      in if CHR ''['' \<in> set hp
         then (let b = after CHR ''['' hp in (before CHR '']'' b, after CHR '':'' (after CHR '']'' b)))
         else (before CHR '':'' hp, after CHR '':'' hp))"

definition hostname :: "split_url \<Rightarrow> string option" where
  "hostname u =
     (let host = fst (hostinfo u)
      in if host = [] then None
         else Some (lower (before CHR ''%'' host) @ dropWhile (\<lambda>c. c \<noteq> CHR ''%'') host))"

definition int_of_digits :: "string \<Rightarrow> int" where
  "int_of_digits s = foldl (\<lambda>n c. 10 * n + (of_char c - 48)) 0 s"

definition port :: "split_url \<Rightarrow> int option option" where
  "port u =
     (let p = snd (hostinfo u)
      in if p = [] then Some None
         else if \<not> list_all is_digit p then None
         else if 65535 < int_of_digits p then None
         else Some (Some (int_of_digits p)))"

definition username :: "split_url \<Rightarrow> string option" where
  "username u =
     (if CHR ''@'' \<in> set (su_netloc u)
      then Some (before CHR '':'' (rev (after CHR ''@'' (rev (su_netloc u)))))
      else None)"

definition password :: "split_url \<Rightarrow> string option" where
  "password u =
     (let info = rev (after CHR ''@'' (rev (su_netloc u)))
      in if CHR ''@'' \<in> set (su_netloc u) \<and> CHR '':'' \<in> set info then Some (after CHR '':'' info) else None)"

end
