(* ===== verification/Cimd.thy ===== *)
theory Cimd
  imports Url
begin

text \<open>
  Client metadata documents (\<open>mcp/cimd.py\<close>): the URL a client id must be, the guarded fetch of its
  document and the validation of what came back.

  Arguments stand for what is outside: the resolver (\<open>None\<close> is an \<open>OSError\<close>), the \<open>ipaddress\<close> module,
  the HTTP client, \<open>json.loads\<close>, and whether the time limit struck. The fetch also returns the requests
  it sent (when the time limit struck, those it may have sent).
\<close>

section \<open>Definitions\<close>

definition MAX_DOCUMENT_BYTES :: int where "MAX_DOCUMENT_BYTES = 64 * 1024"
definition CACHE_SECONDS :: int where "CACHE_SECONDS = 3600"
definition MAX_NAME :: nat where "MAX_NAME = 80"

datatype doc_error = Document_error string | Value_error | Type_error

record client_document =
  cd_client_id :: string
  cd_client_name :: string
  cd_redirect_uris :: "string list"

definition check_url :: "(string \<Rightarrow> bool) \<Rightarrow> string \<Rightarrow> doc_error + split_url" where
  "check_url ipv6 url =
     (case urlsplit ipv6 url of
        None \<Rightarrow> Inl Value_error
      | Some parts \<Rightarrow>
          if su_scheme parts \<noteq> ''https'' then Inl (Document_error ''client id must be an https URL'')
          else if hostname parts = None then Inl (Document_error ''client id has no host'')
          else if username parts \<notin> {None, Some []} \<or> password parts \<notin> {None, Some []}
               then Inl (Document_error ''client id must not carry credentials'')
          else if su_fragment parts \<noteq> [] then Inl (Document_error ''client id must not carry a fragment'')
          else Inr parts)"

text \<open>An address with whether it is global and whether it is multicast; an IPv6 one may map an IPv4 one.\<close>

datatype ip = IPv4 bool bool | IPv6 "(bool \<times> bool) option" bool bool

definition is_public_address :: "(string \<Rightarrow> ip option) \<Rightarrow> string \<Rightarrow> bool" where
  "is_public_address ip_address text =
     (case ip_address text of
        None \<Rightarrow> False
      | Some (IPv4 is_global is_multicast) \<Rightarrow> is_global \<and> \<not> is_multicast
      | Some (IPv6 (Some (is_global, is_multicast)) _ _) \<Rightarrow> is_global \<and> \<not> is_multicast
      | Some (IPv6 None is_global is_multicast) \<Rightarrow> is_global \<and> \<not> is_multicast)"

datatype json = J_null | J_bool bool | J_number num | J_string string | J_list "json list" | J_object "(string \<times> json) list"

text \<open>\<open>x in data\<close>: a substring, a member or a key; anything else is a \<open>TypeError\<close>.\<close>

definition json_contains :: "string \<Rightarrow> json \<Rightarrow> bool option" where
  "json_contains x v =
     (case v of
        J_string s \<Rightarrow> Some (sublist x s)
      | J_list vs \<Rightarrow> Some (J_string x \<in> set vs)
      | J_object kvs \<Rightarrow> Some (x \<in> fst ` set kvs)
      | _ \<Rightarrow> None)"

definition json_string :: "json \<Rightarrow> string option" where
  "json_string v = (case v of J_string s \<Rightarrow> Some s | _ \<Rightarrow> None)"

definition usable_uris :: "json option \<Rightarrow> string list option" where
  "usable_uris v =
     (case v of
        Some (J_list vs) \<Rightarrow>
          (case those (map json_string vs) of
             None \<Rightarrow> None | Some us \<Rightarrow> if us \<noteq> [] \<and> [] \<notin> set us then Some us else None)
      | _ \<Rightarrow> None)"

definition check_grant_types :: "json option \<Rightarrow> client_document \<Rightarrow> doc_error + client_document" where
  "check_grant_types grant_types doc =
     (case grant_types of
        None \<Rightarrow> Inr doc
      | Some J_null \<Rightarrow> Inr doc
      | Some gt \<Rightarrow>
          (case json_contains ''authorization_code'' gt of
             None \<Rightarrow> Inl Type_error
           | Some ok \<Rightarrow>
               if ok then Inr doc else Inl (Document_error ''document does not allow the authorization code grant'')))"

definition client_name :: "json option \<Rightarrow> string" where
  "client_name v = (case v of Some (J_string n) \<Rightarrow> if strip n \<noteq> [] then take MAX_NAME n else [] | _ \<Rightarrow> [])"

definition read_document :: "(string \<Rightarrow> json option) \<Rightarrow> string \<Rightarrow> doc_error + client_document" where
  "read_document data url =
     (if data ''client_id'' \<noteq> Some (J_string url)
        then Inl (Document_error ''document client_id does not equal its URL'')
      else if data ''token_endpoint_auth_method'' \<noteq> Some (J_string ''none'')
        then Inl (Document_error ''document must declare a public client: token_endpoint_auth_method none'')
      else (case usable_uris (data ''redirect_uris'') of
         None \<Rightarrow> Inl (Document_error ''document has no usable redirect_uris'')
       | Some uris \<Rightarrow>
           check_grant_types (data ''grant_types'')
             \<lparr>cd_client_id = url, cd_client_name = client_name (data ''client_name''), cd_redirect_uris = uris\<rparr>))"

definition parse_document :: "(string \<Rightarrow> json option) \<Rightarrow> string \<Rightarrow> string \<Rightarrow> doc_error + client_document" where
  "parse_document json_loads body url =
     (case json_loads body of
        None \<Rightarrow> Inl (Document_error ''document is not JSON'')
      | Some (J_object kvs) \<Rightarrow> read_document (map_of kvs) url
      | Some _ \<Rightarrow> Inl (Document_error ''document is not a JSON object''))"

record http_request =
  hq_url :: string
  hq_host :: string
  hq_sni :: string

datatype http_result = Http_error | Http_response int "string list"

text \<open>The body in chunks, given up as soon as it is over the limit.\<close>

fun read_body :: "string \<Rightarrow> string list \<Rightarrow> string option" where
  "read_body body [] = Some body"
| "read_body body (chunk # chunks) =
     (if MAX_DOCUMENT_BYTES < int (length (body @ chunk)) then None else read_body (body @ chunk) chunks)"

record web =
  web_ipv6 :: "string \<Rightarrow> bool"
  web_resolver :: "string \<Rightarrow> string list option"
  web_ip_address :: "string \<Rightarrow> ip option"
  web_http :: "http_request \<Rightarrow> http_result"
  web_json_loads :: "string \<Rightarrow> json option"
  web_timed_out :: "string \<Rightarrow> bool"

definition pinned_request :: "split_url \<Rightarrow> string \<Rightarrow> int option \<Rightarrow> http_request" where
  "pinned_request parts pinned p =
     (let host = (case hostname parts of None \<Rightarrow> [] | Some s \<Rightarrow> s);
          prt = (case p of None \<Rightarrow> 443 | Some n \<Rightarrow> if n = 0 then 443 else n);
          netloc = (if CHR '':'' \<in> set pinned then ''['' @ pinned @ '']:'' @ str_int prt else pinned @ '':'' @ str_int prt)
      in \<lparr>hq_url = ''https://'' @ netloc @ (if su_path parts = [] then ''/'' else su_path parts)
                   @ (if su_query parts = [] then [] else CHR ''?'' # su_query parts),
          hq_host = (if prt = 443 then host else host @ '':'' @ str_int prt), hq_sni = host\<rparr>)"

definition fetch_unbounded :: "web \<Rightarrow> string \<Rightarrow> (doc_error + client_document) \<times> http_request list" where
  "fetch_unbounded w url =
     (case check_url (web_ipv6 w) url of
        Inl e \<Rightarrow> (Inl e, [])
      | Inr parts \<Rightarrow>
          (case web_resolver w (case hostname parts of None \<Rightarrow> [] | Some s \<Rightarrow> s) of
             None \<Rightarrow> (Inl (Document_error ''client id host does not resolve''), [])
           | Some [] \<Rightarrow> (Inl (Document_error ''client id host does not resolve''), [])
           | Some (pinned # others) \<Rightarrow>
               if \<not> list_all (is_public_address (web_ip_address w)) (pinned # others)
               then (Inl (Document_error ''client id host resolves to a non-public address''), [])
               else (case port parts of
                  None \<Rightarrow> (Inl Value_error, [])
                | Some p \<Rightarrow>
                    let request = pinned_request parts pinned p
                    in (case web_http w request of
                          Http_error \<Rightarrow> Inl (Document_error ''document could not be fetched'')
                        | Http_response status chunks \<Rightarrow>
                            if status \<noteq> 200 then Inl (Document_error (''document request answered '' @ str_int status))
                            else (case read_body [] chunks of
                                    None \<Rightarrow> Inl (Document_error ''document is larger than the limit'')
                                  | Some body \<Rightarrow> parse_document (web_json_loads w) body url),
                        [request]))))"

definition fetch_document :: "web \<Rightarrow> string \<Rightarrow> (doc_error + client_document) \<times> http_request list" where
  "fetch_document w url =
     (if web_timed_out w url then (Inl (Document_error ''document fetch exceeded the time limit''), snd (fetch_unbounded w url))
      else fetch_unbounded w url)"

text \<open>
  What an address reaches, for the statement of what may be dialled: whether it is global and whether it
  is multicast, the IPv4 address for an IPv6 address that maps one.
\<close>

fun reached :: "ip \<Rightarrow> bool \<times> bool" where
  "reached (IPv4 is_global is_multicast) = (is_global, is_multicast)"
| "reached (IPv6 (Some v4) _ _) = v4"
| "reached (IPv6 None is_global is_multicast) = (is_global, is_multicast)"

text \<open>A web in which every host is one public address that serves one document.\<close>

definition sample_web :: web where
  "sample_web = \<lparr>web_ipv6 = (\<lambda>_. True), web_resolver = (\<lambda>_. Some [''8.8.8.8'']), web_ip_address = (\<lambda>_. Some (IPv4 True False)),
     web_http = (\<lambda>_. Http_response 200 [''doc'']),
     web_json_loads = (\<lambda>_. Some (J_object [(''client_id'', J_string ''https://app.dev/id''),
       (''token_endpoint_auth_method'', J_string ''none''), (''redirect_uris'', J_list [J_string ''http://localhost/cb''])])),
     web_timed_out = (\<lambda>_. False)\<rparr>"

section \<open>Facts\<close>

lemma read_body_bounded:
  "read_body body chunks = Some b \<Longrightarrow> int (length body) \<le> MAX_DOCUMENT_BYTES \<Longrightarrow> b = body @ concat chunks \<and> int (length b) \<le> MAX_DOCUMENT_BYTES"
proof (induction chunks arbitrary: body)
  case (Cons c cs)
  from Cons.prems(1) have "int (length (body @ c)) \<le> MAX_DOCUMENT_BYTES" "read_body (body @ c) cs = Some b" by (simp_all split: if_splits)
  from Cons.IH [OF this(2,1)] show ?case by auto
qed simp

lemma usable_uris_nonempty: "usable_uris v = Some u \<Longrightarrow> u \<noteq> [] \<and> [] \<notin> set u"
  by (auto simp: usable_uris_def split: option.splits json.splits if_splits)

lemma check_grant_types_same: "check_grant_types v doc = Inr doc' \<Longrightarrow> doc' = doc"
  by (simp add: check_grant_types_def split: option.splits json.splits if_splits)

lemma parse_document_vetted:
  assumes "parse_document loads body url = Inr doc"
  shows "cd_client_id doc = url" and "cd_redirect_uris doc \<noteq> []" and "[] \<notin> set (cd_redirect_uris doc)"
proof -
  from assms obtain kvs where d: "read_document (map_of kvs) url = Inr doc"
    by (simp add: parse_document_def split: option.splits json.splits)
  obtain uris where u: "usable_uris (map_of kvs ''redirect_uris'') = Some uris"
    using d by (cases "usable_uris (map_of kvs ''redirect_uris'')") (simp_all add: read_document_def split: if_split_asm)
  with d have "doc = \<lparr>cd_client_id = url, cd_client_name = client_name (map_of kvs ''client_name''), cd_redirect_uris = uris\<rparr>"
    by (simp add: read_document_def check_grant_types_same split: if_split_asm)
  with usable_uris_nonempty [OF u]
  show "cd_client_id doc = url" "cd_redirect_uris doc \<noteq> []" "[] \<notin> set (cd_redirect_uris doc)" by simp_all
qed

lemma fetch_unbounded_cases:
  assumes "fetch_unbounded w url = (r, reqs)"
  obtains (early) e where "reqs = []" "r = Inl e"
    | (sent) parts pinned others p where "check_url (web_ipv6 w) url = Inr parts"
        "web_resolver w (case hostname parts of None \<Rightarrow> [] | Some s \<Rightarrow> s) = Some (pinned # others)"
        "list_all (is_public_address (web_ip_address w)) (pinned # others)" "port parts = Some p"
        "reqs = [pinned_request parts pinned p]"
        "\<And>doc. r = Inr doc \<Longrightarrow> \<exists>chunks body. web_http w (pinned_request parts pinned p) = Http_response 200 chunks
            \<and> read_body [] chunks = Some body \<and> parse_document (web_json_loads w) body url = Inr doc"
  using assms unfolding fetch_unbounded_def
  by (auto simp: Let_def split: sum.splits option.splits list.splits if_splits http_result.splits intro: that)

lemma public_address_reaches_public:
  assumes "is_public_address ip_address a"
  shows "\<exists>i. ip_address a = Some i \<and> reached i = (True, False)"
proof (cases "ip_address a")
  case (Some i)
  with assms show ?thesis by (cases i rule: reached.cases) (auto simp: is_public_address_def split: prod.splits)
qed (use assms in \<open>simp add: is_public_address_def\<close>)

lemma before_of_empty [simp]: "before c [] = []"
  by (simp add: before_def)

lemma urlsplit_authority:
  assumes "urlsplit ipv6 url = Some parts"
  obtains rest where "su_netloc parts = (if take 2 rest = ''//'' then takeWhile (\<lambda>c. c \<notin> set ''/?#'') (drop 2 rest) else [])"
    "su_path parts = before CHR ''?'' (before CHR ''#''
       (if take 2 rest = ''//'' then dropWhile (\<lambda>c. c \<notin> set ''/?#'') (drop 2 rest) else rest))"
proof -
  have split: "x = y" if "(if \<not> ok then None else Some x) = Some y" for ok and x y :: split_url
    using that by (simp split: if_split_asm)
  define rest where "rest = (if CHR '':'' \<in> set (clean_url url) \<and> before CHR '':'' (clean_url url) \<noteq> [] \<and> is_alpha (hd (clean_url url))
      \<and> list_all scheme_char (before CHR '':'' (clean_url url)) then after CHR '':'' (clean_url url) else clean_url url)"
  note parts = split [OF assms [unfolded urlsplit_def Let_def], folded rest_def, symmetric]
  show thesis by (rule that [of rest]) (simp_all only: parts split_url.simps)
qed

lemma path_of_authority_is_absolute:
  assumes "urlsplit ipv6 url = Some parts" "hostname parts = Some host"
  shows "su_path parts = [] \<or> take 1 (su_path parts) = ''/''"
proof -
  from assms(2) have "su_netloc parts \<noteq> []" by (auto simp: hostname_def hostinfo_def after_last_def)
  then have r: "su_path parts = before CHR ''?'' (before CHR ''#'' (dropWhile (\<lambda>c. c \<notin> set ''/?#'') r))" if "r = drop 2 rest"
      "su_netloc parts = (if take 2 rest = ''//'' then takeWhile (\<lambda>c. c \<notin> set ''/?#'') r else [])"
      "su_path parts = before CHR ''?'' (before CHR ''#'' (if take 2 rest = ''//'' then dropWhile (\<lambda>c. c \<notin> set ''/?#'') r else rest))"
      for r rest using that by (cases "take 2 rest = ''//''") (simp_all only: if_True if_False simp_thms)
  obtain r where r: "su_path parts = before CHR ''?'' (before CHR ''#'' (dropWhile (\<lambda>c. c \<notin> set ''/?#'') r))"
    by (rule urlsplit_authority [OF assms(1)]) (rule that, rule r [OF refl])
  show ?thesis
  proof (cases "dropWhile (\<lambda>c. c \<notin> set ''/?#'') r")
    case Nil
    then show ?thesis unfolding r by (simp only: before_of_empty simp_thms)
  next
    case (Cons c cs)
    then have "c \<in> set ''/?#''" using hd_dropWhile [of "\<lambda>c. c \<notin> set ''/?#''" r] by simp
    then show ?thesis unfolding r Cons by (auto simp: before_def)
  qed
qed

section \<open>Properties\<close>



end
