(* ===== verification/Authz.thy ===== *)
theory Authz
  imports Gate Cimd
begin

text \<open>
  The embedded authorization server (\<open>mcp/authz.py\<close>): authorize, consent page, consent decision, token
  and revocation endpoints.

  A handler takes the state of the request budget and returns the response as a coroutine over the grant
  store. The request models of the SDK, its redirect builder, the digests, \<open>repr\<close> and the web
  are fields of \<open>sdk\<close>; fresh ids and random tokens are arguments. A validation error carries whether it is
  about \<open>response_type\<close>. An exception that leaves a handler is its error value. Audit lines, response
  headers and templates are left out: a page is its context.
\<close>

section \<open>Data\<close>

record authz_config =
  az_issuer :: string
  az_resource :: string
  az_limit :: int

type_synonym params = "(string \<times> string) list"

record authorize_request =
  ar_client_id :: string
  ar_scope :: "string option"
  ar_resource :: "string option"
  ar_code_challenge :: string

datatype token_request =
    Code_request (tr_code: string) (tr_verifier: string) (tr_resource: "string option")
  | Refresh_request (tr_refresh: string) (tr_scope: "string option") (tr_target: "string option")
  | Other_request

record sdk =
  sdk_hmac :: "string \<Rightarrow> string"
  sdk_s256 :: "string \<Rightarrow> string"
  sdk_authorize :: "params \<Rightarrow> (bool \<times> string) + authorize_request"
  sdk_token :: "params \<Rightarrow> string + token_request"
  sdk_repr :: "string \<Rightarrow> string"
  sdk_redirect_uri :: "string \<Rightarrow> (string \<times> string option) list \<Rightarrow> string"
  sdk_web :: web

record consent_context =
  cc_txn_id :: string
  cc_nonce :: string
  cc_client_label :: string
  cc_resource :: string
  cc_scopes :: "(string \<times> string option) list"
  cc_redirect_host :: string
  cc_loopback :: bool

datatype response =
    Error_json int string string
  | Redirect_to string
  | Consent_page consent_context
  | Consent_error string
  | Tokens issued_tokens
  | Revoked
  | Rate_limited int

definition CONSENT_PATH :: string where "CONSENT_PATH = ''/oauth/consent''"

definition LOOPBACK_HOSTS :: "string list" where
  "LOOPBACK_HOSTS = [''localhost'', ''127.0.0.1'', ''::1'']"

definition SCOPE_DESCRIPTIONS :: "(string \<times> string) list" where
  "SCOPE_DESCRIPTIONS =
     [(''catalog:read'', ''Read the libraries and the media catalog''),
      (''jobs:read'', ''Read jobs, the queue state and statistics''),
      (''jobs:write'', ''Queue files and cancel waiting jobs'')]"

definition SEEDED_CLIENT_DOCUMENTS :: "(string \<times> string) list" where
  "SEEDED_CLIENT_DOCUMENTS = [(''https://claude.ai/oauth/claude-code-client-metadata'', ''Claude Code'')]"

definition EXPIRED_MESSAGE :: string where
  "EXPIRED_MESSAGE = ''This sign-in request has expired or was already answered. Start again from the client.''"

section \<open>Helpers\<close>

text \<open>\<open>None\<close> is the \<open>ValueError\<close> of a URL that does not split or of its port.\<close>

definition is_loopback_host :: "split_url \<Rightarrow> bool" where
  "is_loopback_host u \<longleftrightarrow> (case hostname u of None \<Rightarrow> False | Some host \<Rightarrow> host \<in> set LOOPBACK_HOSTS)"

definition redirect_matches :: "(string \<Rightarrow> bool) \<Rightarrow> string \<Rightarrow> string \<Rightarrow> bool option" where
  "redirect_matches ipv6 registered requested =
     (case (urlsplit ipv6 registered, urlsplit ipv6 requested) of
        (Some reg, Some req) \<Rightarrow>
          if su_fragment reg \<noteq> [] \<or> su_fragment req \<noteq> [] then Some False
          else if (su_scheme reg, hostname reg, su_path reg, su_query reg) \<noteq> (su_scheme req, hostname req, su_path req, su_query req)
          then Some False
          else if su_scheme reg = ''http'' \<and> is_loopback_host reg then Some True
          else (case (port reg, port req) of (Some p, Some q) \<Rightarrow> Some (p = q) | _ \<Rightarrow> None)
      | _ \<Rightarrow> None)"

fun any_redirect :: "(string \<Rightarrow> bool) \<Rightarrow> string \<Rightarrow> string list \<Rightarrow> bool option" where
  "any_redirect ipv6 requested [] = Some False"
| "any_redirect ipv6 requested (registered # rs) =
     (case redirect_matches ipv6 registered requested of
        None \<Rightarrow> None
      | Some hit \<Rightarrow> if hit then Some True else any_redirect ipv6 requested rs)"

text \<open>The pattern's \<open>$\<close> also accepts one line break after the text.\<close>

definition verifier_char :: "char \<Rightarrow> bool" where
  "verifier_char c \<longleftrightarrow> is_alpha c \<or> is_digit c \<or> c \<in> set ''-._~''"

definition verifier_text :: "string \<Rightarrow> bool" where
  "verifier_text v \<longleftrightarrow> 43 \<le> length v \<and> length v \<le> 128 \<and> list_all verifier_char v"

definition verifier_wellformed :: "string \<Rightarrow> bool" where
  "verifier_wellformed v \<longleftrightarrow> verifier_text v \<or> v \<noteq> [] \<and> of_char (List.last v) = (10 :: nat) \<and> verifier_text (butlast v)"

definition verifier_matches :: "(string \<Rightarrow> string) \<Rightarrow> string \<Rightarrow> string \<Rightarrow> bool" where
  "verifier_matches s256 code_verifier code_challenge \<longleftrightarrow> s256 code_verifier = code_challenge"

definition client_label :: "(string \<Rightarrow> bool) \<Rightarrow> oauth_client \<Rightarrow> string option" where
  "client_label ipv6 client =
     (if ocl_kind client = ''cimd'' then
        (case urlsplit ipv6 (ocl_id client) of
           None \<Rightarrow> None
         | Some u \<Rightarrow>
             let host = (case hostname u of None \<Rightarrow> ocl_id client | Some s \<Rightarrow> s)
             in Some (if ocl_name client = [] then host else host @ '' ('' @ ocl_name client @ '')''))
      else Some (ocl_name client))"

primrec seed_clients_from :: "(string \<times> string) list \<Rightarrow> unit oio" where
  "seed_clients_from [] = ret ()"
| "seed_clients_from (doc # docs) =
     bind (ensure_client (fst doc) ''cimd'' (snd doc) [] (Some (fst doc))) (\<lambda>_. seed_clients_from docs)"

definition seed_clients :: "unit oio" where
  "seed_clients = seed_clients_from SEEDED_CLIENT_DOCUMENTS"

section \<open>The server\<close>

definition throttled :: "authz_config \<Rightarrow> num \<Rightarrow> string option \<Rightarrow> windows \<Rightarrow> response option \<times> windows" where
  "throttled cfg now host ws =
     (case allow now (case host of None \<Rightarrow> ''unknown'' | Some s \<Rightarrow> s) (az_limit cfg) ws of
        (wait, ws') \<Rightarrow> (if wait = 0 then None else Some (Rate_limited wait), ws'))"

definition resolve_client :: "sdk \<Rightarrow> string \<Rightarrow> oauth_client option oio" where
  "resolve_client k client_id =
     bind (get_client client_id) (\<lambda>row.
     case row of
       None \<Rightarrow> ret None
     | Some client \<Rightarrow>
         if ocl_disabled_at client \<noteq> None then ret None
         else if ocl_kind client \<noteq> ''cimd'' then ret (Some client)
         else bind (peek od_clock) (\<lambda>now.
              if document_is_fresh now client CACHE_SECONDS then ret (Some client)
              else (case fst (fetch_document (sdk_web k) client_id) of
                      Inl (Document_error _) \<Rightarrow> ret None
                    | Inl _ \<Rightarrow> throw Bad_document
                    | Inr document \<Rightarrow>
                        bind (cache_client_document client_id (cd_client_name document) (cd_redirect_uris document)) (\<lambda>_.
                        get_client client_id))))"

definition check_resource :: "authz_config \<Rightarrow> string option \<Rightarrow> string option" where
  "check_resource cfg value =
     (case value of
        None \<Rightarrow> Some ''resource is required''
      | Some v \<Rightarrow>
          if v = [] then Some ''resource is required''
          else if rstrip_slash v \<noteq> az_resource cfg then Some ''resource does not name this server''
          else None)"

definition requested_scopes :: "string option \<Rightarrow> string list" where
  "requested_scopes scope =
     (case scope of None \<Rightarrow> INITIAL_SCOPES | Some s \<Rightarrow> if s = [] then INITIAL_SCOPES else words s)"

definition authorize_client ::
  "sdk \<Rightarrow> authz_config \<Rightarrow> string \<Rightarrow> authorize_request \<Rightarrow> oauth_client \<Rightarrow> string \<Rightarrow> string option \<Rightarrow> response oio"
where
  "authorize_client k cfg txn_id req client requested_redirect state =
     (let fail = (\<lambda>error description. ret (Redirect_to (sdk_redirect_uri k requested_redirect
             [(''error'', Some error), (''error_description'', Some description), (''state'', state), (''iss'', Some (az_issuer cfg))])));
          scopes = requested_scopes (ar_scope req);
          unknown = sort (remdups (filter (\<lambda>s. s \<notin> set SCOPES) scopes))
      in if unknown \<noteq> [] then fail ''invalid_scope'' (''unknown scope '' @ concat (map (\<lambda>s. s @ '' '') (butlast unknown)) @ List.last unknown)
         else (case check_resource cfg (ar_resource req) of
            Some problem \<Rightarrow> fail ''invalid_target'' problem
          | None \<Rightarrow>
              bind purge_expired_transactions (\<lambda>_.
              bind (create_transaction txn_id (ocl_id client) requested_redirect (ar_code_challenge req) scopes (az_resource cfg) state) (\<lambda>i.
              ret (Redirect_to (CONSENT_PATH @ ''?txn='' @ i))))))"

definition authorize_request_handler :: "sdk \<Rightarrow> authz_config \<Rightarrow> string \<Rightarrow> params \<Rightarrow> response oio" where
  "authorize_request_handler k cfg txn_id ps =
     (case sdk_authorize k ps of
        Inl (about_response_type, text) \<Rightarrow>
          ret (Error_json 400 (if about_response_type then ''unsupported_response_type'' else ''invalid_request'') text)
      | Inr req \<Rightarrow>
          bind (resolve_client k (ar_client_id req)) (\<lambda>row.
          case row of
            None \<Rightarrow> ret (Error_json 400 ''invalid_request'' (''client '' @ sdk_repr k (ar_client_id req)
              @ '' is not allowed here. An operator can allow it under Settings, Connected apps.''))
          | Some client \<Rightarrow>
              let requested_redirect = (case map_of ps ''redirect_uri'' of None \<Rightarrow> [] | Some u \<Rightarrow> u)
              in case (if requested_redirect = [] then Some False
                       else any_redirect (web_ipv6 (sdk_web k)) requested_redirect (ocl_redirect_uris client)) of
                   None \<Rightarrow> throw Bad_url
                 | Some hit \<Rightarrow>
                     if \<not> hit then ret (Error_json 400 ''invalid_request'' ''redirect_uri is not registered for this client'')
                     else authorize_client k cfg txn_id req client requested_redirect (map_of ps ''state'')))"

definition authorize ::
  "sdk \<Rightarrow> authz_config \<Rightarrow> num \<Rightarrow> string option \<Rightarrow> string \<Rightarrow> params \<Rightarrow> windows \<Rightarrow> response oio \<times> windows"
where
  "authorize k cfg now host txn_id ps ws =
     (case throttled cfg now host ws of
        (Some r, ws') \<Rightarrow> (ret r, ws')
      | (None, ws') \<Rightarrow> (authorize_request_handler k cfg txn_id ps, ws'))"

definition consent_page :: "sdk \<Rightarrow> string \<Rightarrow> params \<Rightarrow> response oio" where
  "consent_page k nonce ps =
     (let txn_id = (case map_of ps ''txn'' of None \<Rightarrow> [] | Some i \<Rightarrow> i)
      in bind (if txn_id = [] then ret None else get_transaction txn_id) (\<lambda>txn.
         case txn of
           None \<Rightarrow> ret (Consent_error EXPIRED_MESSAGE)
         | Some x \<Rightarrow>
             bind (arm_consent (sdk_hmac k) nonce txn_id) (\<lambda>armed.
             case armed of
               None \<Rightarrow> ret (Consent_error EXPIRED_MESSAGE)
             | Some n \<Rightarrow>
                 bind (get_client (ox_client_id x)) (\<lambda>row.
                 case row of
                   None \<Rightarrow> ret (Consent_error ''The client behind this request is no longer allowed.'')
                 | Some client \<Rightarrow>
                     if ocl_disabled_at client \<noteq> None
                     then ret (Consent_error ''The client behind this request is no longer allowed.'')
                     else (case (client_label (web_ipv6 (sdk_web k)) client, urlsplit (web_ipv6 (sdk_web k)) (ox_redirect_uri x)) of
                             (Some label, Some u) \<Rightarrow>
                               ret (Consent_page \<lparr>cc_txn_id = ox_id x, cc_nonce = n, cc_client_label = label, cc_resource = ox_resource x,
                                 cc_scopes = map (\<lambda>s. (s, map_of SCOPE_DESCRIPTIONS s)) (ox_scopes x),
                                 cc_redirect_host = su_netloc u, cc_loopback = is_loopback_host u\<rparr>)
                           | _ \<Rightarrow> throw Bad_url)))))"

definition form_text :: "params \<Rightarrow> string \<Rightarrow> string" where
  "form_text form key = (case map_of form key of None \<Rightarrow> [] | Some v \<Rightarrow> v)"

definition decide ::
  "sdk \<Rightarrow> authz_config \<Rightarrow> string \<Rightarrow> string \<Rightarrow> string \<Rightarrow> string \<Rightarrow> string \<Rightarrow> oauth_transaction \<Rightarrow> response oio"
where
  "decide k cfg grant_id fresh_code txn_id nonce decision x =
     (let reply = (\<lambda>args. ret (Redirect_to (sdk_redirect_uri k (ox_redirect_uri x)
            ([(''state'', ox_state x), (''iss'', Some (az_issuer cfg))] @ args))))
      in if decision = ''allow'' then
           bind get_admin_id (\<lambda>user_id.
           bind (case user_id of
                   None \<Rightarrow> ret None
                 | Some u \<Rightarrow> if u = [] then ret None
                            else approve_transaction (sdk_hmac k) grant_id fresh_code txn_id nonce u) (\<lambda>code.
           case code of
             None \<Rightarrow> ret (Consent_error EXPIRED_MESSAGE)
           | Some c \<Rightarrow> reply [(''code'', Some c)]))
         else
           bind (deny_transaction (sdk_hmac k) txn_id nonce) (\<lambda>closed.
           if \<not> closed then ret (Consent_error EXPIRED_MESSAGE)
           else reply [(''error'', Some ''access_denied''), (''error_description'', Some ''the administrator declined'')]))"

definition consent_decision :: "sdk \<Rightarrow> authz_config \<Rightarrow> string \<Rightarrow> string \<Rightarrow> params \<Rightarrow> response oio" where
  "consent_decision k cfg grant_id fresh_code form =
     (let txn_id = form_text form ''txn''
      in bind (if txn_id = [] then ret None else get_transaction txn_id) (\<lambda>txn.
         case txn of
           None \<Rightarrow> ret (Consent_error EXPIRED_MESSAGE)
         | Some x \<Rightarrow> decide k cfg grant_id fresh_code txn_id (form_text form ''nonce'') (form_text form ''decision'') x))"

text \<open>\<open>try\<close> with the exceptions a handler answers; any other leaves it.\<close>

definition answering :: "(oauth_error \<Rightarrow> response option) \<Rightarrow> 'a oio \<Rightarrow> (response + 'a) oio" where
  "answering f m = catch (bind m (\<lambda>a. ret (Inr a))) (\<lambda>e. case f e of None \<Rightarrow> throw e | Some r \<Rightarrow> ret (Inl r))"

definition exchange_redeemed ::
  "sdk \<Rightarrow> string \<Rightarrow> string \<Rightarrow> oauth_client \<Rightarrow> string \<Rightarrow> string option \<Rightarrow> response + oauth_transaction option \<Rightarrow> response oio"
where
  "exchange_redeemed k access refresh client verifier redirect_uri outcome =
     (case outcome of
        Inl answer \<Rightarrow> ret answer
      | Inr None \<Rightarrow> ret (Error_json 400 ''invalid_grant'' ''authorization code is unknown or expired'')
      | Inr (Some txn) \<Rightarrow>
          if ox_client_id txn \<noteq> ocl_id client
            then ret (Error_json 400 ''invalid_grant'' ''authorization code belongs to another client'')
          else if redirect_uri \<noteq> None \<and> redirect_uri \<noteq> Some (ox_redirect_uri txn)
            then ret (Error_json 400 ''invalid_grant'' ''redirect_uri differs from the authorization request'')
          else if \<not> verifier_matches (sdk_s256 k) verifier (ox_code_challenge txn)
            then ret (Error_json 400 ''invalid_grant'' ''code_verifier does not match'')
          else bind (issue_tokens (sdk_hmac k) access refresh (case ox_grant_id txn of None \<Rightarrow> [] | Some i \<Rightarrow> i)) (\<lambda>issued.
               ret (Tokens issued)))"

definition exchange_code ::
  "sdk \<Rightarrow> authz_config \<Rightarrow> string \<Rightarrow> string \<Rightarrow> string \<Rightarrow> oauth_client \<Rightarrow> string \<Rightarrow> string \<Rightarrow> string option \<Rightarrow> string option \<Rightarrow> response oio"
where
  "exchange_code k cfg marker access refresh client code verifier resource redirect_uri =
     (case check_resource cfg resource of
        Some problem \<Rightarrow> ret (Error_json 400 ''invalid_target'' problem)
      | None \<Rightarrow>
          if \<not> verifier_wellformed verifier then ret (Error_json 400 ''invalid_request'' ''code_verifier is malformed'')
          else bind (answering (\<lambda>e. if e = Replay_error
                   then Some (Error_json 400 ''invalid_grant'' ''authorization code was already used'') else None)
                 (redeem_code (sdk_hmac k) marker code))
               (exchange_redeemed k access refresh client verifier redirect_uri))"

definition refresh_redeemed ::
  "sdk \<Rightarrow> string \<Rightarrow> string \<Rightarrow> oauth_client \<Rightarrow> response + oauth_grant option \<Rightarrow> response oio"
where
  "refresh_redeemed k access refresh client outcome =
     (case outcome of
        Inl answer \<Rightarrow> ret answer
      | Inr None \<Rightarrow> ret (Error_json 400 ''invalid_grant'' ''refresh token is unknown, expired or revoked'')
      | Inr (Some g) \<Rightarrow>
          if og_client_id g \<noteq> ocl_id client
            then ret (Error_json 400 ''invalid_grant'' ''refresh token is unknown, expired or revoked'')
          else bind (issue_tokens (sdk_hmac k) access refresh (og_id g)) (\<lambda>issued. ret (Tokens issued)))"

definition refresh_grant ::
  "sdk \<Rightarrow> authz_config \<Rightarrow> string \<Rightarrow> string \<Rightarrow> string \<Rightarrow> oauth_client \<Rightarrow> string \<Rightarrow> string option \<Rightarrow> string option \<Rightarrow> response oio"
where
  "refresh_grant k cfg marker access refresh client token scope resource =
     (case (case resource of None \<Rightarrow> None | Some r \<Rightarrow> check_resource cfg (Some r)) of
        Some problem \<Rightarrow> ret (Error_json 400 ''invalid_target'' problem)
      | None \<Rightarrow>
          bind (answering (\<lambda>e. if e = Replay_error
                  then Some (Error_json 400 ''invalid_grant'' ''refresh token was already used. Grant revoked'')
                  else if e = Scope_error then Some (Error_json 400 ''invalid_scope'' ''scope is wider than the grant'') else None)
                (redeem_refresh_token (sdk_hmac k) marker token
                  (case scope of None \<Rightarrow> None | Some s \<Rightarrow> if s = [] then None else Some (words s))))
            (refresh_redeemed k access refresh client))"

definition enabled_client :: "string \<Rightarrow> oauth_client option oio" where
  "enabled_client client_id =
     bind (if client_id = [] then ret None else get_client client_id) (\<lambda>row.
     ret (case row of None \<Rightarrow> None | Some c \<Rightarrow> if ocl_disabled_at c \<noteq> None then None else Some c))"

definition token_endpoint ::
  "sdk \<Rightarrow> authz_config \<Rightarrow> num \<Rightarrow> string option \<Rightarrow> string \<Rightarrow> string \<Rightarrow> string \<Rightarrow> params \<Rightarrow> windows \<Rightarrow> response oio \<times> windows"
where
  "token_endpoint k cfg now host marker access refresh form ws =
     (case throttled cfg now host ws of
        (Some r, ws') \<Rightarrow> (ret r, ws')
      | (None, ws') \<Rightarrow>
          (bind (enabled_client (form_text form ''client_id'')) (\<lambda>row.
           case row of
             None \<Rightarrow> ret (Error_json 401 ''invalid_client'' ''unknown client'')
           | Some client \<Rightarrow>
               (case sdk_token k form of
                  Inl text \<Rightarrow> ret (Error_json 400 ''invalid_request'' text)
                | Inr (Code_request code verifier resource) \<Rightarrow>
                    exchange_code k cfg marker access refresh client code verifier resource (map_of form ''redirect_uri'')
                | Inr (Refresh_request token scope resource) \<Rightarrow>
                    refresh_grant k cfg marker access refresh client token scope resource
                | Inr Other_request \<Rightarrow>
                    ret (Error_json 400 ''unsupported_grant_type'' ''only authorization_code and refresh_token''))), ws'))"

definition revoke_endpoint ::
  "sdk \<Rightarrow> authz_config \<Rightarrow> num \<Rightarrow> string option \<Rightarrow> params \<Rightarrow> windows \<Rightarrow> response oio \<times> windows"
where
  "revoke_endpoint k cfg now host form ws =
     (case throttled cfg now host ws of
        (Some r, ws') \<Rightarrow> (ret r, ws')
      | (None, ws') \<Rightarrow>
          (bind (enabled_client (form_text form ''client_id'')) (\<lambda>row.
           case row of
             None \<Rightarrow> ret (Error_json 401 ''invalid_client'' ''unknown client'')
           | Some client \<Rightarrow>
               if form_text form ''token'' = [] then ret (Error_json 400 ''invalid_request'' ''token is required'')
               else bind (revoke_by_token (sdk_hmac k) (form_text form ''token'') (ocl_id client)) (\<lambda>_. ret Revoked)), ws'))"

section \<open>Specifications\<close>

text \<open>A token pair as the store holds it: under one grant, with its scopes, never beyond its deadline.\<close>

definition issued_under :: "(string \<Rightarrow> string) \<Rightarrow> string \<Rightarrow> issued_tokens \<Rightarrow> oauth_db \<Rightarrow> bool" where
  "issued_under hm i it d =
     (case (find_row og_id (od_grants d) i, find_row ot_token_hash (od_tokens d) (hash_token hm ''access'' (it_access_token it)),
            find_row ot_token_hash (od_tokens d) (hash_token hm ''refresh'' (it_refresh_token it))) of
        (Some g, Some a, Some r) \<Rightarrow>
          ot_grant_id a = i \<and> ot_kind a = ''access'' \<and> ot_expires_at a \<le> og_expires_at g
          \<and> ot_grant_id r = i \<and> ot_kind r = ''refresh'' \<and> ot_expires_at r = og_expires_at g \<and> it_scope it = og_scopes g
      | _ \<Rightarrow> False)"

text \<open>A transaction that was approved, denied or spent, and what other requests may do to it while no
  new transaction takes its id.\<close>

definition txn_rows :: "string \<Rightarrow> oauth_db \<Rightarrow> oauth_transaction list" where
  "txn_rows i d = filter (\<lambda>x. ox_id x = i) (od_transactions d)"

definition decided :: "string \<Rightarrow> oauth_db \<Rightarrow> bool" where
  "decided i d \<longleftrightarrow> list_all (\<lambda>x. ox_approved_at x \<noteq> None \<or> ox_consumed_at x \<noteq> None) (txn_rows i d)"

definition decisions_stand :: "string \<Rightarrow> oauth_db \<Rightarrow> oauth_db \<Rightarrow> bool" where
  "decisions_stand i d d' \<longleftrightarrow> length (txn_rows i d') \<le> length (txn_rows i d) \<and> (decided i d \<longrightarrow> decided i d')"

text \<open>No grant and no token appears or changes.\<close>

definition grants_nothing :: "oauth_db \<Rightarrow> oauth_db \<Rightarrow> bool" where
  "grants_nothing d d' \<longleftrightarrow> od_grants d' = od_grants d \<and> od_tokens d' = od_tokens d"

text \<open>A transaction as a new authorization request leaves it.\<close>

definition parked_request :: "authz_config \<Rightarrow> string \<Rightarrow> string \<Rightarrow> string \<Rightarrow> string \<Rightarrow> oauth_transaction \<Rightarrow> bool" where
  "parked_request cfg i client_id u challenge x \<longleftrightarrow> ox_id x = i \<and> ox_client_id x = client_id \<and> ox_redirect_uri x = u
     \<and> ox_code_challenge x = challenge \<and> ox_scopes x \<noteq> [] \<and> set (ox_scopes x) \<subseteq> set SCOPES
     \<and> ox_resource x = canonical (az_resource cfg) \<and> ox_approved_at x = None \<and> ox_grant_id x = None \<and> ox_code_hash x = None
     \<and> ox_consumed_at x = None"

text \<open>A sample deployment: digests that keep the text, one verifier, and a client with a loopback URI.\<close>

definition sample_sdk :: sdk where
  "sample_sdk = \<lparr>sdk_hmac = (\<lambda>s. s), sdk_s256 = (\<lambda>_. ''proof''),
     sdk_authorize = (\<lambda>_. Inr \<lparr>ar_client_id = ''app'', ar_scope = None, ar_resource = Some ''https://tf/mcp'', ar_code_challenge = ''proof''\<rparr>),
     sdk_token = (\<lambda>_. Inr Other_request), sdk_repr = (\<lambda>s. s), sdk_redirect_uri = (\<lambda>u _. u), sdk_web = sample_web\<rparr>"

definition sample_config :: authz_config where
  "sample_config = \<lparr>az_issuer = ''https://tf'', az_resource = ''https://tf/mcp'', az_limit = 120\<rparr>"

definition sample_form :: "string \<Rightarrow> params" where
  "sample_form decision = [(''txn'', ''t1''), (''nonce'', ''n''), (''decision'', decision)]"

definition parked_store :: oauth_db where
  "parked_store = put_transactions [sample_transaction\<lparr>ox_approved_at := None, ox_grant_id := None, ox_code_hash := None\<rparr>] sample_store"

section \<open>Facts\<close>

interpretation decision: interleaving "decisions_stand i" for i
  by unfold_locales (auto simp: decisions_stand_def)

interpretation bystander: interleaving grants_nothing
  by unfold_locales (auto simp: grants_nothing_def)

lemma insert_into_Inr:
  assumes "insert_into key get put r es d = (Inr u, es', d')"
  shows "es' = List.tl es" and "key r \<notin> key ` set (get (next_state es d))" and "d' = put (get (next_state es d) @ [r]) (next_state es d)"
  using assms by (auto simp: insert_into_def bind_simps ret_def throw_def split: if_splits)

lemma find_row_append_new: "key r \<notin> key ` set t \<Longrightarrow> find_row key (t @ [r]) (key r) = Some r"
  by (induction t) (auto simp: find_row_def)

lemma issue_tokens_Inr:
  assumes es: "interferes_as (later h) es" and r: "issue_tokens hm a r i es d = (Inr it, es', d')"
  shows "issued_under hm i it d'"
proof -
  let ?d = "next_state es d"
  let ?A = "hash_token hm ''access'' a" and ?R = "hash_token hm ''refresh'' r"
  obtain g where g: "find_row og_id (od_grants ?d) i = Some g"
    using r by (cases "find_row og_id (od_grants ?d) i") (auto simp: issue_tokens_def bind_simps throw_never)
  define x where "x = min (od_clock ?d + seconds ACCESS_TTL_SECONDS) (og_expires_at g)"
  from r g obtain es1 d1 es2 where i1: "insert_into ot_token_hash od_tokens put_tokens (new_token ?A i ''access'' (od_clock ?d) x) (List.tl es) ?d = (Inr (), es1, d1)"
      and i2: "insert_into ot_token_hash od_tokens put_tokens (new_token ?R i ''refresh'' (od_clock ?d) (og_expires_at g)) es1 d1 = (Inr (), es2, d')"
      and it: "it_access_token it = a" "it_refresh_token it = r" "it_scope it = og_scopes g"
    by (auto simp: issue_tokens_def bind_simps Let_def ret_def x_def elim!: bind_Inr)
  note es1 = store.follows_reach [OF follows_insert_token interferes_tl [OF es] i1]
  note es2 = store.follows_reach [OF follows_insert_token es1(2) i2]
  have tA: "find_row ot_token_hash (od_tokens d1) ?A = Some (new_token ?A i ''access'' (od_clock ?d) x)"
    using insert_into_Inr(2,3) [OF i1] find_row_append_new [of ot_token_hash "new_token ?A i ''access'' (od_clock ?d) x"]
    by (simp add: new_token_def)
  have tR: "find_row ot_token_hash (od_tokens d') ?R = Some (new_token ?R i ''refresh'' (od_clock ?d) (og_expires_at g))"
    using insert_into_Inr(2,3) [OF i2] find_row_append_new [of ot_token_hash "new_token ?R i ''refresh'' (od_clock ?d) (og_expires_at g)"]
    by (simp add: new_token_def)
  obtain t g' where "find_row ot_token_hash (od_tokens d') ?A = Some t" "same_token (new_token ?A i ''access'' (od_clock ?d) x) t"
      "find_row og_id (od_grants d') i = Some g'" "same_grant g g'"
    using later_token [OF es2(1) tA] later_grant [OF later_trans [OF es1(1) es2(1)] g] by blast
  with tR it show ?thesis by (auto simp: issued_under_def same_token_def same_grant_def new_token_def x_def)
qed

lemma redeem_code_Some:
  assumes "interferes_as (later h) es" and "h = hash_token hm ''code'' c" and "redeem_code hm m c es d = (Inr (Some x), es', d')"
  obtains x0 where "x0 \<in> set (code_rows h d)" "same_code x0 x" "ox_grant_id x \<noteq> None" "od_clock d < ox_expires_at x"
    "unspent h (next_state es d)" "\<not> unspent h d'"
  using assms
proof (cases rule: redeem_code_cases)
  case (spent y)
  then have "y = x" "ox_grant_id x \<noteq> None" "od_clock d < ox_expires_at x" by (auto split: if_splits)
  with later_code [OF spent(2,1)] spent that show thesis by blast
next
  case (replay y es4 d4)
  then show thesis by (simp add: bind_throw_never)
qed simp

lemma answering_Inr:
  assumes "answering f m es d = (Inr (Inr a), es', d')"
  shows "m es d = (Inr a, es', d')"
  using assms unfolding answering_def
  by (elim catch_Inr bind_Inr) (auto simp: ret_def throw_def split: option.splits elim!: bind_Inr)

lemma answering_Inl:
  assumes "answering f m es d = (Inr (Inl r), es', d')"
  obtains e where "f e = Some r"
  using assms unfolding answering_def
  by (elim catch_Inr bind_Inr) (auto simp: ret_def throw_def split: option.splits)

lemma exchange_redeemed_Tokens:
  assumes "exchange_redeemed k a rf client verifier redirect outcome es d = (Inr (Tokens it), es', d')" and "outcome \<noteq> Inl (Tokens it)"
  obtains x where "outcome = Inr (Some x)" "ox_client_id x = ocl_id client" "redirect \<in> {None, Some (ox_redirect_uri x)}"
    "sdk_s256 k verifier = ox_code_challenge x"
    "issue_tokens (sdk_hmac k) a rf (case ox_grant_id x of None \<Rightarrow> [] | Some i \<Rightarrow> i) es d = (Inr it, es', d')"
proof -
  from assms obtain x where o: "outcome = Inr (Some x)"
    by (auto simp: exchange_redeemed_def ret_def split: sum.splits option.splits)
  with assms(1) have x: "ox_client_id x = ocl_id client" "redirect \<in> {None, Some (ox_redirect_uri x)}" "sdk_s256 k verifier = ox_code_challenge x"
    by (simp_all add: exchange_redeemed_def ret_def verifier_matches_def split: if_split_asm)
  with o assms(1) have "bind (issue_tokens (sdk_hmac k) a rf (case ox_grant_id x of None \<Rightarrow> [] | Some i \<Rightarrow> i)) (\<lambda>issued. ret (Tokens issued)) es d
      = (Inr (Tokens it), es', d')"
    by (auto simp: exchange_redeemed_def verifier_matches_def)
  then have "issue_tokens (sdk_hmac k) a rf (case ox_grant_id x of None \<Rightarrow> [] | Some i \<Rightarrow> i) es d = (Inr it, es', d')"
    by (auto simp: ret_def elim!: bind_Inr)
  with that o x show thesis by blast
qed

subsection \<open>One decision per transaction\<close>

lemma stand_same: "od_transactions d' = od_transactions d \<Longrightarrow> decisions_stand i d d'"
  by (simp add: decisions_stand_def decided_def txn_rows_def)

lemma stand_update:
  assumes "\<And>x. P x \<Longrightarrow> ox_id (f x) = ox_id x
      \<and> (ox_approved_at x \<noteq> None \<or> ox_consumed_at x \<noteq> None \<longrightarrow> ox_approved_at (f x) \<noteq> None \<or> ox_consumed_at (f x) \<noteq> None)"
  shows "decisions_stand i d (put_transactions (update_where P f (od_transactions d)) d)"
proof -
  have "filter (\<lambda>x. ox_id x = i) (update_where P f t) = update_where P f (filter (\<lambda>x. ox_id x = i) t)" for t
    using assms by (induction t) (auto simp: update_where_def)
  then show ?thesis using assms
    by (fastforce simp: decisions_stand_def decided_def txn_rows_def list_all_iff set_update_where)
qed

lemma stand_delete: "decisions_stand i d (put_transactions (delete_where P (od_transactions d)) d)"
proof -
  have "length (filter (\<lambda>x. ox_id x = i) (delete_where P t)) \<le> length (filter (\<lambda>x. ox_id x = i) t)" for t
    by (induction t) (auto simp: delete_where_def)
  then show ?thesis by (auto simp: decisions_stand_def decided_def txn_rows_def list_all_iff)
qed

lemma stand_append: "ox_id x \<noteq> i \<Longrightarrow> decisions_stand i d (put_transactions (od_transactions d @ [x]) d)"
  by (simp add: decisions_stand_def decided_def txn_rows_def)

lemma stand_update_in:
  assumes "\<And>d. decisions_stand i d (put (update_where P f (get d)) d)"
  shows "follows_as (decisions_stand i) (update_in get put P f)"
  unfolding update_in_def by (rule decision.follows_stmt) (simp add: assms)

lemma stand_insert_into:
  assumes "\<And>d. decisions_stand i d (put (get d @ [r]) d)"
  shows "follows_as (decisions_stand i) (insert_into key get put r)"
  unfolding insert_into_def by (intro decision.io_rules decision.follows_stmt) (simp add: assms stand_same)

lemma stand_transactions:
  "t \<noteq> i \<Longrightarrow> follows_as (decisions_stand i) (create_transaction t c u ch s r st)"
  "follows_as (decisions_stand i) (get_transaction t)"
  "follows_as (decisions_stand i) (arm_consent hm n t)"
  "follows_as (decisions_stand i) (deny_transaction hm t n)"
  "follows_as (decisions_stand i) (record_code t g c e)"
  "follows_as (decisions_stand i) (consume_code m c)"
  "follows_as (decisions_stand i) purge_expired_transactions"
  unfolding create_transaction_def get_transaction_def arm_consent_def deny_transaction_def record_code_def consume_code_def
    purge_expired_transactions_def
  by (intro decision.io_rules decision.follows_stmt stand_update_in stand_insert_into stand_update;
      auto simp: stand_delete stand_same stand_append intro!: stand_update)+

lemma stand_create_grant: "follows_as (decisions_stand i) (create_grant g c u s r l e)"
  unfolding create_grant_def by (intro decision.io_rules stand_insert_into) (simp add: stand_same)

lemma stand_revoke: "follows_as (decisions_stand i) (revoke_grant g)"
  unfolding revoke_grant_def by (intro decision.io_rules stand_update_in) (simp add: stand_same)

lemma stand_approve: "follows_as (decisions_stand i) (approve_transaction hm g c t n u)"
  unfolding approve_transaction_def
  by (intro decision.io_rules stand_update_in stand_create_grant stand_transactions stand_update) simp

text \<open>A decision in a store where the transaction is decided, and one that takes effect.\<close>

lemma decided_not_open: "decided i d \<Longrightarrow> rowcount (open_with_nonce hm i n) (od_transactions d) = 0"
  by (auto simp: rowcount_zero open_with_nonce_def decided_def txn_rows_def list_all_iff)

lemma decided_next: "interferes_as (decisions_stand i) es \<Longrightarrow> decided i d \<Longrightarrow> decided i (next_state es d)"
  using decision.reach_next [of i es d] by (simp add: decisions_stand_def)

lemma approve_decided:
  assumes "interferes_as (decisions_stand i) es" and "decided i d"
  shows "fst (approve_transaction hm g c i n u es d) = Inr None" and "fst (deny_transaction hm i n es d) = Inr False"
  using decided_not_open [OF decided_next [OF assms]]
  by (simp_all add: approve_transaction_def deny_transaction_def bind_simps update_in_def ret_def)

lemma open_row_decided:
  assumes "length (txn_rows i d) \<le> 1" and "rowcount (open_with_nonce hm i n) (od_transactions d) \<noteq> 0"
    and f: "\<And>x. ox_id (f x) = ox_id x \<and> (ox_approved_at (f x) \<noteq> None \<or> ox_consumed_at (f x) \<noteq> None)"
  shows "decided i (put_transactions (update_where (open_with_nonce hm i n) f (od_transactions d)) d)"
proof -
  obtain x where x: "x \<in> set (txn_rows i d)" "open_with_nonce hm i n x"
    using assms(2) by (auto simp: rowcount_zero txn_rows_def open_with_nonce_def)
  with assms(1) have "y = x" if "y \<in> set (txn_rows i d)" for y using that by (cases "txn_rows i d") auto
  then show ?thesis using x(2) f by (auto simp: decided_def txn_rows_def list_all_iff set_update_where)
qed

lemma deny_decides:
  assumes "length (txn_rows i (next_state es d)) \<le> 1" and "deny_transaction hm i n es d = (Inr True, es', d')"
  shows "decided i d'"
  using assms open_row_decided [of i "next_state es d" hm n "\<lambda>x. x\<lparr>ox_consumed_at := Some (od_clock d)\<rparr>"]
  by (auto simp: deny_transaction_def bind_simps update_in_def ret_def split: if_splits)

lemma approve_decides:
  assumes es: "interferes_as (decisions_stand i) es" and "length (txn_rows i (next_state es d)) \<le> 1"
    and a: "approve_transaction hm g c i n u es d = (Inr (Some c'), es', d')"
  shows "decided i d'"
proof -
  let ?d = "next_state es d"
  let ?e = "put_transactions (update_where (open_with_nonce hm i n) (\<lambda>x. x\<lparr>ox_approved_at := Some (od_clock d)\<rparr>) (od_transactions ?d)) ?d"
  define rest where "rest = bind (get_transaction i) (\<lambda>txn. case txn of None \<Rightarrow> ret None | Some x \<Rightarrow>
      bind (create_grant g (ox_client_id x) u (ox_scopes x) (ox_resource x) [] None) (\<lambda>gid.
      bind (record_code i gid (hash_token hm ''code'' c) (od_clock d + seconds CODE_TTL_SECONDS)) (\<lambda>_. ret (Some c))))"
  have n: "rowcount (open_with_nonce hm i n) (od_transactions ?d) \<noteq> 0" and run: "rest (List.tl es) ?e = (Inr (Some c'), es', d')"
    using a by (simp_all add: approve_transaction_def bind_simps update_in_def ret_def rest_def split: if_split_asm)
  have "decided i ?e" by (rule open_row_decided [OF assms(2) n]) simp
  have f: "follows_as (decisions_stand i) rest"
    unfolding rest_def by (intro decision.io_rules stand_create_grant stand_transactions)
  from decision.follows_reach(1) [OF f interferes_tl [OF es] run] \<open>decided i ?e\<close> show ?thesis
    by (simp add: decisions_stand_def)
qed

lemma rows_next:
  "length (txn_rows i d) \<le> 1 \<Longrightarrow> interferes_as (decisions_stand i) es \<Longrightarrow> length (txn_rows i (next_state es d)) \<le> 1"
  using decision.reach_next [of i es d] by (simp add: decisions_stand_def)

lemma decide_decides:
  assumes es: "interferes_as (decisions_stand i) es" and pk: "length (txn_rows i d) \<le> 1"
    and r: "decide k cfg g c i n v x es d = (Inr (Redirect_to u), es', d')"
  shows "decided i d'"
proof (cases "v = ''allow''")
  case True
  with r obtain user c' es1 where a: "approve_transaction (sdk_hmac k) g c i n user (List.tl es) (next_state es d) = (Inr (Some c'), es1, d')"
    by (auto simp: decide_def Let_def get_admin_id_def bind_query ret_def split: option.splits if_splits elim!: bind_Inr)
  show ?thesis
    by (rule approve_decides [OF interferes_tl [OF es] rows_next [OF rows_next [OF pk es] interferes_tl [OF es]] a])
next
  case False
  with r obtain es1 where "deny_transaction (sdk_hmac k) i n es d = (Inr True, es1, d')"
    by (auto simp: decide_def Let_def ret_def split: if_splits elim!: bind_Inr)
  then show ?thesis by (rule deny_decides [OF rows_next [OF pk es]])
qed

lemma decide_decided:
  assumes es: "interferes_as (decisions_stand i) es" and d: "decided i d"
  shows "fst (decide k cfg g c i n v x es d) = Inr (Consent_error EXPIRED_MESSAGE)"
proof (cases "v = ''allow''")
  case True
  let ?d = "next_state es d"
  obtain y es1 d1 where a: "(case map_option us_id (find_row us_username (od_users ?d) ADMIN_USERNAME) of
        None \<Rightarrow> ret None | Some u \<Rightarrow> if u = [] then ret None else approve_transaction (sdk_hmac k) g c i n u) (List.tl es) ?d = (y, es1, d1)"
    by (rule prod_cases3)
  moreover have "y = Inr None"
    using a approve_decided(1) [OF interferes_tl [OF es] decided_next [OF es d], of "sdk_hmac k" g c n]
    by (auto simp: ret_def split: option.splits if_splits) (metis fst_conv)
  ultimately show ?thesis using True by (simp add: decide_def Let_def get_admin_id_def bind_query bind_def [of "case_option _ _ _"] ret_def)
next
  case False
  obtain y es1 d1 where a: "deny_transaction (sdk_hmac k) i n es d = (y, es1, d1)" by (rule prod_cases3)
  with approve_decided(2) [OF es d, of "sdk_hmac k" n] have "y = Inr False" by simp
  with a False show ?thesis by (simp add: decide_def Let_def bind_def ret_def)
qed

subsection \<open>What an authorization request leaves behind\<close>

lemma any_redirect_True: "any_redirect v u rs = Some True \<Longrightarrow> \<exists>registered \<in> set rs. redirect_matches v registered u = Some True"
  by (induction rs) (auto split: option.splits if_splits)

lemma validate_scopes_Some: "validate_scopes ss = Some ts \<Longrightarrow> ts \<noteq> [] \<and> set ts \<subseteq> set SCOPES"
  by (auto simp: validate_scopes_def split: if_splits dest: arg_cong [where f = set])

lemma bystander_update_in:
  assumes "\<And>d. grants_nothing d (put (update_where P f (get d)) d)"
  shows "follows_as grants_nothing (update_in get put P f)"
  unfolding update_in_def by (rule bystander.follows_stmt) (simp add: assms)

lemma bystander_insert_into:
  assumes "\<And>d. grants_nothing d (put (get d @ [r]) d)"
  shows "follows_as grants_nothing (insert_into key get put r)"
  unfolding insert_into_def by (intro bystander.io_rules bystander.follows_stmt) (simp add: assms bystander.reach_refl)

lemma bystander_resolve: "follows_as grants_nothing (resolve_client k c)"
proof -
  have "follows_as grants_nothing (cache_client_document c n r)" for n r
    unfolding cache_client_document_def by (intro bystander.io_rules bystander_update_in) (simp add: grants_nothing_def)
  then show ?thesis unfolding resolve_client_def get_client_def
    by (intro bystander.io_rules) (auto split: sum.splits doc_error.splits intro!: bystander.io_rules)
qed

lemma bystander_authorize: "follows_as grants_nothing (authorize_request_handler k cfg i ps)"
proof -
  have "follows_as grants_nothing purge_expired_transactions"
    unfolding purge_expired_transactions_def by (intro bystander.io_rules bystander.follows_stmt) (simp add: grants_nothing_def)
  moreover have "follows_as grants_nothing (create_transaction i c u ch s r st)" for c u ch s r st
    unfolding create_transaction_def by (intro bystander.io_rules bystander_insert_into) (simp add: grants_nothing_def)
  ultimately have "follows_as grants_nothing (authorize_client k cfg i req client u st)" for req client u st
    unfolding authorize_client_def Let_def by (intro bystander.io_rules)
  then show ?thesis unfolding authorize_request_handler_def Let_def
    by (cases "sdk_authorize k ps") (auto intro!: bystander.io_rules bystander_resolve split: prod.split)
qed

lemma authorize_client_redirect:
  assumes "authorize_client k cfg i req client u st es d = (Inr (Redirect_to v), es', d')"
  obtains (refused) error msg where "v = sdk_redirect_uri k u
      [(''error'', Some error), (''error_description'', Some msg), (''state'', st), (''iss'', Some (az_issuer cfg))]"
    | (parked) x where "v = CONSENT_PATH @ ''?txn='' @ i" "x \<in> set (od_transactions d')"
        "parked_request cfg i (ocl_id client) u (ar_code_challenge req) x"
proof (cases "sort (remdups (filter (\<lambda>s. s \<notin> set SCOPES) (requested_scopes (ar_scope req)))) = [] \<and> check_resource cfg (ar_resource req) = None")
  case False
  with assms show thesis
    by (auto simp: authorize_client_def Let_def ret_def split: if_splits option.splits intro: refused)
next
  case True
  with assms obtain es1 d1 es2 d2 i' where v: "v = CONSENT_PATH @ ''?txn='' @ i'" and
      c: "create_transaction i (ocl_id client) u (ar_code_challenge req) (requested_scopes (ar_scope req)) (az_resource cfg) st es1 d1
        = (Inr i', es2, d')"
    by (auto simp: authorize_client_def Let_def ret_def elim!: bind_Inr)
  then obtain ts where ts: "validate_scopes (requested_scopes (ar_scope req)) = Some ts"
    by (cases "validate_scopes (requested_scopes (ar_scope req))") (simp_all add: create_transaction_def throw_never)
  with c have "i' = i" and x: "\<exists>x \<in> set (od_transactions d'). parked_request cfg i (ocl_id client) u (ar_code_challenge req) x"
    using validate_scopes_Some [OF ts]
    by (auto simp: create_transaction_def parked_request_def bind_simps ret_def elim!: bind_Inr dest!: insert_into_Inr(3))
  with v show thesis by (auto intro: parked)
qed

lemma resolve_client_Some:
  assumes "resolve_client k c es d = (Inr (Some client), es', d')"
  shows "find_row ocl_id (od_clients d') c = Some client"
proof -
  let ?d = "next_state es d"
  obtain row where row: "find_row ocl_id (od_clients ?d) c = Some row"
    using assms by (cases "find_row ocl_id (od_clients ?d) c") (auto simp: resolve_client_def get_client_def bind_simps ret_def)
  show ?thesis
  proof (cases "client = row \<and> d' = ?d")
    case False
    with assms row obtain n u es1 d1 where "get_client c es1 d1 = (Inr (Some client), es', d')"
      by (auto simp: resolve_client_def get_client_def [of c] bind_query bind_peek ret_def throw_def
          split: if_splits sum.splits doc_error.splits elim!: bind_Inr)
    then show ?thesis by (auto simp: get_client_def query_eq)
  qed (use row in simp)
qed

section \<open>Properties\<close>

text \<open>
  C7. The code exchange issues tokens only to the party the code was made for: the resource named is this
  server, the code was unspent and unexpired, it belongs to the client asking, the redirect URI (when one
  is sent) is the one of the authorization request, and the verifier hashes to its challenge. The pair is
  stored under the code's own grant, with the grant's scopes and inside its deadline, and the code is
  spent, whatever other requests do meanwhile.
\<close>

theorem code_exchange_is_bound:
  assumes h: "h = hash_token (sdk_hmac k) ''code'' code" and es: "interferes_as (later h) es"
    and r: "exchange_code k cfg m a rf client code verifier resource redirect es d = (Inr (Tokens it), es', d')"
  shows "\<exists>x i. x \<in> set (code_rows h d) \<and> ox_client_id x = ocl_id client \<and> redirect \<in> {None, Some (ox_redirect_uri x)}
     \<and> sdk_s256 k verifier = ox_code_challenge x \<and> od_clock d < ox_expires_at x \<and> check_resource cfg resource = None
     \<and> unspent h (next_state es d) \<and> \<not> unspent h d' \<and> ox_grant_id x = Some i \<and> issued_under (sdk_hmac k) i it d'"
proof -
  have res: "check_resource cfg resource = None" and ok: "verifier_wellformed verifier"
    using r by (auto simp: exchange_code_def ret_def split: option.splits if_splits)
  from r res ok obtain outcome es1 d1 where "answering (\<lambda>e. if e = Replay_error
        then Some (Error_json 400 ''invalid_grant'' ''authorization code was already used'') else None)
        (redeem_code (sdk_hmac k) m code) es d = (Inr outcome, es1, d1)"
      and rest: "exchange_redeemed k a rf client verifier redirect outcome es1 d1 = (Inr (Tokens it), es', d')"
    by (simp add: exchange_code_def) (erule bind_Inr, rule that)
  moreover from this(1) have "outcome \<noteq> Inl (Tokens it)" by (auto elim!: answering_Inl split: if_splits)
  with rest obtain x where x: "outcome = Inr (Some x)" "ox_client_id x = ocl_id client" "redirect \<in> {None, Some (ox_redirect_uri x)}"
      "sdk_s256 k verifier = ox_code_challenge x"
      and t: "issue_tokens (sdk_hmac k) a rf (case ox_grant_id x of None \<Rightarrow> [] | Some i \<Rightarrow> i) es1 d1 = (Inr it, es', d')"
    by (rule exchange_redeemed_Tokens)
  ultimately have c: "redeem_code (sdk_hmac k) m code es d = (Inr (Some x), es1, d1)" using answering_Inr by simp
  note es1 = store.follows_reach(2) [OF follows_redeem_code es c]
  obtain x0 where x0: "x0 \<in> set (code_rows h d)" "same_code x0 x" "ox_grant_id x \<noteq> None" "od_clock d < ox_expires_at x"
      "unspent h (next_state es d)" "\<not> unspent h d1"
    by (rule redeem_code_Some [OF es h c])
  have "\<not> unspent h d'" using later_unspent [OF store.follows_reach(1) [OF follows_issue es1 t] x0(6)] .
  with x x0 res issue_tokens_Inr [OF es1 t] show ?thesis by (intro exI [of _ x0]) (auto simp: same_code_def)
qed

theorem code_exchange_is_bound_witness:
  "case exchange_code sample_sdk sample_config ''m'' ''a2'' ''r2'' sample_client ''c'' (replicate 43 CHR ''a'') (Some ''https://tf/mcp/'')
       (Some ''http://localhost:90/cb'') [] sample_store of
     (r, _, d) \<Rightarrow> (\<exists>it. r = Inr (Tokens it) \<and> issued_under (\<lambda>s. s) ''g1'' it d) \<and> \<not> unspent ''mcp-code:c'' d"
proof -
  let ?run = "exchange_code sample_sdk sample_config ''m'' ''a2'' ''r2'' sample_client ''c'' (replicate 43 CHR ''a'') (Some ''https://tf/mcp/'')
       (Some ''http://localhost:90/cb'') [] sample_store"
  define it where "it = \<lparr>it_access_token = ''a2'', it_refresh_token = ''r2'', it_expires_in = 3600, it_scope = [''catalog:read'', ''jobs:read'']\<rparr>"
  obtain r es d where 1: "?run = (r, es, d)" by (rule prod_cases3)
  have "fst ?run = Inr (Tokens it)" unfolding it_def by code_simp
  with 1 have run: "?run = (Inr (Tokens it), es, d)" by simp
  have h: "''mcp-code:c'' = hash_token (sdk_hmac sample_sdk) ''code'' ''c''" by code_simp
  have quiet: "interferes_as (later ''mcp-code:c'') []" by (simp add: interferes_as_def)
  from code_exchange_is_bound [OF h quiet run] obtain x i where x: "x \<in> set (code_rows ''mcp-code:c'' sample_store)" "ox_grant_id x = Some i"
      "issued_under (sdk_hmac sample_sdk) i it d" "\<not> unspent ''mcp-code:c'' d" by (elim exE conjE) (rule that; assumption)
  have "code_rows ''mcp-code:c'' sample_store = [sample_transaction]" by code_simp
  with x(1,2) have "i = ''g1''" by (simp add: sample_transaction_def)
  with x run show ?thesis by (simp add: sample_sdk_def)
qed

text \<open>
  C22. One decision per authorization request: once an allow or a deny took effect (the browser was sent
  back to the client), every later decision on the same transaction, with whatever nonce and however it
  interleaves with other requests, is answered with the expired page and changes nothing for the client.
\<close>

theorem consent_is_decided_once:
  assumes pk: "length (txn_rows i d) \<le> 1" and es: "interferes_as (decisions_stand i) es"
    and form: "form_text form ''txn'' = i" "form_text form2 ''txn'' = i"
    and first: "consent_decision k cfg g c form es d = (Inr (Redirect_to u), es', d')"
    and e: "decisions_stand i d' e" and es2: "interferes_as (decisions_stand i) es2"
    and second: "consent_decision k cfg g2 c2 form2 es2 e = (r, es3, e')"
  shows "r = Inr (Consent_error EXPIRED_MESSAGE)"
proof -
  have i: "i \<noteq> []" using first form(1) by (auto simp: consent_decision_def Let_def bind_simps ret_def)
  from first form(1) i obtain x es1 d1 where t: "get_transaction i es d = (Inr (Some x), es1, d1)"
      and "decide k cfg g c i (form_text form ''nonce'') (form_text form ''decision'') x es1 d1 = (Inr (Redirect_to u), es', d')"
    by (auto simp: consent_decision_def Let_def ret_def elim!: bind_Inr split: option.splits)
  moreover note step = decision.follows_reach [OF stand_transactions(2) es t]
  ultimately have "decided i d'" using pk by (intro decide_decides [of i es1 d1]) (auto simp: decisions_stand_def)
  then have dec: "decided i e" using e by (simp add: decisions_stand_def)
  obtain y es4 e1 where t2: "get_transaction i es2 e = (y, es4, e1)" by (rule prod_cases3)
  note step2 = decision.follows_reach [OF stand_transactions(2) es2 t2]
  have "decided i e1" using step2(1) dec by (simp add: decisions_stand_def)
  note again = decide_decided [OF step2(2) this]
  show ?thesis
  proof (cases y)
    case (Inl err)
    with t2 show ?thesis by (auto simp: get_transaction_def bind_simps ret_def split: option.splits)
  next
    case (Inr txn)
    with t2 second form(2) i again [of k cfg g2 c2 "form_text form2 ''nonce''" "form_text form2 ''decision''"] show ?thesis
      by (cases txn) (auto simp: consent_decision_def Let_def bind_eq [where m = "get_transaction i"] ret_def, metis fst_conv)
  qed
qed

theorem consent_is_decided_once_witness:
  "case consent_decision sample_sdk sample_config ''g2'' ''c2'' (sample_form ''allow'') [] parked_store of
     (r, _, d) \<Rightarrow> r = Inr (Redirect_to ''http://localhost:90/cb'')
       \<and> fst (consent_decision sample_sdk sample_config ''g3'' ''c3'' (sample_form ''deny'') [] d) = Inr (Consent_error EXPIRED_MESSAGE)"
proof -
  let ?run = "consent_decision sample_sdk sample_config ''g2'' ''c2'' (sample_form ''allow'') [] parked_store"
  obtain r es d where 1: "?run = (r, es, d)" by (rule prod_cases3)
  have "fst ?run = Inr (Redirect_to ''http://localhost:90/cb'')" by code_simp
  with 1 have first: "?run = (Inr (Redirect_to ''http://localhost:90/cb''), es, d)" by simp
  obtain r2 es2 e where second: "consent_decision sample_sdk sample_config ''g3'' ''c3'' (sample_form ''deny'') [] d = (r2, es2, e)"
    by (rule prod_cases3)
  have pk: "length (txn_rows ''t1'' parked_store) \<le> 1" by code_simp
  have quiet: "interferes_as (decisions_stand ''t1'') []" by (simp add: interferes_as_def)
  have form: "form_text (sample_form v) ''txn'' = ''t1''" for v by (simp add: form_text_def sample_form_def)
  from consent_is_decided_once [OF pk quiet form form first decision.reach_refl quiet second] first second
  show ?thesis by simp
qed

text \<open>
  The public authorization endpoint redirects only where the client registered, and grants nothing: a
  redirect either carries an error to a redirect URI that matches one registered for the client asked for,
  or goes to the consent page with a new transaction for exactly that client, URI and challenge, with
  known scopes and this server's resource, still without approval, grant or code. No grant and no token
  changes.
\<close>

lemma authorize_parks_registered_requests:
  assumes "authorize_request_handler k cfg i ps es d = (Inr (Redirect_to v), es', d')"
  shows "(\<exists>u req client registered es1 d1. map_of ps ''redirect_uri'' = Some u \<and> sdk_authorize k ps = Inr req
       \<and> resolve_client k (ar_client_id req) es d = (Inr (Some client), es1, d1)
       \<and> find_row ocl_id (od_clients d1) (ar_client_id req) = Some client
       \<and> registered \<in> set (ocl_redirect_uris client) \<and> redirect_matches (web_ipv6 (sdk_web k)) registered u = Some True
       \<and> ((\<exists>error msg. v = sdk_redirect_uri k u [(''error'', Some error), (''error_description'', Some msg),
              (''state'', map_of ps ''state''), (''iss'', Some (az_issuer cfg))])
          \<or> v = CONSENT_PATH @ ''?txn='' @ i
            \<and> (\<exists>x \<in> set (od_transactions d'). parked_request cfg i (ocl_id client) u (ar_code_challenge req) x)))
     \<and> (interferes_as grants_nothing es \<longrightarrow> grants_nothing d d')"
proof -
  obtain req where req: "sdk_authorize k ps = Inr req"
    using assms by (auto simp: authorize_request_handler_def ret_def split: sum.splits)
  let ?u = "case map_of ps ''redirect_uri'' of None \<Rightarrow> [] | Some u \<Rightarrow> u"
  from assms req obtain client es1 d1 where u: "?u \<noteq> []"
      and client: "resolve_client k (ar_client_id req) es d = (Inr (Some client), es1, d1)"
      and hit: "any_redirect (web_ipv6 (sdk_web k)) ?u (ocl_redirect_uris client) = Some True"
      and a: "authorize_client k cfg i req client ?u (map_of ps ''state'') es1 d1 = (Inr (Redirect_to v), es', d')"
    by (simp add: authorize_request_handler_def Let_def) (erule bind_Inr, auto simp: ret_def throw_def split: option.splits if_splits)
  from u obtain u where u: "map_of ps ''redirect_uri'' = Some u" by (cases "map_of ps ''redirect_uri''") auto
  have grants: "interferes_as grants_nothing es \<longrightarrow> grants_nothing d d'"
    using bystander.follows_reach(1) [OF bystander_authorize _ assms] by blast
  from any_redirect_True [OF hit] u obtain registered where reg: "registered \<in> set (ocl_redirect_uris client)"
      "redirect_matches (web_ipv6 (sdk_web k)) registered u = Some True" by auto
  show ?thesis
  proof (intro conjI exI)
    show "resolve_client k (ar_client_id req) es d = (Inr (Some client), es1, d1)" by (rule client)
    show "find_row ocl_id (od_clients d1) (ar_client_id req) = Some client" by (rule resolve_client_Some [OF client])
    from a u show "(\<exists>error msg. v = sdk_redirect_uri k u [(''error'', Some error), (''error_description'', Some msg),
            (''state'', map_of ps ''state''), (''iss'', Some (az_issuer cfg))])
        \<or> v = CONSENT_PATH @ ''?txn='' @ i
          \<and> (\<exists>x \<in> set (od_transactions d'). parked_request cfg i (ocl_id client) u (ar_code_challenge req) x)"
      by (elim authorize_client_redirect) auto
  qed (use u req reg grants in auto)
qed

end
