(* ===== verification/Scanner.thy ===== *)
theory Scanner
  imports MediaRepo Probe Coroutine
begin

text \<open>
  Library scans (\<open>scanner/scanner.py\<close>, \<open>scanner/s3_scanner.py\<close>, \<open>scanner/runner.py\<close>,
  \<open>repos/scans.py\<close>): the walk of a directory tree, the visit of every file, the prune of rows whose file
  is gone, the object-store variant, and the one-scan-per-library door.

  A scan is a coroutine over the catalog, the scan table and the disk as \<open>os.stat\<close> sees it; other
  requests and workers run before every statement and every look at the disk. They may also cancel the scan's
  task: its next await raises then, with its effect or without it (the thread that serves a statement runs on).
  The tree the walk saw, the answers of \<open>ffprobe\<close>, the pages of a bucket listing and fresh ids are fields
  of the job. A file is the list of its path's parts below \<open>/\<close>. Commits are part of the statement before them,
  and a statement that is not cancelled succeeds.
\<close>

section \<open>The scan table\<close>

datatype ScanStatus = Scan_running | Scan_complete | Scan_failed

record scan =
  sn_id :: string
  sn_library :: string
  sn_library_id :: "string option"
  sn_found :: int
  sn_new :: int
  sn_updated :: int
  sn_skipped :: int
  sn_started_at :: time
  sn_completed_at :: "time option"
  sn_status :: ScanStatus

definition new_scan :: "string \<Rightarrow> string \<Rightarrow> string \<Rightarrow> ScanStatus \<Rightarrow> time \<Rightarrow> scan" where
  "new_scan scan_id library library_id status now =
     \<lparr>sn_id = scan_id, sn_library = library, sn_library_id = Some library_id, sn_found = 0, sn_new = 0, sn_updated = 0,
      sn_skipped = 0, sn_started_at = now, sn_completed_at = None, sn_status = status\<rparr>"

definition create_scan :: "time \<Rightarrow> scan \<Rightarrow> scan list \<Rightarrow> scan list" where
  "create_scan now s t =
     t @ [s\<lparr>sn_found := 0, sn_new := 0, sn_updated := 0, sn_skipped := 0, sn_started_at := now, sn_completed_at := None\<rparr>]"

definition get_scan :: "scan list \<Rightarrow> string \<Rightarrow> scan option" where
  "get_scan = find_row sn_id"

definition list_scans :: "nat \<Rightarrow> nat \<Rightarrow> scan list \<Rightarrow> scan list \<times> nat" where
  "list_scans limit offset t = (take limit (drop offset (sort_key (\<lambda>s. - sn_started_at s) t)), length t)"

definition fail_running :: "time \<Rightarrow> scan list \<Rightarrow> nat \<times> scan list" where
  "fail_running now t =
     (rowcount (\<lambda>s. sn_status s = Scan_running) t,
      update_where (\<lambda>s. sn_status s = Scan_running) (\<lambda>s. s\<lparr>sn_completed_at := Some now, sn_status := Scan_failed\<rparr>) t)"

definition latest_started_at :: "string \<Rightarrow> scan list \<Rightarrow> time option" where
  "latest_started_at library_id t =
     (let own = map sn_started_at (filter (\<lambda>s. sn_library_id s = Some library_id) t)
      in if own = [] then None else Some (fold max own (hd own)))"

record tally =
  t_found :: int
  t_new :: int
  t_updated :: int
  t_skipped :: int

definition with_counts :: "tally option \<Rightarrow> scan \<Rightarrow> scan" where
  "with_counts counts s =
     (case counts of None \<Rightarrow> s
      | Some c \<Rightarrow> s\<lparr>sn_found := t_found c, sn_new := t_new c, sn_updated := t_updated c, sn_skipped := t_skipped c\<rparr>)"

definition with_status :: "time \<Rightarrow> ScanStatus option \<Rightarrow> scan \<Rightarrow> scan" where
  "with_status now status s =
     (case status of None \<Rightarrow> s
      | Some st \<Rightarrow> s\<lparr>sn_completed_at := (if st \<in> {Scan_complete, Scan_failed} then Some now else sn_completed_at s), sn_status := st\<rparr>)"

definition update_scan :: "time \<Rightarrow> string \<Rightarrow> tally option \<Rightarrow> ScanStatus option \<Rightarrow> scan list \<Rightarrow> scan list" where
  "update_scan now scan_id counts status t =
     update_where (\<lambda>s. sn_id s = scan_id) (\<lambda>s. with_status now status (with_counts counts s)) t"

section \<open>Episode names\<close>

text \<open>The text after the show: optional white space, one dash or dot, white space.\<close>

definition skip_separator :: "string \<Rightarrow> string" where
  "skip_separator s =
     (let a = dropWhile is_space s
      in dropWhile is_space (case a of c # cs \<Rightarrow> if c \<in> set ''-.'' then cs else a | [] \<Rightarrow> []))"

definition digits_of :: "string \<Rightarrow> int" where
  "digits_of s = foldl (\<lambda>n c. 10 * n + (of_char c - 48)) 0 s"

text \<open>A marker letter (none for the alternative form), digits, a second letter and digits.\<close>

definition read_episode :: "string option \<Rightarrow> string \<Rightarrow> string \<Rightarrow> (int \<times> int) option" where
  "read_episode lead letters s =
     (case (case lead of None \<Rightarrow> Some s | Some ls \<Rightarrow> (case s of c # cs \<Rightarrow> if c \<in> set ls then Some cs else None | [] \<Rightarrow> None)) of
        None \<Rightarrow> None
      | Some r \<Rightarrow>
          let season = takeWhile is_digit r; rest = dropWhile is_digit r; episode = takeWhile is_digit (drop 1 rest)
          in if season \<noteq> [] \<and> rest \<noteq> [] \<and> hd rest \<in> set letters \<and> episode \<noteq> []
             then Some (digits_of season, digits_of episode) else None)"

text \<open>The shortest show name, without a line break, after which the rest matches.\<close>

fun match_show :: "(string \<Rightarrow> (int \<times> int) option) \<Rightarrow> string \<Rightarrow> string \<Rightarrow> (string \<times> int \<times> int) option" where
  "match_show rest show [] = None"
| "match_show rest show (c # cs) =
     (if of_char c = (10 :: nat) then None
      else case rest cs of
             Some (season, episode) \<Rightarrow> Some (show @ [c], season, episode)
           | None \<Rightarrow> match_show rest (show @ [c]) cs)"

definition episode_re :: "string \<Rightarrow> (int \<times> int) option" where
  "episode_re s = read_episode (Some ''Ss'') ''Ee'' (skip_separator s)"

definition episode_alt_re :: "string \<Rightarrow> (int \<times> int) option" where
  "episode_alt_re s = read_episode None ''xX'' (skip_separator s)"

definition clean_show :: "string \<Rightarrow> string" where
  "clean_show show = strip (map (\<lambda>c. if c = CHR ''.'' then CHR '' '' else c) show)"

definition parse_tv_info :: "string list \<Rightarrow> string option \<times> int option \<times> int option" where
  "parse_tv_info parts =
     (let stem = path_stem (List.last parts)
      in case (case match_show episode_re [] stem of None \<Rightarrow> match_show episode_alt_re [] stem | r \<Rightarrow> r) of
           Some (show, season, episode) \<Rightarrow> (Some (clean_show show), Some season, Some episode)
         | None \<Rightarrow>
             if 3 \<le> length (''/'' # parts) then
               (let up = rev (''/'' # parts)
                in (Some (if prefix ''season'' (lower (up ! 1)) then up ! 2 else up ! 1), None, None))
             else (None, None, None))"

section \<open>The walk\<close>

text \<open>\<open>None\<close> as the content of a directory is one that cannot be read.\<close>

datatype entry = E_file | E_link | E_other | E_dir "(string \<times> entry) list option"

definition dir_text :: "string list \<Rightarrow> string" where
  "dir_text parts = concat (map (\<lambda>p. CHR ''/'' # p) parts)"

definition cataloged :: "string list \<Rightarrow> string \<Rightarrow> bool" where
  "cataloged dir name \<longleftrightarrow> is_video_file (dir_text dir, name) \<and> \<not> is_pipeline_artifact (dir_text dir, name)"

fun walk :: "string list \<Rightarrow> (string \<times> entry) list \<Rightarrow> string list list option" where
  "walk dir [] = Some []"
| "walk dir ((name, e) # es) =
     (case e of
        E_dir None \<Rightarrow> None
      | E_dir (Some sub) \<Rightarrow>
          (case walk (dir @ [name]) sub of
             None \<Rightarrow> None
           | Some below \<Rightarrow> map_option (\<lambda>fs. below @ fs) (walk dir es))
      | E_file \<Rightarrow> map_option (\<lambda>fs. if cataloged dir name then (dir @ [name]) # fs else fs) (walk dir es)
      | _ \<Rightarrow> walk dir es)"

definition list_video_files :: "string list \<Rightarrow> (string \<times> entry) list option \<Rightarrow> string list list option" where
  "list_video_files base listing = (case listing of None \<Rightarrow> None | Some es \<Rightarrow> map_option sort (walk base es))"

section \<open>Scans\<close>

text \<open>What \<open>os.stat\<close> answers: no such file, another error, or the modification time and size.\<close>

datatype disk_entry = Absent | Unreadable | Found string int

text \<open>Whether the task was cancelled, and whether the await it meets still takes effect.\<close>

datatype cancellation = Not_cancelled | Cancelled_before | Cancelled_after

record scan_state =
  sc_clock :: time
  sc_media :: "media_file list"
  sc_scans :: "scan list"
  sc_disk :: "string \<Rightarrow> disk_entry"
  sc_cancel :: cancellation

text \<open>Where a cancellation is raised: at the insert of the row, inside the \<open>try\<close>, or at the update that ends the row.\<close>

datatype stage = Opening | Working | Concluding

datatype scan_error = Walk_failed | Walk_timeout | Stat_failed | Listing_failed | Scan_cancelled stage

type_synonym 'a sio = "(scan_state, scan_error, 'a) coroutine"

record scan_job =
  sj_scan_id :: string
  sj_library_id :: string
  sj_library_name :: string
  sj_tv :: bool
  sj_max_files :: int
  sj_new_id :: "string \<Rightarrow> string"
  sj_probe :: "string \<Rightarrow> probe_error + probe_result"

definition awaited :: "stage \<Rightarrow> (scan_state \<Rightarrow> 'a \<times> scan_state) \<Rightarrow> 'a sio" where
  "awaited stg f es d =
     (let d1 = next_state es d; d2 = d1\<lparr>sc_cancel := Not_cancelled\<rparr>
      in case sc_cancel d1 of
           Not_cancelled \<Rightarrow> (Inr (fst (f d1)), List.tl es, snd (f d1))
         | Cancelled_before \<Rightarrow> (Inl (Scan_cancelled stg), List.tl es, d2)
         | Cancelled_after \<Rightarrow> (Inl (Scan_cancelled stg), List.tl es, snd (f d2)))"

text \<open>A thread or a program the task waits for, without an effect on the state.\<close>

definition waits :: "stage \<Rightarrow> unit sio" where
  "waits stg = awaited stg (\<lambda>d. ((), d))"

definition attempt :: "'a sio \<Rightarrow> (scan_error + 'a) sio" where
  "attempt m es d = (case m es d of (r, es', d') \<Rightarrow> (Inr r, es', d'))"

text \<open>\<open>t\<close> is what the counters are when \<open>m\<close> raises.\<close>

definition guarded :: "'t \<Rightarrow> 'a sio \<Rightarrow> ('a \<Rightarrow> ('t \<times> scan_error option) sio) \<Rightarrow> ('t \<times> scan_error option) sio" where
  "guarded t m k = bind (attempt m) (\<lambda>r. case r of Inl e \<Rightarrow> ret (t, Some e) | Inr x \<Rightarrow> k x)"

definition set_scan :: "stage \<Rightarrow> scan_job \<Rightarrow> tally option \<Rightarrow> ScanStatus option \<Rightarrow> unit sio" where
  "set_scan stg j counts status =
     awaited stg (\<lambda>d. ((), d\<lparr>sc_scans := update_scan (sc_clock d) (sj_scan_id j) counts status (sc_scans d)\<rparr>))"

definition open_scan :: "scan_job \<Rightarrow> ScanStatus \<Rightarrow> unit sio" where
  "open_scan j status =
     awaited Opening (\<lambda>d. ((), d\<lparr>sc_scans := create_scan (sc_clock d)
       (new_scan (sj_scan_id j) (sj_library_name j) (sj_library_id j) status (sc_clock d)) (sc_scans d)\<rparr>))"

text \<open>The row a visit catalogs; the insert sets id, status and time stamps.\<close>

definition probed_row ::
  "scan_job \<Rightarrow> string \<Rightarrow> string \<Rightarrow> string option \<times> int option \<times> int option \<Rightarrow> probe_result \<Rightarrow> string \<Rightarrow> media_file"
where
  "probed_row j file_path filename tv p mtime =
     (blank_media [] (sj_library_id j) file_path)
       \<lparr>m_filename := filename, m_show_name := fst tv, m_season := fst (snd tv), m_episode := snd (snd tv),
        m_video_codec := Some (pr_video_codec p), m_audio_codec := None,
        m_resolution := Some (Probe.format_resolution (pr_width p) (pr_height p)), m_width := Some (pr_width p),
        m_height := Some (pr_height p), m_bitrate := pr_bitrate p, m_duration := Some (pr_duration p),
        m_file_size := Some (pr_file_size p), m_file_modified_at := Some mtime\<rparr>"

definition catalog_file :: "scan_job \<Rightarrow> media_file \<Rightarrow> unit sio" where
  "catalog_file j row =
     awaited Working (\<lambda>d. ((), d\<lparr>sc_media := snd (upsert_media_file (sc_clock d) (sj_new_id j (m_file_path row)) row (sc_media d))\<rparr>))"

text \<open>The tally with the error that stopped the visits, if any.\<close>

fun visit_files :: "scan_job \<Rightarrow> tally \<Rightarrow> string list list \<Rightarrow> (tally \<times> scan_error option) sio" where
  "visit_files j t [] = ret (t, None)"
| "visit_files j t (f # fs) =
     (if 0 < sj_max_files j \<and> sj_max_files j \<le> t_found t then ret (t, None)
      else let t1 = t\<lparr>t_found := t_found t + 1\<rparr>; file_path = dir_text f
      in guarded t1 (awaited Working (\<lambda>d. (find_row m_file_path (sc_media d) file_path, d))) (\<lambda>existing.
         bind (peek (\<lambda>d. sc_disk d file_path)) (\<lambda>st.
         case st of
           Found mtime sz \<Rightarrow>
             if (case existing of None \<Rightarrow> False | Some r \<Rightarrow> m_file_modified_at r = Some mtime \<and> m_file_size r = Some sz)
             then visit_files j (t1\<lparr>t_skipped := t_skipped t1 + 1\<rparr>) fs
             else guarded t1 (awaited Working (\<lambda>d. (sj_probe j file_path, d))) (\<lambda>probed.
               case probed of
                 Inl _ \<Rightarrow> visit_files j (t1\<lparr>t_skipped := t_skipped t1 + 1\<rparr>) fs
               | Inr p \<Rightarrow>
                   guarded t1 (catalog_file j (probed_row j file_path (List.last f)
                           (if sj_tv j then parse_tv_info f else (None, None, None)) p mtime)) (\<lambda>_.
                   let t2 = (if existing \<noteq> None then t1\<lparr>t_updated := t_updated t1 + 1\<rparr> else t1\<lparr>t_new := t_new t1 + 1\<rparr>)
                   in guarded t2 (if t_found t2 mod 50 = 0 then set_scan Working j (Some t2) None else ret ()) (\<lambda>_.
                      visit_files j t2 fs)))
         | _ \<Rightarrow> ret (t1, Some Stat_failed))))"

subsection \<open>The prune\<close>

definition artifact_texts :: "string \<Rightarrow> string list" where
  "artifact_texts path =
     (let name = rev (takeWhile (\<lambda>c. c \<noteq> CHR ''/'') (rev path)); dir = take (length path - length name) path;
          (lock, tmp, bak) = pipeline_artifacts (dir, name)
      in [dir @ snd lock, dir @ snd tmp, dir @ snd bak])"

text \<open>Each look at the disk is one step: the file, then its sidecars until one is there.\<close>

fun any_exists :: "string list \<Rightarrow> bool sio" where
  "any_exists [] = ret False"
| "any_exists (a # as) =
     bind (query (\<lambda>d. case sc_disk d a of Found _ _ \<Rightarrow> True | _ \<Rightarrow> False)) (\<lambda>there. if there then ret True else any_exists as)"

definition is_gone :: "string \<Rightarrow> bool sio" where
  "is_gone path =
     bind (query (\<lambda>d. sc_disk d path = Absent)) (\<lambda>absent.
     if \<not> absent then ret False else bind (any_exists (artifact_texts path)) (\<lambda>held. ret (\<not> held)))"

fun judge :: "string list \<Rightarrow> string list sio" where
  "judge [] = ret []"
| "judge (p # ps) = bind (is_gone p) (\<lambda>gone. bind (judge ps) (\<lambda>rest. ret (if gone then p # rest else rest)))"

definition prune_absent :: "scan_job \<Rightarrow> string list list \<Rightarrow> int sio" where
  "prune_absent j walked =
     bind (awaited Working (\<lambda>d. (map (\<lambda>r. (m_file_path r, m_id r)) (filter (\<lambda>r. m_library_id r = sj_library_id j) (sc_media d)), d))) (\<lambda>known.
     let candidates = filter (\<lambda>p. p \<notin> set (map dir_text walked)) (map fst known)
     in bind (judge candidates) (\<lambda>gone.
        bind (waits Working) (\<lambda>_.
        if gone = [] then ret 0
        else bind (awaited Working (\<lambda>d. ((), d\<lparr>sc_media := snd (delete_by_ids (List.map_filter (map_of known) gone) (sc_media d))\<rparr>))) (\<lambda>_.
             ret (int (length gone))))))"

subsection \<open>One scan of a directory\<close>

definition no_files :: tally where
  "no_files = \<lparr>t_found = 0, t_new = 0, t_updated = 0, t_skipped = 0\<rparr>"

definition fail_scan :: "scan_job \<Rightarrow> tally option \<Rightarrow> scan_error \<Rightarrow> 'a sio" where
  "fail_scan j counts e = bind (set_scan Concluding j counts (Some Scan_failed)) (\<lambda>_. throw e)"

definition scan_tree :: "scan_job \<Rightarrow> bool \<Rightarrow> string list \<Rightarrow> (string \<times> entry) list option \<Rightarrow> tally sio" where
  "scan_tree j walk_times_out base listing =
     bind (attempt (waits Working)) (\<lambda>walked.
     case walked of
       Inl e \<Rightarrow> fail_scan j (Some no_files) e
     | Inr _ \<Rightarrow>
       if walk_times_out then fail_scan j (Some no_files) Walk_timeout
       else case list_video_files base listing of
             None \<Rightarrow> fail_scan j (Some no_files) Walk_failed
           | Some files \<Rightarrow>
               bind (visit_files j no_files files) (\<lambda>(t, stopped).
               case stopped of
                 Some e \<Rightarrow> fail_scan j (Some t) e
               | None \<Rightarrow>
                   bind (attempt (if sj_max_files j = 0 \<and> 0 < t_found t then prune_absent j files else ret 0)) (\<lambda>pruned.
                   case pruned of
                     Inl e \<Rightarrow> fail_scan j (Some t) e
                   | Inr _ \<Rightarrow> bind (set_scan Concluding j (Some t) (Some Scan_complete)) (\<lambda>_. ret t))))"

definition scan_library :: "scan_job \<Rightarrow> bool \<Rightarrow> string list \<Rightarrow> entry \<Rightarrow> tally sio" where
  "scan_library j walk_times_out base tree =
     (case tree of
        E_dir listing \<Rightarrow> bind (open_scan j Scan_running) (\<lambda>_. scan_tree j walk_times_out base listing)
      | _ \<Rightarrow> bind (open_scan j Scan_failed) (\<lambda>_. bind (set_scan Concluding j None (Some Scan_failed)) (\<lambda>_. ret no_files)))"

subsection \<open>One scan of a bucket\<close>

record s3_object =
  so_key :: string
  so_size :: int
  so_last_modified :: "string option"

text \<open>A page with its objects, a page without \<open>Contents\<close>, or the error that ends the listing.\<close>

datatype s3_page = Page "s3_object list" | Empty_page | Page_error

definition s3_filename :: "string \<Rightarrow> string" where
  "s3_filename key = List.last (split_on CHR ''/'' (rev (dropWhile (\<lambda>c. c = CHR ''/'') (rev key))))"

definition is_s3_video_file :: "string \<Rightarrow> bool" where
  "is_s3_video_file key \<longleftrightarrow> is_video_file ([], s3_filename key)"

text \<open>The probe of a presigned URL, then of the first bytes; the listed size is the one kept.\<close>

definition probe_s3_object ::
  "(string \<Rightarrow> probe_result option) \<Rightarrow> (string \<Rightarrow> probe_result option) \<Rightarrow> string \<Rightarrow> int \<Rightarrow> probe_result option"
where
  "probe_s3_object presigned head_bytes key sz =
     map_option (\<lambda>p. p\<lparr>pr_file_size := sz\<rparr>) (case presigned key of None \<Rightarrow> head_bytes key | Some p \<Rightarrow> Some p)"

record s3_tally =
  s3_counts :: tally
  s3_failed :: int

fun visit_objects ::
  "scan_job \<Rightarrow> (string \<Rightarrow> probe_result option) \<Rightarrow> (string \<Rightarrow> probe_result option) \<Rightarrow> (time \<Rightarrow> string) \<Rightarrow> s3_tally \<Rightarrow> s3_object list
   \<Rightarrow> (s3_tally \<times> scan_error option) sio"
where
  "visit_objects j presigned head_bytes isoformat s [] = ret (s, None)"
| "visit_objects j presigned head_bytes isoformat s (ob # obs) =
     (let t = s3_counts s; key = so_key ob
      in if suffix ''/'' key then visit_objects j presigned head_bytes isoformat s obs
      else if \<not> is_s3_video_file key then visit_objects j presigned head_bytes isoformat s obs
      else if 0 < sj_max_files j \<and> sj_max_files j \<le> t_found t then ret (s, None)
      else let t1 = t\<lparr>t_found := t_found t + 1\<rparr>
      in bind (peek (\<lambda>d. case so_last_modified ob of Some m \<Rightarrow> m | None \<Rightarrow> isoformat (sc_clock d))) (\<lambda>mtime.
           guarded (s\<lparr>s3_counts := t1\<rparr>) (awaited Working (\<lambda>d. (find_row m_file_path (sc_media d) key, d))) (\<lambda>existing.
           if (case existing of None \<Rightarrow> False | Some r \<Rightarrow> m_file_modified_at r = Some mtime)
           then visit_objects j presigned head_bytes isoformat (s\<lparr>s3_counts := t1\<lparr>t_skipped := t_skipped t1 + 1\<rparr>\<rparr>) obs
           else guarded (s\<lparr>s3_counts := t1\<rparr>) (awaited Working (\<lambda>d. (probe_s3_object presigned head_bytes key (so_size ob), d))) (\<lambda>probed.
             case probed of
               None \<Rightarrow> visit_objects j presigned head_bytes isoformat (s\<lparr>s3_counts := t1, s3_failed := s3_failed s + 1\<rparr>) obs
             | Some p \<Rightarrow>
                 guarded (s\<lparr>s3_counts := t1\<rparr>) (catalog_file j (probed_row j key (s3_filename key) (None, None, None) p mtime)) (\<lambda>_.
                 visit_objects j presigned head_bytes isoformat (s\<lparr>s3_counts := (if existing \<noteq> None
                   then t1\<lparr>t_updated := t_updated t1 + 1\<rparr> else t1\<lparr>t_new := t_new t1 + 1\<rparr>)\<rparr>) obs)))))"

fun visit_pages ::
  "scan_job \<Rightarrow> (string \<Rightarrow> probe_result option) \<Rightarrow> (string \<Rightarrow> probe_result option) \<Rightarrow> (time \<Rightarrow> string) \<Rightarrow> s3_tally \<Rightarrow> s3_page list
   \<Rightarrow> (s3_tally \<times> scan_error option) sio"
where
  "visit_pages j presigned head_bytes isoformat s [] = ret (s, None)"
| "visit_pages j presigned head_bytes isoformat s (page # pages) =
     guarded s (waits Working) (\<lambda>_.
      case page of
        Page_error \<Rightarrow> ret (s, Some Listing_failed)
      | Empty_page \<Rightarrow> visit_pages j presigned head_bytes isoformat s pages
      | Page obs \<Rightarrow>
          bind (visit_objects j presigned head_bytes isoformat s obs) (\<lambda>(s', stopped).
          case stopped of Some e \<Rightarrow> ret (s', Some e) | None \<Rightarrow> visit_pages j presigned head_bytes isoformat s' pages))"

definition scan_s3_library ::
  "scan_job \<Rightarrow> (string \<Rightarrow> probe_result option) \<Rightarrow> (string \<Rightarrow> probe_result option) \<Rightarrow> (time \<Rightarrow> string) \<Rightarrow> s3_page list \<Rightarrow> s3_tally sio"
where
  "scan_s3_library j presigned head_bytes isoformat pages =
     bind (open_scan j Scan_running) (\<lambda>_.
     bind (visit_pages j presigned head_bytes isoformat \<lparr>s3_counts = no_files, s3_failed = 0\<rparr> pages) (\<lambda>(s, stopped).
     case stopped of
       Some e \<Rightarrow> fail_scan j None e
     | None \<Rightarrow> bind (set_scan Concluding j (Some (s3_counts s)) (Some Scan_complete)) (\<lambda>_. ret s)))"

section \<open>One live scan per library\<close>

text \<open>The table of tasks by library; \<open>running\<close> are the tasks that are not done.\<close>

definition start_scan :: "(nat \<Rightarrow> bool) \<Rightarrow> string \<Rightarrow> nat \<Rightarrow> (string \<rightharpoonup> nat) \<Rightarrow> nat option \<times> (string \<rightharpoonup> nat)" where
  "start_scan running library_id task scans =
     (case scans library_id of
        Some current \<Rightarrow> if running current then (None, scans) else (Some task, scans(library_id \<mapsto> task))
      | None \<Rightarrow> (Some task, scans(library_id \<mapsto> task)))"

datatype scan_kind = Simulated | Missing_library | S3_scan | Directory_scan

definition run_scan_kind :: "bool \<Rightarrow> library option \<Rightarrow> scan_kind" where
  "run_scan_kind demo_mode lib =
     (if demo_mode then Simulated
      else case lib of None \<Rightarrow> Missing_library | Some l \<Rightarrow> if l_backend l = S3 then S3_scan else Directory_scan)"

section \<open>Specifications\<close>

text \<open>
  Row \<open>i\<close> alone has that id and describes path \<open>p\<close>, and the disk holds on to it: either the file itself is not absent (\<open>w = p\<close>)
  or one sidecar \<open>w\<close> of it is there.
\<close>

definition named_rows :: "media_file list \<Rightarrow> (string \<times> string) list" where
  "named_rows ms = map (\<lambda>r. (m_file_path r, m_id r)) ms"

definition held :: "string \<Rightarrow> string \<Rightarrow> string \<Rightarrow> scan_state \<Rightarrow> bool" where
  "held p i w d \<longleftrightarrow> (p, i) \<in> set (named_rows (sc_media d)) \<and> list_all (\<lambda>(q, k). k = i \<longrightarrow> q = p) (named_rows (sc_media d))
     \<and> (if w = p then sc_disk d p \<noteq> Absent
        else w \<in> set (artifact_texts p) \<and> (case sc_disk d w of Found _ _ \<Rightarrow> True | _ \<Rightarrow> False))"

text \<open>The scan row, the files a tally leaves unexplained, and what a scan leaves of its row.\<close>

definition listed :: "string \<Rightarrow> scan_state \<Rightarrow> bool" where
  "listed scan_id d \<longleftrightarrow> get_scan (sc_scans d) scan_id \<noteq> None"

definition unaccounted :: "tally \<Rightarrow> int" where
  "unaccounted t = t_found t - (t_new t + t_updated t + t_skipped t)"

definition counts_of :: "scan \<Rightarrow> tally" where
  "counts_of s = \<lparr>t_found = sn_found s, t_new = sn_new s, t_updated = sn_updated s, t_skipped = sn_skipped s\<rparr>"

definition concluded :: "(scan_error + tally) \<Rightarrow> scan \<Rightarrow> bool" where
  "concluded r s \<longleftrightarrow> sn_completed_at s \<noteq> None \<and>
     (case r of
        Inl _ \<Rightarrow> sn_status s = Scan_failed \<and> unaccounted (counts_of s) \<in> {0, 1}
      | Inr t \<Rightarrow> sn_status s = Scan_complete \<and> counts_of s = t \<and> unaccounted t = 0)"

subsection \<open>A library of four files\<close>

text \<open>
  The walk sees two files, one cataloged and unchanged, one new. Of the two cataloged files it does not see, one
  is between the two renames of its swap (its lock is there), the other is gone.
\<close>

definition job_here :: scan_job where
  "job_here = \<lparr>sj_scan_id = ''s1'', sj_library_id = ''lib'', sj_library_name = ''L'', sj_tv = True, sj_max_files = 0,
     sj_new_id = (\<lambda>q. ''n'' @ q), sj_probe = (\<lambda>_. Inr \<lparr>pr_video_codec = ''hevc'', pr_width = 1920,
       pr_height = 1080, pr_bitrate = None, pr_duration = 60, pr_file_size = 7, pr_pix_fmt = []\<rparr>)\<rparr>"

definition disk_here :: "string \<Rightarrow> disk_entry" where
  "disk_here q = (if q = ''/v/a.mkv'' then Found ''t'' 7 else if q = ''/v/S01E02.mkv'' then Found ''t'' 7
     else if q = ''/v/c.mkv.tf_lock'' then Found ''t'' 0 else Absent)"

definition state_here :: scan_state where
  "state_here = \<lparr>sc_clock = 5, sc_media = [(blank_media ''a'' ''lib'' ''/v/a.mkv'')\<lparr>m_file_modified_at := Some ''t'', m_file_size := Some 7\<rparr>,
     blank_media ''c'' ''lib'' ''/v/c.mkv'', blank_media ''d'' ''lib'' ''/v/d.mkv''], sc_scans = [], sc_disk = disk_here, sc_cancel = Not_cancelled\<rparr>"

definition tree_here :: entry where
  "tree_here = E_dir (Some [(''a.mkv'', E_file), (''c.mkv.tf_lock'', E_file), (''S01E02.mkv'', E_file)])"
definition clock_ticks :: "scan_state \<Rightarrow> scan_state" where
  "clock_ticks d = d\<lparr>sc_clock := sc_clock d + 1\<rparr>"

definition swap_ends :: "scan_state \<Rightarrow> scan_state" where
  "swap_ends d = d\<lparr>sc_disk := (\<lambda>q. if q = ''/v/c.mkv'' then Found ''u'' 5 else if q = ''/v/c.mkv.tf_lock'' then Absent else sc_disk d q)\<rparr>"

section \<open>Facts\<close>

lemma keeping_awaited:
  assumes "\<And>d c. P (d\<lparr>sc_cancel := c\<rparr>) = P d" and "\<And>d. P d \<Longrightarrow> P (snd (f d)) \<and> Q (fst (f d))"
  shows "keeping P (awaited stg f) Q"
  unfolding keeping_def
proof (intro allI impI)
  fix es d r es' d'
  assume es: "interferes_as (\<lambda>d d'. P d \<longrightarrow> P d') es" and d: "P d" and run: "awaited stg f es d = (r, es', d')"
  from next_keeps [OF es d] have n: "P (next_state es d)" .
  from run assms(2) [OF n] assms(2) [of "(next_state es d)\<lparr>sc_cancel := Not_cancelled\<rparr>"] n
  show "P d' \<and> interferes_as (\<lambda>d d'. P d \<longrightarrow> P d') es' \<and> (\<forall>a. r = Inr a \<longrightarrow> Q a)"
    by (auto simp: awaited_def Let_def assms(1) interferes_tl [OF es] split: cancellation.splits)
qed

lemma keeping_waits: "(\<And>d c. P (d\<lparr>sc_cancel := c\<rparr>) = P d) \<Longrightarrow> keeping P (waits stg) (\<lambda>_. True)"
  unfolding waits_def by (rule keeping_awaited) simp_all

lemma keeping_attempt:
  assumes "keeping P m Q"
  shows "keeping P (attempt m) (\<lambda>r. \<forall>a. r = Inr a \<longrightarrow> Q a)"
  unfolding keeping_def
proof (intro allI impI)
  fix es d r es' d'
  assume es: "interferes_as (\<lambda>d d'. P d \<longrightarrow> P d') es" and d: "P d" and run: "attempt m es d = (r, es', d')"
  obtain x es1 d1 where m: "m es d = (x, es1, d1)" by (rule prod_cases3)
  from keepingD [OF assms es d m] run m
  show "P d' \<and> interferes_as (\<lambda>d d'. P d \<longrightarrow> P d') es' \<and> (\<forall>a. r = Inr a \<longrightarrow> (\<forall>b. a = Inr b \<longrightarrow> Q b))"
    by (auto simp: attempt_def)
qed

lemma keeping_attempt_any: "keeping P m (\<lambda>_. True) \<Longrightarrow> keeping P (attempt m) (\<lambda>_. True)"
  by (drule keeping_attempt) simp

lemma keeping_guarded:
  assumes "keeping P m R" and "\<And>e. Q (t, Some e)" and "\<And>x. R x \<Longrightarrow> keeping P (k x) Q"
  shows "keeping P (guarded t m k) Q"
  unfolding guarded_def
  by (rule keeping_bind [OF keeping_attempt [OF assms(1)]]) (auto split: sum.split intro!: keeping_ret assms(2,3))

lemma never_raises_attempt: "never_raises (attempt m)"
  by (simp add: never_raises_def attempt_def split: prod.split)

lemma never_raises_guarded: "(\<And>x. never_raises (k x)) \<Longrightarrow> never_raises (guarded t m k)"
  unfolding guarded_def by (intro never_raises_rules never_raises_attempt)

lemma held_cancel [simp]: "held p i w (d\<lparr>sc_cancel := c\<rparr>) = held p i w d"
  by (simp add: held_def)

lemma listed_cancel [simp]: "listed k (d\<lparr>sc_cancel := c\<rparr>) = listed k d"
  by (simp add: listed_def)

lemmas cancel_rules = keeping_guarded [where R = "\<lambda>_. True"] keeping_awaited keeping_waits

lemma any_exists_held: "w \<noteq> p \<Longrightarrow> w \<in> set as \<Longrightarrow> keeping (held p i w) (any_exists as) (\<lambda>there. there)"
proof (induction as)
  case (Cons a as)
  show ?case
  proof (cases "w = a")
    case True
    then show ?thesis using Cons.prems(1)
      by (auto intro!: keeping_bind [where R = "\<lambda>b. b"] keeping_query keeping_ret simp: held_def)
  next
    case False
    with Cons show ?thesis by (auto intro!: keeping_bind [where R = "\<lambda>_. True"] keeping_query keeping_ret)
  qed
qed simp

lemma any_exists_keeps: "keeping (held p i w) (any_exists as) (\<lambda>_. True)"
  by (induction as) (auto intro!: keeping_bind [where R = "\<lambda>_. True"] keeping_query keeping_ret)

lemma is_gone_held: "keeping (held p i w) (is_gone q) (\<lambda>gone. gone \<longrightarrow> q \<noteq> p)"
proof (cases "q = p")
  case False
  then show ?thesis unfolding is_gone_def
    by (auto intro!: keeping_bind [where R = "\<lambda>_. True"] keeping_query keeping_ret any_exists_keeps)
next
  case True
  show ?thesis
  proof (cases "w = p")
    case True
    with \<open>q = p\<close> show ?thesis unfolding is_gone_def
      by (auto intro!: keeping_bind [where R = Not] keeping_query keeping_ret simp: held_def)
  next
    case False
    have "keeping (held p i w) (any_exists (artifact_texts p)) (\<lambda>there. there)"
    proof (cases "w \<in> set (artifact_texts p)")
      case True
      with False show ?thesis by (rule any_exists_held)
    qed (use False in \<open>simp add: keeping_def held_def\<close>)
    then have "keeping (held p i w) (bind (any_exists (artifact_texts p)) (\<lambda>held. ret (\<not> held))) (\<lambda>gone. gone \<longrightarrow> q \<noteq> p)"
      by (rule keeping_bind) (simp add: keeping_ret)
    with \<open>q = p\<close> show ?thesis unfolding is_gone_def
      by (auto intro!: keeping_bind [where R = "\<lambda>_. True"] keeping_query keeping_ret)
  qed
qed

lemma judge_held: "keeping (held p i w) (judge ps) (\<lambda>gone. p \<notin> set gone)"
proof (induction ps)
  case (Cons q qs)
  show ?case unfolding judge.simps
    by (rule keeping_bind [OF is_gone_held], rule keeping_bind [OF Cons.IH], rule keeping_ret) auto
qed (auto intro: keeping_ret)

lemma named_rows_deleted:
  "named_rows (snd (delete_by_ids ids ms)) = filter (\<lambda>(q, k). k \<notin> set ids) (named_rows ms)"
  by (simp add: delete_by_ids_def delete_id_chunks_set concat_batched DELETE_CHUNK_def delete_where_def named_rows_def
      filter_map o_def)

lemma named_rows_upserted:
  "named_rows (snd (upsert_media_file now new_id row ms)) \<in> {named_rows ms, named_rows ms @ [(m_file_path row, new_id)]}"
proof -
  obtain st sk where ini: "initial_status (m_video_codec row) = (st, sk)" by (rule prod.exhaust)
  have m: "m_file_path (merge_media e r) = m_file_path r" "m_id (merge_media e r) = m_id r" for e r
    by (simp_all add: merge_media_def)
  have "named_rows (update_where c (merge_media e) ms) = named_rows ms" for c e
    by (simp add: named_rows_def update_where_def m)
  then show ?thesis by (simp add: upsert_media_file_def ini Let_def) (simp add: named_rows_def)
qed

lemma prune_held: "keeping (held p i w) (prune_absent j walked) (\<lambda>_. True)"
proof -
  let ?R = "\<lambda>known. \<forall>q. (q, i) \<in> set known \<longrightarrow> q = p"
  have del: "held p i w (d\<lparr>sc_media := snd (delete_by_ids (List.map_filter (map_of known) gone) (sc_media d))\<rparr>)"
    if "held p i w d" "?R known" "p \<notin> set gone" for d known gone
  proof -
    have "map_of known q \<noteq> Some i" if "q \<in> set gone" for q
      using \<open>?R known\<close> \<open>p \<notin> set gone\<close> that map_of_SomeD [of known q i] by metis
    then have "i \<notin> set (List.map_filter (map_of known) gone)" by (auto simp: List.map_filter_def)
    with that(1) show ?thesis by (auto simp: held_def list_all_iff named_rows_deleted)
  qed
  show ?thesis unfolding prune_absent_def Let_def
  proof (rule keeping_bind [where R = ?R])
    show "keeping (held p i w) (awaited Working (\<lambda>d. (map (\<lambda>r. (m_file_path r, m_id r)) (filter (\<lambda>r. m_library_id r = sj_library_id j) (sc_media d)), d))) ?R"
      by (rule keeping_awaited) (auto simp: held_def list_all_iff named_rows_def)
    fix known assume known: "?R known"
    show "keeping (held p i w) (bind (judge (filter (\<lambda>p. p \<notin> set (map dir_text walked)) (map fst known))) (\<lambda>gone. bind (waits Working) (\<lambda>_.
        if gone = [] then ret 0
        else bind (awaited Working (\<lambda>d. ((), d\<lparr>sc_media := snd (delete_by_ids (List.map_filter (map_of known) gone) (sc_media d))\<rparr>))) (\<lambda>_.
          ret (int (length gone)))))) (\<lambda>_. True)"
      by (rule keeping_bind [OF judge_held])
        (auto intro!: keeping_bind [where R = "\<lambda>_. True"] keeping_awaited keeping_waits keeping_ret simp: del [OF _ known])
  qed
qed

lemma catalog_held:
  assumes "\<And>q. sj_new_id j q \<noteq> i"
  shows "keeping (held p i w) (catalog_file j row) (\<lambda>_. True)"
  unfolding catalog_file_def
proof (rule keeping_awaited [OF held_cancel])
  fix d assume h: "held p i w d"
  from h assms [of "m_file_path row"] named_rows_upserted [of "sc_clock d" "sj_new_id j (m_file_path row)" row "sc_media d"]
  show "held p i w (snd ((), d\<lparr>sc_media := snd (upsert_media_file (sc_clock d)
      (sj_new_id j (m_file_path row)) row (sc_media d))\<rparr>)) \<and> True"
    by (auto simp: held_def)
qed

lemma set_scan_held: "keeping (held p i w) (set_scan stg j c s) (\<lambda>_. True)"
  unfolding set_scan_def by (rule keeping_awaited [OF held_cancel]) (simp add: held_def)

lemma open_scan_held: "keeping (held p i w) (open_scan j s) (\<lambda>_. True)"
  unfolding open_scan_def by (rule keeping_awaited [OF held_cancel]) (simp add: held_def)

lemma keeping_disk:
  "keeping P a Q \<Longrightarrow> (\<And>m s. keeping P (b m s) Q) \<Longrightarrow> keeping P (case e of Absent \<Rightarrow> a | Unreadable \<Rightarrow> a | Found m s \<Rightarrow> b m s) Q"
  by (cases e) simp_all

lemma visit_files_held:
  assumes new: "\<And>q. sj_new_id j q \<noteq> i"
  shows "keeping (held p i w) (visit_files j t fs) (\<lambda>_. True)"
proof (induction fs arbitrary: t)
  case Nil
  show ?case by (simp add: keeping_ret)
next
  case (Cons f fs)
  show ?case unfolding visit_files.simps Let_def
    by (intro keeping_rules cancel_rules held_cancel keeping_disk Cons.IH catalog_held new TrueI set_scan_held; simp)
qed

lemma fail_scan_held: "keeping (held p i w) (fail_scan j c e) (\<lambda>_. True)"
  unfolding fail_scan_def by (intro keeping_rules set_scan_held TrueI)

lemmas held_steps = fail_scan_held set_scan_held open_scan_held prune_held visit_files_held

lemma scan_tree_held:
  assumes "\<And>q. sj_new_id j q \<noteq> i"
  shows "keeping (held p i w) (scan_tree j late base listing) (\<lambda>_. True)"
  unfolding scan_tree_def Let_def
  by (intro keeping_rules keeping_attempt_any keeping_waits held_cancel held_steps assms TrueI)

lemma scan_library_held:
  assumes "\<And>q. sj_new_id j q \<noteq> i"
  shows "keeping (held p i w) (scan_library j late base tree) (\<lambda>_. True)"
proof (cases tree)
  case (E_dir listing)
  then show ?thesis unfolding scan_library_def
    by (simp only: entry.case) (intro keeping_rules held_steps scan_tree_held assms TrueI)
qed (simp only: scan_library_def entry.case, intro keeping_rules held_steps TrueI)+

lemma set_scan_listed: "keeping (listed k) (set_scan stg j c s) (\<lambda>_. True)"
  unfolding set_scan_def
  by (rule keeping_awaited [OF listed_cancel])
    (auto simp: listed_def get_scan_def update_scan_def find_row_update_where with_status_def with_counts_def split: option.splits)

lemma catalog_listed: "keeping (listed k) (catalog_file j row) (\<lambda>_. True)"
  unfolding catalog_file_def by (rule keeping_awaited [OF listed_cancel]) (simp add: listed_def)

lemma visit_files_accounts:
  "unaccounted t = 0 \<Longrightarrow> keeping (listed k) (visit_files j t fs) (\<lambda>(t', stopped). unaccounted t' \<in> (if stopped = None then {0} else {0, 1}))"
proof (induction fs arbitrary: t)
  case Nil
  then show ?case by (simp add: keeping_ret)
next
  case (Cons f fs)
  show ?case unfolding visit_files.simps Let_def
    by (intro keeping_rules cancel_rules listed_cancel keeping_disk Cons.IH TrueI set_scan_listed catalog_listed)
      (use Cons.prems in \<open>simp_all add: unaccounted_def\<close>)
qed

lemma never_raises_disk:
  "never_raises a \<Longrightarrow> (\<And>m s. never_raises (b m s)) \<Longrightarrow> never_raises (case e of Absent \<Rightarrow> a | Unreadable \<Rightarrow> a | Found m s \<Rightarrow> b m s)"
  by (cases e) simp_all

lemma visit_files_answers: "never_raises (visit_files j t fs)"
proof (induction fs arbitrary: t)
  case (Cons f fs)
  show ?case unfolding visit_files.simps Let_def
    by (intro never_raises_guarded never_raises_rules never_raises_disk Cons.IH)
qed (simp add: never_raises_rules)

lemma prune_listed: "keeping (listed k) (prune_absent j walked) (\<lambda>_. True)"
proof -
  have a: "keeping (listed k) (any_exists as) (\<lambda>_. True)" for as
    by (induction as) (auto intro!: keeping_rules)
  have "keeping (listed k) (judge ps) (\<lambda>_. True)" for ps
    by (induction ps) (auto intro!: keeping_rules a simp: is_gone_def)
  then show ?thesis unfolding prune_absent_def Let_def
    by (intro keeping_rules keeping_awaited keeping_waits listed_cancel TrueI) (simp_all add: listed_def)
qed

text \<open>The update that ends the row: it is written, unless the task is cancelled there.\<close>

lemma set_scan_final:
  assumes "interferes_as (\<lambda>d d'. listed (sj_scan_id j) d \<longrightarrow> listed (sj_scan_id j) d') es" and "listed (sj_scan_id j) d"
  obtains (written) s now d1 where "set_scan Concluding j c (Some st) es d = (Inr (), List.tl es, d1)"
    and "get_scan (sc_scans d1) (sj_scan_id j) = Some (with_status now (Some st) (with_counts c s))"
  | (cancelled) d1 where "set_scan Concluding j c (Some st) es d = (Inl (Scan_cancelled Concluding), List.tl es, d1)"
proof (cases "sc_cancel (next_state es d) = Not_cancelled")
  case True
  from next_keeps [OF assms] obtain s where s: "get_scan (sc_scans (next_state es d)) (sj_scan_id j) = Some s"
    by (auto simp: listed_def)
  then have k: "sn_id s = sj_scan_id j" by (auto simp: get_scan_def find_row_def find_Some_iff)
  have key: "sn_id (with_status now st' (with_counts c s)) = sn_id s" for now st' c s
    by (simp add: with_status_def with_counts_def split: option.splits)
  show ?thesis
    by (rule written [of "snd (snd (set_scan Concluding j c (Some st) es d))" "sc_clock (next_state es d)" s])
      (use True s k key in \<open>simp_all add: set_scan_def awaited_def Let_def get_scan_def update_scan_def find_row_update_where\<close>)
next
  case False
  then show ?thesis by (intro cancelled [of "snd (snd (set_scan Concluding j c (Some st) es d))"])
      (simp add: set_scan_def awaited_def Let_def split: cancellation.split)
qed

lemma concluded_counts:
  "concluded (Inl e) (with_status now (Some Scan_failed) (with_counts (Some t) s)) \<longleftrightarrow> unaccounted t \<in> {0, 1}"
  "concluded (Inr t) (with_status now (Some Scan_complete) (with_counts (Some t) s)) \<longleftrightarrow> unaccounted t = 0"
  by (simp_all add: concluded_def with_status_def with_counts_def counts_of_def unaccounted_def)

lemma fail_scan_concludes:
  assumes "interferes_as (\<lambda>d d'. listed (sj_scan_id j) d \<longrightarrow> listed (sj_scan_id j) d') es" and "listed (sj_scan_id j) d"
    and "unaccounted t \<in> {0, 1}" and "fail_scan j (Some t) e es d = (r, es', d')" and "r \<noteq> Inl (Scan_cancelled Concluding)"
  shows "\<exists>s. get_scan (sc_scans d') (sj_scan_id j) = Some s \<and> concluded r s"
proof (rule set_scan_final [OF assms(1,2), where c = "Some t" and st = Scan_failed])
  fix s now d1
  assume m: "set_scan Concluding j (Some t) (Some Scan_failed) es d = (Inr (), List.tl es, d1)"
    and g: "get_scan (sc_scans d1) (sj_scan_id j) = Some (with_status now (Some Scan_failed) (with_counts (Some t) s))"
  from assms(4) have "r = Inl e" "d' = d1"
    by (simp_all add: fail_scan_def bind_eq [where m = "set_scan st' j x y" for st' x y, OF m] throw_def ret_def)
  with g assms(3) show ?thesis by (simp only: concluded_counts option.inject ex_simps simp_thms)
next
  fix d1
  assume "set_scan Concluding j (Some t) (Some Scan_failed) es d = (Inl (Scan_cancelled Concluding), List.tl es, d1)"
  with assms(4,5) show ?thesis by (simp add: fail_scan_def bind_def)
qed

lemma complete_scan_concludes:
  assumes "interferes_as (\<lambda>d d'. listed (sj_scan_id j) d \<longrightarrow> listed (sj_scan_id j) d') es" and "listed (sj_scan_id j) d"
    and "unaccounted t = 0" and "bind (set_scan Concluding j (Some t) (Some Scan_complete)) (\<lambda>_. ret t) es d = (r, es', d')"
    and "r \<noteq> Inl (Scan_cancelled Concluding)"
  shows "\<exists>s. get_scan (sc_scans d') (sj_scan_id j) = Some s \<and> concluded r s"
proof (rule set_scan_final [OF assms(1,2), where c = "Some t" and st = Scan_complete])
  fix s now d1
  assume m: "set_scan Concluding j (Some t) (Some Scan_complete) es d = (Inr (), List.tl es, d1)"
    and g: "get_scan (sc_scans d1) (sj_scan_id j) = Some (with_status now (Some Scan_complete) (with_counts (Some t) s))"
  from assms(4) have "r = Inr t" "d' = d1"
    by (simp_all add: bind_eq [where m = "set_scan st' j x y" for st' x y, OF m] ret_def)
  with g assms(3) show ?thesis by (simp only: concluded_counts option.inject ex_simps simp_thms)
next
  fix d1
  assume "set_scan Concluding j (Some t) (Some Scan_complete) es d = (Inl (Scan_cancelled Concluding), List.tl es, d1)"
  with assms(4,5) show ?thesis by (simp add: bind_def)
qed

lemma bind_attempt: "bind (attempt m) f es d = (case m es d of (r, es', d') \<Rightarrow> f r es' d')"
  by (simp add: bind_def attempt_def split: prod.split)

lemma scan_tree_concludes:
  assumes es0: "interferes_as (\<lambda>d d'. listed (sj_scan_id j) d \<longrightarrow> listed (sj_scan_id j) d') es0" and d0: "listed (sj_scan_id j) d0"
    and run0: "scan_tree j late base listing es0 d0 = (r, es', d')" and r: "r \<noteq> Inl (Scan_cancelled Concluding)"
  shows "\<exists>s. get_scan (sc_scans d') (sj_scan_id j) = Some s \<and> concluded r s"
proof -
  have u0: "unaccounted no_files \<in> {0, 1}" and z: "unaccounted no_files = 0" by (simp_all add: no_files_def unaccounted_def)
  obtain w es d where w: "waits Working es0 d0 = (w, es, d)" by (rule prod_cases3)
  note d = keepingD(1,2) [OF keeping_waits [OF listed_cancel] es0 d0 w]
  show ?thesis
  proof (cases "(\<exists>u. w = Inr u) \<and> (\<exists>files. \<not> late \<and> list_video_files base listing = Some files)")
    case nowhere: False
    have "\<exists>e. fail_scan j (Some no_files) e es d = (r, es', d')"
    proof (cases w)
      case (Inl e)
      with run0 w show ?thesis by (auto simp: scan_tree_def bind_attempt)
    next
      case (Inr u)
      with nowhere have "late \<or> list_video_files base listing = None" by (cases "list_video_files base listing") auto
      with run0 w Inr show ?thesis by (auto simp: scan_tree_def bind_attempt split: if_splits)
    qed
    then obtain e where "fail_scan j (Some no_files) e es d = (r, es', d')" ..
    from fail_scan_concludes [OF d(2,1) u0 this r] show ?thesis .
  next
    case True
    then obtain u files where files: "w = Inr u" "\<not> late" "list_video_files base listing = Some files" by blast
    obtain v es1 d1 where v: "visit_files j no_files files es d = (v, es1, d1)" by (rule prod_cases3)
    with visit_files_answers obtain t stopped where ts: "v = Inr (t, stopped)" by (metis never_raises_result prod.exhaust)
    note visited = keepingD [OF visit_files_accounts [OF z] d(2,1) v]
    from visited(3) [OF ts] have un: "unaccounted t \<in> (if stopped = None then {0} else {0, 1})" by simp
    show ?thesis
    proof (cases stopped)
      case (Some e)
      with run0 w files have "fail_scan j (Some t) e es1 d1 = (r, es', d')"
        by (simp add: scan_tree_def bind_attempt bind_eq [where m = "visit_files j x y" for x y, OF v [unfolded ts]])
      with un Some r show ?thesis by (intro fail_scan_concludes [OF visited(2,1)]) auto
    next
      case None
      let ?prune = "if sj_max_files j = 0 \<and> 0 < t_found t then prune_absent j files else ret 0"
      obtain n es2 d2 where p: "?prune es1 d1 = (n, es2, d2)" by (rule prod_cases3)
      have "keeping (listed (sj_scan_id j)) ?prune (\<lambda>_. True)" by (intro keeping_rules prune_listed TrueI)
      note s2 = keepingD(1,2) [OF this visited(2,1) p]
      from un None have ut: "unaccounted t = 0" by simp
      from run0 w files None have rest: "(case n of Inl e \<Rightarrow> fail_scan j (Some t) e
          | Inr _ \<Rightarrow> bind (set_scan Concluding j (Some t) (Some Scan_complete)) (\<lambda>_. ret t)) es2 d2 = (r, es', d')"
        by (simp add: scan_tree_def bind_attempt bind_eq [where m = "visit_files j x y" for x y, OF v [unfolded ts]] p)
      show ?thesis
      proof (cases n)
        case (Inl e)
        with rest ut r show ?thesis by (intro fail_scan_concludes [OF s2(2,1)]) auto
      next
        case (Inr k)
        with rest ut r show ?thesis by (intro complete_scan_concludes [OF s2(2,1)]) auto
      qed
    qed
  qed
qed

text \<open>The next start of the scheduler ends every row that was left running.\<close>

lemma startup_leaves_none_running: "get_scan (snd (fail_running now t)) k = Some s \<Longrightarrow> sn_status s \<noteq> Scan_running"
  unfolding get_scan_def by (drule find_row_SomeD) (auto simp: fail_running_def set_update_where split: if_splits)

lemma get_scan_appended_Some: "sn_id x = k \<Longrightarrow> \<exists>s. get_scan (t @ [x]) k = Some s"
  unfolding not_None_eq [symmetric] by (auto simp: get_scan_def find_row_def find_None_iff)

lemma s3_object_keeps:
  "keeping (\<lambda>d. (p, i) \<in> set (named_rows (sc_media d))) (visit_objects j presigned head_bytes isoformat s obs) (\<lambda>_. True)"
proof (induction obs arbitrary: s)
  case (Cons ob obs)
  have cat: "keeping (\<lambda>d. (p, i) \<in> set (named_rows (sc_media d))) (catalog_file j row) (\<lambda>_. True)" for row
    unfolding catalog_file_def
  proof (rule keeping_awaited)
    fix d :: scan_state assume "(p, i) \<in> set (named_rows (sc_media d))"
    with named_rows_upserted [of "sc_clock d" "sj_new_id j (m_file_path row)" row "sc_media d"]
    show "(p, i) \<in> set (named_rows (sc_media (snd ((), d\<lparr>sc_media := snd (upsert_media_file (sc_clock d)
      (sj_new_id j (m_file_path row)) row (sc_media d))\<rparr>)))) \<and> True"
      by auto
  qed simp
  show ?case unfolding visit_objects.simps Let_def by (intro keeping_rules cancel_rules cat Cons.IH TrueI; simp)
qed (simp add: keeping_ret)

text \<open>A scan of a bucket deletes no row: an object that is gone stays in the catalog.\<close>

lemma s3_scan_keeps_rows:
  "keeping (\<lambda>d. (p, i) \<in> set (named_rows (sc_media d))) (scan_s3_library j presigned head_bytes isoformat pages) (\<lambda>_. True)"
proof -
  have pages: "keeping (\<lambda>d. (p, i) \<in> set (named_rows (sc_media d))) (visit_pages j presigned head_bytes isoformat s pages) (\<lambda>_. True)" for s
  proof (induction pages arbitrary: s)
    case (Cons page pages)
    then show ?case
      unfolding visit_pages.simps
      by (cases page) (auto intro!: keeping_rules cancel_rules s3_object_keeps)
  qed (simp add: keeping_ret)
  show ?thesis unfolding scan_s3_library_def fail_scan_def set_scan_def open_scan_def
    by (intro keeping_rules pages keeping_awaited TrueI) simp_all
qed

text \<open>A library whose task is alive is not scanned a second time, and a finished task does not hold it.\<close>

lemma one_live_scan_per_library:
  "start_scan running l task scans = (Some task', scans') \<Longrightarrow> running task' \<Longrightarrow> start_scan running l other scans' = (None, scans')"
  "start_scan running l task scans = (None, scans') \<Longrightarrow> scans' = scans \<and> (\<exists>t. scans l = Some t \<and> running t)"
  by (auto simp: start_scan_def split: option.splits if_splits)

text \<open>
  The looks at the file and at its sidecars are separate steps. A swap that ends between them answers "gone"
  for a file that had its lock before and is there after.
\<close>

lemma is_gone_is_not_one_look:
  "fst (is_gone ''/v/c.mkv'' [id, swap_ends] state_here) = Inr True
   \<and> sc_disk state_here ''/v/c.mkv.tf_lock'' = Found ''t'' 0
   \<and> sc_disk (swap_ends state_here) ''/v/c.mkv'' = Found ''u'' 5"
  by code_simp

section \<open>Properties\<close>

text \<open>
  C25. A scan deletes the catalog row of no file that stays in place while it runs, and of none that one pipeline
  sidecar keeps company meanwhile: if, whatever other tasks do between any two steps of the scan, row \<open>i\<close>
  stays the row of path \<open>p\<close>, and either the file is never absent or one and the same of its sidecars (its
  lock, its temporary output or its backup) is there all the time, then the row is still there when the scan
  ends, whether it completes, fails or is cancelled, and whatever the walk saw. A file whose swap begins or
  ends while the scan looks at it is not covered; the lemma before shows a row lost that way.
\<close>

theorem scan_keeps_files_that_are_there:
  assumes "interferes_as (\<lambda>d d'. held p i w d \<longrightarrow> held p i w d') es" and "held p i w d" and "\<And>q. sj_new_id j q \<noteq> i"
    and "scan_library j late base tree es d = (r, es', d')"
  shows "\<exists>row\<in>set (sc_media d'). m_file_path row = p \<and> m_id row = i"
proof -
  from keepingD(1) [OF scan_library_held [OF assms(3)] assms(1,2,4)] have "held p i w d'" .
  then show ?thesis by (auto simp: held_def named_rows_def)
qed

text \<open>The row of the file in its swap stays while the row of the lost file goes, and another task runs in between.\<close>

theorem scan_keeps_files_that_are_there_witness:
  "(\<exists>row\<in>set (sc_media (snd (snd (scan_library job_here False [''v''] tree_here [clock_ticks] state_here)))).
      m_file_path row = ''/v/c.mkv'' \<and> m_id row = ''c'')
   \<and> map m_id (sc_media (snd (snd (scan_library job_here False [''v''] tree_here [clock_ticks] state_here)))) = [''a'', ''c'', ''n/v/S01E02.mkv'']"
proof
  have r: "interferes_as (\<lambda>d d'. held ''/v/c.mkv'' ''c'' ''/v/c.mkv.tf_lock'' d \<longrightarrow> held ''/v/c.mkv'' ''c'' ''/v/c.mkv.tf_lock'' d') [clock_ticks]"
    by (simp add: interferes_as_def held_def clock_ticks_def)
  have h: "held ''/v/c.mkv'' ''c'' ''/v/c.mkv.tf_lock'' state_here" by code_simp
  have n: "sj_new_id job_here q \<noteq> ''c''" for q by (simp add: job_here_def)
  obtain x es' d' where run: "scan_library job_here False [''v''] tree_here [clock_ticks] state_here = (x, es', d')"
    by (rule prod_cases3)
  from scan_keeps_files_that_are_there [OF r h n run]
  show "\<exists>row\<in>set (sc_media (snd (snd (scan_library job_here False [''v''] tree_here [clock_ticks] state_here)))).
      m_file_path row = ''/v/c.mkv'' \<and> m_id row = ''c''" by (simp add: run)
  show "map m_id (sc_media (snd (snd (scan_library job_here False [''v''] tree_here [clock_ticks] state_here)))) = [''a'', ''c'', ''n/v/S01E02.mkv'']"
    by code_simp
qed

text \<open>
  A cancellation that meets the update that ends a completed scan is raised outside the \<open>try\<close>: the row stays running.
\<close>

definition cancels :: "scan_state \<Rightarrow> scan_state" where
  "cancels d = d\<lparr>sc_cancel := Cancelled_before\<rparr>"

lemma cancelled_at_the_end_leaves_row_running:
  "(case scan_library job_here False [''v''] (E_dir (Some [])) [id, id, cancels] state_here of
      (r, es, d) \<Rightarrow> r = Inl (Scan_cancelled Concluding)
        \<and> map_option (\<lambda>s. (sn_status s, sn_completed_at s)) (get_scan (sc_scans d) ''s1'') = Some (Scan_running, None))"
  by code_simp

text \<open>
  C26. A scan of a readable or unreadable directory concludes its row, unless it is cancelled at the insert of the
  row or at the very update that concludes it. Let other tasks do anything to the rest of the state while it
  runs (they never delete the row), and let the task be cancelled at any of its awaits. If the scan returns, its row
  is COMPLETE, stamped, with the counters it returns and every file it found counted as new, updated or
  skipped. If it raises, also a cancellation that came during the walk, the visits or the prune, the row is
  FAILED and stamped, with every file accounted for except at most the one it stopped at. And whatever
  happened, no row is running any more after the next start of the scheduler.
\<close>

theorem scan_is_concluded_and_accounts:
  assumes es: "interferes_as (\<lambda>d d'. listed (sj_scan_id j) d \<longrightarrow> listed (sj_scan_id j) d') es"
    and run: "scan_library j late base (E_dir listing) es d = (r, es', d')"
  shows "(r \<notin> {Inl (Scan_cancelled Opening), Inl (Scan_cancelled Concluding)}
      \<longrightarrow> (\<exists>s. get_scan (sc_scans d') (sj_scan_id j) = Some s \<and> concluded r s))
    \<and> (\<forall>now k s. get_scan (snd (fail_running now (sc_scans d'))) k = Some s \<longrightarrow> sn_status s \<noteq> Scan_running)"
proof (intro conjI impI allI)
  assume r: "r \<notin> {Inl (Scan_cancelled Opening), Inl (Scan_cancelled Concluding)}"
  obtain x es1 d1 where m: "open_scan j Scan_running es d = (x, es1, d1)" by (rule prod_cases3)
  with run r have x: "x = Inr ()" and "sc_cancel (next_state es d) = Not_cancelled"
    by (auto simp: scan_library_def bind_def open_scan_def awaited_def Let_def split: cancellation.splits)
  with m have l: "listed (sj_scan_id j) d1" and es1: "es1 = List.tl es"
    by (auto simp: open_scan_def awaited_def listed_def create_scan_def get_scan_appended_Some new_scan_def Let_def)
  from run x have "scan_tree j late base listing es1 d1 = (r, es', d')"
    by (simp add: scan_library_def bind_eq [where m = "open_scan j y" for y, OF m [unfolded x]])
  with scan_tree_concludes [OF _ l] interferes_tl [OF es] r es1
  show "\<exists>s. get_scan (sc_scans d') (sj_scan_id j) = Some s \<and> concluded r s" by blast
qed (rule startup_leaves_none_running)

text \<open>A scan that another task cancels while the second file is probed.\<close>

theorem scan_is_concluded_and_accounts_witness:
  "\<exists>s. get_scan (sc_scans (snd (snd (scan_library job_here False [''v''] tree_here [clock_ticks, id, id, cancels] state_here)))) ''s1'' = Some s
     \<and> concluded (Inl (Scan_cancelled Working)) s"
proof -
  have k: "sj_scan_id job_here = ''s1''" by (simp add: job_here_def)
  have i: "interferes_as (\<lambda>d d'. listed (sj_scan_id job_here) d \<longrightarrow> listed (sj_scan_id job_here) d') [clock_ticks, id, id, cancels]"
    by (simp add: interferes_as_def listed_def clock_ticks_def cancels_def)
  obtain x es' d' where run: "scan_library job_here False [''v''] tree_here [clock_ticks, id, id, cancels] state_here = (x, es', d')"
    by (rule prod_cases3)
  have "fst (scan_library job_here False [''v''] tree_here [clock_ticks, id, id, cancels] state_here) = Inl (Scan_cancelled Working)"
    by code_simp
  with run have x: "x = Inl (Scan_cancelled Working)" by simp
  from conjunct1 [OF scan_is_concluded_and_accounts [OF i run [unfolded tree_here_def]]] show ?thesis by (simp add: run k x)
qed

end
