(* ===== verification/Control.thy ===== *)
theory Control
  imports Schedules Scanner
begin

text \<open>
  The administrator's controls: the tuning settings (\<open>api/routes/settings.py\<close>), the libraries
  (\<open>api/routes/libraries.py\<close>, \<open>update_library\<close> of \<open>repos/libraries.py\<close>), the scan trigger
  (\<open>api/routes/scan.py\<close>) and the scheduled scans (\<open>scheduler_cron.py\<close>).

  Handlers are coroutines over the tables they use and the table of scan tasks. A refusal is its status
  and its cause. \<open>env\<close> gives the settings' defaults as text; \<open>float\<close> of a default's text is the default.
  What a scan does happens between the statements; awaiting a task ends it. Fresh ids and the time of
  a statement are arguments.
\<close>

section \<open>State and refusals\<close>

record console =
  cs_settings :: "(string \<times> string) list"
  cs_libraries :: "library list"
  cs_media :: "media_file list"
  cs_scans :: "scan list"
  cs_live :: "string \<rightharpoonup> nat"
  cs_running :: "nat \<Rightarrow> bool"
  cs_tasks :: nat

datatype control_cause = Not_editable string | Bad_value string | Perc5_above_mean | Bad_body | Path_taken | No_fields
  | No_library | Scan_alive

text \<open>\<open>Refused\<close> is an HTTP answer; \<open>Raises\<close> an exception that the framework answers with 500.\<close>

datatype refusal = Refused nat control_cause | Raises

type_synonym 'a handler = "(console, refusal, 'a) coroutine"

section \<open>Tuning settings\<close>

text \<open>An empty value clears the override like a missing one.\<close>

definition given :: "string option \<Rightarrow> string option" where
  "given v = (case v of Some (c # s) \<Rightarrow> Some (c # s) | _ \<Rightarrow> None)"

fun first_problem ::
  "(string \<Rightarrow> num option) \<Rightarrow> (string \<Rightarrow> int option) \<Rightarrow> (string \<times> string option) list \<Rightarrow> control_cause option"
where
  "first_problem py_float py_int [] = None"
| "first_problem py_float py_int ((key, val) # changes) =
     (case map_of (TUNABLE_KEYS py_float py_int) key of
        None \<Rightarrow> Some (Not_editable key)
      | Some validator \<Rightarrow>
          (case given val of
             None \<Rightarrow> first_problem py_float py_int changes
           | Some v \<Rightarrow> (case validator v of None \<Rightarrow> Some (Bad_value key) | Some _ \<Rightarrow> first_problem py_float py_int changes)))"

definition to_float :: "(string \<Rightarrow> num option) \<Rightarrow> string \<Rightarrow> num handler" where
  "to_float py_float s = (case py_float s of None \<Rightarrow> throw Raises | Some x \<Rightarrow> ret x)"

definition read_effective :: "(string \<Rightarrow> string) \<Rightarrow> string \<Rightarrow> string handler" where
  "read_effective env key =
     bind (query (\<lambda>d. effective env (cs_settings d) key)) (\<lambda>r. case r of None \<Rightarrow> throw Raises | Some v \<Rightarrow> ret v)"

definition prospective ::
  "(string \<Rightarrow> num option) \<Rightarrow> (string \<Rightarrow> string) \<Rightarrow> (string \<times> string option) list \<Rightarrow> string \<Rightarrow> num handler"
where
  "prospective py_float env changes key =
     (case map_of changes key of
        Some val \<Rightarrow> (case given val of Some v \<Rightarrow> to_float py_float v | None \<Rightarrow> to_float py_float (env key))
      | None \<Rightarrow> bind (read_effective env key) (to_float py_float))"

definition touches :: "string list \<Rightarrow> (string \<times> string option) list \<Rightarrow> bool" where
  "touches names changes \<longleftrightarrow> set names \<inter> set (map fst changes) \<noteq> {}"

definition check_floors ::
  "(string \<Rightarrow> num option) \<Rightarrow> (string \<Rightarrow> string) \<Rightarrow> (string \<times> string option) list \<Rightarrow> unit handler"
where
  "check_floors py_float env changes =
     (if touches [''vmaf_safety_mean'', ''vmaf_safety_perc5''] changes
      then bind (prospective py_float env changes ''vmaf_safety_mean'') (\<lambda>safety_mean.
           bind (prospective py_float env changes ''vmaf_safety_perc5'') (\<lambda>safety_perc5.
           if safety_mean < safety_perc5 then throw (Refused 400 Perc5_above_mean) else ret ()))
      else ret ())"

definition check_target ::
  "(string \<Rightarrow> num option) \<Rightarrow> (string \<Rightarrow> string) \<Rightarrow> (string \<times> string option) list \<Rightarrow> bool handler"
where
  "check_target py_float env changes =
     (if touches [''target_vmaf'', ''vmaf_safety_mean''] changes
      then bind (prospective py_float env changes ''vmaf_safety_mean'') (\<lambda>safety_mean.
           bind (prospective py_float env changes ''target_vmaf'') (\<lambda>target. ret (target < safety_mean)))
      else ret False)"

definition write_setting ::
  "(string \<Rightarrow> num option) \<Rightarrow> (string \<Rightarrow> int option) \<Rightarrow> string \<Rightarrow> string option \<Rightarrow> unit handler"
where
  "write_setting py_float py_int key val =
     (case given val of
        None \<Rightarrow> stmt (\<lambda>d. ((), d\<lparr>cs_settings := clear_override key (cs_settings d)\<rparr>))
      | Some v \<Rightarrow>
          bind (stmt (\<lambda>d. case set_override py_float py_int key v (cs_settings d) of
                  None \<Rightarrow> (False, d) | Some st \<Rightarrow> (True, d\<lparr>cs_settings := st\<rparr>)))
            (\<lambda>written. if written then ret () else throw Raises))"

primrec write_settings ::
  "(string \<Rightarrow> num option) \<Rightarrow> (string \<Rightarrow> int option) \<Rightarrow> (string \<times> string option) list \<Rightarrow> unit handler"
where
  "write_settings py_float py_int [] = ret ()"
| "write_settings py_float py_int (c # changes) =
     bind (write_setting py_float py_int (fst c) (snd c)) (\<lambda>_. write_settings py_float py_int changes)"

primrec read_all :: "(string \<Rightarrow> string) \<Rightarrow> string list \<Rightarrow> (string \<times> string) list handler" where
  "read_all env [] = ret []"
| "read_all env (key # keys) = bind (read_effective env key) (\<lambda>v. bind (read_all env keys) (\<lambda>vs. ret ((key, v) # vs)))"

record tuning_answer =
  ta_data :: "(string \<times> string) list"
  ta_overrides :: "(string \<times> string) list"
  ta_warning :: bool

definition get_tuning ::
  "(string \<Rightarrow> num option) \<Rightarrow> (string \<Rightarrow> int option) \<Rightarrow> (string \<Rightarrow> string) \<Rightarrow> bool \<Rightarrow> tuning_answer handler"
where
  "get_tuning py_float py_int env warning =
     bind (read_all env (map fst (TUNABLE_KEYS py_float py_int))) (\<lambda>values.
     bind (query cs_settings) (\<lambda>overrides. ret \<lparr>ta_data = values, ta_overrides = overrides, ta_warning = warning\<rparr>))"

definition update_tuning ::
  "(string \<Rightarrow> num option) \<Rightarrow> (string \<Rightarrow> int option) \<Rightarrow> (string \<Rightarrow> string) \<Rightarrow> (string \<times> string option) list \<Rightarrow> tuning_answer handler"
where
  "update_tuning py_float py_int env changes =
     (case first_problem py_float py_int changes of
        Some problem \<Rightarrow> throw (Refused 400 problem)
      | None \<Rightarrow>
          bind (check_floors py_float env changes) (\<lambda>_.
          bind (check_target py_float env changes) (\<lambda>warning.
          bind (write_settings py_float py_int changes) (\<lambda>_.
          get_tuning py_float py_int env warning))))"

section \<open>Libraries\<close>

record library_body =
  lb_name :: string
  lb_media_type :: string
  lb_path :: string
  lb_quality_preset :: int
  lb_auto_scan :: bool
  lb_scan_interval_hours :: int
  lb_backend :: StorageBackendType
  lb_s3_bucket :: "string option"
  lb_s3_prefix :: "string option"

definition or_empty :: "string option \<Rightarrow> string" where
  "or_empty s = (case s of None \<Rightarrow> [] | Some t \<Rightarrow> t)"

definition validate_backend_fields :: "library_body \<Rightarrow> library_body option" where
  "validate_backend_fields b =
     (if lb_backend b = S3 then
        if or_empty (lb_s3_bucket b) = [] then None
        else Some (if lb_path b = []
               then b\<lparr>lb_path := ''s3://'' @ or_empty (lb_s3_bucket b) @ ''/'' @ or_empty (lb_s3_prefix b)\<rparr> else b)
      else if lb_path b = [] then None
      else Some (b\<lparr>lb_s3_bucket := None, lb_s3_prefix := None\<rparr>))"

definition validate_library :: "library_body \<Rightarrow> library_body option" where
  "validate_library b =
     (if lb_name b \<noteq> [] \<and> length (lb_name b) \<le> 120 \<and> lb_media_type b \<in> {''movies'', ''tv'', ''anime''}
         \<and> 1 \<le> lb_quality_preset b \<and> lb_quality_preset b \<le> 51 \<and> 1 \<le> lb_scan_interval_hours b
         \<and> length (or_empty (lb_s3_bucket b)) \<le> 63 \<and> length (or_empty (lb_s3_prefix b)) \<le> 1024
      then validate_backend_fields b else None)"

definition row_of_body :: "library_body \<Rightarrow> library" where
  "row_of_body b = (blank_library [] (lb_name b))\<lparr>l_media_type := lb_media_type b, l_path := lb_path b,
     l_quality_preset := lb_quality_preset b, l_enabled := True, l_auto_scan := lb_auto_scan b,
     l_scan_interval_hours := lb_scan_interval_hours b, l_backend := lb_backend b,
     l_s3_bucket := lb_s3_bucket b, l_s3_prefix := lb_s3_prefix b\<rparr>"

text \<open>The insert and its commit; a second library on a path violates the table's UNIQUE.\<close>

definition insert_library :: "time \<Rightarrow> string \<Rightarrow> library \<Rightarrow> unit handler" where
  "insert_library now new_id l =
     bind (stmt (\<lambda>d. case Schedules.create_library now new_id l (cs_libraries d) of
             None \<Rightarrow> (False, d) | Some (_, ls) \<Rightarrow> (True, d\<lparr>cs_libraries := ls\<rparr>)))
       (\<lambda>inserted. if inserted then ret () else throw Raises)"

definition post_library :: "time \<Rightarrow> string \<Rightarrow> library_body \<Rightarrow> library option handler" where
  "post_library now new_id body =
     (case validate_library body of
        None \<Rightarrow> throw (Refused 422 Bad_body)
      | Some b \<Rightarrow>
          bind (query (\<lambda>d. path_in_use (cs_libraries d) (lb_path b))) (\<lambda>taken.
          if taken then throw (Refused 409 Path_taken)
          else bind (insert_library now new_id (row_of_body b)) (\<lambda>_.
               query (\<lambda>d. get_library (cs_libraries d) new_id))))"

datatype library_field =
    L_name string | L_media_type string | L_path string | L_quality_preset int | L_enabled bool | L_auto_scan bool
  | L_scan_interval_hours int | L_backend StorageBackendType | L_s3_bucket "string option" | L_s3_prefix "string option"
  | L_updated_at time | L_other string

primrec set_library_field :: "library_field \<Rightarrow> library \<Rightarrow> library" where
  "set_library_field (L_name v) l = l\<lparr>l_name := v\<rparr>"
| "set_library_field (L_media_type v) l = l\<lparr>l_media_type := v\<rparr>"
| "set_library_field (L_path v) l = l\<lparr>l_path := v\<rparr>"
| "set_library_field (L_quality_preset v) l = l\<lparr>l_quality_preset := v\<rparr>"
| "set_library_field (L_enabled v) l = l\<lparr>l_enabled := v\<rparr>"
| "set_library_field (L_auto_scan v) l = l\<lparr>l_auto_scan := v\<rparr>"
| "set_library_field (L_scan_interval_hours v) l = l\<lparr>l_scan_interval_hours := v\<rparr>"
| "set_library_field (L_backend v) l = l\<lparr>l_backend := v\<rparr>"
| "set_library_field (L_s3_bucket v) l = l\<lparr>l_s3_bucket := v\<rparr>"
| "set_library_field (L_s3_prefix v) l = l\<lparr>l_s3_prefix := v\<rparr>"
| "set_library_field (L_updated_at v) l = l\<lparr>l_updated_at := v\<rparr>"
| "set_library_field (L_other c) l = l"

definition written_fields :: "time \<Rightarrow> library_field list \<Rightarrow> library \<Rightarrow> library" where
  "written_fields now flds l = (fold set_library_field flds l)\<lparr>l_updated_at := now\<rparr>"

definition is_column :: "library_field \<Rightarrow> bool" where
  "is_column f = (case f of L_other _ \<Rightarrow> False | _ \<Rightarrow> True)"

definition update_library :: "time \<Rightarrow> string \<Rightarrow> library_field list \<Rightarrow> library option handler" where
  "update_library now lib_id flds =
     (if flds = [] then query (\<lambda>d. get_library (cs_libraries d) lib_id)
      else if \<not> list_all is_column flds then throw Raises
      else bind (stmt (\<lambda>d.
             let ls = update_where (\<lambda>l. l_id l = lib_id) (written_fields now flds) (cs_libraries d)
             in if distinct (map l_path ls) then (True, d\<lparr>cs_libraries := ls\<rparr>) else (False, d)))
           (\<lambda>written. if written then query (\<lambda>d. get_library (cs_libraries d) lib_id) else throw Raises))"

record library_update =
  up_name :: "string option"
  up_quality_preset :: "int option"
  up_enabled :: "bool option"
  up_auto_scan :: "bool option"
  up_scan_interval_hours :: "int option"

definition valid_update :: "library_update \<Rightarrow> bool" where
  "valid_update u \<longleftrightarrow>
     (case up_quality_preset u of None \<Rightarrow> True | Some q \<Rightarrow> 1 \<le> q \<and> q \<le> 51)
     \<and> (case up_scan_interval_hours u of None \<Rightarrow> True | Some h \<Rightarrow> 1 \<le> h)"

definition given_fields :: "library_update \<Rightarrow> library_field list" where
  "given_fields u = List.map_filter id
     [map_option L_name (up_name u), map_option L_quality_preset (up_quality_preset u), map_option L_enabled (up_enabled u),
      map_option L_auto_scan (up_auto_scan u), map_option L_scan_interval_hours (up_scan_interval_hours u)]"

definition put_library :: "time \<Rightarrow> string \<Rightarrow> library_update \<Rightarrow> library handler" where
  "put_library now lib_id u =
     (if \<not> valid_update u then throw (Refused 422 Bad_body)
      else if given_fields u = [] then throw (Refused 400 No_fields)
      else bind (update_library now lib_id (given_fields u)) (\<lambda>r.
           case r of None \<Rightarrow> throw (Refused 404 No_library) | Some l \<Rightarrow> ret l))"

text \<open>The two deletes of \<open>delete_library\<close>; a row catalogued between them makes the second one fail.\<close>

definition remove_library :: "string \<Rightarrow> unit handler" where
  "remove_library lib_id =
     bind (stmt (\<lambda>d. ((), d\<lparr>cs_media := delete_where (\<lambda>m. m_library_id m = lib_id) (cs_media d)\<rparr>))) (\<lambda>_.
     bind (stmt (\<lambda>d.
       if list_ex (\<lambda>l. l_id l = lib_id) (cs_libraries d) \<and> list_ex (\<lambda>m. m_library_id m = lib_id) (cs_media d) then (None, d)
       else (Some (rowcount (\<lambda>l. l_id l = lib_id) (cs_libraries d)),
             d\<lparr>cs_libraries := delete_where (\<lambda>l. l_id l = lib_id) (cs_libraries d)\<rparr>)))
       (\<lambda>n. case n of None \<Rightarrow> throw Raises | Some k \<Rightarrow> if 0 < k then ret () else throw (Refused 404 No_library)))"

section \<open>Starting scans\<close>

text \<open>\<open>runner.start_scan\<close>, between two awaits; a task that is started is not done.\<close>

definition open_door :: "library \<Rightarrow> nat option handler" where
  "open_door l es d =
     (case start_scan (cs_running d) (l_id l) (cs_tasks d) (cs_live d) of
        (None, live) \<Rightarrow> (Inr None, es, d\<lparr>cs_live := live\<rparr>)
      | (Some t, live) \<Rightarrow>
          (Inr (Some t), es, d\<lparr>cs_live := live, cs_running := (cs_running d)(t := True), cs_tasks := Suc (cs_tasks d)\<rparr>))"

primrec open_doors :: "library list \<Rightarrow> (string list \<times> string list) handler" where
  "open_doors [] = ret ([], [])"
| "open_doors (l # ls) =
     bind (open_door l) (\<lambda>t. bind (open_doors ls) (\<lambda>(started, busy).
       ret (if t \<noteq> None then (l_name l # started, busy) else (started, l_name l # busy))))"

definition trigger_library_scan :: "string \<Rightarrow> string handler" where
  "trigger_library_scan lib_id =
     bind (query (\<lambda>d. get_library (cs_libraries d) lib_id)) (\<lambda>lib.
       case lib of None \<Rightarrow> throw (Refused 404 No_library)
       | Some l \<Rightarrow> bind (open_door l) (\<lambda>t. if t = None then throw (Refused 409 Scan_alive) else ret (l_name l)))"

text \<open>The configured libraries: media type (also the name), path and quality.\<close>

primrec seed_libraries :: "time \<Rightarrow> (string \<times> string \<times> string \<times> int) list \<Rightarrow> unit handler" where
  "seed_libraries now [] = ret ()"
| "seed_libraries now (c # cs) =
     (case c of (new_id, name, path, quality) \<Rightarrow>
        bind (insert_library now new_id ((blank_library [] name)\<lparr>l_media_type := name, l_path := path,
                l_quality_preset := quality, l_auto_scan := True\<rparr>))
          (\<lambda>_. seed_libraries now cs))"

definition trigger_scan ::
  "time \<Rightarrow> (string \<times> string \<times> string \<times> int) list \<Rightarrow> string option \<Rightarrow> (string list \<times> string list) handler"
where
  "trigger_scan now config_libs library_id =
     bind (query (\<lambda>d. list_libraries None True (cs_libraries d))) (\<lambda>listed.
     bind (if listed \<noteq> [] then ret listed
           else bind (seed_libraries now config_libs) (\<lambda>_. query (\<lambda>d. list_libraries None True (cs_libraries d)))) (\<lambda>db_libs.
     bind (if or_empty library_id \<noteq> [] then
             (let targets = filter (\<lambda>l. l_id l = or_empty library_id) db_libs
              in if targets = [] then throw (Refused 400 No_library) else ret targets)
           else ret db_libs) (\<lambda>targets.
     bind (open_doors targets) (\<lambda>(started, busy).
       if busy \<noteq> [] \<and> started = [] then throw (Refused 409 Scan_alive) else ret (started, busy)))))"

section \<open>Scheduled scans\<close>

definition hours :: "int \<Rightarrow> time" where
  "hours n = n * 3600 * 1000000"

text \<open>A library whose last attempt is at least its interval ago, or that was never scanned.\<close>

definition interval_over :: "time \<Rightarrow> library \<Rightarrow> scan list \<Rightarrow> bool" where
  "interval_over now l t =
     (case latest_started_at (l_id l) t of None \<Rightarrow> True | Some last_start \<Rightarrow> hours (l_scan_interval_hours l) \<le> now - last_start)"

definition await_scan :: "nat \<Rightarrow> unit handler" where
  "await_scan t = stmt (\<lambda>d. ((), d\<lparr>cs_running := (cs_running d)(t := False)\<rparr>))"

primrec visit_libraries :: "time \<Rightarrow> library list \<Rightarrow> string list handler" where
  "visit_libraries now [] = ret []"
| "visit_libraries now (l # ls) =
     (if \<not> l_auto_scan l then visit_libraries now ls
      else bind (query (\<lambda>d. interval_over now l (cs_scans d))) (\<lambda>over.
        if \<not> over then visit_libraries now ls
        else bind (open_door l) (\<lambda>t.
          case t of
            None \<Rightarrow> visit_libraries now ls
          | Some task \<Rightarrow> bind (await_scan task) (\<lambda>_. bind (visit_libraries now ls) (\<lambda>rest. ret (l_id l # rest))))))"

definition tick :: "time \<Rightarrow> string list handler" where
  "tick now = bind (query (\<lambda>d. list_libraries None True (cs_libraries d))) (visit_libraries now)"

section \<open>Specifications\<close>

definition effective_float :: "(string \<Rightarrow> num option) \<Rightarrow> (string \<Rightarrow> string) \<Rightarrow> (string \<times> string) list \<Rightarrow> string \<Rightarrow> num option" where
  "effective_float py_float env st key = Option.bind (effective env st key) py_float"

text \<open>Both floors are numbers, the worst-scene one at most the mean one.\<close>

definition coherent :: "(string \<Rightarrow> num option) \<Rightarrow> (string \<Rightarrow> string) \<Rightarrow> (string \<times> string) list \<Rightarrow> bool" where
  "coherent py_float env st =
     (case (effective_float py_float env st ''vmaf_safety_mean'', effective_float py_float env st ''vmaf_safety_perc5'') of
        (Some m, Some p) \<Rightarrow> p \<le> m | _ \<Rightarrow> False)"

definition tunable :: "string \<Rightarrow> bool" where
  "tunable key \<longleftrightarrow> key \<in> set (map fst (TUNABLE_KEYS (\<lambda>_. None) (\<lambda>_. None)))"

text \<open>The value a tunable setting has, and the one it has after the changes.\<close>

definition current :: "(string \<Rightarrow> string) \<Rightarrow> (string \<times> string) list \<Rightarrow> string \<Rightarrow> string" where
  "current env st key = (case map_of st key of Some v \<Rightarrow> v | None \<Rightarrow> env key)"

definition changed :: "(string \<Rightarrow> string) \<Rightarrow> (string \<times> string option) list \<Rightarrow> (string \<times> string) list \<Rightarrow> string \<Rightarrow> string" where
  "changed env changes st key =
     (case map_of changes key of None \<Rightarrow> current env st key
      | Some val \<Rightarrow> (case given val of Some v \<Rightarrow> v | None \<Rightarrow> env key))"

definition library_ok :: "library \<Rightarrow> bool" where
  "library_ok l \<longleftrightarrow> l_path l \<noteq> [] \<and> 1 \<le> l_quality_preset l \<and> l_quality_preset l \<le> 51 \<and> 1 \<le> l_scan_interval_hours l
     \<and> (if l_backend l = S3 then or_empty (l_s3_bucket l) \<noteq> [] else l_s3_bucket l = None \<and> l_s3_prefix l = None)"

definition libraries_ok :: "library list \<Rightarrow> bool" where
  "libraries_ok ls \<longleftrightarrow> distinct (map l_path ls) \<and> list_all library_ok ls"

definition put_setting :: "string \<times> string option \<Rightarrow> (string \<times> string) list \<Rightarrow> (string \<times> string) list" where
  "put_setting c st = (case given (snd c) of None \<Rightarrow> clear_override (fst c) st | Some v \<Rightarrow> set_state (fst c) v st)"

definition floors_ok :: "(string \<Rightarrow> num option) \<Rightarrow> (string \<Rightarrow> string) \<Rightarrow> bool" where
  "floors_ok py_float val \<longleftrightarrow>
     (case (py_float (val ''vmaf_safety_mean''), py_float (val ''vmaf_safety_perc5'')) of (Some m, Some p) \<Rightarrow> p \<le> m | _ \<Rightarrow> False)"

definition plain_field :: "library_field \<Rightarrow> bool" where
  "plain_field f = (case f of L_name _ \<Rightarrow> True | L_enabled _ \<Rightarrow> True | L_auto_scan _ \<Rightarrow> True
     | L_quality_preset q \<Rightarrow> 1 \<le> q \<and> q \<le> 51 | L_scan_interval_hours h \<Rightarrow> 1 \<le> h | _ \<Rightarrow> False)"

definition due :: "time \<Rightarrow> console \<Rightarrow> library \<Rightarrow> bool" where
  "due now d l \<longleftrightarrow> l_auto_scan l \<and> interval_over now l (cs_scans d)
     \<and> (case cs_live d (l_id l) of None \<Rightarrow> True | Some t \<Rightarrow> \<not> cs_running d t)"

definition demo_float :: "string \<Rightarrow> num option" where
  "demo_float s = map_of [(''50'', 50), (''60'', 60), (''70'', 70), (''80'', 80), (''95'', 95)] s"

definition demo_env :: "string \<Rightarrow> string" where
  "demo_env key = (if key = ''target_vmaf'' then ''95'' else if key = ''vmaf_safety_mean'' then ''80''
     else if key = ''vmaf_safety_perc5'' then ''50'' else ''22'')"

definition demo_console :: console where
  "demo_console = \<lparr>cs_settings = [], cs_libraries = [], cs_media = [], cs_scans = [], cs_live = (\<lambda>_. None),
     cs_running = (\<lambda>_. False), cs_tasks = 0\<rparr>"

section \<open>Undisturbed requests\<close>

lemma undisturbed [simp]: "next_state [] d = d"
  by (simp add: next_state_def)

lemma validated_value: "map_of (TUNABLE_KEYS py_float py_int) key = Some f \<Longrightarrow> f v = Some w \<Longrightarrow> w = v"
  by (auto simp: TUNABLE_KEYS_def validate_codec_def validate_vmaf_def validate_quality_def split: if_splits option.splits)

lemma tunable_key: "map_of (TUNABLE_KEYS py_float py_int) key = Some f \<Longrightarrow> tunable key"
  by (auto simp: TUNABLE_KEYS_def tunable_def split: if_splits)

lemma tunable_keys: "list_all tunable (map fst (TUNABLE_KEYS py_float py_int))"
  by (simp add: TUNABLE_KEYS_def tunable_def)

lemma effective_tunable: "tunable key \<Longrightarrow> effective env st key = Some (current env st key)"
  by (auto simp: effective_def tunable_def get_override_def current_def split: option.split)

lemma map_of_cleared: "map_of (clear_override key st) = (map_of st)(key := None)"
  unfolding clear_override_def by (induction st) (auto simp: fun_eq_iff)

lemma map_of_put: "map_of (put_setting c st) = (map_of st)(fst c := given (snd c))"
  by (auto simp: put_setting_def map_of_cleared map_of_set_state split: option.split)

lemma map_of_puts:
  "distinct (map fst changes) \<Longrightarrow>
     map_of (fold put_setting changes st) key = (case map_of changes key of None \<Rightarrow> map_of st key | Some v \<Rightarrow> given v)"
proof (induction changes arbitrary: st)
  case (Cons c changes)
  then have "map_of changes (fst c) = None" by (simp add: map_of_eq_None_iff)
  with Cons show ?case by (cases c) (auto simp: map_of_put split: option.split)
qed simp

lemma current_puts:
  "distinct (map fst changes) \<Longrightarrow> current env (fold put_setting changes st) key = changed env changes st key"
  by (auto simp: current_def changed_def map_of_puts split: option.split)

lemma write_settings_alone:
  assumes "first_problem py_float py_int changes = None"
  shows "write_settings py_float py_int changes [] d = (Inr (), [], d\<lparr>cs_settings := fold put_setting changes (cs_settings d)\<rparr>)"
  using assms
proof (induction changes arbitrary: d)
  case (Cons c changes)
  obtain key val where c: "c = (key, val)" by (cases c)
  from Cons.prems obtain f where f: "map_of (TUNABLE_KEYS py_float py_int) key = Some f"
    and v: "\<And>v. given val = Some v \<Longrightarrow> f v \<noteq> None" and rest: "first_problem py_float py_int changes = None"
    by (auto simp: c split: option.splits)
  have "write_setting py_float py_int key val [] d = (Inr (), [], d\<lparr>cs_settings := put_setting c (cs_settings d)\<rparr>)"
  proof (cases "given val")
    case None
    then show ?thesis by (simp add: write_setting_def put_setting_def c stmt_eq)
  next
    case (Some x)
    with v obtain w where w: "f x = Some w" by blast
    with validated_value [OF f w] f Some show ?thesis
      by (simp add: write_setting_def put_setting_def c bind_stmt set_override_def ret_def)
  qed
  with Cons.IH [OF rest] show ?case by (simp add: c bind_eq [where m = "write_setting py_float py_int key val"])
qed (simp add: ret_def)

lemma read_all_alone: "list_all tunable keys \<Longrightarrow> read_all env keys [] d = (Inr (map (\<lambda>k. (k, current env (cs_settings d) k)) keys), [], d)"
  by (induction keys) (simp_all add: read_effective_def effective_tunable bind_simps bind_def ret_def query_eq)

lemma prospective_alone:
  assumes "tunable key"
  shows "prospective py_float env changes key [] d = to_float py_float (changed env changes (cs_settings d) key) [] d"
  using assms
  by (auto simp: prospective_def changed_def read_effective_def effective_tunable bind_def query_eq ret_def split: option.split)

lemma bind_prospective:
  "tunable key \<Longrightarrow> bind (prospective py_float env changes key) f [] d =
     (case py_float (changed env changes (cs_settings d) key) of None \<Rightarrow> (Inl Raises, [], d) | Some x \<Rightarrow> f x [] d)"
  by (simp add: bind_def prospective_alone to_float_def ret_def throw_def split: option.split)

lemma floor_keys [simp]: "tunable ''vmaf_safety_mean''" "tunable ''vmaf_safety_perc5''" "tunable ''target_vmaf''"
  by code_simp+

lemma coherent_floors: "coherent py_float env st \<longleftrightarrow> floors_ok py_float (current env st)"
  by (simp add: coherent_def floors_ok_def effective_float_def effective_tunable)

lemma check_floors_alone:
  obtains e where "check_floors py_float env changes [] d = (Inl e, [], d)"
  | "check_floors py_float env changes [] d = (Inr (), [], d)"
    "touches [''vmaf_safety_mean'', ''vmaf_safety_perc5''] changes \<longrightarrow> floors_ok py_float (changed env changes (cs_settings d))"
proof (cases "touches [''vmaf_safety_mean'', ''vmaf_safety_perc5''] changes")
  case False
  then show thesis using that(2) by (simp add: check_floors_def ret_def)
next
  case True
  note check = check_floors_def if_P [OF True] bind_prospective floors_ok_def throw_def ret_def
  let ?v = "\<lambda>key. py_float (changed env changes (cs_settings d) key)"
  show thesis
  proof (cases "?v ''vmaf_safety_mean''")
    case None
    then show thesis by (intro that(1)) (simp add: check)
  next
    case (Some m)
    note mean = this
    show thesis
    proof (cases "?v ''vmaf_safety_perc5''")
      case None
      with mean show thesis by (intro that(1)) (simp add: check)
    next
      case (Some p)
      with mean show thesis by (cases "m < p") (auto simp: check intro: that)
    qed
  qed
qed

lemma check_target_alone:
  obtains e where "check_target py_float env changes [] d = (Inl e, [], d)"
  | w where "check_target py_float env changes [] d = (Inr w, [], d)"
proof (cases "touches [''target_vmaf'', ''vmaf_safety_mean''] changes")
  case False
  then show thesis using that(2) by (simp add: check_target_def ret_def)
next
  case True
  note check = check_target_def if_P [OF True] bind_prospective ret_def
  let ?v = "\<lambda>key. py_float (changed env changes (cs_settings d) key)"
  show thesis
  proof (cases "?v ''vmaf_safety_mean''")
    case None
    then show thesis by (intro that(1)) (simp add: check)
  next
    case (Some m)
    then show thesis by (cases "?v ''target_vmaf''") (auto simp: check intro: that)
  qed
qed

lemma get_tuning_alone: "\<exists>a. get_tuning py_float py_int env w [] d = (Inr a, [], d)"
  by (simp add: get_tuning_def bind_def read_all_alone [OF tunable_keys] query_eq ret_def)

lemma update_tuning_cases:
  obtains e where "update_tuning py_float py_int env changes [] d = (Inl e, [], d)"
  | a where "update_tuning py_float py_int env changes [] d = (Inr a, [], d\<lparr>cs_settings := fold put_setting changes (cs_settings d)\<rparr>)"
    "touches [''vmaf_safety_mean'', ''vmaf_safety_perc5''] changes \<longrightarrow> floors_ok py_float (changed env changes (cs_settings d))"
proof (cases "first_problem py_float py_int changes")
  case (Some p)
  then show thesis using that(1) by (simp add: update_tuning_def throw_def)
next
  case None
  let ?d = "d\<lparr>cs_settings := fold put_setting changes (cs_settings d)\<rparr>"
  show thesis
  proof (cases rule: check_floors_alone [of py_float env changes d])
    case (1 e)
    with None show thesis by (intro that(1) [of e]) (simp add: update_tuning_def bind_def)
  next
    case floors: 2
    show thesis
    proof (cases rule: check_target_alone [of py_float env changes d])
      case (1 e)
      with None floors(1) show thesis by (intro that(1) [of e]) (simp add: update_tuning_def bind_def)
    next
      case (2 w)
      obtain a where "get_tuning py_float py_int env w [] ?d = (Inr a, [], ?d)" using get_tuning_alone by blast
      with None floors 2 show thesis
        by (intro that(2) [of a]) (simp_all add: update_tuning_def bind_def write_settings_alone)
    qed
  qed
qed

text \<open>A change that touches neither floor leaves both.\<close>

lemma untouched_floors:
  assumes "\<not> touches [''vmaf_safety_mean'', ''vmaf_safety_perc5''] changes"
  shows "floors_ok py_float (changed env changes st) = floors_ok py_float (current env st)"
proof -
  have "map_of changes ''vmaf_safety_mean'' = None" "map_of changes ''vmaf_safety_perc5'' = None"
    using assms by (auto simp: touches_def map_of_eq_None_iff)
  then show ?thesis by (simp add: floors_ok_def changed_def)
qed

section \<open>Properties\<close>

text \<open>
  C32. Saving tuning settings is all or nothing and keeps the quality floors coherent. A request that runs
  by itself and is refused or fails changes nothing; one that is accepted gives every setting it names
  the value given (or the default, when none was), leaves every other setting, and afterwards the
  worst-scene floor is at most the mean floor whenever it named one of them or they were coherent before.
\<close>

theorem tuning_is_all_or_nothing:
  assumes "distinct (map fst changes)" and "update_tuning py_float py_int env changes [] d = (r, es', d')"
  shows "case r of
      Inl _ \<Rightarrow> d' = d
    | Inr _ \<Rightarrow> (\<forall>key. tunable key \<longrightarrow> effective env (cs_settings d') key = Some (changed env changes (cs_settings d) key))
        \<and> d'\<lparr>cs_settings := cs_settings d\<rparr> = d
        \<and> (touches [''vmaf_safety_mean'', ''vmaf_safety_perc5''] changes \<or> coherent py_float env (cs_settings d)
            \<longrightarrow> coherent py_float env (cs_settings d'))"
proof (cases rule: update_tuning_cases [of py_float py_int env changes d])
  case (1 e)
  with assms have "r = Inl e" "d' = d" by simp_all
  then show ?thesis by simp
next
  case (2 a)
  have "current env (fold put_setting changes (cs_settings d)) = changed env changes (cs_settings d)"
    by (rule ext) (rule current_puts [OF assms(1)])
  moreover have "r = Inr a" "d' = d\<lparr>cs_settings := fold put_setting changes (cs_settings d)\<rparr>" using 2(1) assms(2) by simp_all
  ultimately show ?thesis using 2(2) untouched_floors [of changes py_float env "cs_settings d"]
    by (auto simp: effective_tunable coherent_floors)
qed

theorem tuning_is_all_or_nothing_witness:
  "\<exists>a es' d'. update_tuning demo_float (\<lambda>_. None) demo_env [(''vmaf_safety_perc5'', Some ''70'')] [] demo_console = (Inr a, es', d')
     \<and> coherent demo_float demo_env (cs_settings d') \<and> effective demo_env (cs_settings d') ''vmaf_safety_perc5'' = Some ''70''"
proof -
  let ?c = "[(''vmaf_safety_perc5'', Some ''70'')]"
  obtain r es' d' where u: "update_tuning demo_float (\<lambda>_. None) demo_env ?c [] demo_console = (r, es', d')" by (rule prod_cases3)
  have "case fst (update_tuning demo_float (\<lambda>_. None) demo_env ?c [] demo_console) of Inl _ \<Rightarrow> False | Inr _ \<Rightarrow> True" by code_simp
  with u obtain a where a: "r = Inr a" by (cases r) simp_all
  have c: "changed demo_env ?c (cs_settings demo_console) ''vmaf_safety_perc5'' = ''70''"
    "touches [''vmaf_safety_mean'', ''vmaf_safety_perc5''] ?c" by code_simp+
  have "distinct (map fst ?c)" by simp
  from tuning_is_all_or_nothing [OF this u] a c u show ?thesis by auto
qed

text \<open>
  Two requests that overlap are each checked against the settings before the other: both are accepted,
  and the floors they leave are the pair the check exists to refuse.
\<close>

lemma overlapping_saves_break_coherence:
  "let other = (\<lambda>d. snd (snd (update_tuning demo_float (\<lambda>_. None) demo_env [(''vmaf_safety_perc5'', Some ''70'')] [] d)));
       (r, _, d') = update_tuning demo_float (\<lambda>_. None) demo_env [(''vmaf_safety_mean'', Some ''60'')] [\<lambda>d. d, \<lambda>d. d, other] demo_console
   in (case r of Inl _ \<Rightarrow> False | Inr _ \<Rightarrow> True) \<and> coherent demo_float demo_env (cs_settings demo_console) \<and> \<not> coherent demo_float demo_env (cs_settings d')"
  by code_simp

section \<open>The library table\<close>

lemma libraries_ok_same: "cs_libraries d' = cs_libraries d \<Longrightarrow> libraries_ok (cs_libraries d) \<Longrightarrow> libraries_ok (cs_libraries d')"
  by simp

lemma valid_body_row: "validate_library body = Some b \<Longrightarrow> library_ok (row_of_body b)"
  by (auto simp: validate_library_def validate_backend_fields_def library_ok_def row_of_body_def blank_library_def
      split: if_splits)

lemma insert_library_keeps:
  assumes "library_ok l"
  shows "keeping (\<lambda>d. libraries_ok (cs_libraries d)) (insert_library now new_id l) (\<lambda>_. True)"
  unfolding insert_library_def
proof (rule keeping_bind [where R = "\<lambda>_. True"])
  show "keeping (\<lambda>d. libraries_ok (cs_libraries d)) (stmt (\<lambda>d. case Schedules.create_library now new_id l (cs_libraries d) of
      None \<Rightarrow> (False, d) | Some (_, ls) \<Rightarrow> (True, d\<lparr>cs_libraries := ls\<rparr>))) (\<lambda>_. True)"
    using assms by (intro keeping_stmt) (auto simp: create_library_def libraries_ok_def library_ok_def)
qed (auto intro: keeping_rules)

lemma plain_fields_keep:
  assumes "list_all plain_field flds"
  shows "l_path (fold set_library_field flds l) = l_path l \<and> (library_ok l \<longrightarrow> library_ok (fold set_library_field flds l))"
  using assms
proof (induction flds arbitrary: l)
  case (Cons f flds)
  then have "l_path (set_library_field f l) = l_path l \<and> (library_ok l \<longrightarrow> library_ok (set_library_field f l))"
    by (cases f) (auto simp: plain_field_def library_ok_def)
  with Cons show ?case by simp
qed simp

lemma valid_update_plain: "valid_update u \<Longrightarrow> list_all plain_field (given_fields u)"
  by (auto simp: valid_update_def given_fields_def plain_field_def List.map_filter_def split: option.splits)

lemma written_fields_keep:
  assumes "list_all plain_field flds"
  shows "l_path (written_fields now flds l) = l_path l" "library_ok l \<Longrightarrow> library_ok (written_fields now flds l)"
  using plain_fields_keep [OF assms, of l] by (auto simp: written_fields_def library_ok_def)

lemma update_library_keeps:
  assumes "list_all plain_field flds"
  shows "keeping (\<lambda>d. libraries_ok (cs_libraries d)) (update_library now lib_id flds) (\<lambda>_. True)"
proof -
  have paths: "map l_path (update_where c (written_fields now flds) ls) = map l_path ls" for c ls
    by (simp add: update_where_def written_fields_keep(1) [OF assms])
  have "libraries_ok (update_where c (written_fields now flds) ls)" if "libraries_ok ls" for c ls
    using that unfolding libraries_ok_def paths
    by (auto simp: list_all_iff update_where_def written_fields_keep(2) [OF assms])
  then show ?thesis unfolding update_library_def
    by (intro keeping_rules keeping_stmt TrueI) (auto simp: Let_def)
qed

lemma open_door_keeps: "keeping (\<lambda>d. libraries_ok (cs_libraries d)) (open_door l) (\<lambda>_. True)"
  by (auto simp: keeping_def open_door_def split: prod.splits option.splits)

lemma open_doors_keeps: "keeping (\<lambda>d. libraries_ok (cs_libraries d)) (open_doors ls) (\<lambda>_. True)"
  by (induction ls) (auto intro!: keeping_rules open_door_keeps)

lemma visit_libraries_keeps: "keeping (\<lambda>d. libraries_ok (cs_libraries d)) (visit_libraries now ls) (\<lambda>_. True)"
  by (induction ls) (auto intro!: keeping_rules open_door_keeps keeping_stmt simp: await_scan_def)

lemma seed_keeps:
  assumes "\<forall>(i, name, path, quality) \<in> set config_libs. path \<noteq> [] \<and> 1 \<le> quality \<and> quality \<le> 51"
  shows "keeping (\<lambda>d. libraries_ok (cs_libraries d)) (seed_libraries now config_libs) (\<lambda>_. True)"
  using assms
  by (induction config_libs)
    (auto intro!: keeping_bind [OF insert_library_keeps] keeping_ret simp: library_ok_def blank_library_def split: prod.splits)

text \<open>
  The rows of the library table keep their form under every request, whatever runs between the
  statements and keeps it too: paths are not empty and not shared, quality and interval are in their
  ranges, an S3 library has a bucket and a filesystem library no S3 fields.
\<close>

lemma libraries_keep_their_form:
  assumes "\<forall>(i, name, path, quality) \<in> set config_libs. path \<noteq> [] \<and> 1 \<le> quality \<and> quality \<le> 51"
  shows "keeping (\<lambda>d. libraries_ok (cs_libraries d)) (post_library now new_id body) (\<lambda>_. True)"
    and "keeping (\<lambda>d. libraries_ok (cs_libraries d)) (put_library now lib_id u) (\<lambda>_. True)"
    and "keeping (\<lambda>d. libraries_ok (cs_libraries d)) (remove_library lib_id) (\<lambda>_. True)"
    and "keeping (\<lambda>d. libraries_ok (cs_libraries d)) (trigger_library_scan lib_id) (\<lambda>_. True)"
    and "keeping (\<lambda>d. libraries_ok (cs_libraries d)) (trigger_scan now config_libs library_id) (\<lambda>_. True)"
    and "keeping (\<lambda>d. libraries_ok (cs_libraries d)) (tick now) (\<lambda>_. True)"
proof -
  show "keeping (\<lambda>d. libraries_ok (cs_libraries d)) (post_library now new_id body) (\<lambda>_. True)"
    by (cases "validate_library body")
      (auto simp: post_library_def intro!: keeping_rules insert_library_keeps dest: valid_body_row)
  show "keeping (\<lambda>d. libraries_ok (cs_libraries d)) (put_library now lib_id u) (\<lambda>_. True)"
    by (cases "valid_update u")
      (auto simp: put_library_def intro!: keeping_rules update_library_keeps valid_update_plain)
  show "keeping (\<lambda>d. libraries_ok (cs_libraries d)) (remove_library lib_id) (\<lambda>_. True)"
    unfolding remove_library_def
    by (intro keeping_rules keeping_stmt TrueI)
      (auto simp: libraries_ok_def delete_where_def list_all_iff distinct_map intro: inj_on_subset)
  show "keeping (\<lambda>d. libraries_ok (cs_libraries d)) (trigger_library_scan lib_id) (\<lambda>_. True)"
    unfolding trigger_library_scan_def by (intro keeping_rules open_door_keeps TrueI)
  show "keeping (\<lambda>d. libraries_ok (cs_libraries d)) (trigger_scan now config_libs library_id) (\<lambda>_. True)"
    unfolding trigger_scan_def Let_def by (intro keeping_rules open_doors_keeps seed_keeps [OF assms] TrueI)
  show "keeping (\<lambda>d. libraries_ok (cs_libraries d)) (tick now) (\<lambda>_. True)"
    unfolding tick_def by (intro keeping_rules visit_libraries_keeps TrueI)
qed

section \<open>The scheduled scans\<close>

lemma visit_libraries_alone:
  assumes "distinct (map l_id ls)" and "\<forall>i t. cs_live d i = Some t \<longrightarrow> t < cs_tasks d"
  shows "\<exists>d'. visit_libraries now ls [] d = (Inr (map l_id (filter (due now d) ls)), [], d')"
  using assms
proof (induction ls arbitrary: d)
  case Nil
  then show ?case by (simp add: ret_def)
next
  case (Cons l ls)
  have rest: "\<exists>d'. visit_libraries now ls [] d = (Inr (map l_id (filter (due now d) ls)), [], d')"
    using Cons by simp
  show ?case
  proof (cases "due now d l")
    case False
    have "open_door l [] d = (Inr None, [], d)" if "cs_live d (l_id l) = Some t" "cs_running d t" for t
      using that by (simp add: open_door_def start_scan_def)
    then have "visit_libraries now (l # ls) [] d = visit_libraries now ls [] d"
      using False by (auto simp: due_def bind_query bind_eq [where m = "open_door l"] split: option.splits)
    with rest False show ?thesis by simp
  next
    case True
    let ?t = "cs_tasks d"
    let ?e = "d\<lparr>cs_live := (cs_live d)(l_id l \<mapsto> ?t), cs_tasks := Suc ?t, cs_running := (cs_running d)(?t := False)\<rparr>"
    have door: "start_scan (cs_running d) (l_id l) ?t (cs_live d) = (Some ?t, (cs_live d)(l_id l \<mapsto> ?t))"
      using True by (auto simp: due_def start_scan_def split: option.splits)
    have others: "due now ?e x = due now d x" if "x \<in> set ls" for x
    proof -
      have "l_id x \<noteq> l_id l" using that Cons.prems(1) by (auto simp: image_iff)
      with Cons.prems(2) show ?thesis by (auto simp: due_def split: option.splits)
    qed
    have "\<forall>i t. cs_live ?e i = Some t \<longrightarrow> t < cs_tasks ?e" using Cons.prems(2) by (auto simp: less_SucI)
    with Cons.IH [of ?e] Cons.prems(1) obtain d' where
      "visit_libraries now ls [] ?e = (Inr (map l_id (filter (due now ?e) ls)), [], d')" by auto
    moreover have "filter (due now ?e) ls = filter (due now d) ls" by (rule filter_cong [OF refl]) (rule others)
    moreover have "l_auto_scan l" "interval_over now l (cs_scans d)" using True by (simp_all add: due_def)
    ultimately show ?thesis using True
      by (auto simp: bind_simps bind_def [of "open_door l"] open_door_def door await_scan_def
          bind_def [of "visit_libraries now ls"] ret_def)
  qed
qed

text \<open>
  A pass of the scheduler that runs by itself scans exactly the libraries that are due, in the order they
  are listed: enabled, with automatic scans on, last tried at least their interval ago, and not being
  scanned already.
\<close>

lemma tick_scans_exactly_the_due:
  assumes "distinct (map l_id (cs_libraries d))" and "\<forall>i t. cs_live d i = Some t \<longrightarrow> t < cs_tasks d"
  shows "fst (tick now [] d) = Inr (map l_id (filter (due now d) (list_libraries None True (cs_libraries d))))"
proof -
  have "distinct (map l_id (list_libraries None True (cs_libraries d)))"
    using assms(1) by (simp add: list_libraries_def distinct_map_filter inj_on_def distinct_map)
  from visit_libraries_alone [OF this assms(2), of now] show ?thesis
    by (auto simp: tick_def bind_query)
qed

end
