(* ===== verification/Browse.thy ===== *)
theory Browse
  imports JobRepo MediaRepo "HOL-Library.Multiset"
begin

text \<open>
  What the pages of the catalog read: listings with filters, sorting and pagination, and the statistics
  (\<open>repos/media.py\<close>, \<open>repos/skipped.py\<close>, the browse routes of \<open>api/routes/media.py\<close>).

  \<open>order_by column descending rows\<close> is the database's ordering, the rows with equal keys and the place
  of NULL included; that it keeps the rows is a hypothesis where it matters. \<open>LIKE\<close> is SQLite's, without
  an escape character. An argument that is missing or empty does not filter.
\<close>

section \<open>The listing of the catalog\<close>

primrec media_status_value :: "MediaStatus \<Rightarrow> string" where
  "media_status_value M_pending = ''pending''"
| "media_status_value M_needs_transcode = ''needs_transcode''"
| "media_status_value M_queued = ''queued''"
| "media_status_value M_transcoding = ''transcoding''"
| "media_status_value M_complete = ''complete''"
| "media_status_value M_skipped = ''skipped''"

primrec like :: "string \<Rightarrow> string \<Rightarrow> bool" where
  "like [] s \<longleftrightarrow> s = []"
| "like (c # p) s \<longleftrightarrow>
     (if c = CHR ''%'' then list_ex (\<lambda>k. like p (drop k s)) [0..<Suc (length s)]
      else case s of [] \<Rightarrow> False | d # t \<Rightarrow> (c = CHR ''_'' \<or> c = d) \<and> like p t)"

definition when_given :: "string option \<Rightarrow> (string \<Rightarrow> bool) \<Rightarrow> bool" where
  "when_given arg f \<longleftrightarrow> (case arg of Some (c # s) \<Rightarrow> f (c # s) | _ \<Rightarrow> True)"

record media_query =
  q_media_type :: "string option"
  q_library_id :: "string option"
  q_video_codec :: "string option"
  q_transcode_status :: "string option"
  q_show_name :: "string option"
  q_search :: "string option"

definition library_of :: "library list \<Rightarrow> media_file \<Rightarrow> library option" where
  "library_of libs m = find (\<lambda>l. l_id l = m_library_id m) libs"

text \<open>The join with the libraries and the conditions.\<close>

definition media_matches :: "media_query \<Rightarrow> library list \<Rightarrow> media_file \<Rightarrow> bool" where
  "media_matches q libs m \<longleftrightarrow>
     (case library_of libs m of
        None \<Rightarrow> False
      | Some l \<Rightarrow>
          when_given (q_media_type q) (\<lambda>t. l_media_type l = t)
          \<and> when_given (q_library_id q) (\<lambda>i. m_library_id m = i)
          \<and> when_given (q_video_codec q) (\<lambda>c. m_video_codec m = Some c)
          \<and> when_given (q_transcode_status q) (\<lambda>s. media_status_value (m_transcode_status m) \<in> set (map strip (split_on (CHR '','') s)))
          \<and> when_given (q_show_name q) (\<lambda>n. m_show_name m = Some n)
          \<and> when_given (q_search q) (\<lambda>s. like (lower (''%'' @ s @ ''%'')) (lower (m_filename m))))"

definition media_sort_column :: "string \<Rightarrow> string" where
  "media_sort_column sort_by =
     (if sort_by = ''resolution'' then ''width''
      else if sort_by \<in> {''filename'', ''file_size'', ''video_codec'', ''duration'', ''scanned_at'', ''file_modified_at'',
          ''transcode_status'', ''show_name''} then sort_by
      else ''filename'')"

definition list_media_files ::
  "(string \<Rightarrow> bool \<Rightarrow> media_file list \<Rightarrow> media_file list) \<Rightarrow> media_query \<Rightarrow> string \<Rightarrow> string \<Rightarrow> nat \<Rightarrow> nat
   \<Rightarrow> library list \<Rightarrow> media_file list \<Rightarrow> media_file list \<times> nat"
where
  "list_media_files order_by q sort_by sort_dir limit offset libs ms =
     (let rows = filter (media_matches q libs) ms
      in (take limit (drop offset (order_by (media_sort_column sort_by) (lower sort_dir = ''desc'') rows)), length rows))"

text \<open>The browse routes: pages count from 1.\<close>

definition browse ::
  "(string \<Rightarrow> bool \<Rightarrow> media_file list \<Rightarrow> media_file list) \<Rightarrow> media_query \<Rightarrow> string \<Rightarrow> string \<Rightarrow> nat \<Rightarrow> nat
   \<Rightarrow> library list \<Rightarrow> media_file list \<Rightarrow> media_file list \<times> nat"
where
  "browse order_by q sort_by sort_dir page per_page libs ms =
     list_media_files order_by q sort_by sort_dir per_page ((page - 1) * per_page) libs ms"

section \<open>Statistics\<close>

text \<open>SQL's \<open>SUM\<close>: NULL when there is no value.\<close>

definition sum_sizes :: "media_file list \<Rightarrow> int option" where
  "sum_sizes ms = (let sizes = List.map_filter m_file_size ms in if sizes = [] then None else Some (sum_list sizes))"

record show_row =
  sh_name :: string
  sh_episodes :: nat
  sh_total_size :: "int option"
  sh_transcoded :: nat
  sh_needs_transcode :: nat
  sh_library_id :: string

definition show_of :: "string \<Rightarrow> media_file list \<Rightarrow> show_row" where
  "show_of name ms =
     \<lparr>sh_name = name, sh_episodes = length ms, sh_total_size = sum_sizes ms,
      sh_transcoded = length (filter (\<lambda>m. m_video_codec m = Some ''hevc'' \<or> m_transcode_status m = M_complete) ms),
      sh_needs_transcode = length (filter (\<lambda>m. m_video_codec m = Some ''h264''
         \<and> m_transcode_status m \<in> {M_pending, M_needs_transcode}) ms),
      sh_library_id = fold min (map m_library_id ms) (m_library_id (hd ms))\<rparr>"

definition list_tv_shows :: "string option \<Rightarrow> media_file list \<Rightarrow> show_row list" where
  "list_tv_shows library_id ms =
     (let rows = filter (\<lambda>m. m_show_name m \<noteq> None \<and> when_given library_id (\<lambda>i. m_library_id m = i)) ms
      in map (\<lambda>name. show_of name (filter (\<lambda>m. m_show_name m = Some name) rows))
           (sort (remdups (List.map_filter m_show_name rows))))"

text \<open>The groups in the order of the database, and the dictionary built from them.\<close>

definition get_codec_stats ::
  "(string option list \<Rightarrow> string option list) \<Rightarrow> media_file list \<Rightarrow> string \<rightharpoonup> nat \<times> int option"
where
  "get_codec_stats order_by ms =
     map_of (rev (map (\<lambda>c. let group = filter (\<lambda>m. m_video_codec m = c) ms
         in ((case c of Some (x # s) \<Rightarrow> x # s | _ \<Rightarrow> ''unknown''), (length group, sum_sizes group)))
       (order_by (remdups (map m_video_codec ms)))))"

definition counts :: "('r \<Rightarrow> 'k) \<Rightarrow> 'r list \<Rightarrow> ('k \<times> nat) list" where
  "counts key rows = map (\<lambda>k. (k, length (filter (\<lambda>r. key r = k) rows))) (remdups (map key rows))"

definition get_status_stats :: "string option \<Rightarrow> library list \<Rightarrow> media_file list \<Rightarrow> (MediaStatus \<times> nat) list" where
  "get_status_stats media_type libs ms =
     (case media_type of
        Some (c # s) \<Rightarrow> counts m_transcode_status
          (filter (\<lambda>m. case library_of libs m of None \<Rightarrow> False | Some l \<Rightarrow> l_media_type l = c # s) ms)
      | _ \<Rightarrow> counts m_transcode_status ms)"

section \<open>Skipped files\<close>

definition skip_sort_column :: "string \<Rightarrow> string" where
  "skip_sort_column sort_by =
     (if sort_by \<in> {''file_path'', ''library'', ''skip_reason'', ''codec'', ''file_size'', ''updated_at''} then sort_by
      else ''updated_at'')"

definition skip_matches :: "string option \<Rightarrow> string option \<Rightarrow> skipped_file \<Rightarrow> bool" where
  "skip_matches library_id reason s \<longleftrightarrow>
     when_given library_id (\<lambda>i. s_library_id s = Some i) \<and> when_given reason (\<lambda>r. skip_reason_value (s_skip_reason s) = r)"

text \<open>\<open>None\<close> is the \<open>ValueError\<close> of an unknown reason.\<close>

definition list_skipped ::
  "(string \<Rightarrow> bool \<Rightarrow> skipped_file list \<Rightarrow> skipped_file list) \<Rightarrow> string option \<Rightarrow> string option \<Rightarrow> string \<Rightarrow> string
   \<Rightarrow> nat \<Rightarrow> nat \<Rightarrow> skipped_file list \<Rightarrow> (skipped_file list \<times> nat) option"
where
  "list_skipped order_by library_id reason sort_by sort_dir limit offset t =
     (if \<not> when_given reason (\<lambda>r. r \<in> set (map skip_reason_value
           [ALREADY_HEVC, NOT_H264, SIZE_REGRESSION, TOO_SMALL, MANUAL_SKIP, BELOW_VMAF_FLOOR, STREAM_LOSS])) then None
      else let rows = filter (skip_matches library_id reason) t
        in Some (take limit (drop offset (order_by (skip_sort_column sort_by) (lower sort_dir \<noteq> ''asc'') rows)), length rows))"

definition skip_reason_counts :: "string option \<Rightarrow> skipped_file list \<Rightarrow> (SkipReason \<times> nat) list" where
  "skip_reason_counts library_id t = counts s_skip_reason (filter (\<lambda>s. when_given library_id (\<lambda>i. s_library_id s = Some i)) t)"

definition unskip :: "string \<Rightarrow> skipped_file list \<Rightarrow> bool \<times> skipped_file list" where
  "unskip file_path t = (rowcount (\<lambda>s. s_file_path s = file_path) t > 0, delete_where (\<lambda>s. s_file_path s = file_path) t)"

section \<open>Pages\<close>

lemma concat_pages: "concat (map (\<lambda>p. take k (drop (p * k) xs)) [0..<n]) = take (n * k) xs"
proof (induction n)
  case (Suc n)
  have "take (n * k) xs @ take k (drop (n * k) xs) = take (n * k + k) xs" by (simp add: take_add)
  with Suc show ?case by (simp add: add.commute)
qed simp

text \<open>
  The pages of a listing together show every matching file exactly once, and the total is their number,
  when the database orders the rows the same way for each page.
\<close>

lemma browse_pages_show_every_file_once:
  assumes "\<And>c d rows. mset (order_by c d rows) = mset rows"
    and "length (filter (media_matches q libs) ms) \<le> n * per_page"
  shows "mset (concat (map (\<lambda>p. fst (browse order_by q sort_by sort_dir (Suc p) per_page libs ms)) [0..<n]))
       = mset (filter (media_matches q libs) ms)"
    and "snd (browse order_by q sort_by sort_dir page per_page libs ms) = length (filter (media_matches q libs) ms)"
proof -
  let ?rows = "order_by (media_sort_column sort_by) (lower sort_dir = ''desc'') (filter (media_matches q libs) ms)"
  have "length ?rows = length (filter (media_matches q libs) ms)" using assms(1) by (metis size_mset)
  then have "take (n * per_page) ?rows = ?rows" using assms(2) by simp
  then show "mset (concat (map (\<lambda>p. fst (browse order_by q sort_by sort_dir (Suc p) per_page libs ms)) [0..<n]))
       = mset (filter (media_matches q libs) ms)"
    by (simp add: browse_def list_media_files_def Let_def concat_pages assms(1))
qed (simp add: browse_def list_media_files_def Let_def)

section \<open>Search\<close>

lemma like_any [simp]: "like ''%'' s"
  by (auto simp: list_ex_iff intro!: bexI [of _ "length s"])

lemma like_plain:
  "set p \<inter> {CHR ''%'', CHR ''_''} = {} \<Longrightarrow> like (p @ r) s \<longleftrightarrow> (\<exists>t. s = p @ t \<and> like r t)"
  by (induction p arbitrary: s) (auto split: list.splits)

text \<open>A search text without the two wildcards finds the names it is a part of, whatever their case.\<close>

lemma search_finds_substrings:
  assumes "set (lower s) \<inter> {CHR ''%'', CHR ''_''} = {}"
  shows "like (lower (''%'' @ s @ ''%'')) (lower name) \<longleftrightarrow> sublist (lower s) (lower name)"
proof -
  have l: "lower (''%'' @ s @ ''%'') = CHR ''%'' # lower s @ ''%''" by (simp add: lower_def)
  have "like (CHR ''%'' # lower s @ ''%'') n \<longleftrightarrow> (\<exists>k \<le> length n. \<exists>t. drop k n = lower s @ t)" for n
    by (auto simp: list_ex_iff like_plain [OF assms] less_Suc_eq_le simp del: upt_Suc)
  also have "\<dots> n \<longleftrightarrow> sublist (lower s) n" for n
    unfolding sublist_def by (metis append_take_drop_id append_eq_conv_conj le_add1 length_append)
  finally show ?thesis unfolding l .
qed

section \<open>Counts\<close>

lemma sum_counts: "sum_list (map snd (counts key rows)) = length rows"
proof -
  have "sum_list (map (\<lambda>k. length (filter (\<lambda>r. key r = k) rows)) ks) = length (filter (\<lambda>r. key r \<in> set ks) rows)"
    if "distinct ks" for ks
    using that
  proof (induction ks)
    case (Cons k ks)
    have "length (filter (\<lambda>r. key r = k \<or> key r \<in> set ks) rows)
        = length (filter (\<lambda>r. key r = k) rows) + length (filter (\<lambda>r. key r \<in> set ks) rows)"
      using Cons.prems by (induction rows) auto
    with Cons show ?case by simp
  qed simp
  from this [of "remdups (map key rows)"] show ?thesis by (simp add: counts_def comp_def)
qed

text \<open>The breakdown by reason adds up to the total of the listing.\<close>

lemma skip_counts_add_up:
  "list_skipped order_by library_id None sort_by sort_dir limit offset t = Some (rows, n)
   \<Longrightarrow> sum_list (map snd (skip_reason_counts library_id t)) = n"
proof -
  have "skip_matches library_id None = (\<lambda>s. when_given library_id (\<lambda>i. s_library_id s = Some i))"
    by (simp add: fun_eq_iff skip_matches_def when_given_def [of None])
  moreover assume "list_skipped order_by library_id None sort_by sort_dir limit offset t = Some (rows, n)"
  ultimately show ?thesis
    by (simp add: list_skipped_def skip_reason_counts_def sum_counts Let_def split: if_splits)
qed

end
