(* ===== verification/Database.thy ===== *)
theory Database
  imports Prelude
begin

text \<open>
  The database layer (\<open>db.py\<close>) and the schema migrations (\<open>migrations/__init__.py\<close>): the translation of
  placeholders, the row count of a status, the shared SQLite connection with its transactions, and the
  runner that brings a schema up to date on SQLite and on PostgreSQL.

  A database that a process works on has what is committed (\<open>cn_disk\<close>) and what this connection sees
  (\<open>cn_work\<close>); \<open>cn_past\<close> lists every state that was ever committed, which are the states a crash can leave.
  What a script or a statement does to the tables is a parameter, as is the keyed hash of a token.
\<close>

section \<open>Placeholders and status lines\<close>

fun translate_from :: "char option \<Rightarrow> nat \<Rightarrow> string \<Rightarrow> string" where
  "translate_from quote counter [] = []"
| "translate_from (Some q) counter (ch # sql) =
     ch # translate_from (if ch = q then None else Some q) counter sql"
| "translate_from None counter (ch # sql) =
     (if ch = CHR 0x27 \<or> ch = CHR 0x22 then ch # translate_from (Some ch) counter sql
      else if ch = CHR ''?'' then CHR ''$'' # str_nat (counter + 1) @ translate_from None (counter + 1) sql
      else ch # translate_from None counter sql)"

definition translate_placeholders :: "string \<Rightarrow> string" where
  "translate_placeholders sql = translate_from None 0 sql"

definition upper :: "string \<Rightarrow> string" where
  "upper s = map (\<lambda>c. if (97 :: nat) \<le> of_char c \<and> of_char c \<le> (122 :: nat) then char_of (of_char c - 32 :: nat) else c) s"

definition returns_rows :: "string \<Rightarrow> bool" where
  "returns_rows sql \<longleftrightarrow> prefix ''SELECT'' (upper (strip sql)) \<or> sublist ''RETURNING'' (upper (strip sql))"

definition nat_of_digits :: "string \<Rightarrow> nat" where
  "nat_of_digits s = foldl (\<lambda>n c. 10 * n + (of_char c - 48)) 0 s"

text \<open>The count of a status such as \<open>UPDATE 3\<close>; without one it stays 0.\<close>

definition status_rowcount :: "string \<Rightarrow> nat" where
  "status_rowcount status =
     (let parts = words status
      in if 2 \<le> length parts \<and> list_all is_digit (List.last parts) then nat_of_digits (List.last parts) else 0)"

datatype db_target = Postgres string | Sqlite string

definition is_postgres_url :: "string \<Rightarrow> bool" where
  "is_postgres_url url \<longleftrightarrow> prefix ''postgres://'' url \<or> prefix ''postgresql://'' url"

definition remove_prefix :: "string \<Rightarrow> string \<Rightarrow> string" where
  "remove_prefix p s = (if prefix p s then drop (length p) s else s)"

definition init_db :: "string \<Rightarrow> db_target" where
  "init_db db_url =
     (if is_postgres_url db_url then Postgres db_url
      else Sqlite (remove_prefix ''sqlite://'' (remove_prefix ''sqlite:///'' db_url)))"

section \<open>Connections\<close>

record 'd conn =
  cn_disk :: 'd
  cn_work :: 'd
  cn_past :: "'d list"

definition connect :: "'d \<Rightarrow> 'd conn" where
  "connect d = \<lparr>cn_disk = d, cn_work = d, cn_past = [d]\<rparr>"

definition execute :: "('d \<Rightarrow> 'd) \<Rightarrow> 'd conn \<Rightarrow> 'd conn" where
  "execute f c = c\<lparr>cn_work := f (cn_work c)\<rparr>"

definition commit :: "'d conn \<Rightarrow> 'd conn" where
  "commit c = c\<lparr>cn_disk := cn_work c, cn_past := cn_past c @ [cn_work c]\<rparr>"

definition rollback :: "'d conn \<Rightarrow> 'd conn" where
  "rollback c = c\<lparr>cn_work := cn_disk c\<rparr>"

text \<open>
  The statements of a block on the one connection of the process: writes (\<open>None\<close> for one that raises) and
  inner commits, each preceded by what other tasks do to the connection. Inside a transaction an inner
  commit does nothing and the exit commits or rolls back; outside it commits.
\<close>

datatype 'd db_op = Write "'d \<Rightarrow> 'd option" | Commit

fun run_ops :: "bool \<Rightarrow> ('d db_op \<times> ('d conn \<Rightarrow> 'd conn)) list \<Rightarrow> 'd conn \<Rightarrow> bool \<times> 'd conn" where
  "run_ops deferred [] c = (True, c)"
| "run_ops deferred ((Write f, others) # ops) c =
     (case f (cn_work (others c)) of
        None \<Rightarrow> (False, others c)
      | Some d \<Rightarrow> run_ops deferred ops ((others c)\<lparr>cn_work := d\<rparr>))"
| "run_ops deferred ((Commit, others) # ops) c =
     run_ops deferred ops (if deferred then others c else commit (others c))"

definition sqlite_transaction :: "('d db_op \<times> ('d conn \<Rightarrow> 'd conn)) list \<Rightarrow> 'd conn \<Rightarrow> bool \<times> 'd conn" where
  "sqlite_transaction ops c =
     (case run_ops True ops c of (True, c') \<Rightarrow> (True, commit c') | (False, c') \<Rightarrow> (False, rollback c'))"

section \<open>Migrations\<close>

record migration =
  mg_version :: int
  mg_name :: string
  mg_sql :: string
  mg_pg_only :: bool

text \<open>The file name after the four digits and the underscore that the pattern asks for.\<close>

definition read_filename :: "string \<Rightarrow> (int \<times> string \<times> bool) option" where
  "read_filename f =
     (let digits = take 4 f; body = take (length f - 9) (drop 5 f)
      in if length f \<le> 9 \<or> \<not> list_all is_digit digits \<or> f ! 4 \<noteq> CHR ''_'' \<or> \<not> suffix ''.sql'' f \<or> CHR 0x0A \<in> set body then None
         else Some (int (nat_of_digits digits),
           if suffix ''.pg'' body \<and> 3 < length body then (take (length body - 3) body, True) else (body, False)))"

definition discover_migrations :: "(string \<times> string) list \<Rightarrow> migration list" where
  "discover_migrations files =
     List.map_filter (\<lambda>(f, sql). map_option (\<lambda>(version, name, pg_only).
       \<lparr>mg_version = version, mg_name = name, mg_sql = sql, mg_pg_only = pg_only\<rparr>) (read_filename f)) (sort_key fst files)"

record token_row =
  tr_token :: "string option"
  tr_hash :: "string option"
  tr_prefix :: "string option"

record version_row =
  vr_version :: int
  vr_name :: string
  vr_applied_at :: time

text \<open>The tables: the version table once it exists, the worker tokens, and everything else.\<close>

record 'd tables =
  tb_versions :: "version_row list option"
  tb_tokens :: "token_row list"
  tb_rest :: 'd

text \<open>
  What the runner is given: what a script (SQLite) or a statement (PostgreSQL) does, and whether it succeeds;
  whether the jobs table exists; the keyed hash and the prefix of a token. The clock (by version) is a separate argument.
\<close>

record 'd migrator =
  mr_run :: "string \<Rightarrow> token_row list \<times> 'd \<Rightarrow> bool \<times> token_row list \<times> 'd"
  mr_has_jobs :: "'d \<Rightarrow> bool"
  mr_hash_token :: "string \<Rightarrow> string"
  mr_prefix :: "string \<Rightarrow> string"

datatype migration_error = Script_error | Duplicate_version

definition create_version_table :: "'d tables \<Rightarrow> 'd tables" where
  "create_version_table t = (case tb_versions t of None \<Rightarrow> t\<lparr>tb_versions := Some []\<rparr> | Some _ \<Rightarrow> t)"

definition applied_versions :: "'d tables \<Rightarrow> int list" where
  "applied_versions t = (case tb_versions t of None \<Rightarrow> [] | Some vs \<Rightarrow> map vr_version vs)"

definition record_applied :: "(int \<Rightarrow> time) \<Rightarrow> migration \<Rightarrow> 'd tables \<Rightarrow> migration_error + 'd tables" where
  "record_applied now m t =
     (if mg_version m \<in> set (applied_versions t) then Inl Duplicate_version
      else Inr (t\<lparr>tb_versions := Some ((case tb_versions t of None \<Rightarrow> [] | Some vs \<Rightarrow> vs)
        @ [\<lparr>vr_version = mg_version m, vr_name = mg_name m, vr_applied_at = now (mg_version m)\<rparr>])\<rparr>))"

definition backfill_token_hashes :: "'d migrator \<Rightarrow> 'd tables \<Rightarrow> 'd tables" where
  "backfill_token_hashes mr t =
     t\<lparr>tb_tokens := fold (\<lambda>tok rows. update_where (\<lambda>r. tr_token r = Some tok)
         (\<lambda>r. r\<lparr>tr_hash := Some (mr_hash_token mr tok), tr_prefix := Some (mr_prefix mr tok)\<rparr>) rows)
       (List.map_filter tr_token (filter (\<lambda>r. tr_hash r = None \<and> tr_token r \<noteq> None) (tb_tokens t))) (tb_tokens t)\<rparr>"

definition run_sql :: "'d migrator \<Rightarrow> string \<Rightarrow> 'd tables \<Rightarrow> bool \<times> 'd tables" where
  "run_sql mr sql t = (case mr_run mr sql (tb_tokens t, tb_rest t) of (ok, toks, rest) \<Rightarrow> (ok, t\<lparr>tb_tokens := toks, tb_rest := rest\<rparr>))"

definition fill_in :: "'d migrator \<Rightarrow> migration \<Rightarrow> 'd tables \<Rightarrow> 'd tables" where
  "fill_in mr m t = (if mg_name m = ''token_hash'' then backfill_token_hashes mr t else t)"

subsection \<open>SQLite\<close>

text \<open>One migration; \<open>executescript\<close> first commits what was pending.\<close>

definition migrate_sqlite ::
  "'d migrator \<Rightarrow> (int \<Rightarrow> time) \<Rightarrow> bool \<Rightarrow> int list \<Rightarrow> migration \<Rightarrow> 'd tables conn \<Rightarrow> migration_error option \<times> 'd tables conn"
where
  "migrate_sqlite mr now fresh applied m c =
     (if mg_version m \<in> set applied then (None, c)
      else if \<not> fresh \<and> mg_version m = 1 \<or> mg_pg_only m then
        (case record_applied now m (cn_work c) of Inl e \<Rightarrow> (Some e, c) | Inr t \<Rightarrow> (None, c\<lparr>cn_work := t\<rparr>))
      else let c1 = commit c
      in case run_sql mr (mg_sql m) (cn_work c1) of
           (False, t) \<Rightarrow> (Some Script_error, rollback (c1\<lparr>cn_work := t\<rparr>))
         | (True, t) \<Rightarrow>
             (case record_applied now m (fill_in mr m t) of
                Inl e \<Rightarrow> (Some e, rollback (c1\<lparr>cn_work := fill_in mr m t\<rparr>))
              | Inr t' \<Rightarrow> (None, commit (c1\<lparr>cn_work := t'\<rparr>))))"

fun migrate_all ::
  "(migration \<Rightarrow> 'c \<Rightarrow> migration_error option \<times> 'c) \<Rightarrow> migration list \<Rightarrow> 'c \<Rightarrow> migration_error option \<times> 'c"
where
  "migrate_all migrate [] c = (None, c)"
| "migrate_all migrate (m # ms) c =
     (case migrate m c of (Some e, c') \<Rightarrow> (Some e, c') | (None, c') \<Rightarrow> migrate_all migrate ms c')"

definition apply_sqlite :: "'d migrator \<Rightarrow> (int \<Rightarrow> time) \<Rightarrow> migration list \<Rightarrow> 'd tables conn \<Rightarrow> migration_error option \<times> 'd tables conn" where
  "apply_sqlite mr now ms c =
     (let c1 = commit (execute create_version_table c);
          fresh = (\<not> mr_has_jobs mr (tb_rest (cn_work c1)))
      in case migrate_all (migrate_sqlite mr now fresh (applied_versions (cn_work c1))) ms c1 of
           (Some e, c2) \<Rightarrow> (Some e, c2)
         | (None, c2) \<Rightarrow> (None, commit c2))"

subsection \<open>PostgreSQL\<close>

definition word_char :: "char \<Rightarrow> bool" where
  "word_char c \<longleftrightarrow> is_digit c \<or> c = CHR ''_'' \<or> (65 \<le> (of_char c :: nat) \<and> of_char c \<le> (90 :: nat)) \<or> (97 \<le> (of_char c :: nat) \<and> of_char c \<le> (122 :: nat))"

definition ends_word :: "string \<Rightarrow> string option" where
  "ends_word rest = (case rest of [] \<Rightarrow> Some [] | c # _ \<Rightarrow> if word_char c then None else Some rest)"

definition match_integer_column :: "string \<Rightarrow> string \<Rightarrow> string option" where
  "match_integer_column col s =
     (let r = drop (length col) s; r' = dropWhile is_space r
      in if prefix col s \<and> r \<noteq> r' \<and> prefix ''INTEGER'' r' then ends_word (drop 7 r') else None)"

definition match_real :: "string \<Rightarrow> string option" where
  "match_real s = (if prefix ''REAL'' s then ends_word (drop 4 s) else None)"

text \<open>
  \<open>re.sub\<close> for a pattern that begins and ends at a word boundary with a word character: \<open>look\<close> gives what
  follows the match, \<open>inside\<close> says whether the character before is one of a word.
\<close>

function sub_words :: "(string \<Rightarrow> string option) \<Rightarrow> string \<Rightarrow> bool \<Rightarrow> string \<Rightarrow> string" where
  "sub_words look text_by inside [] = []"
| "sub_words look text_by inside (c # s) =
     (case (if inside then None else look (c # s)) of
        Some rest \<Rightarrow> if length rest \<le> length s then text_by @ sub_words look text_by True rest else c # s
      | None \<Rightarrow> c # sub_words look text_by (word_char c) s)"
  by pat_completeness auto
termination by (relation "measure (\<lambda>(_, _, _, s). length s)") auto

definition BIGINT_COLUMNS :: "string list" where
  "BIGINT_COLUMNS = [''file_size'', ''bitrate'', ''source_size'', ''source_bitrate'', ''output_size'', ''space_saved'']"

definition adapt_for_postgres :: "string \<Rightarrow> string" where
  "adapt_for_postgres sql =
     sub_words match_real ''DOUBLE PRECISION'' False
       (fold (\<lambda>col s. sub_words (match_integer_column col) (col @ '' BIGINT'') False s) BIGINT_COLUMNS sql)"

definition line_break :: "char \<Rightarrow> bool" where
  "line_break c \<longleftrightarrow> of_char c \<in> {10, 11, 12, 13, 28, 29, 30 :: nat}"

text \<open>\<open>str.splitlines\<close>: a carriage return and the line feed after it are one break, a final break opens no line.\<close>

fun splitlines_from :: "bool \<Rightarrow> string \<Rightarrow> string \<Rightarrow> string list" where
  "splitlines_from after_cr line [] = (if line = [] then [] else [line])"
| "splitlines_from after_cr line (c # s) =
     (if after_cr \<and> c = CHR 0x0A then splitlines_from False [] s
      else if line_break c then line # splitlines_from (c = CHR 0x0D) [] s
      else splitlines_from False (line @ [c]) s)"

fun before_comment :: "string \<Rightarrow> string" where
  "before_comment [] = []"
| "before_comment (c # s) = (if prefix ''--'' (c # s) then [] else c # before_comment s)"

definition strip_line_comments :: "string \<Rightarrow> string" where
  "strip_line_comments sql =
     (let lines = map before_comment (splitlines_from False [] sql)
      in if lines = [] then [] else hd lines @ concat (map (\<lambda>l. CHR 0x0A # l) (List.tl lines)))"

definition split_statements :: "string \<Rightarrow> string list" where
  "split_statements sql = filter (\<lambda>s. s \<noteq> []) (map strip (split_on CHR '';'' (strip_line_comments sql)))"

fun run_statements :: "'d migrator \<Rightarrow> string list \<Rightarrow> 'd tables \<Rightarrow> bool \<times> 'd tables" where
  "run_statements mr [] t = (True, t)"
| "run_statements mr (s # ss) t = (case run_sql mr s t of (False, t') \<Rightarrow> (False, t') | (True, t') \<Rightarrow> run_statements mr ss t')"

text \<open>Outside a transaction a statement commits itself; inside one, all or nothing is committed.\<close>

definition migrate_postgres ::
  "'d migrator \<Rightarrow> (int \<Rightarrow> time) \<Rightarrow> bool \<Rightarrow> int list \<Rightarrow> migration \<Rightarrow> 'd tables conn \<Rightarrow> migration_error option \<times> 'd tables conn"
where
  "migrate_postgres mr now fresh applied m c =
     (if mg_version m \<in> set applied then (None, c)
      else if \<not> fresh \<and> mg_version m = 1 then
        (case record_applied now m (cn_work c) of Inl e \<Rightarrow> (Some e, c) | Inr t \<Rightarrow> (None, commit (c\<lparr>cn_work := t\<rparr>)))
      else case run_statements mr (split_statements (adapt_for_postgres (mg_sql m))) (cn_work c) of
             (False, t) \<Rightarrow> (Some Script_error, rollback (c\<lparr>cn_work := t\<rparr>))
           | (True, t) \<Rightarrow>
               (case record_applied now m (fill_in mr m t) of
                  Inl e \<Rightarrow> (Some e, rollback (c\<lparr>cn_work := fill_in mr m t\<rparr>))
                | Inr t' \<Rightarrow> (None, commit (c\<lparr>cn_work := t'\<rparr>))))"

definition apply_postgres :: "'d migrator \<Rightarrow> (int \<Rightarrow> time) \<Rightarrow> migration list \<Rightarrow> 'd tables conn \<Rightarrow> migration_error option \<times> 'd tables conn" where
  "apply_postgres mr now ms c =
     (let c1 = commit (execute create_version_table c);
          fresh = (\<not> mr_has_jobs mr (tb_rest (cn_work c1)))
      in migrate_all (migrate_postgres mr now fresh (applied_versions (cn_work c1))) ms c1)"

section \<open>Specifications\<close>

text \<open>
  A text as pieces: bare text without quotes and marks, a quoted literal (or identifier) closed by the quote
  that opens it, and a mark. A text may end in a quote that is never closed.
\<close>

datatype sql_piece = Bare string | Literal char string | Mark

definition piece_ok :: "sql_piece \<Rightarrow> bool" where
  "piece_ok p \<longleftrightarrow>
     (case p of
        Bare s \<Rightarrow> set s \<inter> {CHR 0x27, CHR 0x22, CHR ''?''} = {}
      | Literal q s \<Rightarrow> q \<in> {CHR 0x27, CHR 0x22} \<and> q \<notin> set s
      | Mark \<Rightarrow> True)"

definition piece_text :: "sql_piece \<Rightarrow> string" where
  "piece_text p = (case p of Bare s \<Rightarrow> s | Literal q s \<Rightarrow> q # s @ [q] | Mark \<Rightarrow> ''?'')"

definition unclosed :: "string \<Rightarrow> bool" where
  "unclosed rest \<longleftrightarrow> (case rest of [] \<Rightarrow> True | q # s \<Rightarrow> q \<in> {CHR 0x27, CHR 0x22} \<and> q \<notin> set s)"

text \<open>The \<open>i\<close>-th piece for PostgreSQL: a mark is numbered by the marks up to it, itself included.\<close>

definition numbered :: "sql_piece list \<Rightarrow> nat \<Rightarrow> string" where
  "numbered ps i =
     (if ps ! i = Mark then ''$'' @ str_nat (length (filter (\<lambda>p. p = Mark) (take (i + 1) ps))) else piece_text (ps ! i))"

text \<open>The migrations as one function of the tables: what one does, and a list of them up to the first error.\<close>

definition advance ::
  "(migration \<Rightarrow> 'd tables \<Rightarrow> bool \<times> 'd tables) \<Rightarrow> (migration \<Rightarrow> bool) \<Rightarrow> 'd migrator \<Rightarrow> (int \<Rightarrow> time) \<Rightarrow> migration
   \<Rightarrow> 'd tables \<Rightarrow> migration_error + 'd tables"
where
  "advance go stamped mr now m t =
     (if mg_version m \<in> set (applied_versions t) then Inr t
      else if stamped m then record_applied now m t
      else case go m t of (False, _) \<Rightarrow> Inl Script_error | (True, t') \<Rightarrow> record_applied now m (fill_in mr m t'))"

fun upto :: "(migration \<Rightarrow> 'd tables \<Rightarrow> migration_error + 'd tables) \<Rightarrow> migration list \<Rightarrow> 'd tables
    \<Rightarrow> migration_error option \<times> 'd tables" where
  "upto adv [] t = (None, t)"
| "upto adv (m # ms) t = (case adv m t of Inl e \<Rightarrow> (Some e, t) | Inr t' \<Rightarrow> upto adv ms t')"

definition untimed :: "'d tables \<Rightarrow> 'd tables" where
  "untimed t = t\<lparr>tb_versions := map_option (map (\<lambda>r. r\<lparr>vr_applied_at := 0\<rparr>)) (tb_versions t)\<rparr>"

text \<open>The writes of a block in order, if none raises.\<close>

fun written :: "'d db_op list \<Rightarrow> 'd \<Rightarrow> 'd option" where
  "written [] d = Some d"
| "written (Write f # ops) d = (case f d of None \<Rightarrow> None | Some d' \<Rightarrow> written ops d')"
| "written (Commit # ops) d = written ops d"

definition sqlite_body :: "'d migrator \<Rightarrow> migration \<Rightarrow> 'd tables \<Rightarrow> bool \<times> 'd tables" where
  "sqlite_body mr m = run_sql mr (mg_sql m)"

definition postgres_body :: "'d migrator \<Rightarrow> migration \<Rightarrow> 'd tables \<Rightarrow> bool \<times> 'd tables" where
  "postgres_body mr m = run_statements mr (split_statements (adapt_for_postgres (mg_sql m)))"

definition sqlite_stamped :: "bool \<Rightarrow> migration \<Rightarrow> bool" where
  "sqlite_stamped fresh m \<longleftrightarrow> \<not> fresh \<and> mg_version m = 1 \<or> mg_pg_only m"

definition postgres_stamped :: "bool \<Rightarrow> migration \<Rightarrow> bool" where
  "postgres_stamped fresh m \<longleftrightarrow> \<not> fresh \<and> mg_version m = 1"

text \<open>A runner that does one migration as \<open>advance\<close> does it, and commits only states between migrations.\<close>

definition follows :: "(migration \<Rightarrow> 'd tables \<Rightarrow> bool \<times> 'd tables) \<Rightarrow> (migration \<Rightarrow> bool) \<Rightarrow> 'd migrator \<Rightarrow> (int \<Rightarrow> time) \<Rightarrow> bool
    \<Rightarrow> migration_error option \<times> 'd tables conn \<Rightarrow> migration \<Rightarrow> 'd tables conn \<Rightarrow> bool" where
  "follows go stamped mr now settled res m c \<longleftrightarrow>
     (\<exists>past. cn_past (snd res) = cn_past c @ past \<and>
       (case advance go stamped mr now m (cn_work c) of
          Inl e \<Rightarrow> fst res = Some e \<and> cn_work (snd res) = cn_work c \<and> cn_disk (snd res) = cn_work c \<and> set past \<subseteq> {cn_work c}
        | Inr t \<Rightarrow> fst res = None \<and> cn_work (snd res) = t \<and> (settled \<longrightarrow> cn_disk (snd res) = t) \<and> set past \<subseteq> {cn_work c, t}))"

section \<open>Examples\<close>

text \<open>The rest of the tables is the list of what was executed; a script called \<open>bad\<close> fails half way.\<close>

definition sample_migrator :: "string list migrator" where
  "sample_migrator = \<lparr>mr_run = (\<lambda>sql (toks, rest). (sql \<noteq> ''bad'', toks, rest @ [sql])), mr_has_jobs = (\<lambda>rest. ''jobs'' \<in> set rest),
     mr_hash_token = (\<lambda>t. CHR ''#'' # t), mr_prefix = take 1\<rparr>"

definition sample_migrations :: "migration list" where
  "sample_migrations = discover_migrations [(''0002_token_hash.sql'', ''hash''), (''0001_initial.sql'', ''jobs''),
     (''0003_size.pg.sql'', ''size''), (''0004_last.sql'', ''bad'')]"

definition sample_tables :: "string list tables" where
  "sample_tables = \<lparr>tb_versions = None, tb_tokens = [\<lparr>tr_token = Some ''abc'', tr_hash = None, tr_prefix = None\<rparr>], tb_rest = []\<rparr>"

text \<open>Two tasks on the shared connection: one inserts two rows in a transaction, the other commits a row of its own.\<close>

definition other_task :: "nat list conn \<Rightarrow> nat list conn" where
  "other_task c = commit (execute (\<lambda>d. d @ [9]) c)"

definition two_inserts :: "(nat list db_op \<times> (nat list conn \<Rightarrow> nat list conn)) list" where
  "two_inserts = [(Write (\<lambda>d. Some (d @ [1])), id), (Write (\<lambda>_. None), other_task)]"

section \<open>Facts\<close>

lemma nat_of_digits_append: "nat_of_digits (s @ [c]) = 10 * nat_of_digits s + (of_char c - 48)"
  by (simp add: nat_of_digits_def)

lemma nat_of_digits_str_nat: "nat_of_digits (str_nat n) = n"
proof (induction n rule: str_nat.induct)
  case (1 n)
  show ?case
  proof (cases "n < 10")
    case True
    then show ?thesis by (subst str_nat.simps) (simp add: nat_of_digits_def)
  next
    case False
    with 1 show ?thesis by (subst str_nat.simps) (simp add: nat_of_digits_append)
  qed
qed

lemma str_nat_all_digits: "\<forall>c\<in>set (str_nat n). is_digit c"
  using str_nat_digits by (auto simp: is_digit_def)

lemma translate_bare: "set s \<inter> {CHR 0x27, CHR 0x22, CHR ''?''} = {} \<Longrightarrow> translate_from None k (s @ t) = s @ translate_from None k t"
  by (induction s) auto

lemma translate_quoted: "q \<notin> set s \<Longrightarrow> translate_from (Some q) k (s @ q # t) = s @ q # translate_from None k t"
  by (induction s) auto

lemma translate_unclosed: "unclosed rest \<Longrightarrow> translate_from None k rest = rest"
proof (cases rest)
  case (Cons q s)
  have "q \<notin> set s \<Longrightarrow> translate_from (Some q) k s = s" by (induction s) auto
  moreover assume "unclosed rest"
  ultimately show ?thesis by (auto simp: Cons unclosed_def)
qed simp

lemma piece_text_simps: "piece_text (Bare s) = s" "piece_text (Literal q s) = q # s @ [q]" "piece_text Mark = ''?''"
  by (simp_all add: piece_text_def)

lemma translate_pieces:
  assumes "unclosed rest"
  shows "list_all piece_ok ps \<Longrightarrow>
     translate_from None (length (filter (\<lambda>p. p = Mark) pre)) (concat (map piece_text ps) @ rest)
       = concat (map (numbered (pre @ ps)) [length pre ..< length pre + length ps]) @ rest"
proof (induction ps arbitrary: pre)
  case Nil
  then show ?case using assms by (simp add: translate_unclosed)
next
  case (Cons p ps)
  let ?k = "length (filter (\<lambda>p. p = Mark) pre)"
  from Cons have ok: "piece_ok p" by simp
  have "[length pre ..< length pre + length (p # ps)] = length pre # [length (pre @ [p]) ..< length (pre @ [p]) + length ps]"
    by (subst upt_conv_Cons) simp_all
  then have rest: "concat (map (numbered (pre @ p # ps)) [length pre ..< length pre + length (p # ps)]) @ rest
      = numbered (pre @ p # ps) (length pre) @ translate_from None (length (filter (\<lambda>p. p = Mark) (pre @ [p]))) (concat (map piece_text ps) @ rest)"
    using Cons.IH [of "pre @ [p]"] Cons.prems by simp
  show ?case
  proof (cases p)
    case (Bare s)
    with ok translate_bare [of s] show ?thesis unfolding rest by (simp add: piece_ok_def piece_text_simps numbered_def)
  next
    case (Literal q s)
    with ok translate_quoted [of q s] show ?thesis unfolding rest by (auto simp: piece_ok_def piece_text_simps numbered_def)
  next
    case Mark
    then show ?thesis unfolding rest by (simp add: piece_text_simps numbered_def)
  qed
qed

text \<open>Every text is a list of pieces with an end that is unclosed at most.\<close>

lemma sql_has_pieces: "\<exists>ps rest. list_all piece_ok ps \<and> unclosed rest \<and> sql = concat (map piece_text ps) @ rest"
proof (induction sql rule: length_induct)
  case (1 sql)
  have piece: ?case if "sql = piece_text p @ t" "piece_ok p" "piece_text p \<noteq> []" for p t
  proof -
    from that(1,3) have "length t < length sql" by (cases "piece_text p") simp_all
    with 1 obtain ps rest where "list_all piece_ok ps" "unclosed rest" "t = concat (map piece_text ps) @ rest" by blast
    with that(1,2) show ?thesis by (intro exI [of _ "p # ps"] exI [of _ rest]) simp
  qed
  show ?case
  proof (cases sql)
    case Nil
    then show ?thesis by (intro exI [of _ "[]"]) (simp add: unclosed_def)
  next
    case (Cons c s)
    show ?thesis
    proof (cases "c \<in> {CHR 0x27, CHR 0x22}")
      case quote: True
      show ?thesis
      proof (cases "c \<in> set s")
        case True
        then obtain a b where "s = a @ c # b" "c \<notin> set a" by (metis split_list_first)
        with quote Cons show ?thesis by (intro piece [of "Literal c a" b]) (simp_all add: piece_text_simps piece_ok_def)
      next
        case False
        with quote Cons show ?thesis by (intro exI [of _ "[]"] exI [of _ sql]) (simp add: unclosed_def)
      qed
    next
      case False
      with Cons show ?thesis
        by (cases "c = CHR ''?''"; intro piece [of "if c = CHR ''?'' then Mark else Bare [c]" s]) (auto simp: piece_text_simps piece_ok_def)
    qed
  qed
qed

lemma words_single: "s \<noteq> [] \<Longrightarrow> \<forall>c\<in>set s. \<not> is_space c \<Longrightarrow> words s = [s]"
  by (induction s rule: words.induct) (auto split: list.splits)

lemma words_update: "s \<noteq> [] \<Longrightarrow> \<forall>c\<in>set s. \<not> is_space c \<Longrightarrow> words (''UPDATE '' @ s) = [''UPDATE'', s]"
  by (simp add: words_single is_space_def)

lemma status_rowcount_of_update: "status_rowcount (''UPDATE '' @ str_nat n) = n"
proof -
  have "\<forall>c\<in>set (str_nat n). \<not> is_space c"
    using str_nat_digits [of _ n] by (fastforce simp: is_space_def)
  with str_nat_nonempty have "words (''UPDATE '' @ str_nat n) = [''UPDATE'', str_nat n]" by (rule words_update)
  then show ?thesis
    using str_nat_all_digits [of n] by (simp add: status_rowcount_def list_all_iff nat_of_digits_str_nat)
qed

subsection \<open>Transactions\<close>

lemma run_ops_alone:
  assumes "\<forall>x\<in>set ops. snd x = id"
  shows "case written (map fst ops) (cn_work c) of
           None \<Rightarrow> \<exists>w. run_ops True ops c = (False, c\<lparr>cn_work := w\<rparr>)
         | Some d \<Rightarrow> run_ops True ops c = (True, c\<lparr>cn_work := d\<rparr>)"
  using assms
proof (induction ops arbitrary: c)
  case (Cons x ops)
  obtain op others where x: "x = (op, others)" by (cases x)
  from Cons.prems have rest: "\<forall>x\<in>set ops. snd x = id" by (metis list.set_intros(2))
  from Cons.prems x have o: "others = id" by (metis list.set_intros(1) snd_conv)
  show ?case
  proof (cases op)
    case (Write f)
    show ?thesis
    proof (cases "f (cn_work c)")
      case None
      then show ?thesis by (auto simp: x o Write intro: exI [of _ "cn_work c"])
    next
      case (Some d)
      with Cons.IH [OF rest, of "c\<lparr>cn_work := d\<rparr>"] show ?thesis by (simp add: x o Write split: option.splits)
    qed
  next
    case Commit
    with Cons.IH [OF rest, of c] show ?thesis by (simp add: x o split: option.splits)
  qed
qed simp

text \<open>
  A transaction on SQLite is atomic as long as its task has the connection to itself: if no statement
  raises, exactly the state after all its writes is committed, in one commit; if one raises, nothing is
  committed and the pending writes are gone.
\<close>

lemma transaction_alone:
  assumes "\<forall>x\<in>set ops. snd x = id" and "cn_work c = cn_disk c"
  shows "sqlite_transaction ops c =
     (case written (map fst ops) (cn_disk c) of
        None \<Rightarrow> (False, c)
      | Some d \<Rightarrow> (True, c\<lparr>cn_disk := d, cn_work := d, cn_past := cn_past c @ [d]\<rparr>))"
proof (cases "written (map fst ops) (cn_disk c)")
  case None
  with run_ops_alone [OF assms(1), of c] assms(2) obtain w where "run_ops True ops c = (False, c\<lparr>cn_work := w\<rparr>)" by auto
  with None assms(2) show ?thesis by (simp add: sqlite_transaction_def rollback_def)
next
  case (Some d)
  with run_ops_alone [OF assms(1), of c] assms(2) have "run_ops True ops c = (True, c\<lparr>cn_work := d\<rparr>)" by auto
  with Some show ?thesis by (simp add: sqlite_transaction_def commit_def)
qed

subsection \<open>Migrations\<close>

lemma record_applied_Inr:
  "mg_version m \<notin> set (applied_versions t) \<Longrightarrow>
   record_applied now m t = Inr (t\<lparr>tb_versions := Some ((case tb_versions t of None \<Rightarrow> [] | Some vs \<Rightarrow> vs)
        @ [\<lparr>vr_version = mg_version m, vr_name = mg_name m, vr_applied_at = now (mg_version m)\<rparr>])\<rparr>)"
  by (simp add: record_applied_def)

lemma record_applied_versions:
  "record_applied now m t = Inr t' \<Longrightarrow> applied_versions t' = applied_versions t @ [mg_version m]"
  by (auto simp: record_applied_def applied_versions_def split: if_splits option.splits)

lemma fill_in_versions [simp]: "tb_versions (fill_in mr m t) = tb_versions t" "tb_rest (fill_in mr m t) = tb_rest t"
  by (simp_all add: fill_in_def backfill_token_hashes_def)

lemma applied_versions_cong: "tb_versions t = tb_versions t' \<Longrightarrow> applied_versions t = applied_versions t'"
  by (simp add: applied_versions_def)

lemma upto_append:
  "upto adv (xs @ ys) t = (case upto adv xs t of (Some e, t') \<Rightarrow> (Some e, t') | (None, t') \<Rightarrow> upto adv ys t')"
  by (induction xs arbitrary: t) (auto split: sum.splits)

text \<open>
  What a migration's body has to keep for the log of versions to be trusted: it neither reads nor writes the
  version table. Both dialects interpret this.
\<close>

locale migration_body =
  fixes go :: "migration \<Rightarrow> 'd tables \<Rightarrow> bool \<times> 'd tables"
  assumes go_versions: "tb_versions (snd (go m t)) = tb_versions t"
    and go_blind: "go m (t\<lparr>tb_versions := v\<rparr>) = map_prod id (\<lambda>t'. t'\<lparr>tb_versions := v\<rparr>) (go m t)"
begin

lemma advance_versions:
  assumes "advance go stamped mr now m t = Inr t'"
  shows "set (applied_versions t') = insert (mg_version m) (set (applied_versions t))"
proof -
  have "applied_versions (fill_in mr m t1) = applied_versions t" if "go m t = (b, t1)" for b t1
    using go_versions [of m t] that by (intro applied_versions_cong) simp
  with assms show ?thesis
    by (auto simp: advance_def dest!: record_applied_versions split: if_splits prod.splits bool.splits)
qed

lemma advance_applied: "mg_version m \<in> set (applied_versions t) \<Longrightarrow> advance go stamped mr now m t = Inr t"
  by (simp add: advance_def)

lemma upto_versions:
  "upto (advance go stamped mr now) ms t = (e, t') \<Longrightarrow> set (applied_versions t) \<subseteq> set (applied_versions t')
     \<and> (e = None \<longrightarrow> mg_version ` set ms \<subseteq> set (applied_versions t'))"
proof (induction ms arbitrary: t)
  case (Cons m ms)
  show ?case
  proof (cases "advance go stamped mr now m t")
    case (Inr t1)
    with Cons.prems Cons.IH [of t1] advance_versions [OF Inr] show ?thesis by auto
  qed (use Cons.prems in auto)
qed simp

lemma upto_applied: "mg_version ` set ms \<subseteq> set (applied_versions t) \<Longrightarrow> upto (advance go stamped mr now) ms t = (None, t)"
  by (induction ms) (simp_all add: advance_applied)

lemma upto_fails_again:
  "upto (advance go stamped mr now) ms t = (Some e, t') \<Longrightarrow> upto (advance go stamped mr now) ms t' = (Some e, t')"
proof (induction ms arbitrary: t)
  case (Cons m ms)
  show ?case
  proof (cases "advance go stamped mr now m t")
    case (Inl x)
    with Cons.prems show ?thesis by simp
  next
    case (Inr t1)
    with Cons.prems have u: "upto (advance go stamped mr now) ms t1 = (Some e, t')" by simp
    from upto_versions [OF u] advance_versions [OF Inr] have "mg_version m \<in> set (applied_versions t')" by auto
    with Cons.IH [OF u] show ?thesis by (simp add: advance_applied)
  qed
qed simp

text \<open>Running again from the state any prefix of the run left gives what the whole run gives.\<close>

lemma upto_resumes:
  "upto (advance go stamped mr now) ms (snd (upto (advance go stamped mr now) (take k ms) t)) = upto (advance go stamped mr now) ms t"
proof -
  let ?up = "upto (advance go stamped mr now)"
  obtain e t' where p: "?up (take k ms) t = (e, t')" by (cases "?up (take k ms) t")
  have split: "?up ms x = (case ?up (take k ms) x of (Some e, t') \<Rightarrow> (Some e, t') | (None, t') \<Rightarrow> ?up (drop k ms) t')" for x
    using upto_append [of "advance go stamped mr now" "take k ms" "drop k ms" x] by simp
  have "?up (take k ms) t' = (e, t')"
  proof (cases e)
    case None
    with upto_versions [OF p] show ?thesis by (simp add: upto_applied)
  next
    case (Some x)
    with p upto_fails_again show ?thesis by blast
  qed
  with p split [of t] split [of t'] show ?thesis by simp
qed

lemma upto_stamped_cong:
  "(\<And>m. m \<in> set ms \<Longrightarrow> mg_version m \<notin> set (applied_versions t) \<Longrightarrow> stamped m = stamped' m)
   \<Longrightarrow> upto (advance go stamped mr now) ms t = upto (advance go stamped' mr now) ms t"
proof (induction ms arbitrary: t)
  case (Cons m ms)
  have a: "advance go stamped mr now m t = advance go stamped' mr now m t"
    using Cons.prems [of m] by (simp add: advance_def)
  show ?case
  proof (cases "advance go stamped mr now m t")
    case (Inr t1)
    have "upto (advance go stamped mr now) ms t1 = upto (advance go stamped' mr now) ms t1"
      by (rule Cons.IH) (use Cons.prems advance_versions [OF Inr] in auto)
    moreover from a Inr have "advance go stamped' mr now m t = Inr t1" by simp
    ultimately show ?thesis using Inr by simp
  qed (use a in simp)
qed simp

lemma advance_untimed:
  "advance go stamped mr (\<lambda>_. 0) m (untimed t) = map_sum id untimed (advance go stamped mr now m t)"
proof -
  let ?v = "map_option (map (\<lambda>r. r\<lparr>vr_applied_at := 0\<rparr>)) (tb_versions t)"
  have v: "applied_versions (untimed x) = applied_versions x" for x :: "'d tables"
    by (cases "tb_versions x") (simp_all add: untimed_def applied_versions_def)
  have rec: "record_applied (\<lambda>_. 0) m (untimed x) = map_sum id untimed (record_applied now m x)" for x :: "'d tables"
    unfolding record_applied_def v by (cases "tb_versions x") (simp_all add: untimed_def)
  obtain b t1 where g: "go m t = (b, t1)" by (cases "go m t")
  have t1: "tb_versions t1 = tb_versions t" using go_versions [of m t] g by simp
  have "go m (untimed t) = (b, untimed t1)"
    using go_blind [where m = m and t = t and v = ?v] g t1 by (simp add: untimed_def)
  moreover have "fill_in mr m (untimed t1) = untimed (fill_in mr m t1)"
    by (simp add: fill_in_def backfill_token_hashes_def untimed_def)
  ultimately show ?thesis using g by (simp add: advance_def v rec split: bool.splits)
qed

lemma upto_untimed:
  "upto (advance go stamped mr (\<lambda>_. 0)) ms (untimed t) = map_prod id untimed (upto (advance go stamped mr now) ms t)"
proof (induction ms arbitrary: t)
  case (Cons m ms)
  then show ?case by (cases "advance go stamped mr now m t") (simp_all add: advance_untimed [where now = now])
qed simp

lemma migrate_all_follows:
  assumes "\<And>m c. m \<in> set ms \<Longrightarrow> mg_version m \<in> set applied \<longleftrightarrow> mg_version m \<in> set (applied_versions (cn_work c))
       \<Longrightarrow> (settled \<longrightarrow> cn_disk c = cn_work c) \<Longrightarrow> follows go stamped mr now settled (migrate m c) m c"
    and "distinct (map mg_version ms)" and "settled \<longrightarrow> cn_disk c = cn_work c"
    and "\<And>m. m \<in> set ms \<Longrightarrow> mg_version m \<in> set applied \<longleftrightarrow> mg_version m \<in> set (applied_versions (cn_work c))"
    and "migrate_all migrate ms c = (e, c')"
  shows "upto (advance go stamped mr now) ms (cn_work c) = (e, cn_work c') \<and> (e \<noteq> None \<or> settled \<longrightarrow> cn_disk c' = cn_work c')
     \<and> (\<exists>past. cn_past c' = cn_past c @ past \<and> (\<forall>p\<in>set past. \<exists>k. p = snd (upto (advance go stamped mr now) (take k ms) (cn_work c))))"
  using assms
proof (induction ms arbitrary: c)
  case (Cons m ms)
  let ?adv = "advance go stamped mr now"
  from Cons.prems(1) [of m c] Cons.prems(3,4) have "follows go stamped mr now settled (migrate m c) m c" by simp
  then obtain past where past: "cn_past (snd (migrate m c)) = cn_past c @ past"
    and st: "case ?adv m (cn_work c) of
          Inl e \<Rightarrow> fst (migrate m c) = Some e \<and> cn_work (snd (migrate m c)) = cn_work c \<and> cn_disk (snd (migrate m c)) = cn_work c \<and> set past \<subseteq> {cn_work c}
        | Inr t \<Rightarrow> fst (migrate m c) = None \<and> cn_work (snd (migrate m c)) = t \<and> (settled \<longrightarrow> cn_disk (snd (migrate m c)) = t) \<and> set past \<subseteq> {cn_work c, t}"
    unfolding follows_def by blast
  obtain r c1 where m: "migrate m c = (r, c1)" by (cases "migrate m c")
  have zero: "snd (upto ?adv (take 0 (m # ms)) (cn_work c)) = cn_work c" by simp
  show ?case
  proof (cases "?adv m (cn_work c)")
    case (Inl x)
    with st m Cons.prems(5) have "e = Some x" "c' = c1" "cn_work c1 = cn_work c" "cn_disk c1 = cn_work c" "set past \<subseteq> {cn_work c}" by simp_all
    with Inl past m zero show ?thesis by (auto intro!: exI [of _ past] exI [of _ 0])
  next
    case (Inr t)
    with st m have r: "r = None" and w: "cn_work c1 = t" and dk: "settled \<longrightarrow> cn_disk c1 = cn_work c1" and ps: "set past \<subseteq> {cn_work c, t}" by simp_all
    have "upto ?adv ms (cn_work c1) = (e, cn_work c') \<and> (e \<noteq> None \<or> settled \<longrightarrow> cn_disk c' = cn_work c')
      \<and> (\<exists>past. cn_past c' = cn_past c1 @ past \<and> (\<forall>p\<in>set past. \<exists>k. p = snd (upto ?adv (take k ms) (cn_work c1))))"
    proof (rule Cons.IH)
      show "follows go stamped mr now settled (migrate m' d) m' d"
        if "m' \<in> set ms" "mg_version m' \<in> set applied \<longleftrightarrow> mg_version m' \<in> set (applied_versions (cn_work d))" "settled \<longrightarrow> cn_disk d = cn_work d" for m' d
        using Cons.prems(1) that by simp
      show "mg_version m' \<in> set applied \<longleftrightarrow> mg_version m' \<in> set (applied_versions (cn_work c1))" if "m' \<in> set ms" for m'
      proof -
        from Cons.prems(2) have "mg_version m \<notin> mg_version ` set ms" by simp
        then have "mg_version m' \<noteq> mg_version m" using that(1) by (metis imageI)
        with Cons.prems(4) [of m'] that(1) w advance_versions [OF Inr] show ?thesis by simp
      qed
    qed (use Cons.prems(2,5) m r dk in simp_all)
    then obtain past' where up: "upto ?adv ms t = (e, cn_work c')" "e \<noteq> None \<or> settled \<longrightarrow> cn_disk c' = cn_work c'"
      and past': "cn_past c' = cn_past c1 @ past'" "\<forall>p\<in>set past'. \<exists>k. p = snd (upto ?adv (take k ms) t)"
      by (auto simp: w)
    have later: "\<exists>k. p = snd (upto ?adv (take k (m # ms)) (cn_work c))" if "\<exists>k. p = snd (upto ?adv (take k ms) t)" for p
    proof -
      from that obtain k where "p = snd (upto ?adv (take k ms) t)" ..
      with Inr have "p = snd (upto ?adv (take (Suc k) (m # ms)) (cn_work c))" by simp
      then show ?thesis ..
    qed
    have t: "\<exists>k. t = snd (upto ?adv (take k (m # ms)) (cn_work c))" by (rule later, rule exI [of _ 0]) simp
    have all: "\<forall>p\<in>set (past @ past'). \<exists>k. p = snd (upto ?adv (take k (m # ms)) (cn_work c))"
    proof
      fix p assume "p \<in> set (past @ past')"
      with ps consider "p = cn_work c" | "p = t" | "p \<in> set past'" by auto
      then show "\<exists>k. p = snd (upto ?adv (take k (m # ms)) (cn_work c))"
      proof cases
        case 1
        then show ?thesis by (intro exI [of _ 0]) simp
      next
        case 2
        with t show ?thesis by simp
      next
        case 3
        with past'(2) later show ?thesis by blast
      qed
    qed
    have "cn_past c' = cn_past c @ past @ past'" using past past'(1) m by simp
    moreover have "upto ?adv (m # ms) (cn_work c) = (e, cn_work c')" using up(1) Inr by simp
    ultimately show ?thesis using up(2) all by blast
  qed
qed simp

lemma upto_clock:
  "map_prod id untimed (upto (advance go stamped mr now') ms t) = map_prod id untimed (upto (advance go stamped mr now) ms t)"
  by (simp add: upto_untimed [symmetric])

lemma prefix_state:
  "snd (upto (advance go stamped mr now) (take k ms) t) = t
   \<or> ms \<noteq> [] \<and> mg_version (hd ms) \<in> set (applied_versions (snd (upto (advance go stamped mr now) (take k ms) t)))"
proof (cases "take k ms")
  case (Cons m xs)
  then have hd: "ms \<noteq> []" "m = hd ms" by (cases ms; cases k; simp)+
  show ?thesis
  proof (cases "advance go stamped mr now m t")
    case (Inr t1)
    obtain e t2 where u: "upto (advance go stamped mr now) xs t1 = (e, t2)" by fastforce
    from upto_versions [OF u] advance_versions [OF Inr] have "mg_version m \<in> set (applied_versions t2)" by auto
    with Cons Inr u hd show ?thesis by simp
  qed (use Cons in simp)
qed (metis fst_conv snd_conv upto.simps(1))

lemma applied_then_table: "k \<in> set (applied_versions t) \<Longrightarrow> create_version_table t = t"
  by (auto simp: applied_versions_def create_version_table_def split: option.splits)

text \<open>
  A second run from a state the first one had committed: the same error or success and, but for the times of
  the records, the same tables. Whether the installation is fresh may look different to it, but only version
  1, the first of the list, asks.
\<close>

lemma run_resumes:
  assumes order: "sorted_wrt (<) (map mg_version ms)" "\<forall>m\<in>set ms. 1 \<le> mg_version m"
    and asks: "\<And>f f' m. mg_version m \<noteq> 1 \<Longrightarrow> st f m = st f' m"
    and p: "p = d \<or> (\<exists>k. p = snd (upto (advance go (st (\<not> mr_has_jobs mr (tb_rest d))) mr now) (take k ms) (create_version_table d)))"
  shows "map_prod id untimed (upto (advance go (st (\<not> mr_has_jobs mr (tb_rest p))) mr now') ms (create_version_table p))
       = map_prod id untimed (upto (advance go (st (\<not> mr_has_jobs mr (tb_rest d))) mr now) ms (create_version_table d))"
proof -
  let ?t = "create_version_table d" and ?fresh = "\<not> mr_has_jobs mr (tb_rest d)" and ?fresh' = "\<not> mr_has_jobs mr (tb_rest p)"
  let ?up = "upto (advance go (st ?fresh) mr now)"
  have t: "tb_rest ?t = tb_rest d" "create_version_table ?t = ?t"
    by (simp_all add: create_version_table_def split: option.splits)
  consider "p = d \<or> p = ?t" | k where "p = snd (?up (take k ms) ?t)" "ms \<noteq> []" "mg_version (hd ms) \<in> set (applied_versions p)"
    using p prefix_state [of "st ?fresh" mr now _ ms ?t] by metis
  then show ?thesis
  proof cases
    case 1
    with t have "create_version_table p = ?t" "?fresh' = ?fresh" by auto
    then show ?thesis by (simp only: upto_clock [of "st ?fresh" mr now' ms ?t now])
  next
    case 2
    have "st ?fresh' m = st ?fresh m" if m: "m \<in> set ms" "mg_version m \<notin> set (applied_versions p)" for m
    proof (rule asks)
      from 2(2) order have "\<forall>m\<in>set (List.tl ms). 1 < mg_version m" by (cases ms) (auto simp: order.strict_iff_order less_le)
      with m 2(2,3) show "mg_version m \<noteq> 1" by (cases ms) auto
    qed
    then have "upto (advance go (st ?fresh') mr now') ms p = upto (advance go (st ?fresh) mr now') ms p" by (rule upto_stamped_cong)
    moreover have "?up ms p = ?up ms ?t" unfolding 2(1) by (rule upto_resumes)
    ultimately show ?thesis using upto_clock [of "st ?fresh" mr now' ms p now] applied_then_table [OF 2(3)] by simp
  qed
qed

end

lemma run_sql_keeps: "tb_versions (snd (run_sql mr sql t)) = tb_versions t"
  by (simp add: run_sql_def split: prod.splits)

lemma run_sql_blind: "run_sql mr sql (t\<lparr>tb_versions := v\<rparr>) = map_prod id (\<lambda>t'. t'\<lparr>tb_versions := v\<rparr>) (run_sql mr sql t)"
  by (simp add: run_sql_def split: prod.splits)

interpretation sqlite: migration_body "sqlite_body mr" for mr :: "'d migrator"
  by unfold_locales (simp_all only: sqlite_body_def run_sql_keeps run_sql_blind)

lemma run_statements_keeps: "tb_versions (snd (run_statements mr ss t)) = tb_versions t"
proof (induction ss arbitrary: t)
  case (Cons s ss)
  with run_sql_keeps [of mr s t] show ?case by (simp split: prod.splits bool.splits) (metis snd_conv)
qed simp

lemma run_statements_blind:
  "run_statements mr ss (t\<lparr>tb_versions := v\<rparr>) = map_prod id (\<lambda>t'. t'\<lparr>tb_versions := v\<rparr>) (run_statements mr ss t)"
  by (induction ss arbitrary: t) (auto simp: run_sql_blind split: prod.splits bool.splits)

interpretation postgres: migration_body "postgres_body mr" for mr :: "'d migrator"
  by unfold_locales (simp_all only: postgres_body_def run_statements_keeps run_statements_blind)

lemma sqlite_follows:
  assumes "mg_version m \<in> set applied \<longleftrightarrow> mg_version m \<in> set (applied_versions (cn_work c))"
  shows "follows (sqlite_body mr) (sqlite_stamped fresh) mr now False (migrate_sqlite mr now fresh applied m c) m c"
proof (cases "mg_version m \<in> set applied")
  case True
  with assms show ?thesis by (simp add: follows_def migrate_sqlite_def advance_def)
next
  case False
  with assms have new: "mg_version m \<notin> set (applied_versions (cn_work c))" by simp
  obtain ok t where run: "run_sql mr (mg_sql m) (cn_work c) = (ok, t)" by (cases "run_sql mr (mg_sql m) (cn_work c)")
  with run_sql_keeps [of mr "mg_sql m" "cn_work c"] have "applied_versions (fill_in mr m t) = applied_versions (cn_work c)"
    by (intro applied_versions_cong) simp
  with new have new': "mg_version m \<notin> set (applied_versions (fill_in mr m t))" by simp
  from False new new' run show ?thesis
    by (cases ok) (simp_all add: follows_def migrate_sqlite_def advance_def sqlite_body_def sqlite_stamped_def
        record_applied_Inr commit_def rollback_def)
qed

lemma postgres_follows:
  assumes "mg_version m \<in> set applied \<longleftrightarrow> mg_version m \<in> set (applied_versions (cn_work c))" and "cn_disk c = cn_work c"
  shows "follows (postgres_body mr) (postgres_stamped fresh) mr now True (migrate_postgres mr now fresh applied m c) m c"
proof (cases "mg_version m \<in> set applied")
  case True
  with assms show ?thesis by (simp add: follows_def migrate_postgres_def advance_def)
next
  case False
  with assms have new: "mg_version m \<notin> set (applied_versions (cn_work c))" by simp
  obtain ok t where run: "postgres_body mr m (cn_work c) = (ok, t)" by (cases "postgres_body mr m (cn_work c)")
  with postgres.go_versions [of mr m "cn_work c"] have "applied_versions (fill_in mr m t) = applied_versions (cn_work c)"
    by (intro applied_versions_cong) simp
  with new have new': "mg_version m \<notin> set (applied_versions (fill_in mr m t))" by simp
  from False new new' run assms(2) show ?thesis
    by (cases ok) (simp_all add: follows_def migrate_postgres_def advance_def postgres_body_def postgres_stamped_def
        record_applied_Inr [OF new] record_applied_Inr [OF new'] commit_def rollback_def)
qed

lemmas start_simps = connect_def execute_def commit_def

text \<open>What a whole run does: the migrations as one function, with only states between migrations committed.\<close>

lemma apply_sqlite_advances:
  assumes "distinct (map mg_version ms)" and "apply_sqlite mr now ms (connect d) = (e, c)"
  defines "t \<equiv> create_version_table d"
  defines "up \<equiv> upto (advance (sqlite_body mr) (sqlite_stamped (\<not> mr_has_jobs mr (tb_rest d))) mr now)"
  shows "up ms t = (e, cn_disk c)" and "p \<in> set (cn_past c) \<Longrightarrow> p = d \<or> (\<exists>k. p = snd (up (take k ms) t))"
proof -
  let ?c1 = "commit (execute create_version_table (connect d))" and ?fresh = "\<not> mr_has_jobs mr (tb_rest d)"
  have rest: "tb_rest t = tb_rest d" by (simp add: t_def create_version_table_def split: option.splits)
  have c1: "cn_work ?c1 = t" "cn_past ?c1 = [d, t]" by (simp_all add: start_simps t_def)
  obtain r c2 where all: "migrate_all (migrate_sqlite mr now ?fresh (applied_versions t)) ms ?c1 = (r, c2)" by fastforce
  have up: "up ms t = (r, cn_work c2) \<and> (r \<noteq> None \<or> False \<longrightarrow> cn_disk c2 = cn_work c2)
     \<and> (\<exists>past. cn_past c2 = cn_past ?c1 @ past \<and> (\<forall>p\<in>set past. \<exists>k. p = snd (up (take k ms) t)))"
    unfolding up_def c1(1) [symmetric]
    by (rule sqlite.migrate_all_follows [where applied = "applied_versions t" and migrate = "migrate_sqlite mr now ?fresh (applied_versions t)"])
      (use assms(1) all c1 in \<open>simp_all add: sqlite_follows\<close>)
  from assms(2) all c1 rest have e: "e = r" and c: "c = (if r = None then commit c2 else c2)"
    by (auto simp: apply_sqlite_def Let_def split: option.splits)
  have final: "cn_work c2 = snd (up (take (length ms) ms) t)" using up by simp
  show "up ms t = (e, cn_disk c)" using up e c by (cases r) (simp_all add: commit_def)
  show "p = d \<or> (\<exists>k. p = snd (up (take k ms) t))" if p: "p \<in> set (cn_past c)"
  proof -
    from up obtain past where past: "cn_past c2 = d # t # past" "\<forall>p\<in>set past. \<exists>k. p = snd (up (take k ms) t)"
      unfolding c1(2) by auto
    have z: "t = snd (up (take 0 ms) t)" by (simp add: up_def)
    from p c past(1) have "p = d \<or> p = t \<or> p \<in> set past \<or> p = cn_work c2" by (auto simp: commit_def split: if_splits)
    with z past(2) final show ?thesis by metis
  qed
qed

lemma apply_postgres_advances:
  assumes "distinct (map mg_version ms)" and "apply_postgres mr now ms (connect d) = (e, c)"
  defines "t \<equiv> create_version_table d"
  defines "up \<equiv> upto (advance (postgres_body mr) (postgres_stamped (\<not> mr_has_jobs mr (tb_rest d))) mr now)"
  shows "up ms t = (e, cn_disk c)" and "p \<in> set (cn_past c) \<Longrightarrow> p = d \<or> (\<exists>k. p = snd (up (take k ms) t))"
proof -
  let ?c1 = "commit (execute create_version_table (connect d))" and ?fresh = "\<not> mr_has_jobs mr (tb_rest d)"
  have rest: "tb_rest t = tb_rest d" by (simp add: t_def create_version_table_def split: option.splits)
  have c1: "cn_work ?c1 = t" "cn_disk ?c1 = t" "cn_past ?c1 = [d, t]" by (simp_all add: start_simps t_def)
  have all: "migrate_all (migrate_postgres mr now ?fresh (applied_versions t)) ms ?c1 = (e, c)"
    using assms(2) by (simp only: apply_postgres_def Let_def c1(1) rest)
  have up: "up ms t = (e, cn_work c) \<and> (e \<noteq> None \<or> True \<longrightarrow> cn_disk c = cn_work c)
     \<and> (\<exists>past. cn_past c = cn_past ?c1 @ past \<and> (\<forall>p\<in>set past. \<exists>k. p = snd (up (take k ms) t)))"
    unfolding up_def c1(1) [symmetric]
    by (rule postgres.migrate_all_follows [where applied = "applied_versions t" and migrate = "migrate_postgres mr now ?fresh (applied_versions t)"])
      (use assms(1) all c1 in \<open>simp_all add: postgres_follows\<close>)
  show "up ms t = (e, cn_disk c)" using up by simp
  show "p = d \<or> (\<exists>k. p = snd (up (take k ms) t))" if p: "p \<in> set (cn_past c)"
  proof -
    from up obtain past where past: "cn_past c = d # t # past" "\<forall>p\<in>set past. \<exists>k. p = snd (up (take k ms) t)"
      unfolding c1(3) by auto
    have z: "t = snd (up (take 0 ms) t)" by (simp add: up_def)
    from p past(1) have "p = d \<or> p = t \<or> p \<in> set past" by simp
    with z past(2) show ?thesis by metis
  qed
qed

lemma stamps_only_first:
  "mg_version m \<noteq> 1 \<Longrightarrow> sqlite_stamped f m = sqlite_stamped f' m"
  "mg_version m \<noteq> 1 \<Longrightarrow> postgres_stamped f m = postgres_stamped f' m"
  by (simp_all add: sqlite_stamped_def postgres_stamped_def)

lemma sqlite_resumes:
  assumes order: "sorted_wrt (<) (map mg_version ms)" "\<forall>m\<in>set ms. 1 \<le> mg_version m"
    and run: "apply_sqlite mr now ms (connect d) = (e, c)" and p: "p \<in> set (cn_past c)"
    and run': "apply_sqlite mr now' ms (connect p) = (e', c')"
  shows "e' = e \<and> untimed (cn_disk c') = untimed (cn_disk c)"
proof -
  have dist: "distinct (map mg_version ms)" using order(1) by (simp add: strict_sorted_iff)
  note first = apply_sqlite_advances [OF dist run] and second = apply_sqlite_advances(1) [OF dist run']
  from sqlite.run_resumes [OF order, where st = sqlite_stamped and mr = mr and now' = now', OF stamps_only_first(1) first(2) [OF p]] first(1) second
  show ?thesis by simp
qed

lemma postgres_resumes:
  assumes order: "sorted_wrt (<) (map mg_version ms)" "\<forall>m\<in>set ms. 1 \<le> mg_version m"
    and run: "apply_postgres mr now ms (connect d) = (e, c)" and p: "p \<in> set (cn_past c)"
    and run': "apply_postgres mr now' ms (connect p) = (e', c')"
  shows "e' = e \<and> untimed (cn_disk c') = untimed (cn_disk c)"
proof -
  have dist: "distinct (map mg_version ms)" using order(1) by (simp add: strict_sorted_iff)
  note first = apply_postgres_advances [OF dist run] and second = apply_postgres_advances(1) [OF dist run']
  from postgres.run_resumes [OF order, where st = postgres_stamped and mr = mr and now' = now', OF stamps_only_first(2) first(2) [OF p]] first(1) second
  show ?thesis by simp
qed

text \<open>
  Alone on the connection a block that raises leaves the disk as it was; with another task's commit between
  its statements the first insert stays, although the block was rolled back.
\<close>

lemma commit_of_another_task_splits_transaction:
  "sqlite_transaction two_inserts (connect []) = (False, \<lparr>cn_disk = [1, 9], cn_work = [1, 9], cn_past = [[], [1, 9]]\<rparr>)"
  by code_simp

section \<open>Properties\<close>

text \<open>
  C34. The translation of placeholders numbers exactly the marks outside quotes, in their order from one, and
  changes nothing else: quoted literals and identifiers, doubled quotes included, and the rest of the text stay
  as they are. Every text is of the form the property speaks of (\<open>sql_has_pieces\<close>). What the two databases make
  of a text, of a comment for instance, is not part of it.
\<close>

theorem marks_outside_quotes_are_numbered:
  assumes "list_all piece_ok ps" and "unclosed rest"
  shows "translate_placeholders (concat (map piece_text ps) @ rest) = concat (map (numbered ps) [0 ..< length ps]) @ rest"
  using translate_pieces [OF assms(2,1), of "[]"] by (simp add: translate_placeholders_def)

theorem marks_outside_quotes_are_numbered_witness:
  "translate_placeholders (''a = ? AND b <> '' @ [CHR 0x27, CHR ''?'', CHR 0x27, CHR 0x27, CHR 0x27] @ '' AND c = ?'')
     = ''a = $1 AND b <> '' @ [CHR 0x27, CHR ''?'', CHR 0x27, CHR 0x27, CHR 0x27] @ '' AND c = $2''"
proof -
  let ?ps = "[Bare ''a = '', Mark, Bare '' AND b <> '', Literal CHR 0x27 ''?'', Literal CHR 0x27 [], Bare '' AND c = '', Mark]"
  have "list_all piece_ok ?ps" "unclosed []" by code_simp+
  from marks_outside_quotes_are_numbered [OF this]
  have "translate_placeholders (concat (map piece_text ?ps) @ []) = concat (map (numbered ?ps) [0 ..< length ?ps]) @ []" .
  moreover have "concat (map piece_text ?ps) @ [] = ''a = ? AND b <> '' @ [CHR 0x27, CHR ''?'', CHR 0x27, CHR 0x27, CHR 0x27] @ '' AND c = ?''"
    by code_simp
  moreover have "concat (map (numbered ?ps) [0 ..< length ?ps]) @ []
      = ''a = $1 AND b <> '' @ [CHR 0x27, CHR ''?'', CHR 0x27, CHR 0x27, CHR 0x27] @ '' AND c = $2''" by code_simp
  ultimately show ?thesis by (simp only:)
qed

text \<open>
  C35. Migrations survive a crash at any moment and a failing script. On either dialect, start the runner again
  from any state the first run had committed (before, between or after migrations, whether it went on, was
  killed or stopped at an error): the second run ends with the same error or success, and with the same
  tables, except for the times in the version table. So no migration is half applied, lost or applied twice.
\<close>

theorem migrations_resume_after_crash:
  assumes "apply \<in> {apply_sqlite, apply_postgres}"
    and "sorted_wrt (<) (map mg_version ms)" and "\<forall>m\<in>set ms. 1 \<le> mg_version m"
    and "apply mr now ms (connect d) = (e, c)" and "p \<in> set (cn_past c)" and "apply mr now' ms (connect p) = (e', c')"
  shows "e' = e \<and> untimed (cn_disk c') = untimed (cn_disk c)"
  using assms(1)
proof
  assume a: "apply = apply_sqlite"
  show ?thesis by (rule sqlite_resumes [OF assms(2,3) assms(4-6) [unfolded a]])
next
  assume "apply \<in> {apply_postgres}"
  then have a: "apply = apply_postgres" by simp
  show ?thesis by (rule postgres_resumes [OF assms(2,3) assms(4-6) [unfolded a]])
qed

text \<open>The second migration was committed, the stamp of the third was not, and the fourth fails again.\<close>

theorem migrations_resume_after_crash_witness:
  "fst (apply_sqlite sample_migrator (\<lambda>v. v) sample_migrations (connect sample_tables)) = Some Script_error
   \<and> length (cn_past (snd (apply_sqlite sample_migrator (\<lambda>v. v) sample_migrations (connect sample_tables)))) = 7
   \<and> fst (apply_sqlite sample_migrator (\<lambda>v. v + 100) sample_migrations
         (connect (cn_past (snd (apply_sqlite sample_migrator (\<lambda>v. v) sample_migrations (connect sample_tables))) ! 3))) = Some Script_error"
proof -
  let ?run = "apply_sqlite sample_migrator (\<lambda>v. v) sample_migrations (connect sample_tables)"
  let ?again = "apply_sqlite sample_migrator (\<lambda>v. v + 100) sample_migrations (connect (cn_past (snd ?run) ! 3))"
  have run: "fst ?run = Some Script_error" "length (cn_past (snd ?run)) = 7" by code_simp+
  have order: "sorted_wrt (<) (map mg_version sample_migrations)" "\<forall>m\<in>set sample_migrations. 1 \<le> mg_version m" by code_simp+
  have "cn_past (snd ?run) ! 3 \<in> set (cn_past (snd ?run))" using run(2) by (intro nth_mem) simp
  from migrations_resume_after_crash [OF insertI1 order surjective_pairing this surjective_pairing, of "\<lambda>v. v + 100"] run
  show ?thesis by simp
qed

end
