(* ===== verification/WebAuth.thy ===== *)
theory WebAuth
  imports OAuth Schedules Url
begin

text \<open>
  The administrator's account and the browser's way in: \<open>repos/users.py\<close>, \<open>admin.py\<close>,
  \<open>api/routes/auth.py\<close>, \<open>auth.py\<close> and \<open>safe_next\<close> of \<open>web/routes.py\<close>.

  Handlers are coroutines over the users, the system state, the failed logins of the process and its clock.
  A password is the list of its code points; \<open>bcrypt\<close> is a parameter: \<open>bc_hash salt bytes\<close>, and \<open>bc_check\<close>,
  whose \<open>None\<close> is a \<open>ValueError\<close>. A request is the part of its ASGI scope the middleware reads; header
  names are ASCII.
\<close>

section \<open>Passwords\<close>

type_synonym text_points = "nat list"

text \<open>\<open>str.encode()\<close>; a lone surrogate raises.\<close>

definition utf8_char :: "nat \<Rightarrow> nat list option" where
  "utf8_char c =
     (if c < 128 then Some [c]
      else if c < 2048 then Some [192 + c div 64, 128 + c mod 64]
      else if 55296 \<le> c \<and> c \<le> 57343 then None
      else if c < 65536 then Some [224 + c div 4096, 128 + c div 64 mod 64, 128 + c mod 64]
      else Some [240 + c div 262144, 128 + c div 4096 mod 64, 128 + c div 64 mod 64, 128 + c mod 64])"

fun encode :: "text_points \<Rightarrow> nat list option" where
  "encode [] = Some []"
| "encode (c # s) =
     (case utf8_char c of None \<Rightarrow> None
      | Some b \<Rightarrow> (case encode s of None \<Rightarrow> None | Some bs \<Rightarrow> Some (b @ bs)))"

definition MIN_PASSWORD_LEN :: nat where "MIN_PASSWORD_LEN = 8"
definition MAX_PASSWORD_BYTES :: nat where "MAX_PASSWORD_BYTES = 72"

datatype password_error = Too_short | Unencodable | Too_long

definition validate_password :: "text_points \<Rightarrow> password_error option" where
  "validate_password plain =
     (if length plain < MIN_PASSWORD_LEN then Some Too_short
      else case encode plain of
             None \<Rightarrow> Some Unencodable
           | Some bytes \<Rightarrow> if MAX_PASSWORD_BYTES < length bytes then Some Too_long else None)"

record bcrypt =
  bc_hash :: "string \<Rightarrow> nat list \<Rightarrow> string"
  bc_check :: "nat list \<Rightarrow> string \<Rightarrow> bool option"

definition hash_password :: "bcrypt \<Rightarrow> string \<Rightarrow> text_points \<Rightarrow> password_error + string" where
  "hash_password bc salt plain =
     (case validate_password plain of
        Some e \<Rightarrow> Inl e
      | None \<Rightarrow> (case encode plain of None \<Rightarrow> Inl Unencodable | Some bytes \<Rightarrow> Inr (bc_hash bc salt bytes)))"

definition verify_password :: "bcrypt \<Rightarrow> text_points \<Rightarrow> string \<Rightarrow> bool" where
  "verify_password bc plain hashed =
     (case encode plain of
        None \<Rightarrow> False
      | Some bytes \<Rightarrow> (case bc_check bc bytes hashed of None \<Rightarrow> False | Some ok \<Rightarrow> ok))"

section \<open>The users table\<close>

record account =
  ac_id :: string
  ac_username :: string
  ac_password_hash :: string
  ac_created_at :: time
  ac_updated_at :: time

record auth_state =
  as_clock :: time
  as_users :: "account list"
  as_system :: "(string \<times> string) list"
  as_attempts :: "(string \<times> time list) list"

datatype auth_error = Admin_exists | Bad_password password_error | Not_unique | No_password | Unusable password_error

type_synonym 'a aio = "(auth_state, auth_error, 'a) coroutine"

definition is_admin :: "account \<Rightarrow> bool" where
  "is_admin a \<longleftrightarrow> ac_username a = ADMIN_USERNAME"

definition has_admin :: "bool aio" where
  "has_admin = query (\<lambda>d. list_ex is_admin (as_users d))"

text \<open>The insert fails on a taken id or user name.\<close>

definition insert_account :: "account \<Rightarrow> unit aio" where
  "insert_account a = bind
     (stmt (\<lambda>d. if list_ex (\<lambda>b. ac_id b = ac_id a \<or> ac_username b = ac_username a) (as_users d) then (False, d)
                else (True, d\<lparr>as_users := as_users d @ [a]\<rparr>)))
     (\<lambda>ok. if ok then ret () else throw Not_unique)"

definition create_admin :: "bcrypt \<Rightarrow> string \<Rightarrow> string \<Rightarrow> text_points \<Rightarrow> string aio" where
  "create_admin bc user_id salt plain =
     bind has_admin (\<lambda>there.
     if there then throw Admin_exists
     else bind (peek as_clock) (\<lambda>now.
     case hash_password bc salt plain of
       Inl e \<Rightarrow> throw (Bad_password e)
     | Inr h \<Rightarrow>
         bind (insert_account \<lparr>ac_id = user_id, ac_username = ADMIN_USERNAME, ac_password_hash = h,
                 ac_created_at = now, ac_updated_at = now\<rparr>) (\<lambda>_. ret user_id)))"

definition update_admin_password :: "bcrypt \<Rightarrow> string \<Rightarrow> text_points \<Rightarrow> bool aio" where
  "update_admin_password bc salt new_password =
     bind has_admin (\<lambda>there.
     if \<not> there then ret False
     else bind (peek as_clock) (\<lambda>now.
     case hash_password bc salt new_password of
       Inl e \<Rightarrow> throw (Bad_password e)
     | Inr h \<Rightarrow>
         bind (stmt (\<lambda>d. ((), d\<lparr>as_users := update_where is_admin (\<lambda>a. a\<lparr>ac_password_hash := h, ac_updated_at := now\<rparr>) (as_users d)\<rparr>)))
           (\<lambda>_. ret True)))"

definition authenticate :: "bcrypt \<Rightarrow> text_points \<Rightarrow> bool aio" where
  "authenticate bc plain =
     bind (query (\<lambda>d. find is_admin (as_users d))) (\<lambda>row.
     case row of None \<Rightarrow> ret False | Some a \<Rightarrow> ret (verify_password bc plain (ac_password_hash a)))"

definition get_or_create_auth_secret :: "string \<Rightarrow> string aio" where
  "get_or_create_auth_secret fresh =
     bind (query (\<lambda>d. get_state (as_system d) ''auth_secret'' [])) (\<lambda>existing.
     if existing \<noteq> [] then ret existing
     else bind (stmt (\<lambda>d. ((), d\<lparr>as_system := set_state ''auth_secret'' fresh (as_system d)\<rparr>))) (\<lambda>_. ret fresh))"

subsection \<open>The admin door\<close>

definition ensure_admin :: "bcrypt \<Rightarrow> string \<Rightarrow> string \<Rightarrow> text_points option \<Rightarrow> bool aio" where
  "ensure_admin bc user_id salt configured =
     bind has_admin (\<lambda>there.
     if there then ret False
     else case configured of
       None \<Rightarrow> throw No_password
     | Some plain \<Rightarrow>
         (case validate_password plain of
            Some e \<Rightarrow> throw (Unusable e)
          | None \<Rightarrow>
              catch (bind (create_admin bc user_id salt plain) (\<lambda>_. ret True))
                (\<lambda>e. bind has_admin (\<lambda>won. if won then ret False else throw e))))"

definition reset_admin_password :: "bcrypt \<Rightarrow> string \<Rightarrow> string \<Rightarrow> text_points \<Rightarrow> string aio" where
  "reset_admin_password bc user_id salt plain =
     bind has_admin (\<lambda>there.
     if there then bind (update_admin_password bc salt plain) (\<lambda>_. ret ''updated'')
     else bind (create_admin bc user_id salt plain) (\<lambda>_. ret ''created''))"

section \<open>Login\<close>

definition LOGIN_MAX_FAILURES :: nat where "LOGIN_MAX_FAILURES = 5"
definition LOGIN_WINDOW_SECONDS :: int where "LOGIN_WINDOW_SECONDS = 60"

definition recent_failures :: "time \<Rightarrow> time list \<Rightarrow> time list" where
  "recent_failures now ts = filter (\<lambda>t. now - t < LOGIN_WINDOW_SECONDS * 1000000) ts"

definition attempts_of :: "string \<Rightarrow> auth_state \<Rightarrow> time list" where
  "attempts_of ip d = (case map_of (as_attempts d) ip of None \<Rightarrow> [] | Some ts \<Rightarrow> ts)"

definition set_attempts :: "string \<Rightarrow> time list \<Rightarrow> auth_state \<Rightarrow> auth_state" where
  "set_attempts ip ts d = d\<lparr>as_attempts := (ip, ts) # filter (\<lambda>p. fst p \<noteq> ip) (as_attempts d)\<rparr>"

definition pop_attempts :: "string \<Rightarrow> auth_state \<Rightarrow> auth_state" where
  "pop_attempts ip d = d\<lparr>as_attempts := filter (\<lambda>p. fst p \<noteq> ip) (as_attempts d)\<rparr>"

text \<open>The status of the answer; 200 sets the session's user.\<close>

definition login :: "bcrypt \<Rightarrow> string \<Rightarrow> text_points \<Rightarrow> int aio" where
  "login bc ip plain =
     bind (peek (\<lambda>d. (as_clock d, recent_failures (as_clock d) (attempts_of ip d)))) (\<lambda>(now, recent).
     if LOGIN_MAX_FAILURES \<le> length recent then bind (poke (set_attempts ip recent)) (\<lambda>_. ret 429)
     else bind (authenticate bc plain) (\<lambda>ok.
       if \<not> ok then bind (poke (set_attempts ip (recent @ [now]))) (\<lambda>_. ret 401)
       else bind (poke (pop_attempts ip)) (\<lambda>_. ret 200)))"

definition session_after_login :: "int \<Rightarrow> string option \<Rightarrow> string option" where
  "session_after_login status session = (if status = 200 then Some ADMIN_USERNAME else session)"

section \<open>The middleware\<close>

record http_request =
  rq_http :: bool
  rq_method :: string
  rq_path :: string
  rq_query :: string
  rq_scheme :: string
  rq_headers :: "(string \<times> string) list"
  rq_session_user :: "string option"

definition PUBLIC_PREFIXES :: "string list" where
  "PUBLIC_PREFIXES = [''/api/auth/'', ''/api/health'', ''/api/worker/'', ''/metrics'', ''/static/'', ''/partials/health'', ''/.well-known/'']"

definition PROTOCOL_PATHS :: "string list" where
  "PROTOCOL_PATHS = [''/mcp'', ''/oauth/token'', ''/oauth/revoke'']"

definition PUBLIC_PATHS :: "string list" where
  "PUBLIC_PATHS = [''/login'', ''/favicon.ico'', ''/oauth/authorize''] @ PROTOCOL_PATHS"

definition UNSAFE_METHODS :: "string list" where
  "UNSAFE_METHODS = [''POST'', ''PUT'', ''PATCH'', ''DELETE'']"

definition CSRF_EXEMPT_PATHS :: "string list" where
  "CSRF_EXEMPT_PATHS = [''/api/auth/login'']"

definition is_public :: "string \<Rightarrow> bool" where
  "is_public path \<longleftrightarrow> path \<in> set PUBLIC_PATHS \<or> list_ex (\<lambda>p. prefix p path) PUBLIC_PREFIXES"

text \<open>The header of a lower-case name; the last of several wins.\<close>

definition header :: "http_request \<Rightarrow> string \<Rightarrow> string option" where
  "header rq name = map_of (rev (map (\<lambda>(k, v). (lower k, v)) (rq_headers rq))) name"

definition header_or_empty :: "http_request \<Rightarrow> string \<Rightarrow> string" where
  "header_or_empty rq name = (case header rq name of None \<Rightarrow> [] | Some v \<Rightarrow> v)"

text \<open>\<open>s.split("://", 1)[1]\<close> where there is one, else all of it.\<close>

fun after_scheme :: "string \<Rightarrow> string option" where
  "after_scheme [] = None"
| "after_scheme (c # s) = (if prefix ''://'' (c # s) then Some (drop 2 s) else after_scheme s)"

definition origin_host :: "string \<Rightarrow> string" where
  "origin_host origin = (case after_scheme origin of None \<Rightarrow> origin | Some h \<Rightarrow> h)"

definition origin_mismatch :: "http_request \<Rightarrow> string \<Rightarrow> bool" where
  "origin_mismatch rq origin =
     (let host = header_or_empty rq ''host''; scheme = rq_scheme rq
      in origin_host origin \<noteq> host \<and> \<not> (scheme = ''https'' \<and> origin = ''https://'' @ host) \<and> origin \<noteq> scheme @ ''://'' @ host)"

definition csrf_check :: "http_request \<Rightarrow> string option" where
  "csrf_check rq =
     (if rq_method rq \<notin> set UNSAFE_METHODS then None
      else if prefix ''/api/worker/'' (rq_path rq) \<or> rq_path rq \<in> set PROTOCOL_PATHS then None
      else if rq_path rq \<in> set CSRF_EXEMPT_PATHS then None
      else if header rq ''sec-fetch-site'' \<in> {Some ''cross-site'', Some ''cross-origin''} then Some ''Cross-origin request rejected''
      else (let origin = header_or_empty rq ''origin''
            in if origin \<noteq> [] \<and> origin_mismatch rq origin then Some ''Origin/Host mismatch on state-changing request'' else None))"

text \<open>\<open>urlencode\<close> of one value: unreserved characters, a plus sign for a space, and percent escapes.\<close>

definition unreserved :: "char \<Rightarrow> bool" where
  "unreserved c \<longleftrightarrow> is_alpha c \<or> is_digit c \<or> c \<in> set ''_.-~''"

definition hex_digit :: "nat \<Rightarrow> char" where
  "hex_digit n = (if n < 10 then char_of (48 + n) else char_of (55 + n))"

definition quote_char :: "char \<Rightarrow> string" where
  "quote_char c =
     (if unreserved c then [c] else if c = CHR '' '' then ''+''
      else CHR ''%'' # [hex_digit (of_char c div 16), hex_digit (of_char c mod 16)])"

definition quote_plus :: "string \<Rightarrow> string" where
  "quote_plus s = concat (map quote_char s)"

datatype gate_answer = To_app | Forbidden string | Hx_redirect string | Unauthenticated | Login_redirect string

definition middleware :: "http_request \<Rightarrow> gate_answer" where
  "middleware rq =
     (if \<not> rq_http rq then To_app
      else case csrf_check rq of
        Some why \<Rightarrow> Forbidden why
      | None \<Rightarrow>
          if is_public (rq_path rq) then To_app
          else if rq_session_user rq \<notin> {None, Some []} then To_app
          else if header rq ''hx-request'' = Some ''true'' then Hx_redirect ''/login''
          else if prefix ''/api/'' (rq_path rq) then Unauthenticated
          else (let wanted = rq_path rq @ (if rq_query rq \<noteq> [] then CHR ''?'' # rq_query rq else [])
                in Login_redirect (''/login?next='' @ quote_plus wanted)))"

definition require_admin :: "string option \<Rightarrow> bool" where
  "require_admin session_user \<longleftrightarrow> session_user \<notin> {None, Some []}"

subsection \<open>The page after login\<close>

text \<open>\<open>urlunsplit\<close> without scheme, authority and fragment.\<close>

definition local_url :: "string \<Rightarrow> string \<Rightarrow> string" where
  "local_url path asked =
     (if prefix ''//'' path then ''//'' @ path else path) @ (if asked \<noteq> [] then CHR ''?'' # asked else [])"

definition safe_char :: "char \<Rightarrow> bool" where
  "safe_char c \<longleftrightarrow> (33 :: nat) \<le> of_char c \<and> c \<noteq> CHR 0x5C"

definition safe_next :: "(string \<Rightarrow> bool) \<Rightarrow> string \<Rightarrow> string option" where
  "safe_next ipv6 text =
     (if \<not> list_all safe_char text then Some ''/''
      else case urlsplit ipv6 text of
             None \<Rightarrow> None
           | Some parts \<Rightarrow>
               if su_scheme parts \<noteq> [] \<or> su_netloc parts \<noteq> [] \<or> \<not> prefix ''/'' (su_path parts) then Some ''/''
               else Some (local_url (su_path parts) (su_query parts)))"

text \<open>The framework's reading of the query parameter.\<close>

definition hex_value :: "char \<Rightarrow> nat" where
  "hex_value c = (if is_digit c then of_char c - 48 else if of_char c \<le> (70 :: nat) then of_char c - 55 else of_char c - 87)"

fun unquote_plus :: "string \<Rightarrow> string" where
  "unquote_plus (c # h # l # s) =
     (if c = CHR ''%'' \<and> is_hex h \<and> is_hex l then char_of (16 * hex_value h + hex_value l) # unquote_plus s
      else (if c = CHR ''+'' then CHR '' '' else c) # unquote_plus (h # l # s))"
| "unquote_plus s = map (\<lambda>c. if c = CHR ''+'' then CHR '' '' else c) s"

definition login_page :: "(string \<Rightarrow> bool) \<Rightarrow> string \<Rightarrow> string option" where
  "login_page ipv6 quoted = safe_next ipv6 (unquote_plus quoted)"

section \<open>Specifications\<close>

text \<open>Ids and user names are unique, and the administrator's hash is one of a password that may be set.\<close>

definition hashed :: "bcrypt \<Rightarrow> string \<Rightarrow> bool" where
  "hashed bc h \<longleftrightarrow> (\<exists>salt plain bytes. validate_password plain = None \<and> encode plain = Some bytes \<and> h = bc_hash bc salt bytes)"

definition wf_accounts :: "bcrypt \<Rightarrow> auth_state \<Rightarrow> bool" where
  "wf_accounts bc d \<longleftrightarrow> distinct (map ac_id (as_users d)) \<and> distinct (map ac_username (as_users d))
     \<and> (\<forall>a\<in>set (as_users d). is_admin a \<longrightarrow> hashed bc (ac_password_hash a))"

definition owned :: "auth_state \<Rightarrow> bool" where
  "owned d \<longleftrightarrow> list_ex is_admin (as_users d)"

text \<open>Requests served one after the other: time, address and password in, status out.\<close>

fun logins :: "bcrypt \<Rightarrow> (time \<times> string \<times> text_points) list \<Rightarrow> auth_state \<Rightarrow> (time \<times> string \<times> int) list" where
  "logins bc [] d = []"
| "logins bc ((t, ip, p) # rs) d =
     (case login bc ip p [] (d\<lparr>as_clock := t\<rparr>) of
        (Inr status, _, d') \<Rightarrow> (t, ip, status) # logins bc rs d'
      | (Inl _, _, d') \<Rightarrow> logins bc rs d')"

definition failures :: "string \<Rightarrow> (time \<times> string \<times> int) list \<Rightarrow> time list" where
  "failures ip as = map fst (filter (\<lambda>(t, i, status). i = ip \<and> status = 401) as)"

definition in_window :: "time \<Rightarrow> time list \<Rightarrow> time list" where
  "in_window T ts = filter (\<lambda>t. T \<le> t \<and> t < T + LOGIN_WINDOW_SECONDS * 1000000) ts"

text \<open>Where a browser goes on such a reference: it stays if it is a path with one slash in front.\<close>

definition stays_on_origin :: "string \<Rightarrow> bool" where
  "stays_on_origin url \<longleftrightarrow> prefix ''/'' url \<and> \<not> prefix ''//'' url \<and> list_all safe_char url"

definition same_origin :: "http_request \<Rightarrow> bool" where
  "same_origin rq \<longleftrightarrow> header rq ''sec-fetch-site'' \<notin> {Some ''cross-site'', Some ''cross-origin''}
     \<and> (header_or_empty rq ''origin'' = [] \<or> origin_host (header_or_empty rq ''origin'') = header_or_empty rq ''host'')"

definition bearer_path :: "string \<Rightarrow> bool" where
  "bearer_path path \<longleftrightarrow> prefix ''/api/worker/'' path \<or> path \<in> set PROTOCOL_PATHS"

definition authentic :: "bcrypt \<Rightarrow> text_points \<Rightarrow> auth_state \<Rightarrow> bool" where
  "authentic bc p d = (case find is_admin (as_users d) of None \<Rightarrow> False | Some a \<Rightarrow> verify_password bc p (ac_password_hash a))"

section \<open>Examples\<close>

definition sample_bcrypt :: bcrypt where
  "sample_bcrypt = \<lparr>bc_hash = (\<lambda>salt b. map char_of b), bc_check = (\<lambda>b h. Some (map char_of b = h))\<rparr>"

definition owned_state :: auth_state where
  "owned_state = \<lparr>as_clock = 100, as_users = [\<lparr>ac_id = ''u'', ac_username = ''admin'', ac_password_hash = ''open sesame'',
     ac_created_at = 0, ac_updated_at = 0\<rparr>], as_system = [], as_attempts = []\<rparr>"

definition fresh_state :: auth_state where
  "fresh_state = \<lparr>as_clock = 0, as_users = [], as_system = [], as_attempts = []\<rparr>"

definition points :: "string \<Rightarrow> text_points" where
  "points s = map of_char s"

text \<open>Another replica that creates the administrator; five other failing logins from the same address.\<close>

definition other_replica :: "auth_state \<Rightarrow> auth_state" where
  "other_replica d = (if owned d then d else d\<lparr>as_users := as_users d @ as_users owned_state\<rparr>)"

definition wrong_login :: "auth_state \<Rightarrow> auth_state" where
  "wrong_login d = snd (snd (login sample_bcrypt ''ip'' (points ''guess'') [] d))"

definition five_wrong :: "auth_state \<Rightarrow> auth_state" where
  "five_wrong d = wrong_login (wrong_login (wrong_login (wrong_login (wrong_login d))))"

definition page_request :: http_request where
  "page_request = \<lparr>rq_http = True, rq_method = ''GET'', rq_path = ''/oauth/consent'', rq_query = ''txn=a+b&x=%2F'', rq_scheme = ''https'',
     rq_headers = [(''Host'', ''forge'')], rq_session_user = None\<rparr>"

definition six_guesses :: "(time \<times> string \<times> text_points) list" where
  "six_guesses = map (\<lambda>t. (t, ''ip'', points ''guess'')) [1, 2, 3, 4, 5, 6] @ [(60000001, ''ip'', points ''guess'')]"

section \<open>Facts\<close>

subsection \<open>Accounts\<close>

lemma hash_password_hashed: "hash_password bc salt plain = Inr h \<Longrightarrow> hashed bc h"
  by (auto simp: hash_password_def hashed_def split: option.splits)

lemma insert_account_keeps: "hashed bc (ac_password_hash a) \<Longrightarrow> keeping (wf_accounts bc) (insert_account a) (\<lambda>_. True)"
  unfolding insert_account_def
  by (intro keeping_rules keeping_stmt TrueI) (auto simp: wf_accounts_def list_ex_iff)

lemma has_admin_keeps: "keeping P has_admin (\<lambda>_. True)"
  unfolding has_admin_def by (rule keeping_query) simp

lemma create_admin_keeps: "keeping (wf_accounts bc) (create_admin bc i salt p) (\<lambda>_. True)"
proof (cases "hash_password bc salt p")
  case (Inl e)
  then show ?thesis unfolding create_admin_def
    by (simp only: sum.case) (intro keeping_rules has_admin_keeps TrueI)
next
  case (Inr h)
  then show ?thesis unfolding create_admin_def
    by (simp only: sum.case) (intro keeping_rules has_admin_keeps insert_account_keeps TrueI, simp add: hash_password_hashed)
qed

lemma update_admin_keeps: "keeping (wf_accounts bc) (update_admin_password bc salt p) (\<lambda>_. True)"
proof (cases "hash_password bc salt p")
  case (Inl e)
  then show ?thesis unfolding update_admin_password_def
    by (simp only: sum.case) (intro keeping_rules has_admin_keeps TrueI)
next
  case (Inr h)
  have "wf_accounts bc (d\<lparr>as_users := update_where is_admin (\<lambda>a. a\<lparr>ac_password_hash := h, ac_updated_at := now\<rparr>) (as_users d)\<rparr>)" if "wf_accounts bc d" for d now
    using that hash_password_hashed [OF Inr] by (auto simp: wf_accounts_def set_update_where)
  with Inr show ?thesis unfolding update_admin_password_def
    by (simp only: sum.case) (intro keeping_rules has_admin_keeps keeping_stmt TrueI, simp)
qed

lemma ensure_admin_keeps: "keeping (wf_accounts bc) (ensure_admin bc i salt c) (\<lambda>_. True)"
  unfolding ensure_admin_def by (intro keeping_rules keeping_catch has_admin_keeps create_admin_keeps TrueI)

lemma reset_admin_keeps: "keeping (wf_accounts bc) (reset_admin_password bc i salt p) (\<lambda>_. True)"
  unfolding reset_admin_password_def by (intro keeping_rules has_admin_keeps create_admin_keeps update_admin_keeps TrueI)

lemma login_keeps: "keeping (wf_accounts bc) (login bc ip p) (\<lambda>_. True)"
  unfolding login_def authenticate_def
  by (intro keeping_rules keeping_poke TrueI) (simp_all add: wf_accounts_def set_attempts_def pop_attempts_def)

subsection \<open>Ownership\<close>

lemma has_admin_eq: "bind has_admin f es d = f (owned (next_state es d)) (List.tl es) (next_state es d)"
  by (simp add: has_admin_def bind_query owned_def)

lemma insert_owned: "keeping owned (insert_account a) (\<lambda>_. True)"
  unfolding insert_account_def by (intro keeping_rules keeping_stmt TrueI) (auto simp: owned_def)

lemma inserted_admin_owned:
  assumes "insert_account a es d = (Inr u, es', d')" and "is_admin a"
  shows "owned d'"
  using assms by (auto simp: insert_account_def bind_stmt owned_def ret_def throw_def split: if_splits)

lemma create_admin_owned:
  assumes "create_admin bc i salt p es d = (Inr u, es', d')"
  shows "owned d'"
proof -
  from assms obtain h where "hash_password bc salt p = Inr h"
    and b: "bind (insert_account \<lparr>ac_id = i, ac_username = ADMIN_USERNAME, ac_password_hash = h,
       ac_created_at = as_clock (next_state es d), ac_updated_at = as_clock (next_state es d)\<rparr>) (\<lambda>_. ret i) (List.tl es) (next_state es d) = (Inr u, es', d')"
    by (auto simp: create_admin_def has_admin_eq bind_peek throw_def split: if_splits sum.splits)
  from b show ?thesis
    by (elim bind_Inr) (auto simp: ret_def is_admin_def dest: inserted_admin_owned)
qed

lemma create_admin_keeps_owned: "keeping owned (create_admin bc i salt p) (\<lambda>_. True)"
  unfolding create_admin_def by (intro keeping_rules has_admin_keeps insert_owned TrueI)

lemma ensure_admin_keeps_owned: "keeping owned (ensure_admin bc i salt c) (\<lambda>_. True)"
  unfolding ensure_admin_def by (intro keeping_rules keeping_catch has_admin_keeps create_admin_keeps_owned TrueI)

lemma ensure_admin_Inr:
  assumes es: "interferes_as (\<lambda>d d'. owned d \<longrightarrow> owned d') es" and run: "ensure_admin bc i salt c es d = (Inr b, es', d')"
  shows "owned d'"
proof (cases "owned (next_state es d)")
  case True
  with run show ?thesis by (simp add: ensure_admin_def has_admin_eq ret_def)
next
  case False
  with run obtain plain where "catch (bind (create_admin bc i salt plain) (\<lambda>_. ret True))
      (\<lambda>e. bind has_admin (\<lambda>won. if won then ret False else throw e)) (List.tl es) (next_state es d) = (Inr b, es', d')"
    by (auto simp: ensure_admin_def has_admin_eq throw_def split: option.splits)
  then show ?thesis
  proof (cases rule: catch_Inr)
    case 1
    then show ?thesis by (elim bind_Inr) (auto simp: ret_def dest: create_admin_owned)
  next
    case (2 e es1 d1)
    then show ?thesis by (auto simp: has_admin_eq ret_def throw_def split: if_splits)
  qed
qed

subsection \<open>Login\<close>

lemma authenticate_alone: "authenticate bc p [] d = (Inr (authentic bc p d), [], d)"
  by (simp add: authenticate_def bind_query authentic_def next_state_def ret_def split: option.splits)

lemma login_alone:
  "login bc ip p [] d =
     (let recent = recent_failures (as_clock d) (attempts_of ip d)
      in if LOGIN_MAX_FAILURES \<le> length recent then (Inr 429, [], set_attempts ip recent d)
         else if \<not> authentic bc p d then (Inr 401, [], set_attempts ip (recent @ [as_clock d]) d)
         else (Inr 200, [], pop_attempts ip d))"
proof -
  have "bind (authenticate bc p) f [] d = f (authentic bc p d) [] d" for f :: "bool \<Rightarrow> int aio"
    by (simp add: bind_def authenticate_alone)
  then show ?thesis by (simp add: login_def bind_peek bind_poke ret_def Let_def)
qed

lemma map_of_other: "k \<noteq> i \<Longrightarrow> map_of (filter (\<lambda>p. fst p \<noteq> i) ps) k = map_of ps k"
  by (induction ps) auto

lemma attempts_set: "attempts_of ip (set_attempts i ts d) = (if ip = i then ts else attempts_of ip d)"
  by (simp add: attempts_of_def set_attempts_def map_of_other)

lemma attempts_pop: "ip \<noteq> i \<Longrightarrow> attempts_of ip (pop_attempts i d) = attempts_of ip d"
  by (simp add: attempts_of_def pop_attempts_def map_of_other)

lemma attempts_clock: "attempts_of ip (d\<lparr>as_clock := t\<rparr>) = attempts_of ip d"
  by (simp add: attempts_of_def)

lemma recent_recent: "t \<le> n \<Longrightarrow> recent_failures n (recent_failures t F) = recent_failures n F"
  by (auto simp: recent_failures_def intro!: filter_cong)

lemma recent_append: "recent_failures n (F @ G) = recent_failures n F @ recent_failures n G"
  by (simp add: recent_failures_def)

lemma window_of_recent: "T \<le> t \<Longrightarrow> t < T + LOGIN_WINDOW_SECONDS * 1000000 \<Longrightarrow> in_window T F = in_window T (recent_failures t F)"
  by (auto simp: recent_failures_def in_window_def intro!: filter_cong)

lemma window_step:
  assumes "\<forall>T. length (in_window T F) \<le> LOGIN_MAX_FAILURES" and "length (recent_failures t F) < LOGIN_MAX_FAILURES"
  shows "length (in_window T (F @ [t])) \<le> LOGIN_MAX_FAILURES"
proof (cases "T \<le> t \<and> t < T + LOGIN_WINDOW_SECONDS * 1000000")
  case True
  then have "length (in_window T F) \<le> length (recent_failures t F)"
    using window_of_recent [of T t F] by (simp add: in_window_def)
  with assms(2) True show ?thesis by (simp add: in_window_def)
next
  case False
  with assms(1) show ?thesis by (auto simp: in_window_def)
qed

lemma logins_bounded:
  assumes "sorted (map fst rs)" and "\<forall>r\<in>set rs. now \<le> fst r"
    and "\<forall>n\<ge>now. recent_failures n (attempts_of ip d) = recent_failures n F"
    and "\<forall>T. length (in_window T F) \<le> LOGIN_MAX_FAILURES"
    and "\<forall>x\<in>set (logins bc rs d). fst (snd x) = ip \<longrightarrow> snd (snd x) \<noteq> 200"
  shows "length (in_window T (F @ failures ip (logins bc rs d))) \<le> LOGIN_MAX_FAILURES"
  using assms
proof (induction rs arbitrary: now d F)
  case Nil
  then show ?case by (simp add: failures_def)
next
  case (Cons r rs)
  obtain t i p where r: "r = (t, i, p)" by (cases r)
  let ?d = "d\<lparr>as_clock := t\<rparr>" and ?recent = "recent_failures t (attempts_of i d)"
  from Cons.prems(1,2) r have rs: "sorted (map fst rs)" "\<forall>r\<in>set rs. t \<le> fst r" and t: "now \<le> t" by auto
  have later: "\<forall>n\<ge>t. recent_failures n (attempts_of ip d) = recent_failures n F" using Cons.prems(3) t by auto
  have same: "length (in_window T (F @ failures ip (logins bc rs d'))) \<le> LOGIN_MAX_FAILURES"
    if "\<forall>n\<ge>t. recent_failures n (attempts_of ip d') = recent_failures n F" "set (logins bc rs d') \<subseteq> set (logins bc (r # rs) d)" for d'
    using Cons.IH [OF rs that(1) Cons.prems(4)] that(2) Cons.prems(5) by blast
  show ?case
  proof (cases "LOGIN_MAX_FAILURES \<le> length ?recent")
    case True
    then have l: "logins bc (r # rs) d = (t, i, 429) # logins bc rs (set_attempts i ?recent ?d)"
      by (simp add: r login_alone Let_def attempts_clock)
    have "recent_failures n (attempts_of ip (set_attempts i ?recent ?d)) = recent_failures n F" if "t \<le> n" for n
      using Cons.prems(3) order.trans [OF t that] recent_recent [OF that, of "attempts_of i d"] by (auto simp: attempts_set attempts_clock)
    with same [of "set_attempts i ?recent ?d"] l show ?thesis by (auto simp: failures_def)
  next
    case few: False
    show ?thesis
    proof (cases "authentic bc p ?d")
      case True
      with few have l: "logins bc (r # rs) d = (t, i, 200) # logins bc rs (pop_attempts i ?d)"
        by (simp add: r login_alone Let_def attempts_clock)
      with Cons.prems(5) have "ip \<noteq> i" by auto
      with later same [of "pop_attempts i ?d"] l show ?thesis by (auto simp: failures_def attempts_pop attempts_clock)
    next
      case False
      with few have l: "logins bc (r # rs) d = (t, i, 401) # logins bc rs (set_attempts i (?recent @ [t]) ?d)"
        by (simp add: r login_alone Let_def attempts_clock)
      show ?thesis
      proof (cases "i = ip")
        case False
        with later same [of "set_attempts i (?recent @ [t]) ?d"] l show ?thesis by (auto simp: failures_def attempts_set attempts_clock)
      next
        case True
        have rec: "?recent = recent_failures t F" using later True by simp
        have w: "\<forall>T. length (in_window T (F @ [t])) \<le> LOGIN_MAX_FAILURES"
          using window_step [OF Cons.prems(4)] few rec by simp
        have a: "\<forall>n\<ge>t. recent_failures n (attempts_of ip (set_attempts i (?recent @ [t]) ?d)) = recent_failures n (F @ [t])"
          using True rec by (simp add: attempts_set recent_append recent_recent)
        have "\<forall>x\<in>set (logins bc rs (set_attempts i (?recent @ [t]) ?d)). fst (snd x) = ip \<longrightarrow> snd (snd x) \<noteq> 200"
          using Cons.prems(5) l by simp
        from Cons.IH [OF rs a w this] l True show ?thesis by (simp add: failures_def)
      qed
    qed
  qed
qed

subsection \<open>The way back\<close>

lemma after_scheme_of: "CHR '':'' \<notin> set s \<Longrightarrow> after_scheme (s @ ''://'' @ h) = Some h"
  by (induction s) auto

lemma mismatch_iff:
  assumes "rq_scheme rq \<in> {''http'', ''https''}"
  shows "origin_mismatch rq origin \<longleftrightarrow> origin_host origin \<noteq> header_or_empty rq ''host''"
proof -
  have "origin_host (''https://'' @ h) = h" "origin_host (''http://'' @ h) = h" for h
    using after_scheme_of [of "''https''" h] after_scheme_of [of "''http''" h] by (simp_all add: origin_host_def)
  with assms show ?thesis by (auto simp: origin_mismatch_def Let_def)
qed

lemma csrf_None_iff:
  assumes "rq_scheme rq \<in> {''http'', ''https''}"
  shows "csrf_check rq = None \<longleftrightarrow>
     rq_method rq \<notin> set UNSAFE_METHODS \<or> bearer_path (rq_path rq) \<or> rq_path rq \<in> set CSRF_EXEMPT_PATHS \<or> same_origin rq"
proof -
  have cases: "(if \<not> a then None else if b then None else if e then None else if k then Some x else if p \<noteq> [] \<and> q then Some y else None) = None
     \<longleftrightarrow> \<not> a \<or> b \<or> e \<or> \<not> k \<and> (p = [] \<or> \<not> q)" for a b e k q and p x y :: string
    by simp
  show ?thesis
    unfolding csrf_check_def same_origin_def bearer_path_def Let_def cases mismatch_iff [OF assms] not_not by (rule refl)
qed

lemma safe_char_simps: "safe_char c \<Longrightarrow> of_char c \<noteq> (9 :: nat) \<and> of_char c \<noteq> (10 :: nat) \<and> of_char c \<noteq> (13 :: nat) \<and> \<not> of_char c \<le> (32 :: nat)"
  by (auto simp: safe_char_def)

lemma clean_url_safe: "list_all safe_char s \<Longrightarrow> clean_url s = s"
proof -
  assume s: "list_all safe_char s"
  then have "dropWhile (\<lambda>c. of_char c \<le> (32 :: nat)) s = s" by (cases s) (auto simp: safe_char_def)
  with s show ?thesis by (auto simp: clean_url_def list_all_iff intro!: filter_True dest: safe_char_simps)
qed

lemma before_safe: "list_all safe_char s \<Longrightarrow> list_all safe_char (before c s)"
  by (auto simp: list_all_iff before_def dest: set_takeWhileD)

lemma after_safe: "list_all safe_char s \<Longrightarrow> list_all safe_char (after c s)"
  by (auto simp: list_all_iff after_def dest!: in_set_dropD set_dropWhileD)

lemma path_head:
  "prefix ''/'' (before CHR ''?'' (before CHR ''#'' s)) \<longleftrightarrow> prefix ''/'' s"
  "prefix ''//'' (before CHR ''?'' (before CHR ''#'' s)) \<longleftrightarrow> prefix ''//'' s"
proof -
  show "prefix ''/'' (before CHR ''?'' (before CHR ''#'' s)) \<longleftrightarrow> prefix ''/'' s"
    by (cases s) (auto simp: before_def)
  show "prefix ''//'' (before CHR ''?'' (before CHR ''#'' s)) \<longleftrightarrow> prefix ''//'' s"
    by (cases s; cases "List.tl s") (auto simp: before_def)
qed

lemma take2_prefix: "take 2 s = ''//'' \<longleftrightarrow> prefix ''//'' s"
  by (cases s; cases "List.tl s") auto

text \<open>What is left of a reference without scheme and authority.\<close>

lemma urlsplit_local:
  assumes "urlsplit ipv6 s = Some u" and "list_all safe_char s" and "su_scheme u = []" and "su_netloc u = []"
  shows "su_path u = before CHR ''?'' (before CHR ''#'' (if prefix ''//'' s then drop 2 s else s))
       \<and> su_query u = after CHR ''?'' (before CHR ''#'' (if prefix ''//'' s then drop 2 s else s))"
proof -
  let ?scheme = "CHR '':'' \<in> set s \<and> before CHR '':'' s \<noteq> [] \<and> is_alpha (hd s) \<and> list_all scheme_char (before CHR '':'' s)"
  have "\<not> ?scheme" using assms clean_url_safe [OF assms(2)] by (auto simp: urlsplit_def Let_def lower_def split: if_splits)
  moreover have "dropWhile P t = t" if "takeWhile P t = []" for P and t :: string
    using that by (cases t) (auto split: if_splits)
  ultimately show ?thesis
    using assms clean_url_safe [OF assms(2)]
    by (auto simp: urlsplit_def Let_def take2_prefix split: if_splits)
qed

lemma local_url_stays:
  assumes "prefix ''/'' path" and "\<not> prefix ''//'' path" and "list_all safe_char path" and "list_all safe_char asked"
  shows "stays_on_origin (local_url path asked)"
proof -
  define q where "q = (if asked \<noteq> [] then CHR ''?'' # asked else [])"
  have "safe_char CHR ''?''" by code_simp
  with assms(4) have q: "list_all safe_char q" by (simp add: q_def)
  have l: "local_url path asked = path @ q" using assms(2) by (simp add: local_url_def q_def)
  obtain r where r: "path = CHR ''/'' # r" using assms(1) by (auto simp: prefix_def)
  have "q = [] \<or> hd q = CHR ''?''" by (simp add: q_def)
  with r assms(2) have "\<not> prefix ''//'' (path @ q)" by (cases r; cases q) simp_all
  with l q r assms(3) show ?thesis by (simp add: stays_on_origin_def)
qed

lemma local_url_leaves: "prefix ''//'' path \<Longrightarrow> \<not> stays_on_origin (local_url path asked)"
  by (auto simp: stays_on_origin_def local_url_def prefix_def)

lemma root_stays: "stays_on_origin ''/''"
  by code_simp

text \<open>The exact references after which the page returned to is not on this origin.\<close>

lemma safe_next_stays:
  assumes "safe_next ipv6 s = Some r"
  shows "stays_on_origin r \<longleftrightarrow> \<not> (list_all safe_char s \<and> prefix ''////'' s)"
proof (cases "list_all safe_char s")
  case False
  with assms root_stays show ?thesis by (auto simp: safe_next_def)
next
  case safe: True
  with assms obtain u where u: "urlsplit ipv6 s = Some u" by (auto simp: safe_next_def split: option.splits)
  let ?t = "if prefix ''//'' s then drop 2 s else s"
  have ts: "list_all safe_char ?t" using safe by (auto simp: list_all_iff dest: in_set_dropD)
  have four: "prefix ''//'' ?t \<longleftrightarrow> prefix ''////'' s" "prefix ''////'' s \<Longrightarrow> prefix ''/'' ?t"
    by (auto simp: prefix_def)
  show ?thesis
  proof (cases "su_scheme u = [] \<and> su_netloc u = []")
    case True
    from urlsplit_local [OF u safe] True
    have path: "su_path u = before CHR ''?'' (before CHR ''#'' ?t)" and asked: "su_query u = after CHR ''?'' (before CHR ''#'' ?t)" by auto
    show ?thesis
    proof (cases "prefix ''/'' ?t")
      case True
      with \<open>su_scheme u = [] \<and> su_netloc u = []\<close> assms u safe path path_head(1) [of ?t]
      have r: "r = local_url (su_path u) (su_query u)" by (simp add: safe_next_def)
      show ?thesis
      proof (cases "prefix ''//'' ?t")
        case True
        with r path path_head(2) [of ?t] local_url_leaves [of "su_path u" "su_query u"] four(1) safe show ?thesis by simp
      next
        case False
        have "stays_on_origin r" unfolding r
          by (rule local_url_stays) (use path asked path_head [of ?t] True False before_safe after_safe ts in simp_all)
        with False four(1) show ?thesis by simp
      qed
    next
      case False
      with assms u safe path path_head(1) [of ?t] have "r = ''/''" by (simp add: safe_next_def)
      with four(2) False root_stays show ?thesis by auto
    qed
  next
    case False
    with assms u safe have r: "r = ''/''" by (auto simp: safe_next_def)
    have "\<not> prefix ''////'' s"
    proof
      assume "prefix ''////'' s"
      then obtain t where t: "s = ''////'' @ t" by (auto simp: prefix_def)
      then have "urlsplit ipv6 s = Some \<lparr>su_scheme = [], su_netloc = [], su_path = before CHR ''?'' (before CHR ''#'' (''//'' @ t)),
         su_query = after CHR ''?'' (before CHR ''#'' (''//'' @ t)), su_fragment = after CHR ''#'' (''//'' @ t)\<rparr>"
        using clean_url_safe [OF safe] by (simp add: urlsplit_def Let_def netloc_ok_def is_alpha_def)
      with u False show False by auto
    qed
    with r root_stays show ?thesis by simp
  qed
qed

lemma unquote_other: "c \<noteq> CHR ''%'' \<Longrightarrow> unquote_plus (c # t) = (if c = CHR ''+'' then CHR '' '' else c) # unquote_plus t"
  by (cases t; cases "List.tl t") auto

lemma hex_digit_value: "n < 16 \<Longrightarrow> is_hex (hex_digit n) \<and> hex_value (hex_digit n) = n"
proof -
  assume n: "n < 16"
  then have "of_char (char_of (48 + n) :: char) = 48 + n" "of_char (char_of (55 + n) :: char) = 55 + n" by simp_all
  with n show ?thesis by (auto simp: hex_digit_def is_hex_def hex_value_def is_digit_def Let_def)
qed

lemma unquote_quoted_char: "unquote_plus (quote_char c @ t) = c # unquote_plus t"
proof (cases "unreserved c \<or> c = CHR '' ''")
  case True
  then have "c \<noteq> CHR ''%''" "c \<noteq> CHR ''+''" by (auto simp: unreserved_def is_alpha_def is_digit_def)
  with True show ?thesis by (auto simp: quote_char_def unquote_other)
next
  case False
  have "(of_char c :: nat) \<in> range of_char" by simp
  then have "of_char c < (256 :: nat)" by (simp only: range_nat_of_char atLeastLessThan_iff)
  then have "(of_char c :: nat) div 16 < 16" by (intro less_mult_imp_div_less) simp
  with False hex_digit_value [of "of_char c div 16"] hex_digit_value [of "of_char c mod 16"] show ?thesis
    by (simp add: quote_char_def)
qed

lemma unquote_quote: "unquote_plus (quote_plus s) = s"
  by (induction s) (simp_all add: quote_plus_def unquote_quoted_char)

lemma before_split: "c \<notin> set s \<Longrightarrow> before c (s @ c # t) = s \<and> after c (s @ c # t) = t"
  by (induction s) (auto simp: before_def after_def)

lemma before_all: "c \<notin> set s \<Longrightarrow> before c s = s \<and> after c s = []"
  by (induction s) (auto simp: before_def after_def)

lemma safe_next_local:
  assumes "list_all safe_char (path @ q)" and "prefix ''/'' path" and "\<not> prefix ''//'' path"
    and "CHR ''?'' \<notin> set path" and "CHR ''#'' \<notin> set (path @ q)"
    and "q = (if asked \<noteq> [] then CHR ''?'' # asked else [])"
  shows "safe_next ipv6 (path @ q) = Some (path @ q)"
proof -
  obtain r where r: "path = CHR ''/'' # r" using assms(2) by (auto simp: prefix_def)
  have n: "\<not> prefix ''//'' (path @ q)" using assms(3,6) r by (cases r) auto
  have c: "clean_url (path @ q) = path @ q" by (rule clean_url_safe [OF assms(1)])
  have parts: "before CHR ''#'' (path @ q) = path @ q" "before CHR ''?'' (path @ q) = path" "after CHR ''?'' (path @ q) = asked"
    using assms(4-6) before_split [of "CHR ''?''" path asked] before_all [of "CHR ''#''" "path @ q"] before_all [of "CHR ''?''" path]
    by (simp_all split: if_splits)
  have a: "\<not> is_alpha (hd (path @ q))" using r by (simp add: is_alpha_def)
  have "\<exists>f. urlsplit ipv6 (path @ q) = Some \<lparr>su_scheme = [], su_netloc = [], su_path = path, su_query = asked, su_fragment = f\<rparr>"
    using n a by (simp add: urlsplit_def Let_def c take2_prefix netloc_ok_def parts)
  then show ?thesis using assms(1-3,6) by (auto simp: safe_next_def local_url_def)
qed

text \<open>
  A login reads the failures before it waits for the database and writes them back after: five failures
  recorded in between are forgotten, so parallel guesses count as one.
\<close>

lemma parallel_guesses_count_once:
  "length (attempts_of ''ip'' (five_wrong owned_state)) = 5
   \<and> fst (login sample_bcrypt ''ip'' (points ''guess'') [] (five_wrong owned_state)) = Inr 429
   \<and> fst (login sample_bcrypt ''ip'' (points ''guess'') [five_wrong] owned_state) = Inr 401
   \<and> attempts_of ''ip'' (snd (snd (login sample_bcrypt ''ip'' (points ''guess'') [five_wrong] owned_state))) = [100]"
  by code_simp

section \<open>Properties\<close>

text \<open>
  C36. The users table stays well formed: whatever the requests of other tasks and replicas do, as long as they
  keep it so too, creating, updating, ensuring and resetting the administrator and logging in keep ids and
  user names unique and keep the stored hash one of a password of eight characters or more that encodes to
  at most 72 bytes.
\<close>

theorem accounts_stay_well_formed:
  "keeping (wf_accounts bc) (create_admin bc user_id salt plain) (\<lambda>_. True)
   \<and> keeping (wf_accounts bc) (update_admin_password bc salt plain) (\<lambda>_. True)
   \<and> keeping (wf_accounts bc) (ensure_admin bc user_id salt configured) (\<lambda>_. True)
   \<and> keeping (wf_accounts bc) (reset_admin_password bc user_id salt plain) (\<lambda>_. True)
   \<and> keeping (wf_accounts bc) (login bc ip guess) (\<lambda>_. True)"
  by (intro conjI create_admin_keeps update_admin_keeps ensure_admin_keeps reset_admin_keeps login_keeps)

text \<open>
  An instance is owned before it serves: when the start-up step ends without an exception there is an
  administrator, even if other replicas start at the same time (an administrator is never deleted), and if
  there was one when it looked, its account is left as it was.
\<close>

lemma instance_is_owned:
  assumes "interferes_as (\<lambda>d d'. owned d \<longrightarrow> owned d') es" and "ensure_admin bc user_id salt configured es d = (Inr created, es', d')"
  shows "owned d' \<and> (owned (next_state es d) \<longrightarrow> \<not> created \<and> d' = next_state es d)"
  using ensure_admin_Inr [OF assms] assms(2) by (auto simp: ensure_admin_def has_admin_eq ret_def)

text \<open>
  C37. Password guessing is throttled when logins are served one after the other: unless a login of the address
  succeeds, at most five failed password checks of one address fall into any sixty seconds, whatever other
  addresses do.
\<close>

theorem login_failures_are_bounded:
  assumes "sorted (map fst requests)" and "as_attempts d = []"
    and "\<forall>x\<in>set (logins bc requests d). fst (snd x) = ip \<longrightarrow> snd (snd x) \<noteq> 200"
  shows "length (in_window T (failures ip (logins bc requests d))) \<le> LOGIN_MAX_FAILURES"
proof (cases requests)
  case Nil
  then show ?thesis by (simp add: failures_def in_window_def)
next
  case (Cons r rs)
  have now: "\<forall>x\<in>set requests. fst r \<le> fst x" using assms(1) Cons by auto
  have empty: "\<forall>n\<ge>fst r. recent_failures n (attempts_of ip d) = recent_failures n []" using assms(2) by (simp add: attempts_of_def)
  have none: "\<forall>T. length (in_window T []) \<le> LOGIN_MAX_FAILURES" by (simp add: in_window_def)
  from logins_bounded [OF assms(1) now empty none assms(3)] show ?thesis by simp
qed

text \<open>Six guesses in a moment and one a minute later; the sixth is not checked.\<close>

theorem login_failures_are_bounded_witness:
  "map (\<lambda>x. snd (snd x)) (logins sample_bcrypt six_guesses owned_state) = [401, 401, 401, 401, 401, 429, 401]
   \<and> length (in_window 1 (failures ''ip'' (logins sample_bcrypt six_guesses owned_state))) \<le> LOGIN_MAX_FAILURES"
proof -
  have a: "map (\<lambda>x. snd (snd x)) (logins sample_bcrypt six_guesses owned_state) = [401, 401, 401, 401, 401, 429, 401]" by code_simp
  have s: "sorted (map fst six_guesses)" "as_attempts owned_state = []" by code_simp+
  have n: "\<forall>x\<in>set (logins sample_bcrypt six_guesses owned_state). fst (snd x) = ''ip'' \<longrightarrow> snd (snd x) \<noteq> 200" by code_simp
  from login_failures_are_bounded [OF s n] a show ?thesis by blast
qed

text \<open>
  C38. The middleware admits exactly the requests it should: a request reaches the application if and only if
  its path is public or its session has a user, and, where it changes state, its path takes a bearer
  credential, or is the login, or the request is not marked cross-site and any origin it names is its host.
\<close>

theorem requests_are_admitted_exactly:
  assumes "rq_http rq" and "rq_scheme rq \<in> {''http'', ''https''}"
  shows "middleware rq = To_app \<longleftrightarrow>
     (is_public (rq_path rq) \<or> require_admin (rq_session_user rq))
     \<and> (rq_method rq \<notin> set UNSAFE_METHODS \<or> bearer_path (rq_path rq) \<or> rq_path rq \<in> set CSRF_EXEMPT_PATHS \<or> same_origin rq)"
proof -
  from assms(1) show ?thesis unfolding csrf_None_iff [OF assms(2), symmetric]
    by (auto simp: middleware_def require_admin_def Let_def split: option.splits if_splits)
qed

theorem requests_are_admitted_exactly_witness:
  "middleware page_request \<noteq> To_app \<and> middleware (page_request\<lparr>rq_session_user := Some ''admin''\<rparr>) = To_app
   \<and> middleware (page_request\<lparr>rq_session_user := Some ''admin'', rq_method := ''POST'', rq_headers := [(''Origin'', ''https://evil''), (''Host'', ''forge'')]\<rparr>) \<noteq> To_app"
proof -
  let ?r = "\<lambda>u m h. page_request\<lparr>rq_session_user := u, rq_method := m, rq_headers := h\<rparr>"
  have h: "rq_http (?r u m h)" "rq_scheme (?r u m h) \<in> {''http'', ''https''}" for u m h by (simp_all add: page_request_def)
  have exact: "middleware (?r u m h) = To_app \<longleftrightarrow> (is_public (rq_path (?r u m h)) \<or> require_admin (rq_session_user (?r u m h)))
     \<and> (rq_method (?r u m h) \<notin> set UNSAFE_METHODS \<or> bearer_path (rq_path (?r u m h))
       \<or> rq_path (?r u m h) \<in> set CSRF_EXEMPT_PATHS \<or> same_origin (?r u m h))" for u m h
    by (rule requests_are_admitted_exactly [OF h])
  have "\<not> (is_public (rq_path page_request) \<or> require_admin None)" by code_simp
  moreover have "require_admin (Some ''admin'') \<and> ''GET'' \<notin> set UNSAFE_METHODS" by code_simp
  moreover have "''POST'' \<in> set UNSAFE_METHODS \<and> \<not> bearer_path (rq_path page_request) \<and> rq_path page_request \<notin> set CSRF_EXEMPT_PATHS
     \<and> \<not> same_origin (?r (Some ''admin'') ''POST'' [(''Origin'', ''https://evil''), (''Host'', ''forge'')])" by code_simp
  ultimately show ?thesis
    using exact [where u = None and m = "''GET''" and h = "[(''Host'', ''forge'')]"] exact [where u = "Some ''admin''" and m = "''GET''" and h = "[(''Host'', ''forge'')]"]
      exact [where u = "Some ''admin''" and m = "''POST''" and h = "[(''Origin'', ''https://evil''), (''Host'', ''forge'')]"]
    by (simp add: page_request_def)
qed

text \<open>
  C39. The page a login returns to is on this origin (a path behind exactly one slash, without backslash, space
  or control character) for exactly the references that do not begin with four slashes: those parse to a path
  of two slashes, and the browser reads the rebuilt reference as the name of another host.
\<close>

theorem login_returns_locally_unless_four_slashes:
  assumes "safe_next ipv6 wanted = Some url"
  shows "stays_on_origin url \<longleftrightarrow> \<not> (list_all safe_char wanted \<and> prefix ''////'' wanted)"
  using assms by (rule safe_next_stays)

text \<open>
  C40. Login brings the browser back to the page it asked for: the reference the middleware puts into the
  redirect is read back by the login page as the very path and query of the request.
\<close>

theorem login_returns_to_the_page_asked:
  assumes "middleware rq = Login_redirect url" and "wanted = rq_path rq @ (if rq_query rq \<noteq> [] then CHR ''?'' # rq_query rq else [])"
    and "list_all safe_char wanted" and "prefix ''/'' (rq_path rq)" and "\<not> prefix ''//'' (rq_path rq)"
    and "CHR ''?'' \<notin> set (rq_path rq)" and "CHR ''#'' \<notin> set wanted"
  shows "\<exists>quoted. url = ''/login?next='' @ quoted \<and> login_page ipv6 quoted = Some wanted"
proof -
  have "url = ''/login?next='' @ quote_plus wanted"
    using assms(1,2) by (auto simp: middleware_def Let_def split: option.splits if_splits)
  moreover have "safe_next ipv6 wanted = Some wanted"
    unfolding assms(2) by (rule safe_next_local [OF assms(3) [unfolded assms(2)] assms(4,5,6) assms(7) [unfolded assms(2)] refl])
  ultimately show ?thesis by (simp add: login_page_def unquote_quote)
qed

theorem login_returns_to_the_page_asked_witness:
  "\<exists>quoted. middleware page_request = Login_redirect (''/login?next='' @ quoted)
     \<and> login_page (\<lambda>_. False) quoted = Some ''/oauth/consent?txn=a+b&x=%2F''"
proof -
  obtain url where url: "middleware page_request = Login_redirect url"
    by (rule that [of "''/login?next=%2Foauth%2Fconsent%3Ftxn%3Da%2Bb%26x%3D%252F''"]) code_simp
  have w: "''/oauth/consent?txn=a+b&x=%2F'' = rq_path page_request @ (if rq_query page_request \<noteq> [] then CHR ''?'' # rq_query page_request else [])"
    by code_simp
  have "list_all safe_char ''/oauth/consent?txn=a+b&x=%2F''" "prefix ''/'' (rq_path page_request)" "\<not> prefix ''//'' (rq_path page_request)"
    "CHR ''?'' \<notin> set (rq_path page_request)" "CHR ''#'' \<notin> set ''/oauth/consent?txn=a+b&x=%2F''" by code_simp+
  from login_returns_to_the_page_asked [OF url w this, of "\<lambda>_. False"] url show ?thesis by auto
qed

theorem login_returns_locally_unless_four_slashes_witness:
  "safe_next (\<lambda>_. False) ''////evil.example'' = Some ''////evil.example'' \<and> \<not> stays_on_origin ''////evil.example''
   \<and> safe_next (\<lambda>_. False) ''//evil.example/x'' = Some ''/'' \<and> stays_on_origin ''/''"
proof -
  have a: "safe_next (\<lambda>_. False) ''////evil.example'' = Some ''////evil.example''" by code_simp
  have b: "safe_next (\<lambda>_. False) ''//evil.example/x'' = Some ''/''" by code_simp
  have c: "list_all safe_char ''////evil.example'' \<and> prefix ''////'' ''////evil.example''" "\<not> prefix ''////'' ''//evil.example/x''" by code_simp+
  from login_returns_locally_unless_four_slashes [OF a] login_returns_locally_unless_four_slashes [OF b] a b c show ?thesis by blast
qed

end
