(* ===== verification/Spec2Isabelle.thy ===== *)
theory Spec2Isabelle
  imports Requests S3Store Authz Control Browse Database WebAuth
begin

text \<open>
  \<^bold>\<open>Transcode Forge: a verification development.\<close>

  \<^bold>\<open>The program.\<close> Transcode Forge re-encodes a media library. A scheduler (a web service over an SQL
  database) keeps jobs, workers, worker tokens, the media catalog, derivatives, skips, schedules and
  settings. Workers register, send heartbeats, claim one job at a time, run the transcode pipeline on
  the file, and report the outcome through a durable journal. An MCP endpoint with an embedded
  authorization server lets agents read the catalog and queue files under grants the administrator
  consents to. Paths below are relative to \<open>src/src/transcode_forge/\<close>.

  \<^bold>\<open>Scheduler side.\<close>
  \<^item> \<open>Prelude\<close>: tables with conditional writes, Python string helpers, and the interfaces
    \<open>keyed_table\<close> (a table under its primary key) and \<open>invariant_system\<close> (a transition system with an
    invariant).
  \<^item> \<open>Coroutine\<close>: request handlers as coroutines over a shared state with interference before every
    statement; the interface \<open>interleaving\<close> (a reachability relation) carries the rules that a handler
    stays inside a relation, and \<open>keeping\<close> the rules that it keeps an assertion.
  \<^item> \<open>Models\<close> (\<open>models/\<close>): the status enumerations and the rows of every table as records, and the
    derivative key.
  \<^item> \<open>JobRepo\<close> (\<open>repos/jobs.py\<close>): every function of the job repository. One SQL statement is one
    conditional write; the interface \<open>fenced_write\<close> states what a compare-and-set promises and is
    interpreted for the terminal report and the progress report.
  \<^item> \<open>WorkerRepo\<close> (\<open>repos/workers.py\<close>, \<open>repos/worker_tokens.py\<close>), \<open>MediaRepo\<close> (\<open>repos/media.py\<close>,
    \<open>repos/skipped.py\<close>, \<open>repos/derivatives.py\<close>, \<open>repos/exclusions.py\<close>), \<open>Schedules\<close>
    (\<open>repos/schedules.py\<close>, \<open>repos/system.py\<close>, \<open>repos/settings.py\<close>, \<open>repos/libraries.py\<close>).
  \<^item> \<open>Handlers\<close> (\<open>api/routes/worker_api.py\<close>, \<open>jobs.py\<close>, \<open>media.py\<close>, \<open>workers.py\<close>,
    \<open>worker_tokens.py\<close>, \<open>exclusions.py\<close>, \<open>main.py\<close>): each handler statement by statement as a
    coroutine. A statement or a transaction is atomic; between two of them an arbitrary change of
    the database by other requests may happen, taken from a list of interferences. PostgreSQL publishes
    the writes of a transaction at once; on SQLite's shared connection other tasks can run inside one, so
    the queueing transaction is also given statement by statement.
  \<^item> \<open>Scheduler\<close>: the atomic statements as an inductive step relation over the database and its
    history of claims and recorded outcomes; \<open>consistent\<close> and \<open>attempts_ok\<close> are invariants by
    interpretation of \<open>invariant_system\<close>, and every handler is shown to be a sequence of steps.
  \<^item> \<open>Requests\<close>: the properties of whole requests under every interleaving.
  \<^item> \<open>Scanner\<close> (\<open>scanner/scanner.py\<close>, \<open>scanner/s3_scanner.py\<close>, \<open>scanner/runner.py\<close>, \<open>repos/scans.py\<close>):
    library scans as coroutines over the catalog, the scan table and the disk.
  \<^item> \<open>Control\<close> (\<open>api/routes/settings.py\<close>, \<open>api/routes/libraries.py\<close>, \<open>api/routes/scan.py\<close>,
    \<open>scheduler_cron.py\<close>): tuning settings, libraries, scan triggers and scheduled scans.
  \<^item> \<open>Browse\<close> (\<open>repos/media.py\<close>, \<open>repos/skipped.py\<close>): the listings of the catalog with their filters and
    pages, and the statistics.
  \<^item> \<open>Database\<close> (\<open>db.py\<close>, \<open>migrations/\<close>): placeholders, the shared SQLite connection with its
    transactions, and the migration runner; the interface \<open>migration_body\<close> is what a dialect promises of
    one migration and is interpreted for SQLite and PostgreSQL.
  \<^item> \<open>WebAuth\<close> (\<open>repos/users.py\<close>, \<open>admin.py\<close>, \<open>auth.py\<close>, \<open>api/routes/auth.py\<close>, \<open>safe_next\<close> of
    \<open>web/routes.py\<close>): the administrator's account, login with its throttle, the middleware.

  \<^bold>\<open>Worker side.\<close>
  \<^item> \<open>FileStore\<close> (\<open>worker/storage/filesystem.py\<close>): the sidecar names, the lock file, the two-rename
    swap, the rollback and both crash recoveries, in a monad where every call that changes files may fail or
    be the point where the process dies, and reads succeed. The rules named \<open>wp_...\<close> are its verification conditions.
  \<^item> \<open>Ownership\<close> (\<open>worker/storage/ownership.py\<close>): the owned transaction with its heartbeat,
    cancellation and settled exit. The interface \<open>owned_work\<close> is what the transaction asks of the work
    done inside it; its client theorem is that the whole transaction is safe.
  \<^item> \<open>Probe\<close> (\<open>scanner/probe.py\<close>), \<open>Encoder\<close> (\<open>worker/encoder.py\<close>), \<open>Vmaf\<close>
    (\<open>worker/vmaf.py\<close>): probe parsing and stream inventory, stream plan and command builders, score
    pooling and the quality search.
  \<^item> \<open>Pipeline\<close> (\<open>worker/pipeline.py\<close>): \<open>run_pipeline\<close> with all its gates. The interface \<open>stage\<close>
    collects the commands that leave a situation of the transaction alone and is interpreted for the
    three situations; \<open>acceptable\<close> is the specification of an output that may replace an original;
    \<open>owned_work\<close> is interpreted on the pipeline's body.
  \<^item> \<open>Outbox\<close> (\<open>worker/outbox.py\<close>, \<open>worker/reliability.py\<close>, the delivery half of
    \<open>worker/http_agent.py\<close>): the report journal on disk, error classes and backoff, and one delivery
    pass; the interface \<open>report_queue\<close> is what a journal promises and is interpreted on it.
  \<^item> \<open>Hardware\<close> (\<open>worker/hardware.py\<close>): detection and choice of encoder backends.
  \<^item> \<open>Agent\<close> (\<open>worker/http_agent.py\<close>): signals, the heartbeat with its fence, registration, the wait
    for a foreign lock, and the processing and reporting of a job.
  \<^item> \<open>Scratch\<close> (\<open>worker/storage/scratch.py\<close>) and \<open>S3Store\<close> (\<open>worker/storage/s3.py\<close>, the S3 branches of
    \<open>worker/http_agent.py\<close>): the scratch directories and the jobs of a bucket. The interface \<open>workspace\<close> is
    what a client of the scratch space relies on and is interpreted on its operations.

  \<^bold>\<open>MCP side.\<close>
  \<^item> \<open>OAuth\<close> (\<open>repos/oauth.py\<close>): clients, grants, tokens and authorization transactions. \<open>later\<close> is
    what other requests may do to the store; \<open>interleaving\<close> is interpreted for it, and every function
    of the store is shown to follow it.
  \<^item> \<open>Gate\<close> (\<open>mcp/auth.py\<close>, \<open>mcp/registry.py\<close>): the request budget, the tool policy, token
    verification and the gate before the transport.
  \<^item> \<open>Url\<close> (the standard library's \<open>urlsplit\<close>) and \<open>Cimd\<close> (\<open>mcp/cimd.py\<close>): client metadata documents
    and their guarded fetch.
  \<^item> \<open>Authz\<close> (\<open>mcp/authz.py\<close>): the endpoints of the authorization server, with \<open>interleaving\<close> also
    interpreted for decisions that stand and for requests that grant nothing.

  \<^bold>\<open>What is shown.\<close> Scheduler: the terminal fence and its single winner, the claim order, the exactness
  of the sweeps, the consistency of the tables and the at-most-once recording of outcomes under every
  interleaving, the totality of the report answers, and the behaviour of registration, queueing,
  pausing, tokens, schedules and catalog updates. Worker: the stream plan accounts for every stream and
  the command carries exactly the plan; the quality search ends within five probes with the largest
  quality that meets its target; nonfinite scores never pass; no fault, crash, cancellation or tool
  answer loses the original; a success has passed every gate; recovery heals every ending; a foreign
  lock is respected. Reports: none is lost, a job's reports arrive in order, a report says what is on
  disk (a failed one up to two ways of failing after the acceptance), undelivered ones hold back new claims, a
  parked one with a report of its job behind it too, and are delivered once the scheduler answers; a worker cut
  off aborts before its job is given away; waiting for a lock ends. MCP: codes and refresh tokens are
  spent once, refresh tokens also by overlapping requests, and a replay ends the grant; tokens go only to the client, redirect URI and verifier of a
  consented request; a decision is taken once; tool calls need a live grant with the tool's scopes; the
  request budget holds over any minute; fetching a client document dials an address that was checked, and no
  private one. Scans and control: a scan deletes the row of no file that stays in place, or keeps one sidecar,
  while it runs (a swap that ends between two looks at a file escapes it); a scan not cancelled at the insert or
  the last update of its row concludes it, with at most the file it failed at unaccounted for; tuning requests are all or nothing and keep the floors
  coherent; a scheduled pass scans exactly what is due. Objects: a completed S3 job was registered and has
  its object, which is stored under the registered key for exactly the jobs without a downscale; what a
  fetch reserved is not released by the job; the report journal survives every cleanup. Database: the
  placeholder translation numbers the marks outside quotes in order; migrations resume after a crash anywhere. Browser access:
  accounts stay well formed; failed logins are bounded when they are served one after the other; the
  middleware passes exactly the requests of a session that are not cross-site changes; the page after
  login is the one asked for and, but for four leading slashes, on this origin. Where a property holds only for
  requests that do not overlap, or steps that are not cancelled, a lemma beside it runs the case that breaks it.

  \<^bold>\<open>Conventions and bounds.\<close> Time stamps are integers (microseconds), finite Python floats are
  rationals, nonfinite ones a datatype where the code can meet them. No definition uses fuel: loops
  recurse over data or have a measure. External programs (\<open>ffmpeg\<close>, \<open>ffprobe\<close>), the keyed hash of
  tokens, fresh identifiers and the clock are parameters; a command's answer may depend on the number
  of commands run before it. A loop that waits takes the list of what each round observes. An exhausted list of faults or interferences means none follow.

  \<^bold>\<open>Not modelled.\<close> Request parsing, dependency injection and response headers are the web framework's,
  and the MCP SDK's transport and request models are parameters. The Redis publication, metrics, logging,
  progress callbacks and the HTML pages have no effect on the state above. The remaining listing,
  statistics and health routes only read; the MCP tools and the scheduler's HTTP client marshal
  values into and out of the modelled operations. Process groups and their signals (\<open>worker/proc.py\<close>) are
  the operating system's: a command's timeout or kill is one of its answers. Configuration and preflight
  read the environment. The demonstration mode and the deployment, quality and benchmark scripts are not
  part of the system's operation. Strings are sequences of 8-bit characters. A rollback by another request
  between a statement and its commit on SQLite's shared connection is shown in \<open>Database\<close> and is not part
  of the interleavings of the handlers; nor are statements of other tasks inside a transaction there, except
  for the queueing transaction in \<open>Requests\<close>.
\<close>

end
